(* ===== verification/Prelude.thy ===== *)
theory Prelude
  imports Complex_Main "HOL-Library.AList" "HOL-Library.Sublist"
    "HOL-Library.Char_ord" "HOL-Library.List_Lexorder"
begin

text \<open>
  Shared vocabulary of the development.

  \<^item> JavaScript strings as \<^typ>\<open>string\<close>: a character stands for one code unit below 256,
    so \<open>length\<close> is the \<open>length\<close> of the source and \<open>byte_length\<close> is \<open>Buffer.byteLength(s, "utf8")\<close>.
  \<^item> The string operations the agent uses (\<open>trim\<close>, \<open>toLowerCase\<close>, \<open>startsWith\<close>, \<open>split\<close>, \<open>slice\<close>).
  \<^item> The insertion-ordered \<open>Map\<close> of JavaScript as an association list with
    \<^const>\<open>AList.update\<close>, and the stable \<open>Array.prototype.sort\<close> with a comparison function.
  \<^item> The interfaces several components share, as locales: a machine with an invariant,
    a key-value store, a lock.
\<close>

named_theorems js_defs \<open>definitions of the small string helpers\<close>
named_theorems inv_intros \<open>operations that keep a component's invariant\<close>

section \<open>Strings\<close>

definition char_code :: "char \<Rightarrow> nat" where
  "char_code c = of_char c"

text \<open>UTF-8 takes one byte below 128 and two bytes below 2048.\<close>

definition byte_length :: "string \<Rightarrow> nat" where
  "byte_length s = sum_list (map (\<lambda>c. if char_code c < 128 then 1 else 2) s)"

text \<open>White space of \<open>String.prototype.trim\<close> among the code units below 256.\<close>

definition is_space :: "char \<Rightarrow> bool" where
  "is_space c \<longleftrightarrow> char_code c \<in> {9, 10, 11, 12, 13, 32, 160}"

definition is_digit :: "char \<Rightarrow> bool" where
  "is_digit c \<longleftrightarrow> 48 \<le> char_code c \<and> char_code c \<le> 57"

definition digit_val :: "char \<Rightarrow> nat" where
  "digit_val c = char_code c - 48"

definition trim :: "string \<Rightarrow> string" where
  "trim s = rev (dropWhile is_space (rev (dropWhile is_space s)))"

text \<open>\<open>toLowerCase\<close> / \<open>toUpperCase\<close> on the ASCII letters; the other code units are left alone.\<close>

definition lower_char :: "char \<Rightarrow> char" where
  "lower_char c = (if 65 \<le> char_code c \<and> char_code c \<le> 90 then char_of (char_code c + 32) else c)"

definition upper_char :: "char \<Rightarrow> char" where
  "upper_char c = (if 97 \<le> char_code c \<and> char_code c \<le> 122 then char_of (char_code c - 32) else c)"

definition to_lower :: "string \<Rightarrow> string" where
  "to_lower s = map lower_char s"

definition to_upper :: "string \<Rightarrow> string" where
  "to_upper s = map upper_char s"

text \<open>\<open>s.split(c)\<close> for a one-character separator: never empty, \<open>"".split(",")\<close> is \<open>[""]\<close>.\<close>

fun split_on :: "char \<Rightarrow> string \<Rightarrow> string list" where
  "split_on d [] = [[]]"
| "split_on d (c # cs) =
     (if c = d then [] # split_on d cs
      else (case split_on d cs of [] \<Rightarrow> [[c]] | w # ws \<Rightarrow> (c # w) # ws))"

definition starts_with :: "string \<Rightarrow> string \<Rightarrow> bool" where
  "starts_with s p \<longleftrightarrow> take (length p) s = p"

definition ends_with :: "string \<Rightarrow> string \<Rightarrow> bool" where
  "ends_with s p \<longleftrightarrow> length p \<le> length s \<and> drop (length s - length p) s = p"

fun join_with :: "string \<Rightarrow> string list \<Rightarrow> string" where
  "join_with d [] = []"
| "join_with d [x] = x"
| "join_with d (x # y # ys) = x @ d @ join_with d (y # ys)"

lemmas [js_defs] = starts_with_def ends_with_def to_lower_def to_upper_def trim_def

lemma byte_length_Nil [simp]: "byte_length [] = 0"
  by (simp add: byte_length_def)

lemma byte_length_append [simp]: "byte_length (a @ b) = byte_length a + byte_length b"
  by (simp add: byte_length_def)

lemma length_le_byte_length: "length s \<le> byte_length s"
  by (induction s) (auto simp: byte_length_def)

lemma byte_length_le: "byte_length s \<le> 2 * length s"
  by (induction s) (auto simp: byte_length_def)

lemma split_on_not_Nil [simp]: "split_on d s \<noteq> []"
  by (induction s) (auto split: list.splits)

lemma join_with_head: "join_with d ((c # w) # ws) = c # join_with d (w # ws)"
  by (cases ws) simp_all

lemma join_with_Nil_head: "ws \<noteq> [] \<Longrightarrow> join_with d ([] # ws) = d @ join_with d ws"
  by (cases ws) simp_all

lemma join_split: "join_with [d] (split_on d s) = s"
  by (induction s) (auto simp: join_with_head join_with_Nil_head split: list.splits)

lemma split_on_no_sep: "d \<notin> set s \<Longrightarrow> split_on d s = [s]"
  by (induction s) auto

lemma split_on_parts_no_sep: "w \<in> set (split_on d s) \<Longrightarrow> d \<notin> set w"
  by (induction s arbitrary: w) (auto split: list.splits if_splits)

lemma split_on_append: "d \<notin> set w \<Longrightarrow> split_on d (w @ d # s) = w # split_on d s"
  by (induction w) auto

lemma split_join: "ws \<noteq> [] \<Longrightarrow> \<forall>w \<in> set ws. d \<notin> set w \<Longrightarrow> split_on d (join_with [d] ws) = ws"
proof (induction ws)
  case (Cons x ws)
  then show ?case by (cases ws) (simp_all add: split_on_no_sep split_on_append)
qed simp

lemma starts_with_prefix: "starts_with s p \<longleftrightarrow> prefix p s"
  by (metis append_eq_conv_conj append_take_drop_id prefix_def starts_with_def)

lemma starts_with_append [simp]: "starts_with (p @ s) p"
  by (simp add: starts_with_def)

section \<open>Stable sort with a comparison\<close>

text \<open>
  \<open>xs.sort(cmp)\<close> is stable, so it is insertion sort from the right; \<open>le x y\<close> stands for
  \<open>cmp(x, y) <= 0\<close>. The comparison is an argument because the source sorts with
  \<open>localeCompare\<close>, whose collation belongs to the host.
\<close>

fun insert_by :: "('a \<Rightarrow> 'a \<Rightarrow> bool) \<Rightarrow> 'a \<Rightarrow> 'a list \<Rightarrow> 'a list" where
  "insert_by le x [] = [x]"
| "insert_by le x (y # ys) = (if le x y then x # y # ys else y # insert_by le x ys)"

definition sort_by :: "('a \<Rightarrow> 'a \<Rightarrow> bool) \<Rightarrow> 'a list \<Rightarrow> 'a list" where
  "sort_by le xs = foldr (insert_by le) xs []"

lemma sort_by_simps [simp]:
  "sort_by le [] = []" "sort_by le (x # xs) = insert_by le x (sort_by le xs)"
  by (simp_all add: sort_by_def)

lemma set_insert_by [simp]: "set (insert_by le x xs) = insert x (set xs)"
  by (induction xs) auto

lemma length_insert_by [simp]: "length (insert_by le x xs) = Suc (length xs)"
  by (induction xs) auto

lemma distinct_insert_by: "distinct (insert_by le x xs) \<longleftrightarrow> x \<notin> set xs \<and> distinct xs"
  by (induction xs) auto

lemma set_sort_by [simp]: "set (sort_by le xs) = set xs"
  by (induction xs) auto

lemma length_sort_by [simp]: "length (sort_by le xs) = length xs"
  by (induction xs) auto

lemma distinct_sort_by [simp]: "distinct (sort_by le xs) = distinct xs"
  by (induction xs) (auto simp: distinct_insert_by)

lemma sort_by_eq_Nil [simp]: "sort_by le xs = [] \<longleftrightarrow> xs = []"
  by (metis length_0_conv length_sort_by)

section \<open>Insertion-ordered maps\<close>

text \<open>\<open>Map.set\<close> overwrites in place or appends; iteration is in insertion order.\<close>

abbreviation map_set :: "('k \<times> 'v) list \<Rightarrow> 'k \<Rightarrow> 'v \<Rightarrow> ('k \<times> 'v) list" where
  "map_set m k v \<equiv> AList.update k v m"

lemma map_of_map_set: "map_of (map_set m k v) = (map_of m)(k \<mapsto> v)"
  by (simp add: update_conv')

lemma keys_map_set: "fst ` set (map_set m k v) = insert k (fst ` set m)"
  by (simp add: dom_update)

lemma map_set_new: "k \<notin> fst ` set m \<Longrightarrow> map_set m k v = m @ [(k, v)]"
  by (induction m) auto

lemma distinct_map_set: "distinct (map fst m) \<Longrightarrow> distinct (map fst (map_set m k v))"
  by (rule distinct_update)

section \<open>Lists\<close>

lemma map_if_unchanged: "(\<And>x. x \<in> set xs \<Longrightarrow> \<not> P x) \<Longrightarrow> map (\<lambda>x. if P x then f x else x) xs = xs"
  by (induction xs) auto

lemma map_fst_filter_subset: "set (map f (filter P xs)) \<subseteq> set (map f xs)"
  by auto

lemma distinct_map_inj_on: "distinct (map f xs) \<Longrightarrow> x \<in> set xs \<Longrightarrow> y \<in> set xs \<Longrightarrow> f x = f y \<Longrightarrow> x = y"
  by (metis distinct_map inj_onD)

lemma sum_list_add_nat: "sum_list (map (\<lambda>x. f x + g x) xs) = sum_list (map f xs) + sum_list (map g xs :: nat list)"
  by (rule sum_list_addf)

lemma foldl_keeps: "I s \<Longrightarrow> (\<And>s x. I s \<Longrightarrow> I (f s x)) \<Longrightarrow> I (foldl f s xs)"
  by (induction xs arbitrary: s) auto

section \<open>Interfaces\<close>

text \<open>A component that keeps an invariant under every one of its operations.\<close>

locale inv_machine =
  fixes mstep :: "'s \<Rightarrow> 'e \<Rightarrow> 's" and minv :: "'s \<Rightarrow> bool"
  assumes minv_step: "minv s \<Longrightarrow> minv (mstep s e)"
begin

lemma run_inv: "minv s \<Longrightarrow> minv (foldl mstep s es)"
  by (induction es arbitrary: s) (auto intro: minv_step)

lemma run_rel:
  assumes refl: "\<And>s. minv s \<Longrightarrow> R s s"
    and trans: "\<And>s t u. R s t \<Longrightarrow> R t u \<Longrightarrow> R s u"
    and step: "\<And>s e. minv s \<Longrightarrow> R s (mstep s e)"
  shows "minv s \<Longrightarrow> R s (foldl mstep s es)"
proof (induction es arbitrary: s)
  case Nil
  then show ?case by (simp add: refl)
next
  case (Cons e es)
  have "R (mstep s e) (foldl mstep (mstep s e) es)"
    using Cons by (auto intro: minv_step)
  with step [OF Cons.prems] show ?case by (auto intro: trans)
qed

end

text \<open>The persistent key-value table other components keep their marks in.\<close>

locale kv_store =
  fixes kget :: "'s \<Rightarrow> 'k \<Rightarrow> 'v option" and kput :: "'s \<Rightarrow> 'k \<Rightarrow> 'v \<Rightarrow> 's"
  assumes kget_kput_same: "kget (kput s k v) k = Some v"
    and kget_kput_other: "k' \<noteq> k \<Longrightarrow> kget (kput s k v) k' = kget s k'"
begin

lemma kget_kput: "kget (kput s k v) k' = (if k' = k then Some v else kget s k')"
  by (simp add: kget_kput_same kget_kput_other)

lemma kget_kputs_other:
  "k' \<notin> fst ` set kvs \<Longrightarrow> kget (foldl (\<lambda>s (k, v). kput s k v) s kvs) k' = kget s k'"
  by (induction kvs arbitrary: s) (auto simp: kget_kput)

lemma kget_kputs:
  "kget (foldl (\<lambda>s (k, v). kput s k v) s kvs) k' =
     (case map_of (rev kvs) k' of Some v \<Rightarrow> Some v | None \<Rightarrow> kget s k')"
  by (induction kvs arbitrary: s) (auto simp: kget_kput map_add_def split: option.splits)

end

end
