(* ===== verification/Jsval.thy ===== *)
theory Jsval
  imports Prelude
begin

text \<open>
  Values of the language: numbers, strings read as numbers and numbers printed, dynamically
  typed values with their property lookup, truthiness and equality.

  A finite number is an exact rational: rounding to a double is not modelled, so the
  theories that compute with numbers stay on integers the source keeps below \<open>2^53\<close>.
  Objects are association lists with distinct keys, in enumeration order; functions, symbols and
  cyclic values do not occur in the data the agent handles and are left out.
\<close>

section \<open>Numbers\<close>

datatype jsnum = Fin rat | PosInf | NegInf | NaN

definition is_finite :: "jsnum \<Rightarrow> bool" where
  "is_finite n \<longleftrightarrow> (case n of Fin _ \<Rightarrow> True | _ \<Rightarrow> False)"

definition is_integer :: "jsnum \<Rightarrow> bool" where
  "is_integer n \<longleftrightarrow> (case n of Fin q \<Rightarrow> of_int \<lfloor>q\<rfloor> = q | _ \<Rightarrow> False)"

definition is_safe_integer :: "jsnum \<Rightarrow> bool" where
  "is_safe_integer n \<longleftrightarrow> (case n of Fin q \<Rightarrow> of_int \<lfloor>q\<rfloor> = q \<and> \<bar>\<lfloor>q\<rfloor>\<bar> \<le> 9007199254740991 | _ \<Rightarrow> False)"

text \<open>The comparisons; every comparison with \<open>NaN\<close> is false.\<close>

fun num_le :: "jsnum \<Rightarrow> jsnum \<Rightarrow> bool" where
  "num_le NaN _ = False"
| "num_le _ NaN = False"
| "num_le NegInf _ = True"
| "num_le _ PosInf = True"
| "num_le (Fin a) (Fin b) = (a \<le> b)"
| "num_le _ _ = False"

definition num_eq :: "jsnum \<Rightarrow> jsnum \<Rightarrow> bool" where
  "num_eq a b \<longleftrightarrow> a = b \<and> a \<noteq> NaN"

definition num_lt :: "jsnum \<Rightarrow> jsnum \<Rightarrow> bool" where
  "num_lt a b \<longleftrightarrow> num_le a b \<and> \<not> num_eq a b"

lemma num_le_Fin [simp]: "num_le (Fin a) (Fin b) = (a \<le> b)"
  and num_lt_Fin [simp]: "num_lt (Fin a) (Fin b) = (a < b)"
  by (auto simp: num_lt_def num_eq_def)

section \<open>Strings and numbers\<close>

definition digits_value :: "nat \<Rightarrow> string \<Rightarrow> nat" where
  "digits_value b s = foldl (\<lambda>n c. b * n + digit_val c) 0 s"

definition all_digits :: "string \<Rightarrow> bool" where
  "all_digits s \<longleftrightarrow> s \<noteq> [] \<and> list_all is_digit s"

definition hex_val :: "char \<Rightarrow> nat option" where
  "hex_val c = (let n = char_code c in
     if 48 \<le> n \<and> n \<le> 57 then Some (n - 48)
     else if 65 \<le> n \<and> n \<le> 70 then Some (n - 55)
     else if 97 \<le> n \<and> n \<le> 102 then Some (n - 87) else None)"

text \<open>Digits of a prefixed literal (\<open>0x\<close>, \<open>0o\<close>, \<open>0b\<close>): at least one, all below the radix.\<close>

fun radix_value :: "nat \<Rightarrow> nat \<Rightarrow> string \<Rightarrow> nat option" where
  "radix_value b n [] = Some n"
| "radix_value b n (c # cs) =
     (case hex_val c of Some d \<Rightarrow> if d < b then radix_value b (b * n + d) cs else None | None \<Rightarrow> None)"

definition pow10 :: "int \<Rightarrow> rat" where
  "pow10 e = (if 0 \<le> e then 10 ^ nat e else 1 / 10 ^ nat (- e))"

text \<open>An exponent part \<open>e[+-]ddd\<close> or nothing; \<open>None\<close> if the text is neither.\<close>

definition exponent_value :: "string \<Rightarrow> int option" where
  "exponent_value s =
     (case s of [] \<Rightarrow> Some 0
      | c # cs \<Rightarrow>
          if c \<noteq> CHR ''e'' \<and> c \<noteq> CHR ''E'' then None
          else (case cs of
                  [] \<Rightarrow> None
                | d # ds \<Rightarrow>
                    if d = CHR ''+'' then (if all_digits ds then Some (int (digits_value 10 ds)) else None)
                    else if d = CHR ''-'' then (if all_digits ds then Some (- int (digits_value 10 ds)) else None)
                    else if all_digits cs then Some (int (digits_value 10 cs)) else None))"

text \<open>\<open>StrUnsignedDecimalLiteral\<close> without \<open>Infinity\<close>.\<close>

definition decimal_value :: "string \<Rightarrow> rat option" where
  "decimal_value s =
     (let ip = takeWhile is_digit s; r = dropWhile is_digit s;
          (fp, r') = (case r of [] \<Rightarrow> ([], [])
                      | c # cs \<Rightarrow> if c = CHR ''.'' then (takeWhile is_digit cs, dropWhile is_digit cs) else ([], r))
      in if ip = [] \<and> fp = [] then None
         else (case exponent_value r' of None \<Rightarrow> None
               | Some e \<Rightarrow> Some ((of_nat (digits_value 10 ip) + of_nat (digits_value 10 fp) / 10 ^ length fp) * pow10 e)))"

text \<open>\<open>Number(s)\<close> for a string.\<close>

definition js_number :: "string \<Rightarrow> jsnum" where
  "js_number str =
     (let s = trim str;
          pre = to_lower (take 2 s);
          radix = (\<lambda>b. if length s = 2 then NaN
                       else case radix_value b 0 (drop 2 s) of Some n \<Rightarrow> Fin (of_nat n) | None \<Rightarrow> NaN);
          unsigned = (\<lambda>neg t. if t = ''Infinity'' then (if neg then NegInf else PosInf)
                       else case decimal_value t of Some q \<Rightarrow> Fin (if neg then - q else q) | None \<Rightarrow> NaN)
      in if s = [] then Fin 0
         else if pre = ''0x'' then radix 16 else if pre = ''0o'' then radix 8 else if pre = ''0b'' then radix 2
         else if hd s = CHR ''-'' then unsigned True (tl s)
         else if hd s = CHR ''+'' then unsigned False (tl s)
         else unsigned False s)"

text \<open>\<open>Number(v)\<close> of a missing value (\<open>null\<close>) or a string.\<close>

definition number_of_state :: "string option \<Rightarrow> jsnum" where
  "number_of_state v = (case v of None \<Rightarrow> Fin 0 | Some s \<Rightarrow> js_number s)"

definition digit_char :: "nat \<Rightarrow> char" where
  "digit_char d = char_of (48 + d)"

fun show_nat :: "nat \<Rightarrow> string" where
  "show_nat n = (if n < 10 then [digit_char n] else show_nat (n div 10) @ [digit_char (n mod 10)])"

declare show_nat.simps [simp del]

lemma char_code_digit_char: "d < 10 \<Longrightarrow> char_code (digit_char d) = 48 + d"
  by (simp add: char_code_def digit_char_def)

lemma digit_digit_char [simp]: "d < 10 \<Longrightarrow> is_digit (digit_char d)" "d < 10 \<Longrightarrow> digit_val (digit_char d) = d"
  by (auto simp: is_digit_def digit_val_def char_code_digit_char)

lemma digit_chars:
  "digit_char 0 = CHR ''0''" "digit_char (Suc 0) = CHR ''1''" "digit_char 2 = CHR ''2''" "digit_char 3 = CHR ''3''" "digit_char 4 = CHR ''4''"
  "digit_char 5 = CHR ''5''" "digit_char 6 = CHR ''6''" "digit_char 7 = CHR ''7''" "digit_char 8 = CHR ''8''" "digit_char 9 = CHR ''9''"
  by code_simp+

text \<open>The decimal text of a literal.\<close>

lemmas show_nat_eval = show_nat.simps digit_chars

lemma show_nat_digits: "list_all is_digit (show_nat n) \<and> show_nat n \<noteq> []"
proof (induction n rule: show_nat.induct)
  case (1 n)
  then show ?case by (subst (1 2) show_nat.simps) auto
qed

lemma digits_value_snoc: "digits_value b (s @ [c]) = b * digits_value b s + digit_val c"
  by (simp add: digits_value_def)

lemma digits_value_show_nat: "digits_value 10 (show_nat n) = n"
proof (induction n rule: show_nat.induct)
  case (1 n)
  show ?case
  proof (cases "n < 10")
    case True
    then show ?thesis by (subst show_nat.simps) (simp add: digits_value_def)
  next
    case False
    with 1 have "digits_value 10 (show_nat (n div 10)) = n div 10" by simp
    with False show ?thesis by (subst show_nat.simps) (simp add: digits_value_snoc)
  qed
qed

lemma digit_not_space: "is_digit c \<Longrightarrow> \<not> is_space c"
  by (auto simp: is_digit_def is_space_def)

lemma dropWhile_none: "\<forall>x \<in> set xs. \<not> P x \<Longrightarrow> dropWhile P xs = xs"
  by (cases xs) auto

lemma trim_no_space: "list_all (\<lambda>c. \<not> is_space c) s \<Longrightarrow> trim s = s"
  by (simp add: trim_def dropWhile_none list_all_iff)

lemma digits_props:
  assumes "list_all is_digit s" and "s \<noteq> []"
  shows "trim s = s" and "takeWhile is_digit s = s" and "dropWhile is_digit s = []"
    and "hd s \<noteq> CHR ''-''" and "hd s \<noteq> CHR ''+''" and "s \<noteq> ''Infinity''"
    and "to_lower (take 2 s) \<notin> {''0x'', ''0o'', ''0b''}"
proof -
  show "trim s = s"
    using assms(1) by (intro trim_no_space) (auto simp: list_all_iff digit_not_space)
  show "takeWhile is_digit s = s" "dropWhile is_digit s = []"
    using assms(1) by (auto simp: list_all_iff)
  from assms obtain c cs where s: "s = c # cs" by (cases s) auto
  with assms(1) show "hd s \<noteq> CHR ''-''" "hd s \<noteq> CHR ''+''" "s \<noteq> ''Infinity''"
    by (auto simp: is_digit_def char_code_def)
  have "lower_char d \<noteq> CHR ''x'' \<and> lower_char d \<noteq> CHR ''o'' \<and> lower_char d \<noteq> CHR ''b''" if "is_digit d" for d
    using that by (auto simp: is_digit_def lower_char_def char_code_def)
  with assms(1) s show "to_lower (take 2 s) \<notin> {''0x'', ''0o'', ''0b''}"
    by (cases cs) (auto simp: to_lower_def)
qed

text \<open>What \<open>String(n)\<close> prints, \<open>Number\<close> reads back.\<close>

lemma js_number_show_nat: "js_number (show_nat n) = Fin (of_nat n)"
proof -
  note d = digits_props [OF conjunct1 [OF show_nat_digits] conjunct2 [OF show_nat_digits], of n]
  have "decimal_value (show_nat n) = Some (of_nat n)"
    using show_nat_digits [of n]
    by (simp add: decimal_value_def d digits_value_show_nat exponent_value_def pow10_def digits_value_def [of _ "[]"])
  with d show_nat_digits [of n] show ?thesis by (simp add: js_number_def Let_def)
qed

section \<open>Values\<close>

datatype jsval =
    JUndef
  | JNull
  | JBool bool
  | JNum jsnum
  | JStr string
  | JArr "jsval list"
  | JObj "(string \<times> jsval) list"

fun truthy :: "jsval \<Rightarrow> bool" where
  "truthy JUndef = False"
| "truthy JNull = False"
| "truthy (JBool b) = b"
| "truthy (JNum n) = (n \<noteq> Fin 0 \<and> n \<noteq> NaN)"
| "truthy (JStr s) = (s \<noteq> [])"
| "truthy (JArr _) = True"
| "truthy (JObj _) = True"

fun is_object :: "jsval \<Rightarrow> bool" where
  "is_object (JObj _) = True"
| "is_object _ = False"

fun is_scalar :: "jsval \<Rightarrow> bool" where
  "is_scalar JNull = True"
| "is_scalar (JBool _) = True"
| "is_scalar (JNum _) = True"
| "is_scalar (JStr _) = True"
| "is_scalar _ = False"

text \<open>\<open>o?.k\<close> on plain data: the own property, \<open>undefined\<close> on anything else.\<close>

fun jprop :: "jsval \<Rightarrow> string \<Rightarrow> jsval" where
  "jprop (JObj kvs) k = (case map_of kvs k of Some v \<Rightarrow> v | None \<Rightarrow> JUndef)"
| "jprop _ k = JUndef"

text \<open>
  \<open>===\<close> where one side is a scalar (that is how the agent uses it): \<open>NaN\<close> differs from itself,
  and an object or array is never equal to a value it is not the same reference as.
\<close>

fun strict_eq :: "jsval \<Rightarrow> jsval \<Rightarrow> bool" where
  "strict_eq (JNum a) (JNum b) = num_eq a b"
| "strict_eq (JArr _) _ = False"
| "strict_eq (JObj _) _ = False"
| "strict_eq v w = (v = w)"

text \<open>\<open>Array.prototype.includes\<close> compares the same way, but finds \<open>NaN\<close>.\<close>

definition same_value_zero :: "jsval \<Rightarrow> jsval \<Rightarrow> bool" where
  "same_value_zero v w \<longleftrightarrow> strict_eq v w \<or> (v = JNum NaN \<and> w = JNum NaN)"

definition js_includes :: "jsval list \<Rightarrow> jsval \<Rightarrow> bool" where
  "js_includes xs v = list_ex (\<lambda>x. same_value_zero x v) xs"

lemma strict_eq_scalar: "is_scalar v \<Longrightarrow> strict_eq v w \<longleftrightarrow> v = w \<and> v \<noteq> JNum NaN"
  by (cases v; cases w) (auto simp: num_eq_def)

text \<open>Recursion under an array or an object goes down.\<close>

lemma size_elem: "v \<in> set vs \<Longrightarrow> size v < Suc (size_list size (vs :: jsval list))"
  using size_list_estimation' [of v vs "size v" size] by simp

lemma size_entry: "(k, v) \<in> set kvs \<Longrightarrow> size v < Suc (size_list (size_prod (\<lambda>x. 0) size) (kvs :: (string \<times> jsval) list))"
  using size_list_estimation' [of "(k, v)" kvs "size v" "size_prod (\<lambda>x. 0) size"] by simp

section \<open>Conversions\<close>

text \<open>\<open>String(v)\<close> and \<open>Number(v)\<close>; \<open>text_of\<close> prints what is not a string.\<close>

definition string_of :: "(jsval \<Rightarrow> string) \<Rightarrow> jsval \<Rightarrow> string" where
  "string_of text_of v = (case v of JStr s \<Rightarrow> s | _ \<Rightarrow> text_of v)"

definition nullish :: "jsval \<Rightarrow> bool" where
  "nullish v \<longleftrightarrow> v = JUndef \<or> v = JNull"

definition number_of_value :: "(jsval \<Rightarrow> string) \<Rightarrow> jsval \<Rightarrow> jsnum" where
  "number_of_value text_of v = (case v of
     JUndef \<Rightarrow> NaN | JNull \<Rightarrow> Fin 0 | JBool b \<Rightarrow> Fin (if b then 1 else 0) | JNum n \<Rightarrow> n | JStr s \<Rightarrow> js_number s
   | _ \<Rightarrow> js_number (text_of v))"

text \<open>\<open>String(v ?? "")\<close>\<close>

definition text_or_empty :: "(jsval \<Rightarrow> string) \<Rightarrow> jsval \<Rightarrow> string" where
  "text_or_empty text_of v = (if nullish v then [] else string_of text_of v)"

text \<open>\<open>s.replace(/[set]{min,}/g, " ")\<close>\<close>

function replace_runs :: "(char \<Rightarrow> bool) \<Rightarrow> nat \<Rightarrow> string \<Rightarrow> string" where
  "replace_runs p m [] = []"
| "replace_runs p m (c # cs) =
     (if p c then (let r = takeWhile p (c # cs) in (if length r \<ge> m then '' '' else r)) @ replace_runs p m (dropWhile p (c # cs))
      else c # replace_runs p m cs)"
  by pat_completeness auto
termination
  by (relation "measure (\<lambda>(p, m, s). length s)") (auto simp: less_Suc_eq_le length_dropWhile_le)

text \<open>\<open>process.platform\<close>\<close>

datatype platform = Windows | Macos | Linux

end
