(* ===== verification/Outbox.thy ===== *)
theory Outbox
  imports Prelude
begin

text \<open>
  The durable event queue, \<open>src/queue/sqlite-outbox.ts\<close>.

  The table \<open>outbox_events\<close> is the list \<open>ob_rows\<close> in insertion (\<open>id\<close>) order, \<open>AUTOINCREMENT\<close>
  is the counter \<open>ob_next_id\<close>, and \<open>agent_state\<close> is a map. An SQL statement is a filter or a
  row-wise update of the list. ISO time stamps have a fixed width, so the string comparisons of
  the source are comparisons of instants: a time is the integer number of milliseconds.
  \<open>JSON\<close>, SHA-256 and gzip are arguments (record \<open>codec\<close>), and so are the clock, the random
  numbers and the time-zone tables of the host.
\<close>

section \<open>Data\<close>

datatype outbox_status = PENDING | IN_FLIGHT | SENT | FAILED

datatype event_type = FACTS_SNAPSHOT | FACTS_DELTA | JOB_RESULT | LOG_BUNDLE | RCM_SESSION_META

record outbox_row =
  row_id :: nat
  row_type :: event_type
  created_at :: int
  payload_json :: string
  payload_hash :: string
  row_status :: outbox_status
  attempts :: nat
  next_attempt_at :: int
  locked_at :: "int option"
  lock_owner :: "string option"
  last_error :: "string option"
  sent_at :: "int option"

record outbox =
  ob_rows :: "outbox_row list"
  ob_next_id :: nat
  ob_state :: "string \<rightharpoonup> string \<times> int"
  ob_owner :: string
  ob_listeners :: "nat list"
  ob_calls :: "nat list"

record 'p codec =
  stringify :: "'p \<Rightarrow> string"
  parse_json :: "string \<Rightarrow> 'p option"
  sha256 :: "string \<Rightarrow> string"
  gzip64 :: "string \<Rightarrow> string option"
  gunzip64 :: "string \<Rightarrow> string option"

text \<open>The host's time zone: its offset at an instant, and the one it gives to a local time.\<close>

record tz =
  offset_at :: "int \<Rightarrow> int"
  offset_of_local :: "int \<Rightarrow> int"

datatype outbox_error = PayloadTooLarge

datatype 'p delivered = Parsed 'p | RawText string

section \<open>Helpers of the module\<close>

definition MAX_ATTEMPTS :: nat where "MAX_ATTEMPTS = 20"

definition COMPRESS_THRESHOLD_BYTES :: nat where "COMPRESS_THRESHOLD_BYTES = 50 * 1024"

definition MAX_PAYLOAD_BYTES :: nat where "MAX_PAYLOAD_BYTES = 2 * 1024 * 1024"

definition compute_backoff_seconds :: "nat \<Rightarrow> rat \<Rightarrow> int" where
  "compute_backoff_seconds attempt rnd = min 3600 (30 * 2 ^ (attempt - 1)) + \<lfloor>rnd * 10\<rfloor>"

text \<open>
  \<open>d.setSeconds(d.getSeconds() + secs)\<close> is arithmetic on the LOCAL time: it adds to the local
  time value and converts back with the offset the host gives to the resulting local time.
\<close>

definition add_seconds_iso :: "tz \<Rightarrow> int \<Rightarrow> int \<Rightarrow> int" where
  "add_seconds_iso z t secs =
     (let l = t + offset_at z t + secs * 1000 in l - offset_of_local z l)"

definition maybe_compress_payload :: "'p codec \<Rightarrow> string \<Rightarrow> string" where
  "maybe_compress_payload c json =
     (if byte_length json < COMPRESS_THRESHOLD_BYTES then json
      else (case gzip64 c json of Some b \<Rightarrow> ''gz:'' @ b | None \<Rightarrow> json))"

definition maybe_decompress_payload :: "'p codec \<Rightarrow> string \<Rightarrow> string" where
  "maybe_decompress_payload c v =
     (if \<not> starts_with v ''gz:'' then v
      else (case gunzip64 c (drop 3 v) of Some t \<Rightarrow> t | None \<Rightarrow> v))"

definition decode_payload :: "'p codec \<Rightarrow> string \<Rightarrow> 'p delivered" where
  "decode_payload c v =
     (let d = maybe_decompress_payload c v
      in case parse_json c d of Some p \<Rightarrow> Parsed p | None \<Rightarrow> RawText d)"

definition active :: "outbox_row \<Rightarrow> bool" where
  "active r \<longleftrightarrow> row_status r = PENDING \<or> row_status r = IN_FLIGHT"

definition ready :: "int \<Rightarrow> outbox_row \<Rightarrow> bool" where
  "ready now r \<longleftrightarrow> row_status r = PENDING \<and> attempts r < MAX_ATTEMPTS \<and> next_attempt_at r \<le> now"

definition unlock :: "outbox_row \<Rightarrow> outbox_row" where
  "unlock r = r\<lparr>locked_at := None, lock_owner := None\<rparr>"

text \<open>\<open>UPDATE ... WHERE P\<close>.\<close>

definition update_rows :: "(outbox_row \<Rightarrow> bool) \<Rightarrow> (outbox_row \<Rightarrow> outbox_row) \<Rightarrow> outbox \<Rightarrow> outbox" where
  "update_rows P f s = s\<lparr>ob_rows := map (\<lambda>r. if P r then f r else r) (ob_rows s)\<rparr>"

text \<open>Every listener is called, exceptions swallowed; the calls are logged.\<close>

definition notify_changed :: "outbox \<Rightarrow> outbox" where
  "notify_changed s = s\<lparr>ob_calls := ob_calls s @ ob_listeners s\<rparr>"

section \<open>Operations\<close>

definition enqueue :: "'p codec \<Rightarrow> outbox \<Rightarrow> int \<Rightarrow> event_type \<Rightarrow> 'p \<Rightarrow> outbox_error + (nat \<times> outbox)" where
  "enqueue c s now ty payload =
     (let raw = stringify c payload;
          h = sha256 c raw;
          text = maybe_compress_payload c raw
      in if byte_length text > MAX_PAYLOAD_BYTES then Inl PayloadTooLarge
         else case find (\<lambda>r. payload_hash r = h \<and> row_type r = ty \<and> active r) (ob_rows s) of
           Some r \<Rightarrow> Inr (row_id r, s)
         | None \<Rightarrow>
             Inr (ob_next_id s,
               notify_changed (s\<lparr>ob_rows := ob_rows s @
                   [\<lparr>row_id = ob_next_id s, row_type = ty, created_at = now, payload_json = text,
                     payload_hash = h, row_status = PENDING, attempts = 0, next_attempt_at = now,
                     locked_at = None, lock_owner = None, last_error = None, sent_at = None\<rparr>],
                 ob_next_id := Suc (ob_next_id s)\<rparr>)))"

definition lease_ready :: "'p codec \<Rightarrow> outbox \<Rightarrow> int \<Rightarrow> nat \<Rightarrow> (outbox_row \<times> 'p delivered) list \<times> outbox" where
  "lease_ready c s now limit =
     (if \<not> list_ex (ready now) (ob_rows s) then ([], s)
      else
        let ids = map row_id (take limit (sort_key row_id (filter (ready now) (ob_rows s))))
        in if ids = [] then ([], s)
           else
             let P = (\<lambda>r. row_id r \<in> set ids \<and> row_status r = PENDING \<and> lock_owner r = None)
             in if filter P (ob_rows s) = [] then ([], s)
                else
                  let s' = update_rows P (\<lambda>r. r\<lparr>row_status := IN_FLIGHT, locked_at := Some now,
                                              lock_owner := Some (ob_owner s)\<rparr>) s;
                      rs = sort_key row_id (filter (\<lambda>r. row_id r \<in> set ids \<and> row_status r = IN_FLIGHT
                             \<and> lock_owner r = Some (ob_owner s)) (ob_rows s'))
                  in (map (\<lambda>r. (r, decode_payload c (payload_json r))) rs, s'))"

definition mark_sent :: "outbox \<Rightarrow> int \<Rightarrow> nat \<Rightarrow> outbox" where
  "mark_sent s now i =
     (let P = (\<lambda>r. row_id r = i \<and> active r)
      in if filter P (ob_rows s) = [] then s
         else notify_changed (update_rows P
                (\<lambda>r. unlock (r\<lparr>row_status := SENT, sent_at := Some now, last_error := None\<rparr>)) s))"

definition mark_failed :: "tz \<Rightarrow> outbox \<Rightarrow> int \<Rightarrow> rat \<Rightarrow> nat \<Rightarrow> string \<Rightarrow> outbox" where
  "mark_failed z s now rnd i err =
     (case find (\<lambda>r. row_id r = i \<and> active r) (ob_rows s) of
        None \<Rightarrow> s
      | Some row \<Rightarrow>
          let n = attempts row + 1
          in if n \<ge> MAX_ATTEMPTS then
               notify_changed (update_rows (\<lambda>r. row_id r = i)
                 (\<lambda>r. unlock (r\<lparr>row_status := FAILED, attempts := n, last_error := Some (take 2000 err)\<rparr>)) s)
             else
               notify_changed (update_rows (\<lambda>r. row_id r = i)
                 (\<lambda>r. unlock (r\<lparr>row_status := PENDING, attempts := n,
                    next_attempt_at := add_seconds_iso z now (compute_backoff_seconds n rnd),
                    last_error := Some (take 2000 err)\<rparr>)) s))"

definition mark_rejected :: "outbox \<Rightarrow> nat \<Rightarrow> string \<Rightarrow> outbox" where
  "mark_rejected s i err =
     (let P = (\<lambda>r. row_id r = i \<and> active r)
      in if filter P (ob_rows s) = [] then s
         else notify_changed (update_rows P
                (\<lambda>r. unlock (r\<lparr>row_status := FAILED, last_error := Some (take 2000 err)\<rparr>)) s))"

text \<open>The loop of \<open>recoverStaleInflight\<close>: one clock reading and one random number per row.\<close>

fun recover_loop :: "tz \<Rightarrow> (nat \<Rightarrow> int) \<Rightarrow> (nat \<Rightarrow> rat) \<Rightarrow> nat \<Rightarrow> outbox_row list \<Rightarrow> outbox \<Rightarrow> outbox" where
  "recover_loop z clk rnd k [] s = s"
| "recover_loop z clk rnd k (row # rows) s =
     (let n = attempts row + 1
      in if n \<ge> MAX_ATTEMPTS then
           recover_loop z clk rnd (Suc k) rows (update_rows (\<lambda>r. row_id r = row_id row)
             (\<lambda>r. unlock (r\<lparr>row_status := FAILED, attempts := n,
                last_error := Some ''stale inflight exceeded max attempts''\<rparr>)) s)
         else
           recover_loop z clk rnd (Suc k) rows (update_rows (\<lambda>r. row_id r = row_id row)
             (\<lambda>r. unlock (r\<lparr>row_status := PENDING, attempts := n,
                next_attempt_at := add_seconds_iso z (clk k) (compute_backoff_seconds n (rnd k))\<rparr>)) s))"

definition stale :: "int \<Rightarrow> outbox_row \<Rightarrow> bool" where
  "stale cutoff r \<longleftrightarrow> row_status r = IN_FLIGHT
     \<and> (case locked_at r of None \<Rightarrow> False | Some t \<Rightarrow> t < cutoff) \<and> lock_owner r \<noteq> None"

definition recover_stale_inflight :: "tz \<Rightarrow> (nat \<Rightarrow> int) \<Rightarrow> (nat \<Rightarrow> rat) \<Rightarrow> outbox \<Rightarrow> int \<Rightarrow> outbox" where
  "recover_stale_inflight z clk rnd s ttl =
     (let cutoff = add_seconds_iso z (clk 0) (- ttl);
          rows = filter (stale cutoff) (ob_rows s);
          s' = recover_loop z clk rnd 1 rows s
      in if rows = [] then s' else notify_changed s')"

definition has_pending_of_type :: "outbox \<Rightarrow> event_type \<Rightarrow> bool" where
  "has_pending_of_type s ty = list_ex (\<lambda>r. row_type r = ty \<and> active r) (ob_rows s)"

definition expired :: "int \<Rightarrow> outbox_row \<Rightarrow> bool" where
  "expired cutoff r \<longleftrightarrow>
     (row_status r = SENT \<and> (case sent_at r of None \<Rightarrow> False | Some t \<Rightarrow> t < cutoff))
     \<or> (row_status r = FAILED \<and> created_at r < cutoff)"

definition cleanup :: "tz \<Rightarrow> outbox \<Rightarrow> int \<Rightarrow> int \<Rightarrow> outbox" where
  "cleanup z s now days =
     (let cutoff = add_seconds_iso z now (- (days * 86400))
      in s\<lparr>ob_rows := filter (\<lambda>r. \<not> expired cutoff r) (ob_rows s)\<rparr>)"

definition get_state :: "outbox \<Rightarrow> string \<Rightarrow> string option" where
  "get_state s k = map_option fst (ob_state s k)"

definition set_state :: "outbox \<Rightarrow> int \<Rightarrow> string \<Rightarrow> string \<Rightarrow> outbox" where
  "set_state s now k v = s\<lparr>ob_state := (ob_state s)(k \<mapsto> (v, now))\<rparr>"

definition on_changed :: "outbox \<Rightarrow> nat \<Rightarrow> outbox" where
  "on_changed s cb = s\<lparr>ob_listeners := List.insert cb (ob_listeners s)\<rparr>"

definition off_changed :: "outbox \<Rightarrow> nat \<Rightarrow> outbox" where
  "off_changed s cb = s\<lparr>ob_listeners := removeAll cb (ob_listeners s)\<rparr>"

definition get_next_ready_delay_ms :: "outbox \<Rightarrow> int \<Rightarrow> int option" where
  "get_next_ready_delay_ms s now =
     (case sort (map next_attempt_at (filter (\<lambda>r. row_status r = PENDING \<and> attempts r < MAX_ATTEMPTS) (ob_rows s))) of
        [] \<Rightarrow> None
      | t # _ \<Rightarrow> Some (max 0 (t - now)))"

text \<open>\<open>initialize()\<close>: the back-fill of an older table without hashes, then the recovery of stale rows.\<close>

definition initialize :: "'p codec \<Rightarrow> tz \<Rightarrow> (nat \<Rightarrow> int) \<Rightarrow> (nat \<Rightarrow> rat) \<Rightarrow> bool \<Rightarrow> outbox \<Rightarrow> outbox" where
  "initialize c z clk rnd has_payload_hash s =
     recover_stale_inflight z clk rnd
       (if has_payload_hash then s
        else update_rows (\<lambda>r. True)
               (\<lambda>r. r\<lparr>payload_hash := sha256 c (maybe_decompress_payload c (payload_json r))\<rparr>) s) 600"

section \<open>Opening the file\<close>

datatype db_error = SQLITE_NOTADB | SQLITE_CORRUPT | SQLITE_CORRUPT_INTEGRITY | OtherDbError string

definition is_corruption_error :: "db_error \<Rightarrow> bool" where
  "is_corruption_error e \<longleftrightarrow> e \<in> {SQLITE_NOTADB, SQLITE_CORRUPT, SQLITE_CORRUPT_INTEGRITY}"

text \<open>
  The file system is a map from paths to contents; \<open>can_rename\<close> and \<open>can_remove\<close> say which
  calls the operating system lets through. \<open>existsSync\<close>, then \<open>renameSync\<close>, and \<open>rmSync\<close> when
  the rename throws.
\<close>

definition quarantine_one :: "(string \<Rightarrow> bool) \<Rightarrow> (string \<Rightarrow> bool) \<Rightarrow> string \<Rightarrow> (string \<rightharpoonup> 'f) \<Rightarrow> string \<Rightarrow> (string \<rightharpoonup> 'f)" where
  "quarantine_one can_rename can_remove sfx fs src =
     (case fs src of
        None \<Rightarrow> fs
      | Some content \<Rightarrow>
          if can_rename src then fs(src := None, src @ sfx \<mapsto> content)
          else if can_remove src then fs(src := None)
          else fs)"

definition quarantine_targets :: "string \<Rightarrow> string list" where
  "quarantine_targets p = [p, p @ ''-wal'', p @ ''-shm'']"

definition quarantine_corrupt_db :: "(string \<Rightarrow> bool) \<Rightarrow> (string \<Rightarrow> bool) \<Rightarrow> string \<Rightarrow> (string \<rightharpoonup> 'f) \<Rightarrow> string \<Rightarrow> (string \<rightharpoonup> 'f)" where
  "quarantine_corrupt_db can_rename can_remove sfx fs p =
     foldl (quarantine_one can_rename can_remove sfx) fs (quarantine_targets p)"

text \<open>
  \<open>probe\<close> stands for opening the file at a path of the file system and running
  \<open>PRAGMA integrity_check\<close>: the error it throws, or the rows it returns.
\<close>

definition open_with_self_healing ::
  "((string \<rightharpoonup> 'f) \<Rightarrow> string \<Rightarrow> db_error + string option list) \<Rightarrow> (string \<Rightarrow> bool) \<Rightarrow> (string \<Rightarrow> bool)
     \<Rightarrow> string \<Rightarrow> (string \<rightharpoonup> 'f) \<Rightarrow> string \<Rightarrow> db_error + (string \<rightharpoonup> 'f)" where
  "open_with_self_healing probe can_rename can_remove sfx fs p =
     (let outcome = (case probe fs p of
                       Inl e \<Rightarrow> Some e
                     | Inr rows \<Rightarrow> if rows = [Some ''ok''] then None else Some SQLITE_CORRUPT_INTEGRITY)
      in case outcome of
           None \<Rightarrow> Inr fs
         | Some e \<Rightarrow>
             if \<not> is_corruption_error e then Inl e
             else Inr (quarantine_corrupt_db can_rename can_remove sfx fs p))"

section \<open>The invariant\<close>

text \<open>
  What the table keeps between operations: a row's lock agrees with its status, the attempts of a
  live row are below the limit, ids grow and are below the counter, and no two live rows
  carry the same event (hash and type).
\<close>

definition row_ok :: "outbox_row \<Rightarrow> bool" where
  "row_ok r \<longleftrightarrow>
     (case row_status r of
        PENDING \<Rightarrow> locked_at r = None \<and> lock_owner r = None \<and> attempts r < MAX_ATTEMPTS \<and> sent_at r = None
      | IN_FLIGHT \<Rightarrow> locked_at r \<noteq> None \<and> lock_owner r \<noteq> None \<and> attempts r < MAX_ATTEMPTS \<and> sent_at r = None
      | SENT \<Rightarrow> locked_at r = None \<and> lock_owner r = None \<and> attempts r < MAX_ATTEMPTS \<and> sent_at r \<noteq> None \<and> last_error r = None
      | FAILED \<Rightarrow> locked_at r = None \<and> lock_owner r = None \<and> attempts r \<le> MAX_ATTEMPTS \<and> sent_at r = None \<and> last_error r \<noteq> None)"

definition event_key :: "outbox_row \<Rightarrow> string \<times> event_type" where
  "event_key r = (payload_hash r, row_type r)"

definition outbox_inv :: "outbox \<Rightarrow> bool" where
  "outbox_inv s \<longleftrightarrow>
     sorted_wrt (<) (map row_id (ob_rows s))
     \<and> (\<forall>r \<in> set (ob_rows s). row_id r < ob_next_id s)
     \<and> (\<forall>r \<in> set (ob_rows s). row_ok r)
     \<and> distinct (map event_key (filter active (ob_rows s)))"

lemma outbox_invD:
  assumes "outbox_inv s"
  shows "sorted_wrt (<) (map row_id (ob_rows s))"
    and "r \<in> set (ob_rows s) \<Longrightarrow> row_id r < ob_next_id s"
    and "r \<in> set (ob_rows s) \<Longrightarrow> row_ok r"
    and "distinct (map event_key (filter active (ob_rows s)))"
    and "distinct (map row_id (ob_rows s))"
  using assms by (auto simp: outbox_inv_def strict_sorted_iff)

lemma row_id_unique:
  "outbox_inv s \<Longrightarrow> r \<in> set (ob_rows s) \<Longrightarrow> r' \<in> set (ob_rows s) \<Longrightarrow> row_id r = row_id r' \<Longrightarrow> r = r'"
  by (rule distinct_map_inj_on [OF outbox_invD(5)])

lemma unlock_sel [simp]:
  "row_id (unlock r) = row_id r" "row_type (unlock r) = row_type r" "created_at (unlock r) = created_at r"
  "payload_json (unlock r) = payload_json r" "payload_hash (unlock r) = payload_hash r"
  "row_status (unlock r) = row_status r" "attempts (unlock r) = attempts r"
  "next_attempt_at (unlock r) = next_attempt_at r" "locked_at (unlock r) = None"
  "lock_owner (unlock r) = None" "last_error (unlock r) = last_error r" "sent_at (unlock r) = sent_at r"
  by (simp_all add: unlock_def)

lemma rows_update_rows [simp]:
  "ob_rows (update_rows P f s) = map (\<lambda>r. if P r then f r else r) (ob_rows s)"
  "ob_next_id (update_rows P f s) = ob_next_id s" "ob_state (update_rows P f s) = ob_state s"
  "ob_owner (update_rows P f s) = ob_owner s" "ob_listeners (update_rows P f s) = ob_listeners s"
  "ob_calls (update_rows P f s) = ob_calls s"
  by (simp_all add: update_rows_def)

lemma notify_changed_sel [simp]:
  "ob_rows (notify_changed s) = ob_rows s" "ob_next_id (notify_changed s) = ob_next_id s"
  "ob_state (notify_changed s) = ob_state s" "ob_owner (notify_changed s) = ob_owner s"
  "ob_listeners (notify_changed s) = ob_listeners s"
  by (simp_all add: notify_changed_def)

lemma outbox_inv_notify [simp]: "outbox_inv (notify_changed s) = outbox_inv s"
  by (simp add: outbox_inv_def)

lemma distinct_active_map:
  assumes "\<And>r. r \<in> set rows \<Longrightarrow> event_key (u r) = event_key r"
    and "\<And>r. r \<in> set rows \<Longrightarrow> active (u r) \<Longrightarrow> active r"
    and "distinct (map event_key (filter active rows))"
  shows "distinct (map event_key (filter active (map u rows)))"
  using assms
proof (induction rows)
  case (Cons r rows)
  have IH: "distinct (map event_key (filter active (map u rows)))"
    using Cons by (auto split: if_splits)
  have sub: "event_key ` set (filter active (map u rows)) \<subseteq> event_key ` set (filter active rows)"
    using Cons.prems(1,2) by force
  show ?case
  proof (cases "active (u r)")
    case True
    with Cons.prems have "event_key (u r) \<notin> event_key ` set (filter active rows)"
      by simp
    with sub have "event_key (u r) \<notin> event_key ` set (filter active (map u rows))" by blast
    with True IH show ?thesis by simp
  next
    case False
    with IH show ?thesis by simp
  qed
qed simp

text \<open>
  What may become of a row: its event never changes, its attempts never go down, and a row that
  is \<open>SENT\<close> or \<open>FAILED\<close> stays as it is. Every updating statement touches live rows only.
\<close>

definition evolves :: "outbox_row \<Rightarrow> outbox_row \<Rightarrow> bool" where
  "evolves r r' \<longleftrightarrow> row_id r' = row_id r \<and> row_type r' = row_type r \<and> created_at r' = created_at r
     \<and> payload_json r' = payload_json r \<and> payload_hash r' = payload_hash r
     \<and> attempts r \<le> attempts r' \<and> (active r \<or> r' = r)"

lemma evolves_refl [simp]: "evolves r r"
  by (simp add: evolves_def)

lemma evolves_trans: "evolves r r' \<Longrightarrow> evolves r' r'' \<Longrightarrow> evolves r r''"
  by (auto simp: evolves_def)

lemma evolves_event_key: "evolves r r' \<Longrightarrow> event_key r' = event_key r"
  by (simp add: evolves_def event_key_def)

definition good_update :: "outbox \<Rightarrow> (outbox_row \<Rightarrow> bool) \<Rightarrow> (outbox_row \<Rightarrow> outbox_row) \<Rightarrow> bool" where
  "good_update s P f \<longleftrightarrow> (\<forall>r \<in> set (ob_rows s). P r \<longrightarrow>
     active r \<and> evolves r (f r) \<and> row_ok (f r))"

lemma outbox_inv_update_rows:
  assumes inv: "outbox_inv s" and good: "good_update s P f"
  shows "outbox_inv (update_rows P f s)"
proof -
  let ?u = "\<lambda>r. if P r then f r else r"
  have ids: "map row_id (map ?u (ob_rows s)) = map row_id (ob_rows s)"
    using good by (auto simp: good_update_def evolves_def)
  have "distinct (map event_key (filter active (map ?u (ob_rows s))))"
    using good outbox_invD(4) [OF inv] by (intro distinct_active_map) (auto simp: good_update_def evolves_event_key)
  moreover have "\<forall>r \<in> set (map ?u (ob_rows s)). row_ok r \<and> row_id r < ob_next_id s"
    using good outbox_invD(2,3) [OF inv] by (auto simp: good_update_def evolves_def)
  moreover have "sorted_wrt (<) (map row_id (map ?u (ob_rows s)))"
    unfolding ids by (rule outbox_invD(1) [OF inv])
  ultimately show ?thesis by (simp add: outbox_inv_def del: map_map)
qed

lemma active_row_ok_attempts: "row_ok r \<Longrightarrow> active r \<Longrightarrow> attempts r < MAX_ATTEMPTS \<and> sent_at r = None"
  by (cases "row_status r") (auto simp: row_ok_def active_def)

lemma find_SomeD: "find P xs = Some x \<Longrightarrow> x \<in> set xs \<and> P x"
  by (induction xs) (auto split: if_splits)

lemma find_snoc: "find P (xs @ [x]) = (case find P xs of Some y \<Rightarrow> Some y | None \<Rightarrow> if P x then Some x else None)"
  by (induction xs) auto

lemma find_NoneD: "find P xs = None \<Longrightarrow> x \<in> set xs \<Longrightarrow> \<not> P x"
  by (metis find_None_iff)

section \<open>History of the rows\<close>

text \<open>
  \<open>history s t\<close>: every row of \<open>t\<close> is new or a row of \<open>s\<close> evolved; ids are never reused.
  \<open>survives s t\<close>: no live row of \<open>s\<close> is lost.
\<close>

definition history :: "outbox \<Rightarrow> outbox \<Rightarrow> bool" where
  "history s t \<longleftrightarrow> ob_next_id s \<le> ob_next_id t
     \<and> (\<forall>r' \<in> set (ob_rows t). ob_next_id s \<le> row_id r' \<or> (\<exists>r \<in> set (ob_rows s). evolves r r'))"

definition survives :: "outbox \<Rightarrow> outbox \<Rightarrow> bool" where
  "survives s t \<longleftrightarrow> (\<forall>r \<in> set (ob_rows s). active r \<longrightarrow> (\<exists>r' \<in> set (ob_rows t). evolves r r'))"

lemma history_refl [simp]: "history s s" and survives_refl [simp]: "survives s s"
  by (auto simp: history_def survives_def intro: evolves_refl)

lemma history_trans:
  assumes st: "history s t" and tu: "history t u"
  shows "history s u"
  unfolding history_def
proof (intro conjI ballI)
  show "ob_next_id s \<le> ob_next_id u" using st tu by (simp add: history_def)
next
  fix r'' assume "r'' \<in> set (ob_rows u)"
  with tu consider "ob_next_id t \<le> row_id r''" | r' where "r' \<in> set (ob_rows t)" "evolves r' r''"
    unfolding history_def by blast
  then show "ob_next_id s \<le> row_id r'' \<or> (\<exists>r \<in> set (ob_rows s). evolves r r'')"
  proof cases
    case 1
    with st show ?thesis by (simp add: history_def)
  next
    case 2
    with st have "ob_next_id s \<le> row_id r' \<or> (\<exists>r \<in> set (ob_rows s). evolves r r')"
      by (simp add: history_def)
    with 2 show ?thesis by (auto simp: evolves_def intro: evolves_trans) 
  qed
qed

lemma history_notify [simp]: "history s (notify_changed t) = history s t"
  and survives_notify [simp]: "survives s (notify_changed t) = survives s t"
  by (simp_all add: history_def survives_def)

lemma good_update_evolves: "good_update s P f \<Longrightarrow> r \<in> set (ob_rows s) \<Longrightarrow> evolves r (if P r then f r else r)"
  by (auto simp: good_update_def)

lemma set_update_rows: "set (ob_rows (update_rows P f s)) = (\<lambda>r. if P r then f r else r) ` set (ob_rows s)"
  by (simp only: rows_update_rows set_map)

lemma update_rows_keeps:
  assumes "good_update s P f" and "r \<in> set (ob_rows s)"
  shows "\<exists>r' \<in> set (ob_rows (update_rows P f s)). evolves r r'"
  unfolding set_update_rows by (rule bexI, rule good_update_evolves [OF assms], rule imageI, rule assms(2))

lemma update_rows_from:
  assumes "good_update s P f" and "r' \<in> set (ob_rows (update_rows P f s))"
  shows "\<exists>r \<in> set (ob_rows s). evolves r r'"
proof -
  from assms(2) obtain r where "r \<in> set (ob_rows s)" and "r' = (if P r then f r else r)"
    unfolding set_update_rows by blast
  then show ?thesis using good_update_evolves [OF assms(1), of r] by metis
qed

lemma good_update_history: "good_update s P f \<Longrightarrow> history s (update_rows P f s)"
  unfolding history_def using update_rows_from by auto

lemma good_update_survives: "good_update s P f \<Longrightarrow> survives s (update_rows P f s)"
  unfolding survives_def using update_rows_keeps by blast

text \<open>One operation of the queue: it keeps the invariant, the history and the live rows.\<close>

definition good_step :: "outbox \<Rightarrow> outbox \<Rightarrow> bool" where
  "good_step s t \<longleftrightarrow> outbox_inv t \<and> history s t \<and> survives s t"

lemma good_step_refl: "outbox_inv s \<Longrightarrow> good_step s s"
  by (simp add: good_step_def)

lemma good_step_notify [simp]: "good_step s (notify_changed t) = good_step s t"
  by (simp add: good_step_def)

lemma good_step_update: "outbox_inv s \<Longrightarrow> good_update s P f \<Longrightarrow> good_step s (update_rows P f s)"
  by (simp add: good_step_def outbox_inv_update_rows good_update_history good_update_survives)

lemma good_step_trans:
  assumes "good_step s t" and "good_step t u"
    and "\<And>r r'. r \<in> set (ob_rows s) \<Longrightarrow> active r \<Longrightarrow> r' \<in> set (ob_rows t) \<Longrightarrow> evolves r r' \<Longrightarrow>
           \<exists>r'' \<in> set (ob_rows u). evolves r' r''"
  shows "good_step s u"
proof -
  have "survives s u"
    unfolding survives_def
  proof (intro ballI impI)
    fix r assume r: "r \<in> set (ob_rows s)" "active r"
    with assms(1) obtain r' where "r' \<in> set (ob_rows t)" "evolves r r'"
      by (auto simp: good_step_def survives_def)
    with r assms(3) show "\<exists>r' \<in> set (ob_rows u). evolves r r'" by (blast intro: evolves_trans)
  qed
  with assms(1,2) show ?thesis by (auto simp: good_step_def intro: history_trans)
qed

section \<open>Each operation is a good step\<close>

lemma enqueue_good_step [inv_intros]:
  assumes inv: "outbox_inv s" and e: "enqueue c s now ty p = Inr (i, t)"
  shows "good_step s t"
proof (cases "find (\<lambda>r. payload_hash r = sha256 c (stringify c p) \<and> row_type r = ty \<and> active r) (ob_rows s)")
  case (Some r)
  with e inv show ?thesis
    by (auto simp: enqueue_def Let_def good_step_refl split: if_splits)
next
  case None
  then have new: "\<And>r. r \<in> set (ob_rows s) \<Longrightarrow> active r \<Longrightarrow> event_key r \<noteq> (sha256 c (stringify c p), ty)"
    by (auto simp: find_None_iff event_key_def)
  from e None obtain n where t: "t = notify_changed (s\<lparr>ob_rows := ob_rows s @ [n], ob_next_id := Suc (ob_next_id s)\<rparr>)"
    and n: "row_id n = ob_next_id s" "row_ok n" "active n" "event_key n = (sha256 c (stringify c p), ty)"
    by (auto simp: enqueue_def Let_def row_ok_def active_def event_key_def MAX_ATTEMPTS_def split: if_splits)
  have "outbox_inv t"
    using inv n new [symmetric] outbox_invD(2) [OF inv]
    by (auto simp: t outbox_inv_def sorted_wrt_append image_iff less_Suc_eq)
  moreover have "history s t" "survives s t"
    using n by (auto simp: t history_def survives_def intro!: evolves_refl bexI)
  ultimately show ?thesis by (simp add: good_step_def)
qed

definition lease_ids :: "outbox \<Rightarrow> int \<Rightarrow> nat \<Rightarrow> nat list" where
  "lease_ids s now limit = map row_id (take limit (sort_key row_id (filter (ready now) (ob_rows s))))"

definition leases :: "outbox \<Rightarrow> int \<Rightarrow> nat \<Rightarrow> outbox_row \<Rightarrow> bool" where
  "leases s now limit r \<longleftrightarrow> row_id r \<in> set (lease_ids s now limit) \<and> row_status r = PENDING \<and> lock_owner r = None"

definition in_flight :: "outbox \<Rightarrow> int \<Rightarrow> outbox_row \<Rightarrow> outbox_row" where
  "in_flight s now r = r\<lparr>row_status := IN_FLIGHT, locked_at := Some now, lock_owner := Some (ob_owner s)\<rparr>"

lemma lease_good_update:
  assumes "outbox_inv s"
  shows "good_update s (leases s now limit) (in_flight s now)"
  unfolding good_update_def
proof (intro ballI impI)
  fix r assume "r \<in> set (ob_rows s)" "leases s now limit r"
  with outbox_invD(3) [OF assms, of r]
  show "active r \<and> evolves r (in_flight s now r) \<and> row_ok (in_flight s now r)"
    by (auto simp: in_flight_def leases_def row_ok_def active_def evolves_def)
qed

lemma lease_ready_unfold:
  "lease_ready c s now limit =
     (if \<not> list_ex (ready now) (ob_rows s) \<or> lease_ids s now limit = []
         \<or> filter (leases s now limit) (ob_rows s) = [] then ([], s)
      else (map (\<lambda>r. (r, decode_payload c (payload_json r)))
              (sort_key row_id (filter (\<lambda>r. row_id r \<in> set (lease_ids s now limit) \<and> row_status r = IN_FLIGHT
                  \<and> lock_owner r = Some (ob_owner s)) (ob_rows (update_rows (leases s now limit) (in_flight s now) s)))),
            update_rows (leases s now limit) (in_flight s now) s))"
  by (simp add: lease_ready_def Let_def leases_def [abs_def] lease_ids_def in_flight_def [abs_def])

lemma lease_state:
  "snd (lease_ready c s now limit) = s \<or> snd (lease_ready c s now limit) = update_rows (leases s now limit) (in_flight s now) s"
  by (simp add: lease_ready_unfold)

lemma lease_good_step [inv_intros]:
  "outbox_inv s \<Longrightarrow> good_step s (snd (lease_ready c s now limit))"
  using lease_state [of c s now limit] good_step_refl [of s]
    good_step_update [OF _ lease_good_update, of s now limit]
  by auto

lemma mark_sent_good_step [inv_intros]:
  assumes "outbox_inv s"
  shows "good_step s (mark_sent s now i)"
proof -
  let ?P = "\<lambda>r. row_id r = i \<and> active r"
  let ?f = "\<lambda>r. unlock (r\<lparr>row_status := SENT, sent_at := Some now, last_error := None\<rparr>)"
  have "good_update s ?P ?f"
    using active_row_ok_attempts [OF outbox_invD(3) [OF assms]]
    by (auto simp: good_update_def evolves_def row_ok_def)
  then show ?thesis
    using assms by (auto simp: mark_sent_def Let_def good_step_refl intro: good_step_update)
qed

lemma mark_rejected_good_step [inv_intros]:
  assumes "outbox_inv s"
  shows "good_step s (mark_rejected s i err)"
proof -
  let ?P = "\<lambda>r. row_id r = i \<and> active r"
  let ?f = "\<lambda>r. unlock (r\<lparr>row_status := FAILED, last_error := Some (take 2000 err)\<rparr>)"
  have "good_update s ?P ?f"
    using active_row_ok_attempts [OF outbox_invD(3) [OF assms]]
    by (auto simp: good_update_def evolves_def row_ok_def less_imp_le)
  then show ?thesis
    using assms by (auto simp: mark_rejected_def Let_def good_step_refl intro: good_step_update)
qed

text \<open>An update by id touches exactly the row with that id.\<close>

lemma good_update_single:
  assumes inv: "outbox_inv s" and row: "row \<in> set (ob_rows s)" "active row"
    and f: "evolves row (f row)" "row_ok (f row)"
  shows "good_update s (\<lambda>r. row_id r = row_id row) f"
  unfolding good_update_def using assms row_id_unique [OF inv _ row(1)] by blast

lemma give_up_good:
  assumes "row_ok row" "active row" and "n = attempts row + 1"
  shows "evolves row (unlock (row\<lparr>row_status := FAILED, attempts := n, last_error := Some err\<rparr>))"
    and "row_ok (unlock (row\<lparr>row_status := FAILED, attempts := n, last_error := Some err\<rparr>))"
  using assms active_row_ok_attempts [OF assms(1,2)] by (simp_all add: evolves_def row_ok_def)

lemma retry_good:
  assumes "row_ok row" "active row" and "n = attempts row + 1" "n < MAX_ATTEMPTS"
  shows "evolves row (unlock (row\<lparr>row_status := PENDING, attempts := n, next_attempt_at := t\<rparr>))"
    and "row_ok (unlock (row\<lparr>row_status := PENDING, attempts := n, next_attempt_at := t\<rparr>))"
    and "evolves row (unlock (row\<lparr>row_status := PENDING, attempts := n, next_attempt_at := t, last_error := e\<rparr>))"
    and "row_ok (unlock (row\<lparr>row_status := PENDING, attempts := n, next_attempt_at := t, last_error := e\<rparr>))"
  using assms active_row_ok_attempts [OF assms(1,2)] by (simp_all add: evolves_def row_ok_def)

lemma mark_failed_good_step [inv_intros]:
  assumes inv: "outbox_inv s"
  shows "good_step s (mark_failed z s now rnd i err)"
proof (cases "find (\<lambda>r. row_id r = i \<and> active r) (ob_rows s)")
  case None
  then show ?thesis by (simp add: mark_failed_def good_step_refl inv)
next
  case (Some row)
  then have row: "row \<in> set (ob_rows s)" "active row" and i: "i = row_id row"
    by (auto dest: find_SomeD)
  note ok = outbox_invD(3) [OF inv row(1)]
  note give = give_up_good [OF ok row(2) refl] and retry = retry_good [OF ok row(2) refl]
  note step = good_step_update [OF inv good_update_single [OF inv row]]
  show ?thesis
    using Some step give retry unfolding mark_failed_def i by (simp add: Let_def)
qed

text \<open>The recovery loop works on a snapshot of rows that are all live and stored.\<close>

lemma recover_loop_good_step:
  assumes "outbox_inv s" and "distinct (map row_id rows)"
    and "\<And>r. r \<in> set rows \<Longrightarrow> r \<in> set (ob_rows s) \<and> active r"
  shows "good_step s (recover_loop z clk rnd k rows s)
    \<and> (\<forall>r \<in> set (ob_rows s). \<exists>r' \<in> set (ob_rows (recover_loop z clk rnd k rows s)). evolves r r')"
  using assms
proof (induction rows arbitrary: s k)
  case Nil
  then show ?case by (auto simp: good_step_refl intro!: evolves_refl bexI)
next
  case (Cons row rows)
  define f where "f = (if attempts row + 1 \<ge> MAX_ATTEMPTS
      then (\<lambda>r. unlock (r\<lparr>row_status := FAILED, attempts := attempts row + 1,
              last_error := Some ''stale inflight exceeded max attempts''\<rparr>))
      else (\<lambda>r. unlock (r\<lparr>row_status := PENDING, attempts := attempts row + 1,
              next_attempt_at := add_seconds_iso z (clk k) (compute_backoff_seconds (attempts row + 1) (rnd k))\<rparr>)))"
  define u where "u = update_rows (\<lambda>r. row_id r = row_id row) f s"
  have loop: "recover_loop z clk rnd k (row # rows) s = recover_loop z clk rnd (Suc k) rows u"
    by (simp add: u_def f_def Let_def)
  note inv = Cons.prems(1) and d = Cons.prems(2) and st = Cons.prems(3)
  have row: "row \<in> set (ob_rows s)" "active row" using st by auto
  have ok: "row_ok row" by (rule outbox_invD(3) [OF inv row(1)])
  have good: "good_update s (\<lambda>r. row_id r = row_id row) f"
    using give_up_good [OF ok row(2) refl] retry_good [OF ok row(2) refl]
    by (intro good_update_single [OF inv row]) (simp_all add: f_def)
  have su: "good_step s u" unfolding u_def by (rule good_step_update [OF inv good])
  have rest: "r \<in> set (ob_rows u) \<and> active r" if "r \<in> set rows" for r
  proof -
    from that d have "row_id r \<noteq> row_id row" by (metis distinct.simps(2) image_eqI list.set_map list.simps(9))
    with that st show ?thesis unfolding u_def set_update_rows by force
  qed
  have ku: "\<exists>r' \<in> set (ob_rows u). evolves r r'" if "r \<in> set (ob_rows s)" for r
    unfolding u_def by (rule update_rows_keeps [OF good that])
  have invu: "outbox_inv u" using su by (simp add: good_step_def)
  have d': "distinct (map row_id rows)" using d by simp
  note IH = Cons.IH [OF invu d' rest]
  have "good_step s (recover_loop z clk rnd k (row # rows) s)"
    unfolding loop using IH [of "Suc k"] by (intro good_step_trans [OF su]) auto
  moreover have "\<exists>r' \<in> set (ob_rows (recover_loop z clk rnd k (row # rows) s)). evolves r r'"
    if "r \<in> set (ob_rows s)" for r
    unfolding loop using IH [of "Suc k"] ku [OF that] by (meson evolves_trans)
  ultimately show ?case by blast
qed

lemma stale_active: "stale cutoff r \<Longrightarrow> active r"
  by (simp add: stale_def active_def)

lemma recover_good_step [inv_intros]:
  assumes inv: "outbox_inv s"
  shows "good_step s (recover_stale_inflight z clk rnd s ttl)"
proof -
  let ?rows = "filter (stale (add_seconds_iso z (clk 0) (- ttl))) (ob_rows s)"
  have d: "distinct (map row_id ?rows)"
    using outbox_invD(5) [OF inv] by (rule distinct_map_filter)
  have st: "r \<in> set (ob_rows s) \<and> active r" if "r \<in> set ?rows" for r
    using that by (auto intro: stale_active)
  have "good_step s (recover_loop z clk rnd 1 ?rows s)"
    by (rule conjunct1 [OF recover_loop_good_step [OF inv d st]])
  then show ?thesis by (simp add: recover_stale_inflight_def Let_def good_step_refl [OF inv])
qed

lemma expired_not_active: "expired cutoff r \<Longrightarrow> \<not> active r"
  by (auto simp: expired_def active_def)

lemma sorted_wrt_map_filter: "sorted_wrt R (map f xs) \<Longrightarrow> sorted_wrt R (map f (filter P xs))"
  by (induction xs) auto

lemma cleanup_good_step [inv_intros]:
  assumes inv: "outbox_inv s"
  shows "good_step s (cleanup z s now days)"
proof -
  let ?t = "cleanup z s now days"
  have "filter active (ob_rows ?t) = filter active (ob_rows s)"
    using expired_not_active by (auto simp: cleanup_def Let_def intro!: filter_cong)
  then have "outbox_inv ?t"
    using inv by (auto simp: outbox_inv_def cleanup_def Let_def intro: sorted_wrt_map_filter)
  moreover have "history s ?t" "survives s ?t"
    using expired_not_active
    by (auto simp: history_def survives_def cleanup_def Let_def intro!: evolves_refl bexI)
  ultimately show ?thesis by (simp add: good_step_def)
qed

section \<open>The queue as a machine\<close>

datatype 'p outbox_op =
    OpEnqueue int event_type 'p
  | OpLease int nat
  | OpSent int nat
  | OpFailed int rat nat string
  | OpRejected nat string
  | OpRecover "nat \<Rightarrow> int" "nat \<Rightarrow> rat" int
  | OpCleanup int int
  | OpSetState int string string
  | OpListen nat
  | OpUnlisten nat

fun outbox_step :: "'p codec \<Rightarrow> tz \<Rightarrow> outbox \<Rightarrow> 'p outbox_op \<Rightarrow> outbox" where
  "outbox_step c z s (OpEnqueue now ty p) = (case enqueue c s now ty p of Inl _ \<Rightarrow> s | Inr (_, t) \<Rightarrow> t)"
| "outbox_step c z s (OpLease now limit) = snd (lease_ready c s now limit)"
| "outbox_step c z s (OpSent now i) = mark_sent s now i"
| "outbox_step c z s (OpFailed now rnd i err) = mark_failed z s now rnd i err"
| "outbox_step c z s (OpRejected i err) = mark_rejected s i err"
| "outbox_step c z s (OpRecover clk rnd ttl) = recover_stale_inflight z clk rnd s ttl"
| "outbox_step c z s (OpCleanup now days) = cleanup z s now days"
| "outbox_step c z s (OpSetState now k v) = set_state s now k v"
| "outbox_step c z s (OpListen cb) = on_changed s cb"
| "outbox_step c z s (OpUnlisten cb) = off_changed s cb"

abbreviation outbox_run :: "'p codec \<Rightarrow> tz \<Rightarrow> outbox \<Rightarrow> 'p outbox_op list \<Rightarrow> outbox" where
  "outbox_run c z \<equiv> foldl (outbox_step c z)"

definition empty_outbox :: "string \<Rightarrow> outbox" where
  "empty_outbox owner = \<lparr>ob_rows = [], ob_next_id = 1, ob_state = Map.empty, ob_owner = owner,
                         ob_listeners = [], ob_calls = []\<rparr>"

lemma empty_outbox_inv [simp]: "outbox_inv (empty_outbox w)"
  by (simp add: outbox_inv_def empty_outbox_def)

lemma good_step_same_rows:
  "outbox_inv s \<Longrightarrow> ob_rows t = ob_rows s \<Longrightarrow> ob_next_id t = ob_next_id s \<Longrightarrow> good_step s t"
  by (auto simp: good_step_def outbox_inv_def history_def survives_def intro!: evolves_refl bexI)

lemma outbox_step_good:
  assumes inv: "outbox_inv s"
  shows "good_step s (outbox_step c z s e)"
proof (cases e)
  case (OpEnqueue now ty p)
  with inv show ?thesis
    by (auto simp: good_step_refl intro: enqueue_good_step split: sum.splits)
qed (use inv in \<open>auto simp: set_state_def on_changed_def off_changed_def
        intro: inv_intros good_step_same_rows\<close>)

interpretation outbox_machine: inv_machine "outbox_step c z" outbox_inv for c z
  by unfold_locales (use outbox_step_good in \<open>auto simp: good_step_def\<close>)

text \<open>The \<open>agent_state\<close> table is the key-value store the other components rely on.\<close>

interpretation outbox_kv: kv_store get_state "\<lambda>s k v. set_state s now k v" for now
  by unfold_locales (auto simp: get_state_def set_state_def)

lemma outbox_step_history: "outbox_inv s \<Longrightarrow> history s (outbox_step c z s e)"
  using outbox_step_good [of s c z e] by (simp add: good_step_def)

lemma outbox_run_history: "outbox_inv s \<Longrightarrow> history s (outbox_run c z s es)"
  by (rule outbox_machine.run_rel [where R = history, OF history_refl history_trans outbox_step_history])

section \<open>What an operation does to the queue\<close>

lemma sorted_rows_sort_key:
  "outbox_inv s \<Longrightarrow> sort_key row_id (filter P (ob_rows s)) = filter P (ob_rows s)"
  by (rule sort_key_id_if_sorted)
    (use outbox_invD(1) [of s] in \<open>auto simp: strict_sorted_iff intro: sorted_wrt_map_filter\<close>)

lemma lease_ids_alt: "outbox_inv s \<Longrightarrow> lease_ids s now limit = take limit (map row_id (filter (ready now) (ob_rows s)))"
  by (simp add: lease_ids_def sorted_rows_sort_key take_map)

lemma leases_iff:
  assumes inv: "outbox_inv s" and r: "r \<in> set (ob_rows s)"
  shows "leases s now limit r \<longleftrightarrow> row_id r \<in> set (lease_ids s now limit)"
proof -
  have "row_status r = PENDING \<and> lock_owner r = None" if "row_id r \<in> set (lease_ids s now limit)"
  proof -
    from that obtain r' where "r' \<in> set (ob_rows s)" "ready now r'" "row_id r' = row_id r"
      by (auto simp: lease_ids_alt [OF inv] take_map dest!: in_set_takeD)
    with row_id_unique [OF inv _ r] have "ready now r" by blast
    with outbox_invD(3) [OF inv r] show ?thesis by (auto simp: ready_def row_ok_def)
  qed
  then show ?thesis by (auto simp: leases_def)
qed

text \<open>The rows a lease hands out are the first \<open>limit\<close> ready rows.\<close>

lemma filter_take_filter:
  assumes "distinct (map f xs)"
  shows "filter (\<lambda>x. f x \<in> set (take n (map f (filter P xs)))) xs = take n (filter P xs)"
  using assms
proof (induction xs arbitrary: n)
  case (Cons x xs)
  then show ?case
  proof (cases n)
    case (Suc m)
    have "f x \<notin> set (take k (map f (filter P xs)))" for k
      using Cons.prems by (auto dest!: in_set_takeD)
    moreover have "filter (\<lambda>y. f y = f x \<or> f y \<in> set (take m (map f (filter P xs)))) xs
        = filter (\<lambda>y. f y \<in> set (take m (map f (filter P xs)))) xs"
      using Cons.prems by (intro filter_cong) (auto simp: image_iff)
    ultimately show ?thesis using Cons Suc by simp
  qed simp
qed simp

lemma lease_ready_spec:
  assumes inv: "outbox_inv s"
  shows "lease_ready c s now limit =
    (map (\<lambda>r. (in_flight s now r, decode_payload c (payload_json r))) (take limit (filter (ready now) (ob_rows s))),
     update_rows (leases s now limit) (in_flight s now) s)"
proof (cases "take limit (filter (ready now) (ob_rows s)) = []")
  case True
  then have "lease_ids s now limit = []" by (simp add: lease_ids_alt [OF inv] take_map)
  then have "leases s now limit = (\<lambda>r. False)" by (auto simp: leases_def)
  then show ?thesis
    using True by (simp add: lease_ready_unfold update_rows_def)
next
  case False
  let ?L = "\<lambda>r. row_id r \<in> set (lease_ids s now limit)"
  let ?t = "update_rows (leases s now limit) (in_flight s now) s"
  have some: "list_ex (ready now) (ob_rows s)" "lease_ids s now limit \<noteq> []"
    using False by (auto simp: list_ex_iff lease_ids_alt [OF inv] filter_empty_conv take_map)
  have sel: "filter ?L (ob_rows s) = take limit (filter (ready now) (ob_rows s))"
    unfolding lease_ids_alt [OF inv] by (rule filter_take_filter [OF outbox_invD(5) [OF inv]])
  have Lrows: "filter (leases s now limit) (ob_rows s) = filter ?L (ob_rows s)"
    by (rule filter_cong) (simp_all add: leases_iff [OF inv])
  have picked: "filter (\<lambda>r. ?L r \<and> row_status r = IN_FLIGHT \<and> lock_owner r = Some (ob_owner s)) (ob_rows ?t)
      = map (in_flight s now) (filter ?L (ob_rows s))"
  proof -
    have "filter (\<lambda>r. ?L r \<and> row_status r = IN_FLIGHT \<and> lock_owner r = Some (ob_owner s))
            (map (\<lambda>r. if leases s now limit r then in_flight s now r else r) rs)
          = map (in_flight s now) (filter ?L rs)" if "set rs \<subseteq> set (ob_rows s)" for rs
      using that by (induction rs) (auto simp: leases_iff [OF inv] in_flight_def)
    then show ?thesis by simp
  qed
  have "outbox_inv ?t" by (rule outbox_inv_update_rows [OF inv lease_good_update [OF inv]])
  from sorted_rows_sort_key [OF this, of "\<lambda>r. ?L r \<and> row_status r = IN_FLIGHT \<and> lock_owner r = Some (ob_owner s)"]
  have ordered: "sort_key row_id (map (in_flight s now) (filter ?L (ob_rows s))) = map (in_flight s now) (filter ?L (ob_rows s))"
    unfolding picked .
  show ?thesis
    using some False ordered
    by (simp add: lease_ready_unfold Lrows sel picked del: rows_update_rows)
      (simp add: in_flight_def)
qed

section \<open>Properties\<close>

text \<open>C1. Whatever sequence of operations the agent runs on a fresh outbox, with any clock, time zone
  and random numbers: ids grow and stay below the counter, every row's lock and time stamps agree with its
  status, a live row has fewer than 20 attempts, and no two live rows hold the same event.\<close>

theorem outbox_always_inv: "outbox_inv (foldl (outbox_step c z) (empty_outbox w) es)"
  by (rule outbox_machine.run_inv) simp

text \<open>The history of a row: between two points of a run, a row with the same id carries the same
  event, its attempts have not gone down, and if it was \<open>SENT\<close> or \<open>FAILED\<close> it has not changed at all
  (a finished event is never sent again, and an id is never reused).\<close>

theorem outbox_rows_history:
  assumes "r \<in> set (ob_rows (foldl (outbox_step c z) (empty_outbox w) es))"
    and "r' \<in> set (ob_rows (foldl (outbox_step c z) (empty_outbox w) (es @ fs)))"
    and "row_id r' = row_id r"
  shows "payload_json r' = payload_json r \<and> row_type r' = row_type r \<and> payload_hash r' = payload_hash r
    \<and> attempts r \<le> attempts r' \<and> (row_status r \<in> {SENT, FAILED} \<longrightarrow> r' = r)"
proof -
  let ?s = "foldl (outbox_step c z) (empty_outbox w) es"
  have inv: "outbox_inv ?s" by (rule outbox_machine.run_inv) simp
  have "history ?s (foldl (outbox_step c z) ?s fs)" by (rule outbox_run_history [OF inv])
  with assms(2,3) outbox_invD(2) [OF inv assms(1)] obtain q where "q \<in> set (ob_rows ?s)" "evolves q r'"
    by (auto simp: history_def dest!: bspec)
  moreover from this assms(3) have "q = r"
    by (intro row_id_unique [OF inv _ assms(1)]) (auto simp: evolves_def)
  ultimately show ?thesis by (cases "row_status r") (auto simp: evolves_def active_def)
qed

definition test_codec :: "string codec" where
  "test_codec = \<lparr>stringify = (\<lambda>s. s), parse_json = Some, sha256 = (\<lambda>s. s), gzip64 = Some, gunzip64 = Some\<rparr>"

definition utc :: tz where
  "utc = \<lparr>offset_at = (\<lambda>_. 0), offset_of_local = (\<lambda>_. 0)\<rparr>"

definition sample_row :: outbox_row where
  "sample_row = \<lparr>row_id = 1, row_type = JOB_RESULT, created_at = 5, payload_json = ''x'', payload_hash = ''x'',
     row_status = SENT, attempts = 0, next_attempt_at = 5, locked_at = None, lock_owner = None,
     last_error = None, sent_at = Some 7\<rparr>"

lemmas outbox_eval = enqueue_def lease_ready_def mark_sent_def mark_failed_def cleanup_def set_state_def
  update_rows_def notify_changed_def empty_outbox_def test_codec_def utc_def sample_row_def active_def ready_def
  unlock_def expired_def decode_payload_def maybe_compress_payload_def maybe_decompress_payload_def
  byte_length_def char_code_def COMPRESS_THRESHOLD_BYTES_def MAX_PAYLOAD_BYTES_def MAX_ATTEMPTS_def
  add_seconds_iso_def compute_backoff_seconds_def starts_with_def Let_def

lemma outbox_rows_history_witness:
  "row_status sample_row = SENT \<and>
   sample_row \<in> set (ob_rows (foldl (outbox_step test_codec utc) (empty_outbox ''me'')
     ([OpEnqueue 5 JOB_RESULT ''x'', OpSent 7 1] @ [OpFailed 9 0 1 ''late''])))"
proof -
  let ?es = "[OpEnqueue 5 JOB_RESULT ''x'', OpSent 7 1]" and ?fs = "[OpFailed 9 0 1 ''late'']"
  have 1: "sample_row \<in> set (ob_rows (foldl (outbox_step test_codec utc) (empty_outbox ''me'') ?es))"
    by (simp add: outbox_eval)
  have 2: "\<exists>r' \<in> set (ob_rows (foldl (outbox_step test_codec utc) (empty_outbox ''me'') (?es @ ?fs))). row_id r' = row_id sample_row"
    by (simp add: outbox_eval)
  from 2 obtain r' where r': "r' \<in> set (ob_rows (foldl (outbox_step test_codec utc) (empty_outbox ''me'') (?es @ ?fs)))"
    "row_id r' = row_id sample_row" by blast
  have "row_status sample_row = SENT" by (simp add: sample_row_def)
  with outbox_rows_history [OF 1 r'] r' show ?thesis by auto
qed

text \<open>C5. Nothing live is lost: whatever operation runs next on a reachable outbox, a \<open>PENDING\<close> or
  \<open>IN_FLIGHT\<close> row is still stored afterwards under the same id with the same payload.\<close>

theorem outbox_no_live_row_lost:
  assumes "r \<in> set (ob_rows (foldl (outbox_step c z) (empty_outbox w) es))"
    and "row_status r \<in> {PENDING, IN_FLIGHT}"
  shows "\<exists>r' \<in> set (ob_rows (outbox_step c z (foldl (outbox_step c z) (empty_outbox w) es) e)).
    row_id r' = row_id r \<and> payload_json r' = payload_json r \<and> row_type r' = row_type r"
proof -
  let ?s = "foldl (outbox_step c z) (empty_outbox w) es"
  have inv: "outbox_inv ?s" by (rule outbox_machine.run_inv) simp
  have "survives ?s (outbox_step c z ?s e)"
    using outbox_step_good [OF inv, of c z e] by (simp add: good_step_def)
  with assms show ?thesis by (fastforce simp: survives_def evolves_def active_def)
qed

lemma outbox_no_live_row_lost_witness:
  "\<exists>r. r \<in> set (ob_rows (foldl (outbox_step test_codec utc) (empty_outbox ''me'') [OpEnqueue 5 JOB_RESULT ''x'']))
     \<and> row_status r = PENDING
     \<and> (\<exists>r' \<in> set (ob_rows (outbox_step test_codec utc
          (foldl (outbox_step test_codec utc) (empty_outbox ''me'') [OpEnqueue 5 JOB_RESULT ''x'']) (OpCleanup 900 1))).
          row_id r' = row_id r)"
proof -
  let ?s = "foldl (outbox_step test_codec utc) (empty_outbox ''me'') [OpEnqueue 5 JOB_RESULT ''x'']"
  have "\<exists>r. r \<in> set (ob_rows ?s) \<and> row_status r = PENDING" by (simp add: outbox_eval)
  then obtain r where r: "r \<in> set (ob_rows ?s)" "row_status r = PENDING" by blast
  then have "row_status r \<in> {PENDING, IN_FLIGHT}" by simp
  from outbox_no_live_row_lost [OF r(1) this, of "OpCleanup 900 1"] r show ?thesis by blast
qed

text \<open>Enqueueing is idempotent while the event is live: repeating an \<open>enqueue\<close> that succeeded, at any later
  time, returns the same id and leaves the outbox as it is (the duplicate check of the source).\<close>

theorem enqueue_idempotent:
  assumes "outbox_inv s" and "enqueue c s now ty p = Inr (i, t)"
  shows "enqueue c t now' ty p = Inr (i, t)"
proof -
  let ?h = "sha256 c (stringify c p)"
  let ?P = "\<lambda>r. payload_hash r = ?h \<and> row_type r = ty \<and> active r"
  have size: "\<not> MAX_PAYLOAD_BYTES < byte_length (maybe_compress_payload c (stringify c p))"
    using assms(2) by (auto simp: enqueue_def Let_def split: if_splits)
  have "\<exists>r. find ?P (ob_rows t) = Some r \<and> row_id r = i"
  proof (cases "find ?P (ob_rows s)")
    case None
    then have "find ?P (ob_rows s @ [r]) = (if ?P r then Some r else None)" for r
      by (simp add: find_snoc)
    with None assms(2) size show ?thesis by (auto simp: enqueue_def Let_def active_def)
  next
    case (Some r)
    with assms(2) size show ?thesis by (auto simp: enqueue_def Let_def)
  qed
  with size show ?thesis by (auto simp: enqueue_def Let_def)
qed

lemma enqueue_idempotent_witness:
  "\<exists>t. enqueue test_codec (empty_outbox ''me'') 5 JOB_RESULT ''x'' = Inr (1, t)
     \<and> enqueue test_codec t 77 JOB_RESULT ''x'' = Inr (1, t)"
proof -
  obtain t where t: "enqueue test_codec (empty_outbox ''me'') 5 JOB_RESULT ''x'' = Inr (1, t)"
    by (simp add: outbox_eval)
  from t enqueue_idempotent [OF empty_outbox_inv t, of 77] show ?thesis by blast
qed

text \<open>What a lease does: on a consistent outbox \<open>leaseReady(limit)\<close> hands out exactly the first \<open>limit\<close> rows
  (in id order) that are due, each with its decoded payload, now \<open>IN_FLIGHT\<close> and locked by this process
  at this time; those rows and no others are changed in the table.\<close>

theorem lease_ready_first_due:
  assumes "outbox_inv s" and "lease_ready c s now limit = (ds, t)"
  shows "map (row_id \<circ> fst) ds = take limit (map row_id (filter (ready now) (ob_rows s)))
    \<and> (\<forall>(r, d) \<in> set ds. row_status r = IN_FLIGHT \<and> locked_at r = Some now \<and> lock_owner r = Some (ob_owner s)
           \<and> d = decode_payload c (payload_json r))
    \<and> ob_rows t = map (\<lambda>r. if row_id r \<in> row_id ` fst ` set ds then in_flight s now r else r) (ob_rows s)"
proof (intro conjI)
  let ?L = "take limit (filter (ready now) (ob_rows s))"
  have ds: "ds = map (\<lambda>r. (in_flight s now r, decode_payload c (payload_json r))) ?L"
    and t: "t = update_rows (leases s now limit) (in_flight s now) s"
    using assms(2) by (simp_all add: lease_ready_spec [OF assms(1)])
  show "map (row_id \<circ> fst) ds = take limit (map row_id (filter (ready now) (ob_rows s)))"
    by (simp add: ds in_flight_def take_map)
  show "\<forall>(r, d) \<in> set ds. row_status r = IN_FLIGHT \<and> locked_at r = Some now \<and> lock_owner r = Some (ob_owner s)
      \<and> d = decode_payload c (payload_json r)"
    by (auto simp: ds in_flight_def)
  have "row_id ` fst ` set ds = set (lease_ids s now limit)"
    by (simp add: ds image_image in_flight_def lease_ids_alt [OF assms(1)] take_map)
  then show "ob_rows t = map (\<lambda>r. if row_id r \<in> row_id ` fst ` set ds then in_flight s now r else r) (ob_rows s)"
    by (auto simp: t leases_iff [OF assms(1)])
qed

lemma lease_ready_first_due_witness:
  "\<exists>s ds t. outbox_inv s \<and> lease_ready test_codec s 9 1 = (ds, t) \<and> map (row_id \<circ> fst) ds = [1]"
proof -
  let ?s = "foldl (outbox_step test_codec utc) (empty_outbox ''me'') [OpEnqueue 5 JOB_RESULT ''x'', OpEnqueue 6 JOB_RESULT ''y'']"
  have inv: "outbox_inv ?s" by (rule outbox_machine.run_inv) simp
  obtain ds t where l: "lease_ready test_codec ?s 9 1 = (ds, t)" by (cases "lease_ready test_codec ?s 9 1") auto
  have "map row_id (filter (ready 9) (ob_rows ?s)) = [1, 2]" by (simp add: outbox_eval)
  with lease_ready_first_due [OF inv l] have "map (row_id \<circ> fst) ds = [1]" by simp
  with inv l show ?thesis by (intro exI conjI)
qed

text \<open>No double delivery: two leases in a row, at any times and with any limits, never hand out the same row.\<close>

theorem leases_disjoint:
  assumes inv: "outbox_inv s" and l1: "lease_ready c s now limit = (ds, t)" and l2: "lease_ready c t now' limit' = (ds', u)"
  shows "row_id ` fst ` set ds \<inter> row_id ` fst ` set ds' = {}"
proof -
  have t: "t = update_rows (leases s now limit) (in_flight s now) s"
    and ds: "row_id ` fst ` set ds = set (lease_ids s now limit)"
    using l1 by (auto simp: lease_ready_spec [OF inv] image_image in_flight_def lease_ids_alt [OF inv] take_map)
  have inv_t: "outbox_inv t" unfolding t by (rule outbox_inv_update_rows [OF inv lease_good_update [OF inv]])
  have "\<not> ready now' r" if "r \<in> set (ob_rows t)" "row_id r \<in> set (lease_ids s now limit)" for r
    using that by (auto simp: t set_update_rows leases_iff [OF inv] in_flight_def ready_def simp del: rows_update_rows)
  moreover have "set ds' = (\<lambda>r. (in_flight t now' r, decode_payload c (payload_json r))) ` set (take limit' (filter (ready now') (ob_rows t)))"
    using l2 by (auto simp: lease_ready_spec [OF inv_t])
  ultimately show ?thesis
    unfolding ds by (auto simp: in_flight_def dest!: in_set_takeD)
qed

lemma leases_disjoint_witness:
  "\<exists>s t u ds ds'. outbox_inv s \<and> lease_ready test_codec s 9 1 = (ds, t) \<and> lease_ready test_codec t 9 1 = (ds', u)
     \<and> row_id ` fst ` set ds \<inter> row_id ` fst ` set ds' = {}"
proof -
  let ?s = "foldl (outbox_step test_codec utc) (empty_outbox ''me'') [OpEnqueue 5 JOB_RESULT ''x'', OpEnqueue 6 JOB_RESULT ''y'']"
  have inv: "outbox_inv ?s" by (rule outbox_machine.run_inv) simp
  obtain ds t where l1: "lease_ready test_codec ?s 9 1 = (ds, t)" by (cases "lease_ready test_codec ?s 9 1") auto
  obtain ds' u where l2: "lease_ready test_codec t 9 1 = (ds', u)" by (cases "lease_ready test_codec t 9 1") auto
  from inv l1 l2 leases_disjoint [OF inv l1 l2] show ?thesis by blast
qed

text \<open>C6. Delivery of what was put in: if JSON and gzip are inverse to each other on this payload, an event that
  \<open>enqueue\<close> inserts is in the next lease that is large enough, at any later time, decoded to the same payload.\<close>

theorem enqueue_then_lease_delivers:
  assumes inv: "outbox_inv s" and e: "enqueue c s now ty p = Inr (ob_next_id s, t)"
    and l: "lease_ready c t now' limit = (ds, u)" and "now \<le> now'" and "length (ob_rows t) \<le> limit"
    and json: "parse_json c (stringify c p) = Some p" and no_gz: "\<not> starts_with (stringify c p) ''gz:''"
    and gz: "\<And>b. gzip64 c (stringify c p) = Some b \<Longrightarrow> gunzip64 c b = Some (stringify c p)"
  shows "\<exists>r. (r, Parsed p) \<in> set ds \<and> row_id r = ob_next_id s \<and> row_type r = ty"
proof -
  have inv_t: "outbox_inv t" using enqueue_good_step [OF inv e] by (simp add: good_step_def)
  let ?text = "maybe_compress_payload c (stringify c p)"
  have dec: "decode_payload c ?text = Parsed p"
    using json no_gz gz
    by (auto simp: decode_payload_def maybe_decompress_payload_def maybe_compress_payload_def Let_def starts_with_def
        split: option.splits)
  have "row_id r \<noteq> ob_next_id s" if "r \<in> set (ob_rows s)" for r
    using outbox_invD(2) [OF inv that] by simp
  with e have t: "t = notify_changed (s\<lparr>ob_rows := ob_rows s @
                   [\<lparr>row_id = ob_next_id s, row_type = ty, created_at = now, payload_json = ?text,
                     payload_hash = sha256 c (stringify c p), row_status = PENDING, attempts = 0, next_attempt_at = now,
                     locked_at = None, lock_owner = None, last_error = None, sent_at = None\<rparr>],
                 ob_next_id := Suc (ob_next_id s)\<rparr>)"
    by (auto simp: enqueue_def Let_def split: if_splits option.splits dest!: find_SomeD)
  define n where "n = last (ob_rows t)"
  have n: "n \<in> set (ob_rows t)" "row_id n = ob_next_id s" "row_type n = ty" "payload_json n = ?text"
      "row_status n = PENDING" "attempts n = 0" "next_attempt_at n = now"
    by (simp_all add: n_def t)
  then have "ready now' n" using \<open>now \<le> now'\<close> by (simp add: ready_def MAX_ATTEMPTS_def)
  moreover have "take limit (filter (ready now') (ob_rows t)) = filter (ready now') (ob_rows t)"
    by (rule take_all, rule order_trans [OF length_filter_le assms(5)])
  ultimately have "(in_flight t now' n, Parsed p) \<in> set ds"
    using l n(1,4) dec by (force simp: lease_ready_spec [OF inv_t])
  then show ?thesis using n(2,3) by (force simp: in_flight_def)
qed

lemma enqueue_then_lease_delivers_witness:
  "\<exists>r ds t u. enqueue test_codec (empty_outbox ''me'') 5 JOB_RESULT ''x'' = Inr (ob_next_id (empty_outbox ''me''), t)
     \<and> lease_ready test_codec t 9 25 = (ds, u) \<and> (r, Parsed ''x'') \<in> set ds"
proof -
  let ?s = "empty_outbox ''me''"
  obtain t where t: "enqueue test_codec ?s 5 JOB_RESULT ''x'' = Inr (ob_next_id ?s, t)" "length (ob_rows t) \<le> 25"
    by (simp add: outbox_eval)
  obtain ds u where l: "lease_ready test_codec t 9 25 = (ds, u)" by (cases "lease_ready test_codec t 9 25") auto
  have "\<exists>r. (r, Parsed ''x'') \<in> set ds \<and> row_id r = ob_next_id ?s \<and> row_type r = JOB_RESULT"
    by (rule enqueue_then_lease_delivers [OF empty_outbox_inv t(1) l _ t(2)]) (simp_all add: test_codec_def starts_with_def)
  with t(1) l show ?thesis by blast
qed

text \<open>One failed attempt on a live row, and none on a dead one.\<close>

lemma mark_failed_live:
  assumes inv: "outbox_inv s" and r: "r \<in> set (ob_rows s)" "active r"
  shows "\<exists>r' \<in> set (ob_rows (mark_failed z s now rnd (row_id r) err)). row_id r' = row_id r
    \<and> attempts r' = attempts r + 1 \<and> row_status r' = (if attempts r + 1 \<ge> MAX_ATTEMPTS then FAILED else PENDING)"
proof -
  obtain q where q: "find (\<lambda>x. row_id x = row_id r \<and> active x) (ob_rows s) = Some q"
    using r find_NoneD [of "\<lambda>x. row_id x = row_id r \<and> active x" "ob_rows s" r] by fastforce
  then have "q = r" using row_id_unique [OF inv _ r(1)] by (auto dest!: find_SomeD)
  define f where "f = (if attempts r + 1 \<ge> MAX_ATTEMPTS
      then (\<lambda>x. unlock (x\<lparr>row_status := FAILED, attempts := attempts r + 1, last_error := Some (take 2000 err)\<rparr>))
      else (\<lambda>x. unlock (x\<lparr>row_status := PENDING, attempts := attempts r + 1,
              next_attempt_at := add_seconds_iso z now (compute_backoff_seconds (attempts r + 1) rnd),
              last_error := Some (take 2000 err)\<rparr>)))"
  have "ob_rows (mark_failed z s now rnd (row_id r) err) = map (\<lambda>x. if row_id x = row_id r then f x else x) (ob_rows s)"
    using q \<open>q = r\<close> by (simp add: mark_failed_def Let_def f_def)
  then have "f r \<in> set (ob_rows (mark_failed z s now rnd (row_id r) err))"
    using r(1) by force
  then show ?thesis by (rule bexI [rotated]) (simp add: f_def)
qed

lemma mark_failed_dead:
  assumes inv: "outbox_inv s" and r: "r \<in> set (ob_rows s)" "\<not> active r"
  shows "mark_failed z s now rnd (row_id r) err = s"
proof -
  have "find (\<lambda>x. row_id x = row_id r \<and> active x) (ob_rows s) = None"
    using row_id_unique [OF inv _ r(1)] r(2) by (auto simp: find_None_iff)
  then show ?thesis by (simp add: mark_failed_def)
qed

text \<open>C36. Bounded retries: a live row with \<open>a\<close> attempts is \<open>FAILED\<close> exactly when \<open>a\<close> plus the number of reported
  failures reaches 20; until then it goes back to \<open>PENDING\<close>, whatever the errors, times and jitter.\<close>

theorem mark_failed_gives_up_at_20:
  assumes "outbox_inv s" and "r \<in> set (ob_rows s)" and "active r" and "fs \<noteq> []"
  shows "\<exists>r' \<in> set (ob_rows (foldl (\<lambda>s (now, rnd, err). mark_failed z s now rnd (row_id r) err) s fs)).
    row_id r' = row_id r \<and> attempts r' = min 20 (attempts r + length fs)
    \<and> row_status r' = (if attempts r + length fs \<ge> 20 then FAILED else PENDING)"
  using assms
proof (induction fs arbitrary: s r)
  case (Cons f fs)
  obtain now rnd err where f: "f = (now, rnd, err)" by (cases f)
  let ?t = "mark_failed z s now rnd (row_id r) err"
  have inv_t: "outbox_inv ?t"
    using mark_failed_good_step [OF Cons.prems(1)] by (simp add: good_step_def)
  obtain q where q: "q \<in> set (ob_rows ?t)" "row_id q = row_id r" "attempts q = attempts r + 1"
      "row_status q = (if attempts r + 1 \<ge> MAX_ATTEMPTS then FAILED else PENDING)"
    using mark_failed_live [OF Cons.prems(1-3)] by blast
  have r20: "attempts r < 20"
    using active_row_ok_attempts [OF outbox_invD(3) [OF Cons.prems(1,2)] Cons.prems(3)] by (simp add: MAX_ATTEMPTS_def)
  show ?case
  proof (cases "attempts r + 1 \<ge> 20 \<or> fs = []")
    case True
    have "foldl (\<lambda>s (now, rnd, err). mark_failed z s now rnd (row_id r) err) ?t fs = ?t"
    proof (cases "fs = []")
      case False
      with True q have "\<not> active q" by (simp add: active_def MAX_ATTEMPTS_def)
      then have "mark_failed z ?t n' rd' (row_id r) e' = ?t" for n' rd' e'
        using mark_failed_dead [OF inv_t q(1)] q(2) by simp
      then show ?thesis by (induction fs) auto
    qed simp
    with True q r20 show ?thesis
      by (intro bexI [of _ q]) (auto simp: f MAX_ATTEMPTS_def)
  next
    case False
    with q have "active q" by (simp add: active_def MAX_ATTEMPTS_def)
    with Cons.IH [OF inv_t q(1)] False q show ?thesis by (simp add: f)
  qed
qed simp

lemma mark_failed_gives_up_at_20_witness:
  "\<exists>s r. r \<in> set (ob_rows s) \<and> (\<exists>r' \<in> set (ob_rows (foldl (\<lambda>s (now, rnd, err). mark_failed utc s now rnd (row_id r) err) s
       (replicate 20 (9, 0, ''e'')))). row_status r' = FAILED)"
proof -
  let ?s = "foldl (outbox_step test_codec utc) (empty_outbox ''me'') [OpEnqueue 5 JOB_RESULT ''x'']"
  have inv: "outbox_inv ?s" by (rule outbox_machine.run_inv) simp
  have "\<exists>r. r \<in> set (ob_rows ?s) \<and> active r" by (simp add: outbox_eval)
  then obtain r where r: "r \<in> set (ob_rows ?s)" "active r" by blast
  have "replicate 20 (9, 0, ''e'') \<noteq> ([] :: (int \<times> rat \<times> string) list)" by simp
  from mark_failed_gives_up_at_20 [OF inv r this, of utc] r show ?thesis by fastforce
qed

text \<open>The wake-up time is exact: \<open>getNextReadyDelayMs\<close> is null only if no lease can ever return anything; if it
  is \<open>d\<close>, a lease \<open>d\<close> milliseconds later returns something and no earlier lease does.\<close>

theorem next_ready_delay_exact:
  assumes "outbox_inv s" and "0 < limit"
  shows "case get_next_ready_delay_ms s now of
      None \<Rightarrow> \<forall>t. fst (lease_ready c s t limit) = []
    | Some d \<Rightarrow> 0 \<le> d \<and> fst (lease_ready c s (now + d) limit) \<noteq> []
        \<and> (\<forall>e. 0 \<le> e \<and> e < d \<longrightarrow> fst (lease_ready c s (now + e) limit) = [])"
proof -
  let ?W = "filter (\<lambda>r. row_status r = PENDING \<and> attempts r < MAX_ATTEMPTS) (ob_rows s)"
  have some: "fst (lease_ready c s t limit) = [] \<longleftrightarrow> (\<forall>r \<in> set ?W. t < next_attempt_at r)" for t
    using assms(2) by (auto simp: lease_ready_spec [OF assms(1)] filter_empty_conv ready_def not_le)
  show ?thesis
  proof (cases "sort (map next_attempt_at ?W)")
    case Nil
    then have "set (sort (map next_attempt_at ?W)) = {}" by simp
    then have "?W = []" by (simp del: filter_empty_conv)
    then have "fst (lease_ready c s t limit) = []" for t unfolding some by (simp del: filter_empty_conv)
    with Nil show ?thesis by (simp add: get_next_ready_delay_ms_def)
  next
    case (Cons t ts)
    have set: "set (t # ts) = next_attempt_at ` set ?W"
      unfolding Cons [symmetric] by (simp only: set_sort list.set_map)
    have t: "t \<in> next_attempt_at ` set ?W" unfolding set [symmetric] by simp
    have "sorted (t # ts)" unfolding Cons [symmetric] by (rule sorted_sort)
    then have min: "\<forall>x \<in> set (t # ts). t \<le> x" by simp
    have le: "t \<le> next_attempt_at r" if "r \<in> set ?W" for r
    proof -
      from that have "next_attempt_at r \<in> set (t # ts)" unfolding set by (rule imageI)
      with min show ?thesis by blast
    qed
    have "fst (lease_ready c s (now + max 0 (t - now)) limit) \<noteq> []"
      unfolding some not_all using t by (auto simp del: filter_empty_conv)
    moreover have "fst (lease_ready c s (now + e) limit) = []" if "0 \<le> e" "e < max 0 (t - now)" for e
      unfolding some
    proof
      fix r assume "r \<in> set ?W"
      then show "now + e < next_attempt_at r" using le [of r] that by linarith
    qed
    ultimately show ?thesis using Cons by (simp add: get_next_ready_delay_ms_def)
  qed
qed

lemma next_ready_delay_exact_witness:
  "\<exists>s. outbox_inv s \<and> get_next_ready_delay_ms s 2 = Some 3 \<and> fst (lease_ready test_codec s 5 1) \<noteq> []"
proof -
  let ?s = "foldl (outbox_step test_codec utc) (empty_outbox ''me'') [OpEnqueue 5 JOB_RESULT ''x'']"
  have inv: "outbox_inv ?s" by (rule outbox_machine.run_inv) simp
  have "get_next_ready_delay_ms ?s 2 = Some 3"
    by (simp add: outbox_eval get_next_ready_delay_ms_def)
  with next_ready_delay_exact [OF inv, of 1 test_codec 2] inv show ?thesis by (intro exI [of _ ?s]) simp
qed

text \<open>The retry delay: in a time zone with a fixed offset the next attempt is due between 30 seconds and
  3609 seconds after the failure, and doubling up to the hour: the delay is the jitter plus
  \<open>min(3600, 30 * 2^(attempt-1))\<close>.\<close>

theorem backoff_delay_bounds:
  assumes "\<And>t. offset_at z t = k" and "\<And>l. offset_of_local z l = k" and "0 \<le> rnd" and "rnd < 1" and "0 < attempt"
  shows "now + 30000 \<le> add_seconds_iso z now (compute_backoff_seconds attempt rnd)
    \<and> add_seconds_iso z now (compute_backoff_seconds attempt rnd) \<le> now + 3609000
    \<and> (attempt \<ge> 8 \<longrightarrow> now + 3600000 \<le> add_seconds_iso z now (compute_backoff_seconds attempt rnd))"
proof -
  have jit: "0 \<le> \<lfloor>rnd * 10\<rfloor>" "\<lfloor>rnd * 10\<rfloor> \<le> 9" using assms(3,4) by linarith+
  have b: "30 \<le> 30 * (2::int) ^ (attempt - 1) \<and> (attempt \<ge> 8 \<longrightarrow> 3600 \<le> 30 * (2::int) ^ (attempt - 1))"
  proof -
    have "(2::int) ^ 7 \<le> 2 ^ (attempt - 1)" if "attempt \<ge> 8"
      using that by (intro power_increasing) auto
    moreover have "(1::int) \<le> 2 ^ (attempt - 1)" by simp
    ultimately show ?thesis by (cases "attempt \<ge> 8") simp_all
  qed
  have eq: "add_seconds_iso z now (compute_backoff_seconds attempt rnd)
      = now + (min 3600 (30 * 2 ^ (attempt - 1)) + \<lfloor>rnd * 10\<rfloor>) * 1000"
    by (simp add: add_seconds_iso_def compute_backoff_seconds_def Let_def assms(1,2))
  have gen: "now + 30000 \<le> now + (min 3600 w + j) * 1000 \<and> now + (min 3600 w + j) * 1000 \<le> now + 3609000
      \<and> (attempt \<ge> 8 \<longrightarrow> now + 3600000 \<le> now + (min 3600 w + j) * 1000)"
    if "30 \<le> w \<and> (attempt \<ge> 8 \<longrightarrow> 3600 \<le> w)" "0 \<le> j" "j \<le> 9" for w j :: int
    using that by (cases "3600 \<le> w") auto
  show ?thesis unfolding eq by (rule gen [OF b jit])
qed

lemma backoff_delay_bounds_witness:
  "(5000 :: int) + 30000 \<le> add_seconds_iso utc 5000 (compute_backoff_seconds 3 (1 / 2))"
  using backoff_delay_bounds [of utc 0 "1 / 2" 3 5000] by (simp add: utc_def)

text \<open>
  \<open>setSeconds\<close> works on local time. When the clocks go back, the repeated hour is read as its first
  pass, so adding a delay during the second pass gives an instant about an hour in the past.
\<close>

definition fall_back_zone :: tz where
  "fall_back_zone = \<lparr>offset_at = (\<lambda>t. if t < 0 then 3600000 else 0),
                     offset_of_local = (\<lambda>l. if l < 3600000 then 3600000 else 0)\<rparr>"

text \<open>The delay is not kept across a daylight-saving change: in the hour after the clocks go back, a failed
  event is due again immediately, at every attempt whose delay ends within that hour (here ten minutes after the change).\<close>

theorem backoff_in_the_past_after_dst:
  assumes "0 \<le> rnd" and "rnd < 1"
  shows "add_seconds_iso fall_back_zone 600000 (compute_backoff_seconds 1 rnd) < 600000"
proof -
  have "0 \<le> \<lfloor>rnd * 10\<rfloor>" "\<lfloor>rnd * 10\<rfloor> \<le> 9" using assms by linarith+
  then show ?thesis
    by (simp add: add_seconds_iso_def compute_backoff_seconds_def fall_back_zone_def Let_def)
qed

lemma backoff_in_the_past_after_dst_witness:
  "add_seconds_iso fall_back_zone 600000 (compute_backoff_seconds 1 (1 / 2)) < 600000"
  using backoff_in_the_past_after_dst [of "1 / 2"] by simp

section \<open>Self-healing\<close>

lemma quarantine_fold:
  assumes "distinct qs" and "\<And>q q'. q \<in> set qs \<Longrightarrow> q' \<in> set qs \<Longrightarrow> q' \<noteq> q @ sfx" and "\<And>q. can_rename q"
    and "\<And>q. q \<in> set qs \<Longrightarrow> fs (q @ sfx) = None"
  shows "(\<forall>q \<in> set qs. foldl (quarantine_one can_rename can_remove sfx) fs qs q = None
        \<and> foldl (quarantine_one can_rename can_remove sfx) fs qs (q @ sfx) = fs q)
    \<and> (\<forall>q. q \<notin> set qs \<and> q \<notin> (\<lambda>x. x @ sfx) ` set qs \<longrightarrow> foldl (quarantine_one can_rename can_remove sfx) fs qs q = fs q)"
  using assms
proof (induction qs arbitrary: fs)
  case (Cons q qs)
  let ?g = "quarantine_one can_rename can_remove sfx fs q"
  have g: "?g x = (if x = q then None else if x = q @ sfx then fs q else fs x)" for x
    using Cons.prems(2) [of q q] Cons.prems(3) Cons.prems(4) [of q]
    by (auto simp: quarantine_one_def split: option.splits)
  have free: "?g (x @ sfx) = None" if "x \<in> set qs" for x
    using that Cons.prems(1,2) Cons.prems(4) [of x] by (auto simp: g)
  have frame: "x \<noteq> q" "x \<noteq> q @ sfx" "q \<noteq> x @ sfx" if "x \<in> set qs" for x
    using that Cons.prems(1) Cons.prems(2) [of q x] Cons.prems(2) [of x q] by auto
  have IH: "(\<forall>x \<in> set qs. foldl (quarantine_one can_rename can_remove sfx) ?g qs x = None
        \<and> foldl (quarantine_one can_rename can_remove sfx) ?g qs (x @ sfx) = ?g x)
    \<and> (\<forall>x. x \<notin> set qs \<and> x \<notin> (\<lambda>x. x @ sfx) ` set qs \<longrightarrow> foldl (quarantine_one can_rename can_remove sfx) ?g qs x = ?g x)"
    using Cons.prems free by (intro Cons.IH) auto
  let ?F = "foldl (quarantine_one can_rename can_remove sfx) ?g qs"
  have outside: "?F x = ?g x" if "x \<notin> set qs" "x \<notin> (\<lambda>x. x @ sfx) ` set qs" for x
    using IH that by blast
  have "?F x = None \<and> ?F (x @ sfx) = fs x" if "x \<in> set (q # qs)" for x
  proof (cases "x = q")
    case True
    have "?F q = ?g q" using Cons.prems(1) frame by (intro outside) auto
    moreover have "?F (q @ sfx) = ?g (q @ sfx)" using Cons.prems(2) frame by (intro outside) auto
    moreover have "q @ sfx \<noteq> q" using Cons.prems(2) [of q q] by simp
    ultimately show ?thesis using True by (simp add: g)
  next
    case False
    with that IH frame [of x] show ?thesis by (simp add: g)
  qed
  moreover have "?F x = fs x" if "x \<notin> set (q # qs)" "x \<notin> (\<lambda>x. x @ sfx) ` set (q # qs)" for x
    using that outside [of x] by (simp add: g)
  ultimately show ?case by simp
qed simp

text \<open>Opening never destroys a readable file and never boot-loops on a corrupt one: with renames allowed, a
  corruption error moves the database and its \<open>-wal\<close> and \<open>-shm\<close> files, contents untouched, to names with
  the suffix, leaves their own names free, and touches no other path.\<close>

theorem self_healing_preserves_contents:
  assumes "probe fs p = Inl e" and "is_corruption_error e" and "\<And>q. can_rename q"
    and "\<And>q. q \<in> set (quarantine_targets p) \<Longrightarrow> fs (q @ ''.corrupt-'' @ stamp) = None"
  shows "\<exists>fs'. open_with_self_healing probe can_rename can_remove (''.corrupt-'' @ stamp) fs p = Inr fs'
    \<and> (\<forall>q \<in> set (quarantine_targets p). fs' q = None \<and> fs' (q @ ''.corrupt-'' @ stamp) = fs q)
    \<and> (\<forall>q. q \<notin> set (quarantine_targets p) \<and> q \<notin> (\<lambda>x. x @ ''.corrupt-'' @ stamp) ` set (quarantine_targets p) \<longrightarrow> fs' q = fs q)"
proof -
  have "distinct (quarantine_targets p)" by (simp add: quarantine_targets_def)
  moreover have "q' \<noteq> q @ ''.corrupt-'' @ stamp" if "q \<in> set (quarantine_targets p)" "q' \<in> set (quarantine_targets p)" for q q'
    using that by (auto simp: quarantine_targets_def)
  ultimately show ?thesis
    using quarantine_fold [of "quarantine_targets p" "''.corrupt-'' @ stamp" can_rename fs can_remove] assms
    by (simp add: open_with_self_healing_def quarantine_corrupt_db_def)
qed

lemma self_healing_preserves_contents_witness:
  "\<exists>fs'. open_with_self_healing (\<lambda>_ _. Inl SQLITE_NOTADB) (\<lambda>_. True) (\<lambda>_. True) (''.corrupt-'' @ ''now'')
      [''db'' \<mapsto> (7 :: nat)] ''db'' = Inr fs' \<and> fs' ''db'' = None \<and> fs' ''db.corrupt-now'' = Some 7"
proof -
  have "\<exists>fs'. open_with_self_healing (\<lambda>_ _. Inl SQLITE_NOTADB) (\<lambda>_. True) (\<lambda>_. True) (''.corrupt-'' @ ''now'')
        [''db'' \<mapsto> (7 :: nat)] ''db'' = Inr fs'
    \<and> (\<forall>q \<in> set (quarantine_targets ''db''). fs' q = None \<and> fs' (q @ ''.corrupt-'' @ ''now'') = [''db'' \<mapsto> 7] q)
    \<and> (\<forall>q. q \<notin> set (quarantine_targets ''db'') \<and> q \<notin> (\<lambda>x. x @ ''.corrupt-'' @ ''now'') ` set (quarantine_targets ''db'')
         \<longrightarrow> fs' q = [''db'' \<mapsto> 7] q)"
    by (rule self_healing_preserves_contents)
      (auto simp: is_corruption_error_def quarantine_targets_def)
  then show ?thesis by (auto simp: quarantine_targets_def)
qed

end
