(* ===== verification/Canonical.thy ===== *)
theory Canonical
  imports Jsval
begin

text \<open>
  Canonical text and change hashes: \<open>src/core/namespace-hash.ts\<close> and the hash and the file
  of \<open>src/core/policy-store.ts\<close>.

  Both modules print a value with its keys sorted and hash the text. \<open>ns_*\<close> is the version of
  namespace-hash.ts, \<open>policy_*\<close> the one of policy-store.ts; they differ in the escaping of
  keys and in \<open>undefined\<close>. The printing of numbers, the collation of \<open>localeCompare\<close> and SHA-256 are
  arguments.
\<close>

section \<open>JSON.stringify on scalars\<close>

definition hex_digit :: "nat \<Rightarrow> char" where
  "hex_digit d = (if d < 10 then char_of (48 + d) else char_of (87 + d))"

text \<open>Escapes of \<open>JSON.stringify\<close>: the two quoting characters, and the control characters.\<close>

definition json_escape :: "char \<Rightarrow> string" where
  "json_escape c =
     (if char_code c = 34 \<or> char_code c = 92 then [char_of (92 :: nat), c]
      else if char_code c = 8 then [char_of (92 :: nat), CHR ''b'']
      else if char_code c = 9 then [char_of (92 :: nat), CHR ''t'']
      else if char_code c = 10 then [char_of (92 :: nat), CHR ''n'']
      else if char_code c = 12 then [char_of (92 :: nat), CHR ''f'']
      else if char_code c = 13 then [char_of (92 :: nat), CHR ''r'']
      else if char_code c < 32 then
        [char_of (92 :: nat), CHR ''u'', CHR ''0'', CHR ''0'', hex_digit (char_code c div 16), hex_digit (char_code c mod 16)]
      else [c])"

definition dquote :: char where "dquote = CHR 0x22"

definition json_string :: "string \<Rightarrow> string" where
  "json_string s = dquote # concat (map json_escape s) @ [dquote]"

definition json_number :: "(rat \<Rightarrow> string) \<Rightarrow> jsnum \<Rightarrow> string" where
  "json_number pr n = (case n of Fin q \<Rightarrow> pr q | _ \<Rightarrow> ''null'')"

definition json_bool :: "bool \<Rightarrow> string" where
  "json_bool b = (if b then ''true'' else ''false'')"

section \<open>namespace-hash.ts\<close>

definition by_key :: "(string \<Rightarrow> string \<Rightarrow> bool) \<Rightarrow> string \<times> jsval \<Rightarrow> string \<times> jsval \<Rightarrow> bool" where
  "by_key le a b = le (fst a) (fst b)"

text \<open>
  \<open>normalizeForHash\<close>; \<open>collate\<close> is \<open>left.localeCompare(right) <= 0\<close>. \<open>Object.fromEntries\<close> is the list of entries:
  the order of the keys is fixed again by the sort of \<open>stableStringify\<close>.
\<close>

function normalize_for_hash :: "(string \<Rightarrow> string \<Rightarrow> bool) \<Rightarrow> jsval \<Rightarrow> jsval" where
  "normalize_for_hash collate JUndef = JNull"
| "normalize_for_hash collate JNull = JNull"
| "normalize_for_hash collate (JBool b) = JBool b"
| "normalize_for_hash collate (JNum n) = JNum n"
| "normalize_for_hash collate (JStr s) = JStr s"
| "normalize_for_hash collate (JArr vs) = JArr (map (normalize_for_hash collate) vs)"
| "normalize_for_hash collate (JObj kvs) =
     JObj (map (\<lambda>(k, v). (k, normalize_for_hash collate v))
       (sort_by (by_key collate) (filter (\<lambda>(k, v). v \<noteq> JUndef) kvs)))"
  by pat_completeness auto
termination
  by (relation "measure (\<lambda>(c, v). size v)") (auto simp: size_elem size_entry)

text \<open>
  \<open>stableStringify\<close> of namespace-hash.ts: keys sorted by code unit, printed between quotes WITHOUT escaping.
  \<open>undefined\<close> prints as \<open>undefined\<close> after a key and as nothing between commas.
\<close>

function ns_stable_stringify :: "(rat \<Rightarrow> string) \<Rightarrow> jsval \<Rightarrow> string" where
  "ns_stable_stringify pr JUndef = ''undefined''"
| "ns_stable_stringify pr JNull = ''null''"
| "ns_stable_stringify pr (JBool b) = json_bool b"
| "ns_stable_stringify pr (JNum n) = json_number pr n"
| "ns_stable_stringify pr (JStr s) = json_string s"
| "ns_stable_stringify pr (JArr vs) =
     ''['' @ join_with '','' (map (\<lambda>v. if v = JUndef then [] else ns_stable_stringify pr v) vs) @ '']''"
| "ns_stable_stringify pr (JObj kvs) =
     ''{'' @ join_with '','' (map (\<lambda>(k, v). [dquote] @ k @ [dquote] @ '':'' @ ns_stable_stringify pr v) (sort_key fst kvs)) @ ''}''"
  by pat_completeness auto
termination
  by (relation "measure (\<lambda>(c, v). size v)") (auto simp: size_elem size_entry)

definition hash_namespace :: "(string \<Rightarrow> string) \<Rightarrow> (rat \<Rightarrow> string) \<Rightarrow> (string \<Rightarrow> string \<Rightarrow> bool) \<Rightarrow> jsval \<Rightarrow> string" where
  "hash_namespace sha pr collate v = sha (ns_stable_stringify pr (normalize_for_hash collate v))"

text \<open>Removing a property by destructuring (\<open>const \{k, ...rest\} = o\<close>).\<close>

definition without_prop :: "string \<Rightarrow> (string \<times> jsval) list \<Rightarrow> (string \<times> jsval) list" where
  "without_prop k kvs = filter (\<lambda>kv. fst kv \<noteq> k) kvs"

definition build_scp_state_for_hash :: "(string \<times> jsval) list \<Rightarrow> (string \<times> jsval) list" where
  "build_scp_state_for_hash ns =
     (let rest = without_prop ''hasChanges'' ns
      in case map_of rest ''patches'' of
           Some (JObj patches) \<Rightarrow> AList.update ''patches'' (JObj (without_prop ''lastScanUtc'' patches)) rest
         | _ \<Rightarrow> rest)"

definition build_pmp_state_for_hash :: "(string \<times> jsval) list \<Rightarrow> (string \<times> jsval) list" where
  "build_pmp_state_for_hash ns = without_prop ''hasChanges'' ns"

section \<open>policy-store.ts\<close>

function policy_stable_stringify :: "(rat \<Rightarrow> string) \<Rightarrow> jsval \<Rightarrow> string" where
  "policy_stable_stringify pr JUndef = ''null''"
| "policy_stable_stringify pr JNull = ''null''"
| "policy_stable_stringify pr (JBool b) = json_bool b"
| "policy_stable_stringify pr (JNum n) = json_number pr n"
| "policy_stable_stringify pr (JStr s) = json_string s"
| "policy_stable_stringify pr (JArr vs) = ''['' @ join_with '','' (map (policy_stable_stringify pr) vs) @ '']''"
| "policy_stable_stringify pr (JObj kvs) =
     ''{'' @ join_with '','' (map (\<lambda>(k, v). json_string k @ '':'' @ policy_stable_stringify pr v) (sort_key fst kvs)) @ ''}''"
  by pat_completeness auto
termination
  by (relation "measure (\<lambda>(c, v). size v)") (auto simp: size_elem size_entry)

definition compute_hash :: "(string \<Rightarrow> string) \<Rightarrow> (rat \<Rightarrow> string) \<Rightarrow> jsval \<Rightarrow> string" where
  "compute_hash sha pr policy = sha (policy_stable_stringify pr policy)"

section \<open>Unique readability of the policy text\<close>

text \<open>
  What the text of a policy can tell: \<open>undefined\<close> and non-finite numbers are \<open>null\<close>, and the order of
  the keys is lost. \<open>canon\<close> is the value up to that; \<open>plain_text\<close> prints a canonical value.
\<close>

function canon :: "jsval \<Rightarrow> jsval" where
  "canon JUndef = JNull"
| "canon JNull = JNull"
| "canon (JBool b) = JBool b"
| "canon (JNum n) = (if is_finite n then JNum n else JNull)"
| "canon (JStr s) = JStr s"
| "canon (JArr vs) = JArr (map canon vs)"
| "canon (JObj kvs) = JObj (map (\<lambda>(k, v). (k, canon v)) (sort_key fst kvs))"
  by pat_completeness auto
termination
  by (relation "measure size") (auto simp: size_elem size_entry)

fun plain_text :: "(rat \<Rightarrow> string) \<Rightarrow> jsval \<Rightarrow> string" where
  "plain_text pr JUndef = ''null''"
| "plain_text pr JNull = ''null''"
| "plain_text pr (JBool b) = json_bool b"
| "plain_text pr (JNum n) = json_number pr n"
| "plain_text pr (JStr s) = json_string s"
| "plain_text pr (JArr vs) = ''['' @ join_with '','' (map (plain_text pr) vs) @ '']''"
| "plain_text pr (JObj kvs) = ''{'' @ join_with '','' (map (\<lambda>(k, v). json_string k @ '':'' @ plain_text pr v) kvs) @ ''}''"

fun canonical :: "jsval \<Rightarrow> bool" where
  "canonical JUndef = False"
| "canonical (JNum n) = is_finite n"
| "canonical (JArr vs) = list_all canonical vs"
| "canonical (JObj kvs) = list_all (\<lambda>(k, v). canonical v) kvs"
| "canonical _ = True"

lemma canonical_canon: "canonical (canon v)"
  by (induction v rule: canon.induct) (auto simp: list_all_iff)

lemma policy_text_canon: "policy_stable_stringify pr v = plain_text pr (canon v)"
proof (induction pr v rule: policy_stable_stringify.induct)
  case (4 pr n)
  then show ?case by (cases n) (simp_all add: json_number_def is_finite_def)
next
  case (6 pr vs)
  then have "map (policy_stable_stringify pr) vs = map (plain_text pr \<circ> canon) vs" by simp
  then show ?case by (simp only: policy_stable_stringify.simps canon.simps plain_text.simps map_map)
next
  case (7 pr kvs)
  then have "map (\<lambda>(k, v). json_string k @ '':'' @ policy_stable_stringify pr v) (sort_key fst kvs)
      = map (\<lambda>(k, v). json_string k @ '':'' @ plain_text pr v) (map (\<lambda>(k, v). (k, canon v)) (sort_key fst kvs))"
    by (auto simp: comp_def)
  then show ?case by (simp only: policy_stable_stringify.simps canon.simps plain_text.simps)
qed simp_all

subsection \<open>Strings\<close>

fun unescape :: "string \<Rightarrow> (char \<times> string) option" where
  "unescape [] = None"
| "unescape (c # r) =
     (if char_code c \<noteq> 92 then Some (c, r)
      else (case r of
              [] \<Rightarrow> None
            | e # r' \<Rightarrow>
                if e = CHR ''b'' then Some (char_of (8 :: nat), r')
                else if e = CHR ''t'' then Some (char_of (9 :: nat), r')
                else if e = CHR ''n'' then Some (char_of (10 :: nat), r')
                else if e = CHR ''f'' then Some (char_of (12 :: nat), r')
                else if e = CHR ''r'' then Some (char_of (13 :: nat), r')
                else if e = CHR ''u'' then
                  (case r' of a # b # h # l # r'' \<Rightarrow> Some (char_of (16 * the (hex_val h) + the (hex_val l)), r'') | _ \<Rightarrow> None)
                else Some (e, r')))"

lemma char_code_char_of [simp]: "n < 256 \<Longrightarrow> char_code (char_of n) = n"
  by (simp add: char_code_def)

lemma char_of_char_code [simp]: "char_of (char_code c) = c"
  by (simp add: char_code_def)

lemma char_code_less [simp]: "char_code c < 256"
  by (simp add: char_code_def)

lemma char_code_inject: "char_code c = char_code d \<longleftrightarrow> c = d"
  by (metis char_of_char_code)

lemma hex_val_hex_digit: "d < 16 \<Longrightarrow> hex_val (hex_digit d) = Some d"
  by (auto simp: hex_digit_def hex_val_def Let_def)

lemma unescape_escape: "unescape (json_escape c @ r) = Some (c, r)"
proof -
  consider (quote) "char_code c = 34 \<or> char_code c = 92" | (named) "char_code c \<in> {8, 9, 10, 12, 13}"
    | (control) "char_code c < 32" "char_code c \<notin> {8, 9, 10, 12, 13}"
    | (raw) "32 \<le> char_code c" "char_code c \<noteq> 34" "char_code c \<noteq> 92"
    by fastforce
  then show ?thesis
  proof cases
    case quote
    then have "c \<notin> {CHR ''b'', CHR ''t'', CHR ''n'', CHR ''f'', CHR ''r'', CHR ''u''}"
      by (auto simp: char_code_def)
    with quote show ?thesis by (auto simp: json_escape_def)
  next
    case named
    then have "c = char_of (8 :: nat) \<or> c = char_of (9 :: nat) \<or> c = char_of (10 :: nat) \<or> c = char_of (12 :: nat) \<or> c = char_of (13 :: nat)"
      by (metis char_of_char_code insertE singletonD)
    then show ?thesis by (elim disjE) (simp_all add: json_escape_def)
  next
    case control
    then have "json_escape c = [char_of (92 :: nat), CHR ''u'', CHR ''0'', CHR ''0'', hex_digit (char_code c div 16), hex_digit (char_code c mod 16)]"
      by (simp add: json_escape_def)
    moreover have "16 * (char_code c div 16) + char_code c mod 16 = char_code c" by simp
    ultimately show ?thesis using control(1) by (simp add: hex_val_hex_digit)
  next
    case raw
    then show ?thesis by (simp add: json_escape_def)
  qed
qed

lemma char_code_dquote [simp]: "char_code dquote = 34"
  by (simp add: dquote_def char_code_def)

lemma dquote_not_backslash: "char_of (92 :: nat) \<noteq> dquote"
proof
  assume "char_of (92 :: nat) = dquote"
  then have "char_code (char_of (92 :: nat)) = char_code dquote" by (rule arg_cong)
  then show False by simp
qed

lemma json_escape_head: "\<exists>h t. json_escape c = h # t \<and> h \<noteq> dquote"
proof (cases "c = dquote")
  case True
  then show ?thesis using dquote_not_backslash by (simp add: json_escape_def)
next
  case False
  then show ?thesis using dquote_not_backslash by (auto simp: json_escape_def)
qed

lemma json_string_readable:
  "json_string s @ x = json_string t @ y \<Longrightarrow> s = t \<and> x = y"
proof -
  have "concat (map json_escape s) @ dquote # x = concat (map json_escape t) @ dquote # y \<Longrightarrow> s = t \<and> x = y"
  proof (induction s arbitrary: t)
    case Nil
    then show ?case using json_escape_head [of "hd t"] by (cases t) auto
  next
    case (Cons c s)
    show ?case
    proof (cases t)
      case Nil
      with Cons.prems json_escape_head [of c] show ?thesis by auto
    next
      case (Cons d t')
      with Cons.prems have "json_escape c @ (concat (map json_escape s) @ dquote # x)
          = json_escape d @ (concat (map json_escape t') @ dquote # y)" by simp
      then have "Some (c, concat (map json_escape s) @ dquote # x) = Some (d, concat (map json_escape t') @ dquote # y)"
        by (metis unescape_escape)
      with Cons.IH [of t'] \<open>t = d # t'\<close> show ?thesis by simp
    qed
  qed
  moreover assume "json_string s @ x = json_string t @ y"
  ultimately show ?thesis by (simp add: json_string_def)
qed

subsection \<open>Numbers and lists\<close>

text \<open>The characters \<open>Number.prototype.toString\<close> uses, and what is needed of it: non-empty and injective.\<close>

definition num_char :: "char \<Rightarrow> bool" where
  "num_char c \<longleftrightarrow> is_digit c \<or> c \<in> set ''+-.e''"

definition prints_numbers :: "(rat \<Rightarrow> string) \<Rightarrow> bool" where
  "prints_numbers pr \<longleftrightarrow> inj pr \<and> (\<forall>q. pr q \<noteq> [] \<and> list_all num_char (pr q) \<and> hd (pr q) \<noteq> CHR ''e'')"

lemma prints_numbersD:
  assumes "prints_numbers pr"
  shows "inj pr" and "pr q \<noteq> []" and "list_all num_char (pr q)" and "num_char (hd (pr q))" and "hd (pr q) \<noteq> CHR ''e''"
  using assms hd_in_set [of "pr q"] unfolding prints_numbers_def list_all_iff by blast+

definition delimited :: "string \<Rightarrow> bool" where
  "delimited x \<longleftrightarrow> x = [] \<or> hd x \<in> set '',]}''"

lemma delimited_simps [simp]: "delimited []" "delimited (CHR '','' # x)" "delimited (CHR '']'' # x)" "delimited (CHR ''}'' # x)"
  by (simp_all add: delimited_def)

lemma num_char_delimited: "delimited x \<Longrightarrow> takeWhile num_char x = []"
  by (cases x) (auto simp: delimited_def num_char_def is_digit_def char_code_def)

lemma takeWhile_all_append: "list_all P s \<Longrightarrow> takeWhile P (s @ x) = s @ takeWhile P x"
  by (induction s) auto

lemma number_readable:
  assumes "prints_numbers pr" and "pr p @ x = pr q @ y" and "delimited x" and "delimited y"
  shows "p = q \<and> x = y"
proof -
  have "takeWhile num_char (pr p @ x) = pr p" "takeWhile num_char (pr q @ y) = pr q"
    using prints_numbersD(3) [OF assms(1)] assms(3,4) by (simp_all add: takeWhile_all_append num_char_delimited)
  with assms(2) have "pr p = pr q" by metis
  with assms(2) injD [OF prints_numbersD(1) [OF assms(1)]] show ?thesis by auto
qed

lemma join_with_Cons: "join_with d (x # xs) = x @ (if xs = [] then [] else d @ join_with d xs)"
  by (cases xs) auto

lemma join_readable:
  assumes elem: "\<And>a b x y. a \<in> set as \<Longrightarrow> Q b \<Longrightarrow> delimited x \<Longrightarrow> delimited y \<Longrightarrow> f a @ x = f b @ y \<Longrightarrow> a = b \<and> x = y"
    and Q: "\<forall>b \<in> set bs. Q b"
    and nonempty: "\<And>c. c \<in> set as \<union> set bs \<Longrightarrow> f c \<noteq> [] \<and> hd (f c) \<noteq> e"
    and e: "e \<in> set '']}''"
    and eq: "join_with '','' (map f as) @ e # x = join_with '','' (map f bs) @ e # y"
  shows "as = bs \<and> x = y"
  using elem Q nonempty eq
proof (induction as arbitrary: bs)
  case Nil
  show ?case
  proof (cases bs)
    case (Cons b bs')
    with Nil.prems(3) [of b] Nil.prems(4) show ?thesis by (cases "f b") (auto simp: join_with_Cons)
  qed (use Nil.prems(4) in simp)
next
  case (Cons a as)
  obtain b bs' where bs: "bs = b # bs'"
    using Cons.prems(3) [of a] Cons.prems(4) by (cases bs; cases "f a") (auto simp: join_with_Cons)
  let ?r = "\<lambda>cs z. (if cs = [] then e # z else CHR '','' # join_with '','' (map f cs) @ e # z)"
  have d: "delimited (?r cs z)" for cs z using e by (auto simp: delimited_def)
  have "f a @ ?r as x = f b @ ?r bs' y"
    using Cons.prems(4) by (auto simp: bs join_with_Cons)
  with Cons.prems(1) [of a b, OF _ _ d d] Cons.prems(2) have ab: "a = b" "?r as x = ?r bs' y"
    by (auto simp: bs)
  have "e \<noteq> CHR '',''" using e by auto
  with ab(2) have "join_with '','' (map f as) @ e # x = join_with '','' (map f bs') @ e # y"
    by (auto split: if_splits)
  with Cons.IH [of bs'] Cons.prems(1-3) ab(1) show ?case by (auto simp: bs)
qed

subsection \<open>Values\<close>

lemma plain_text_head:
  assumes "prints_numbers pr"
  shows "plain_text pr v \<noteq> [] \<and> hd (plain_text pr v) \<notin> set '',]}''"
proof (cases v)
  case (JNum n)
  show ?thesis
  proof (cases n)
    case (Fin q)
    then have "plain_text pr v = pr q" "pr q \<noteq> []" "num_char (hd (pr q))"
      using prints_numbersD [OF assms] JNum by (simp_all add: json_number_def)
    then show ?thesis by (auto simp: num_char_def is_digit_def char_code_def)
  qed (simp_all add: JNum json_number_def)
qed (auto simp: json_bool_def json_string_def dquote_def)

text \<open>The first character tells the kind of the value.\<close>

fun kind_char :: "(rat \<Rightarrow> string) \<Rightarrow> jsval \<Rightarrow> char \<Rightarrow> bool" where
  "kind_char pr JUndef c = (c = CHR ''n'')"
| "kind_char pr JNull c = (c = CHR ''n'')"
| "kind_char pr (JBool b) c = (c = (if b then CHR ''t'' else CHR ''f''))"
| "kind_char pr (JNum n) c = (is_digit c \<or> c \<in> set ''+-.'')"
| "kind_char pr (JStr s) c = (c = dquote)"
| "kind_char pr (JArr vs) c = (c = CHR ''['')"
| "kind_char pr (JObj kvs) c = (c = CHR ''{'')"

lemma plain_text_kind:
  assumes "prints_numbers pr" and "canonical v"
  shows "kind_char pr v (hd (plain_text pr v @ x))"
proof (cases v)
  case (JNum n)
  with assms(2) obtain q where q: "n = Fin q" by (cases n) (auto simp: is_finite_def)
  have "pr q \<noteq> []" "num_char (hd (pr q))" "hd (pr q) \<noteq> CHR ''e''"
    using prints_numbersD [OF assms(1)] by simp_all
  with q JNum show ?thesis by (auto simp: json_number_def num_char_def)
qed (use assms in \<open>auto simp: json_bool_def json_string_def\<close>)

lemma kind_char_same:
  assumes "kind_char pr v c" and "kind_char pr w c" and "canonical v" and "canonical w"
  shows "(\<exists>m n. v = JNum m \<and> w = JNum n) \<or> (\<exists>s t. v = JStr s \<and> w = JStr t) \<or> (\<exists>vs ws. v = JArr vs \<and> w = JArr ws)
    \<or> (\<exists>kvs lws. v = JObj kvs \<and> w = JObj lws) \<or> v = w"
  using assms
  by (cases v; cases w) (auto simp: dquote_def is_digit_def char_code_def split: if_splits)

lemma plain_text_readable:
  assumes pr: "prints_numbers pr"
  shows "canonical v \<Longrightarrow> canonical w \<Longrightarrow> delimited x \<Longrightarrow> delimited y \<Longrightarrow> plain_text pr v @ x = plain_text pr w @ y
    \<Longrightarrow> v = w \<and> x = y"
proof (induction v arbitrary: w x y rule: measure_induct_rule [where f = size])
  case (less v)
  note eq = \<open>plain_text pr v @ x = plain_text pr w @ y\<close>
  have "kind_char pr v (hd (plain_text pr v @ x))" "kind_char pr w (hd (plain_text pr v @ x))"
    using plain_text_kind [OF pr less.prems(1), of x] plain_text_kind [OF pr less.prems(2), of y] eq by simp_all
  from kind_char_same [OF this less.prems(1,2)]
  consider m n where "v = JNum m" "w = JNum n" | s t where "v = JStr s" "w = JStr t"
    | vs ws where "v = JArr vs" "w = JArr ws" | kvs lws where "v = JObj kvs" "w = JObj lws" | "v = w"
    by blast
  then show ?case
  proof cases
    case (1 m n)
    with less.prems(1,2) obtain p q where "m = Fin p" "n = Fin q"
      by (cases m; cases n) (auto simp: is_finite_def)
    with 1 eq number_readable [OF pr, of p x q y] less.prems(3,4) show ?thesis by (simp add: json_number_def)
  next
    case (2 s t)
    with eq json_string_readable [of s x t y] show ?thesis by simp
  next
    case (3 vs ws)
    have el: "a = b \<and> x' = y'" if "a \<in> set vs" "canonical b" "delimited x'" "delimited y'"
      "plain_text pr a @ x' = plain_text pr b @ y'" for a b x' y'
      using less.IH [of a b x' y'] that less.prems(1) 3 by (auto simp: list_all_iff size_elem)
    have ne: "plain_text pr c \<noteq> [] \<and> hd (plain_text pr c) \<noteq> CHR '']''" for c
      using plain_text_head [OF pr, of c] by auto
    from 3 eq have j: "join_with '','' (map (plain_text pr) vs) @ CHR '']'' # x
        = join_with '','' (map (plain_text pr) ws) @ CHR '']'' # y" by simp
    have "\<forall>b \<in> set ws. canonical b" using less.prems(2) 3 by (simp add: list_all_iff)
    then have "vs = ws \<and> x = y" by (intro join_readable [where Q = canonical and f = "plain_text pr", OF el _ ne _ j]) simp_all
    with 3 show ?thesis by simp
  next
    case (4 kvs lws)
    let ?f = "\<lambda>(k, u). json_string k @ '':'' @ plain_text pr u"
    have el: "a = b \<and> x' = y'" if "a \<in> set kvs" "canonical (snd b)" "delimited x'" "delimited y'" "?f a @ x' = ?f b @ y'"
      for a b :: "string \<times> jsval" and x' y'
    proof -
      obtain k u l t where ab: "a = (k, u)" "b = (l, t)" by (cases a; cases b)
      with that(5) have "json_string k @ ('':'' @ plain_text pr u @ x') = json_string l @ ('':'' @ plain_text pr t @ y')"
        by simp
      from json_string_readable [OF this] have kl: "k = l" "plain_text pr u @ x' = plain_text pr t @ y'" by simp_all
      have "canonical u" using less.prems(1) 4 that(1) ab by (auto simp: list_all_iff)
      with less.IH [of u t x' y'] kl that ab 4 size_entry [of k u kvs] show ?thesis by simp
    qed
    have ne: "?f c \<noteq> [] \<and> hd (?f c) \<noteq> CHR ''}''" for c
      by (auto simp: json_string_def dquote_def split: prod.splits)
    from 4 eq have j: "join_with '','' (map ?f kvs) @ CHR ''}'' # x = join_with '','' (map ?f lws) @ CHR ''}'' # y" by simp
    have "\<forall>b \<in> set lws. canonical (snd b)" using less.prems(2) 4 by (auto simp: list_all_iff)
    then have "kvs = lws \<and> x = y" by (intro join_readable [where Q = "\<lambda>b. canonical (snd b)" and f = ?f, OF el _ ne _ j]) simp_all
    with 4 show ?thesis by simp
  qed (use eq in simp)
qed

text \<open>C4. The text a policy is hashed by is uniquely readable: two policies have the same text exactly when they
  are equal up to the order of keys, with \<open>undefined\<close> and non-finite numbers read as \<open>null\<close>. So a change
  of any other kind always changes the text given to SHA-256. The assumption states what \<open>Number.prototype.toString\<close>
  does: different finite numbers print differently, in non-empty texts of digits, sign, point and exponent.\<close>

theorem policy_text_injective:
  assumes "prints_numbers pr"
  shows "policy_stable_stringify pr v = policy_stable_stringify pr w \<longleftrightarrow> canon v = canon w"
  using plain_text_readable [OF assms canonical_canon canonical_canon, of "[]" "[]" v w]
  by (auto simp: policy_text_canon)

text \<open>A printing of numbers that satisfies the assumption: fractions in lowest terms.\<close>

definition show_fraction :: "rat \<Rightarrow> string" where
  "show_fraction q = (case quotient_of q of (n, d) \<Rightarrow>
     (if n < 0 then ''-'' else ''+'') @ show_nat (nat \<bar>n\<bar>) @ ''.'' @ show_nat (nat d))"

lemma show_nat_inj: "show_nat m = show_nat n \<Longrightarrow> m = n"
  by (metis digits_value_show_nat)

lemma show_nat_point: "show_nat m @ CHR ''.'' # x = show_nat n @ CHR ''.'' # y \<Longrightarrow> m = n \<and> x = y"
proof -
  assume eq: "show_nat m @ CHR ''.'' # x = show_nat n @ CHR ''.'' # y"
  have tw: "takeWhile is_digit (show_nat k @ CHR ''.'' # z) = show_nat k" for k z
    using show_nat_digits [of k] by (simp add: takeWhile_all_append is_digit_def char_code_def)
  have "show_nat m = show_nat n" using arg_cong [OF eq, of "takeWhile is_digit"] by (simp add: tw)
  with eq show ?thesis using show_nat_inj by auto
qed

lemma prints_numbers_show_fraction: "prints_numbers show_fraction"
proof -
  have "p = q" if eq: "show_fraction p = show_fraction q" for p q
  proof -
    obtain n d n' d' where q: "quotient_of p = (n, d)" "quotient_of q = (n', d')" by (cases "quotient_of p"; cases "quotient_of q")
    from q eq have sg: "(n < 0) = (n' < 0)" by (auto simp: show_fraction_def split: if_splits)
    with q eq have "show_nat (nat \<bar>n\<bar>) @ CHR ''.'' # show_nat (nat d) = show_nat (nat \<bar>n'\<bar>) @ CHR ''.'' # show_nat (nat d')"
      by (auto simp: show_fraction_def split: if_splits)
    from show_nat_point [OF this] have "nat \<bar>n\<bar> = nat \<bar>n'\<bar>" "nat d = nat d'" using show_nat_inj by auto
    moreover have "0 < d" "0 < d'" using quotient_of_denom_pos q by auto
    ultimately have "n = n'" "d = d'" using sg by auto
    with q show ?thesis using quotient_of_inject by metis
  qed
  moreover have "list_all num_char (show_nat k)" for k
    using show_nat_digits [of k] by (auto simp: list_all_iff num_char_def)
  ultimately show ?thesis
    by (auto simp: prints_numbers_def inj_def show_fraction_def num_char_def split: prod.splits)
qed

lemma policy_text_injective_witness:
  "policy_stable_stringify show_fraction (JObj [(''a'', JNum (Fin 1)), (''b'', JUndef)])
     = policy_stable_stringify show_fraction (JObj [(''b'', JNull), (''a'', JNum (Fin 1))])
   \<and> policy_stable_stringify show_fraction (JObj [(''a'', JBool True), (''b'', JBool False)])
     \<noteq> policy_stable_stringify show_fraction (JObj [(''a'', JBool False), (''b'', JBool True)])"
  using policy_text_injective [OF prints_numbers_show_fraction, of "JObj [(''a'', JNum (Fin 1)), (''b'', JUndef)]" "JObj [(''b'', JNull), (''a'', JNum (Fin 1))]"]
    policy_text_injective [OF prints_numbers_show_fraction, of "JObj [(''a'', JBool True), (''b'', JBool False)]" "JObj [(''a'', JBool False), (''b'', JBool True)]"]
  by (simp add: is_finite_def)

section \<open>The change hash of a namespace\<close>

text \<open>Objects have distinct keys.\<close>

function distinct_keys :: "jsval \<Rightarrow> bool" where
  "distinct_keys (JArr vs) = list_all distinct_keys vs"
| "distinct_keys (JObj kvs) = (distinct (map fst kvs) \<and> list_all (\<lambda>(k, v). distinct_keys v) kvs)"
| "distinct_keys JUndef = True"
| "distinct_keys JNull = True"
| "distinct_keys (JBool b) = True"
| "distinct_keys (JNum n) = True"
| "distinct_keys (JStr s) = True"
  by pat_completeness auto
termination
  by (relation "measure size") (auto simp: size_elem size_entry)

lemma sort_key_fst_unique:
  fixes xs ys :: "('a :: linorder \<times> 'b) list"
  assumes "distinct (map fst xs)" and "distinct (map fst ys)" and "set xs = set ys"
  shows "sort_key fst xs = sort_key fst ys"
proof (rule map_sorted_distinct_set_unique [of fst])
  have "inj_on fst (set xs)" using assms(1) by (simp add: distinct_map)
  then show "inj_on fst (set (sort_key fst xs) \<union> set (sort_key fst ys))" using assms(3) by simp
  show "distinct (map fst (sort_key fst xs))" "distinct (map fst (sort_key fst ys))"
    using assms(1,2) by (simp_all add: distinct_map)
qed (use assms in simp_all)

lemma insort_key_map_value: "insort_key fst (k, f v) (map (\<lambda>(k, v). (k, f v)) xs) = map (\<lambda>(k, v). (k, f v)) (insort_key fst (k, v) xs)"
  by (induction xs) auto

lemma sort_key_map_value: "sort_key fst (map (\<lambda>(k, v). (k, f v)) xs) = map (\<lambda>(k, v). (k, f v)) (sort_key fst xs)"
  by (induction xs) (auto simp: insort_key_map_value)

lemma distinct_fst_filter: "distinct (map fst xs) \<Longrightarrow> distinct (map fst (filter P xs))"
  by (rule distinct_map_filter)

lemma distinct_fst_sort_by: "distinct (map fst xs) \<Longrightarrow> distinct (map fst (sort_by le xs))"
  by (simp add: distinct_map)

definition ns_entry :: "(rat \<Rightarrow> string) \<Rightarrow> (jsval \<Rightarrow> jsval) \<Rightarrow> string \<times> jsval \<Rightarrow> string" where
  "ns_entry pr f = (\<lambda>(k, v). [dquote] @ k @ [dquote] @ '':'' @ ns_stable_stringify pr (f v))"

lemma ns_object_text:
  assumes "distinct (map fst kvs)"
  shows "ns_stable_stringify pr (normalize_for_hash c (JObj kvs)) =
    ''{'' @ join_with '','' (map (ns_entry pr (normalize_for_hash c)) (sort_key fst (filter (\<lambda>(k, v). v \<noteq> JUndef) kvs))) @ ''}''"
proof -
  let ?F = "filter (\<lambda>(k, v). v \<noteq> JUndef) kvs"
  have "sort_key fst (sort_by (by_key c) ?F) = sort_key fst ?F"
    by (rule sort_key_fst_unique) (simp_all add: distinct_fst_sort_by distinct_fst_filter assms)
  moreover have "map (\<lambda>(k, v). [dquote] @ k @ [dquote] @ '':'' @ ns_stable_stringify pr v)
      (sort_key fst (map (\<lambda>(k, v). (k, normalize_for_hash c v)) xs))
    = map (ns_entry pr (normalize_for_hash c)) (sort_key fst xs)" for xs
    unfolding sort_key_map_value map_map by (rule map_cong) (auto simp: ns_entry_def)
  ultimately show ?thesis by (simp only: normalize_for_hash.simps ns_stable_stringify.simps)
qed

lemma normalize_not_undef: "normalize_for_hash c v \<noteq> JUndef"
  by (cases v) simp_all

lemma ns_text_collation:
  "distinct_keys v \<Longrightarrow> ns_stable_stringify pr (normalize_for_hash c v) = ns_stable_stringify pr (normalize_for_hash c' v)"
proof (induction v rule: measure_induct_rule [where f = size])
  case (less v)
  show ?case
  proof (cases v)
    case (JArr vs)
    have "ns_stable_stringify pr (normalize_for_hash c u) = ns_stable_stringify pr (normalize_for_hash c' u)" if "u \<in> set vs" for u
      using less.IH [of u] less.prems that JArr by (simp add: list_all_iff size_elem)
    then have "map (\<lambda>u. ns_stable_stringify pr (normalize_for_hash c u)) vs
        = map (\<lambda>u. ns_stable_stringify pr (normalize_for_hash c' u)) vs" by simp
    then show ?thesis by (simp add: JArr normalize_not_undef comp_def cong: map_cong)
  next
    case (JObj kvs)
    have "ns_entry pr (normalize_for_hash c) kv = ns_entry pr (normalize_for_hash c') kv" if "kv \<in> set kvs" for kv
      using less.IH [of "snd kv"] less.prems that JObj size_entry [of "fst kv" "snd kv" kvs]
      by (auto simp: list_all_iff ns_entry_def split: prod.splits)
    then have "map (ns_entry pr (normalize_for_hash c)) (sort_key fst (filter (\<lambda>(k, v). v \<noteq> JUndef) kvs))
        = map (ns_entry pr (normalize_for_hash c')) (sort_key fst (filter (\<lambda>(k, v). v \<noteq> JUndef) kvs))" by simp
    moreover have "distinct (map fst kvs)" using less.prems JObj by simp
    ultimately show ?thesis by (simp only: JObj ns_object_text)
  qed simp_all
qed

text \<open>The change hash of a namespace depends neither on the order in which its keys were collected nor on the
  host's collation (\<open>normalizeForHash\<close> sorts with \<open>localeCompare\<close>, which differs from host to host): the same
  entries in any order, normalised under any two collations, hash to the same text.\<close>

theorem namespace_hash_order_independent:
  assumes "distinct_keys (JObj kvs)" and "distinct (map fst kvs')" and "set kvs' = set kvs"
  shows "hash_namespace sha pr collate (JObj kvs) = hash_namespace sha pr collate' (JObj kvs')"
proof -
  have "sort_key fst (filter (\<lambda>(k, v). v \<noteq> JUndef) kvs) = sort_key fst (filter (\<lambda>(k, v). v \<noteq> JUndef) kvs')"
    using assms by (intro sort_key_fst_unique distinct_fst_filter) simp_all
  with ns_text_collation [OF assms(1), of pr collate collate'] assms(1,2) show ?thesis
    by (simp only: hash_namespace_def ns_object_text distinct_keys.simps)
qed

lemma namespace_hash_order_independent_witness:
  "hash_namespace (\<lambda>s. s) show_fraction (\<lambda>a b. True) (JObj [(''b'', JObj [(''y'', JNull), (''x'', JUndef)]), (''a'', JBool True)])
   = hash_namespace (\<lambda>s. s) show_fraction (\<le>) (JObj [(''a'', JBool True), (''b'', JObj [(''y'', JNull), (''x'', JUndef)])])"
  by (rule namespace_hash_order_independent) auto

text \<open>The change hash does not tell all changes: \<open>stableStringify\<close> of namespace-hash.ts prints keys without escaping
  the quotes in them, so a namespace with the two keys \<open>a\<close> and \<open>b\<close> and one with the single key
  \<open>a":true,"b\<close> have the same hash, whatever the digest, although the values differ as JSON does (\<open>canon\<close>).
  The policy hash, which escapes keys, tells them apart.\<close>

theorem namespace_hash_key_collision:
  "let two = JObj [(''a'', JBool True), (''b'', JBool False)];
       one = JObj [(''a'' @ [dquote] @ '':true,'' @ [dquote] @ ''b'', JBool False)]
   in canon two \<noteq> canon one \<and> distinct_keys two \<and> distinct_keys one
      \<and> (\<forall>sha pr collate. hash_namespace sha pr collate two = hash_namespace sha pr collate one)
      \<and> (\<forall>pr. policy_stable_stringify pr two \<noteq> policy_stable_stringify pr one)"
  by (simp add: hash_namespace_def json_bool_def json_string_def json_escape_def char_code_def dquote_def)

text \<open>
  What the projections hide from the hash: setting \<open>hasChanges\<close>, or the time stamp of the last scan below
  \<open>patches\<close>, leaves the state that is hashed as it was.
\<close>

lemma without_prop_update: "without_prop k (AList.update k v kvs) = without_prop k kvs"
  by (induction kvs) (auto simp: without_prop_def)

lemma pmp_state_ignores_has_changes: "build_pmp_state_for_hash (AList.update ''hasChanges'' b ns) = build_pmp_state_for_hash ns"
  by (simp add: build_pmp_state_for_hash_def without_prop_update)

lemma map_of_without_prop: "k' \<noteq> k \<Longrightarrow> map_of (without_prop k kvs) k' = map_of kvs k'"
  by (induction kvs) (auto simp: without_prop_def)

lemma without_prop_update_other: "k' \<noteq> k \<Longrightarrow> without_prop k (AList.update k' v kvs) = AList.update k' v (without_prop k kvs)"
  by (induction kvs) (auto simp: without_prop_def)

lemma update_twice: "AList.update k v (AList.update k w kvs) = AList.update k v kvs"
  by (induction kvs) auto

lemma scp_state_ignores_scan_time:
  assumes "map_of ns ''patches'' = Some (JObj patches)"
  shows "build_scp_state_for_hash (AList.update ''hasChanges'' b (AList.update ''patches'' (JObj (AList.update ''lastScanUtc'' t patches)) ns))
    = build_scp_state_for_hash ns"
  using assms
  by (simp add: build_scp_state_for_hash_def without_prop_update without_prop_update_other map_of_without_prop
      map_of_map_set update_twice)

end
