(* ===== verification/Policy_Store.thy ===== *)
theory Policy_Store
  imports Canonical
begin

text \<open>
  The policy file: \<open>src/core/policy-store.ts\<close>. The file system is a map from paths to contents; \<open>parse\<close> and
  \<open>pretty\<close> are \<open>JSON.parse\<close> and \<open>JSON.stringify(_, null, 2)\<close>. Every file operation may fail: whether it does
  is an argument.
\<close>

type_synonym files = "string \<Rightarrow> string option"

definition move_file :: "string \<Rightarrow> string \<Rightarrow> files \<Rightarrow> files" where
  "move_file a b fs = (fs(b := fs a))(a := None)"

record policy_store =
  file_path :: string
  current :: "jsval option"

section \<open>Loading\<close>

definition has_policy :: "jsval \<Rightarrow> bool" where
  "has_policy p \<longleftrightarrow> truthy (jprop p ''policyVersion'') \<and> truthy (jprop p ''policy'')"

text \<open>The last part of \<open>load\<close>; every exception ends with no current policy.\<close>

definition load_file :: "(string \<Rightarrow> jsval option) \<Rightarrow> bool \<Rightarrow> files \<Rightarrow> policy_store \<Rightarrow> policy_store" where
  "load_file parse read_ok fs st =
     (case fs (file_path st) of
        None \<Rightarrow> st\<lparr>current := None\<rparr>
      | Some raw \<Rightarrow>
          (if \<not> read_ok then st\<lparr>current := None\<rparr>
           else case parse raw of
                  None \<Rightarrow> st\<lparr>current := None\<rparr>
                | Some p \<Rightarrow> if has_policy p then st\<lparr>current := Some p\<rparr> else st\<lparr>current := None\<rparr>))"

record load_faults =
  rename_ok :: bool
  read_legacy_ok :: bool
  read_ok :: bool

definition load :: "(string \<Rightarrow> jsval option) \<Rightarrow> string \<Rightarrow> load_faults \<Rightarrow> files \<times> policy_store \<Rightarrow> files \<times> policy_store" where
  "load parse legacy flt = (\<lambda>(fs, st).
     if fs (file_path st) = None \<and> legacy \<noteq> file_path st \<and> fs legacy \<noteq> None then
       (if rename_ok flt then
          (let fs' = move_file legacy (file_path st) fs in (fs', load_file parse (read_ok flt) fs' st))
        else
          (case (if read_legacy_ok flt then parse (the (fs legacy)) else None) of
             Some p \<Rightarrow> if has_policy p then (fs, st\<lparr>current := Some p\<rparr>) else (fs, load_file parse (read_ok flt) fs st)
           | None \<Rightarrow> (fs, load_file parse (read_ok flt) fs st)))
     else (fs, load_file parse (read_ok flt) fs st))"

text \<open>The getters: \<open>this.current?.k || default\<close>.\<close>

definition get_version :: "policy_store \<Rightarrow> jsval" where
  "get_version st = (case current st of
     Some p \<Rightarrow> if truthy (jprop p ''policyVersion'') then jprop p ''policyVersion'' else JStr ''none''
   | None \<Rightarrow> JStr ''none'')"

definition get_hash :: "policy_store \<Rightarrow> jsval" where
  "get_hash st = (case current st of
     Some p \<Rightarrow> if truthy (jprop p ''policyHash'') then jprop p ''policyHash'' else JNull
   | None \<Rightarrow> JNull)"

definition get_policy :: "policy_store \<Rightarrow> jsval" where
  "get_policy st = (case current st of
     Some p \<Rightarrow> if truthy (jprop p ''policy'') then jprop p ''policy'' else JNull
   | None \<Rightarrow> JNull)"

section \<open>Saving\<close>

definition stored_policy :: "string \<Rightarrow> string \<Rightarrow> jsval \<Rightarrow> string \<Rightarrow> jsval" where
  "stored_policy version hash pol now =
     JObj [(''policyVersion'', JStr version), (''policyHash'', JStr hash), (''policy'', pol), (''appliedAtUtc'', JStr now)]"

record save_faults =
  mkdir_ok :: bool
  write_result :: "string option"  \<comment> \<open>what a failing write leaves in the temporary file\<close>
  write_ok :: bool
  move_ok :: bool
  unlink_ok :: bool

definition tmp_path :: "string \<Rightarrow> string" where
  "tmp_path p = p @ ''.tmp''"

definition unlink_quietly :: "bool \<Rightarrow> string \<Rightarrow> files \<Rightarrow> files" where
  "unlink_quietly ok p fs = (if ok then fs(p := None) else fs)"

text \<open>\<open>save\<close>; \<open>False\<close> is the exception it throws.\<close>

definition save :: "(jsval \<Rightarrow> string) \<Rightarrow> save_faults \<Rightarrow> jsval \<Rightarrow> files \<times> policy_store \<Rightarrow> bool \<times> files \<times> policy_store" where
  "save pretty flt rec = (\<lambda>(fs, st).
     (let tmp = tmp_path (file_path st) in
      if \<not> mkdir_ok flt then (False, fs, st)
      else if \<not> write_ok flt then (False, unlink_quietly (unlink_ok flt) tmp (fs(tmp := write_result flt)), st)
      else (let fs1 = fs(tmp \<mapsto> pretty rec) in
            if \<not> move_ok flt then (False, unlink_quietly (unlink_ok flt) tmp fs1, st)
            else (True, move_file tmp (file_path st) fs1, st\<lparr>current := Some rec\<rparr>))))"

text \<open>
  The file systems a crash during \<open>save\<close> can leave, in order: before the write, the temporary file cut off
  anywhere, the complete temporary file, and the renamed file (the rename is atomic).
\<close>

definition save_crash_points :: "(jsval \<Rightarrow> string) \<Rightarrow> jsval \<Rightarrow> files \<times> policy_store \<Rightarrow> files list" where
  "save_crash_points pretty rec = (\<lambda>(fs, st).
     (let tmp = tmp_path (file_path st); txt = pretty rec; fs1 = fs(tmp \<mapsto> txt) in
      fs # map (\<lambda>n. fs(tmp \<mapsto> take n txt)) [0..<Suc (length txt)] @ [move_file tmp (file_path st) fs1]))"

section \<open>Properties\<close>

lemma tmp_path_neq [simp]: "tmp_path p \<noteq> p" "p \<noteq> tmp_path p"
  by (auto simp: tmp_path_def)

lemma load_file_cong: "fs (file_path st) = fs' (file_path st) \<Longrightarrow> load_file parse ok fs st = load_file parse ok fs' st"
  by (simp add: load_file_def)

lemma load_present: "fs (file_path st) \<noteq> None \<Longrightarrow> load parse legacy flt (fs, st) = (fs, load_file parse (read_ok flt) fs st)"
  unfolding load_def by auto

definition no_faults :: load_faults where
  "no_faults = \<lparr>rename_ok = True, read_legacy_ok = True, read_ok = True\<rparr>"

definition current_after_load :: "(string \<Rightarrow> jsval option) \<Rightarrow> string \<Rightarrow> files \<Rightarrow> policy_store \<Rightarrow> jsval option" where
  "current_after_load parse legacy fs st = current (snd (load parse legacy no_faults (fs, st)))"

lemma current_after_load_cong:
  assumes "fs' (file_path st) = fs (file_path st)" and "fs' legacy = fs legacy"
  shows "current_after_load parse legacy fs' st = current_after_load parse legacy fs st"
  using assms load_file_cong [of fs' st fs]
  by (simp add: current_after_load_def load_def no_faults_def Let_def move_file_def load_file_def split: option.splits)

lemma current_after_load_Some:
  "fs (file_path st) = Some raw \<Longrightarrow> parse raw = Some p \<Longrightarrow> has_policy p \<Longrightarrow> current_after_load parse legacy fs st = Some p"
  by (simp add: current_after_load_def load_present load_file_def no_faults_def)

lemma move_file_simps [simp]: "a \<noteq> b \<Longrightarrow> move_file a b fs b = fs a" "c \<noteq> a \<Longrightarrow> c \<noteq> b \<Longrightarrow> move_file a b fs c = fs c"
  by (simp_all add: move_file_def)


definition sample_pretty :: "jsval \<Rightarrow> string" where
  "sample_pretty v = plain_text show_fraction v"

definition sample_policy :: jsval where
  "sample_policy = stored_policy ''7'' ''abc'' (JObj [(''modules'', JNull)]) ''2024-01-01T00:00:00.000Z''"

definition sample_parse :: "string \<Rightarrow> jsval option" where
  "sample_parse s = (if s = sample_pretty sample_policy then Some sample_policy else None)"

lemma sample_policy_ok: "has_policy sample_policy"
  by (simp add: has_policy_def sample_policy_def stored_policy_def)


text \<open>When \<open>save\<close> throws, whichever operation failed and whatever a failing write left behind, the policy in memory,
  the policy file and the legacy file are as before, so the old policy stays in force now and after a restart; when it returns,
  the getters answer with what was saved, and a restart loads it.\<close>

theorem save_all_or_nothing:
  assumes "parse (pretty (stored_policy version hash pol now)) = Some (stored_policy version hash pol now)"
    and "version \<noteq> []" and "hash \<noteq> []" and "truthy pol" and "legacy \<noteq> tmp_path (file_path st)"
    and "save pretty flt (stored_policy version hash pol now) (fs, st) = (ok, fs', st')"
  shows "(\<not> ok \<longrightarrow> st' = st \<and> fs' (file_path st) = fs (file_path st) \<and> fs' legacy = fs legacy
            \<and> current_after_load parse legacy fs' st = current_after_load parse legacy fs st)
       \<and> (ok \<longrightarrow> get_version st' = JStr version \<and> get_hash st' = JStr hash \<and> get_policy st' = pol
            \<and> current_after_load parse legacy fs' st = current st')"
proof -
  let ?r = "stored_policy version hash pol now"
  have hp: "has_policy ?r" using assms(2,4) by (simp add: has_policy_def stored_policy_def)
  have kept: "st' = st \<and> fs' (file_path st) = fs (file_path st) \<and> fs' legacy = fs legacy" if "\<not> ok"
    using that assms(5,6) by (auto simp: save_def Let_def unlink_quietly_def split: if_splits)
  have saved: "st' = st\<lparr>current := Some ?r\<rparr> \<and> fs' (file_path st) = Some (pretty ?r)" if ok
    using that assms(6) by (auto simp: save_def Let_def split: if_splits)
  have "current_after_load parse legacy fs' st = Some ?r" if ok
    using saved [OF that] hp assms(1) by (intro current_after_load_Some) simp_all
  moreover have "current_after_load parse legacy fs' st = current_after_load parse legacy fs st" if "\<not> ok"
    using kept [OF that] by (intro current_after_load_cong) simp_all
  moreover have "get_version st' = JStr version \<and> get_hash st' = JStr hash \<and> get_policy st' = pol \<and> current st' = Some ?r" if ok
    using saved [OF that] assms(2-4) by (simp add: get_version_def get_hash_def get_policy_def stored_policy_def)
  ultimately show ?thesis using kept by simp
qed

lemma save_all_or_nothing_witness:
  "\<exists>fs' st'. save sample_pretty \<lparr>mkdir_ok = True, write_result = None, write_ok = True, move_ok = True, unlink_ok = True\<rparr>
        sample_policy ((\<lambda>p. None), \<lparr>file_path = ''/p'', current = None\<rparr>) = (True, fs', st')
      \<and> get_version st' = JStr ''7'' \<and> current_after_load sample_parse ''/old'' fs' \<lparr>file_path = ''/p'', current = None\<rparr> = current st'"
proof -
  obtain ok fs' st' where s: "save sample_pretty \<lparr>mkdir_ok = True, write_result = None, write_ok = True, move_ok = True, unlink_ok = True\<rparr>
        sample_policy ((\<lambda>p. None), \<lparr>file_path = ''/p'', current = None\<rparr>) = (ok, fs', st')"
    by (metis prod.exhaust)
  then have ok by (auto simp: save_def Let_def)
  moreover have "truthy (JObj [(''modules'', JNull)])" by simp
  ultimately show ?thesis
    using save_all_or_nothing [of sample_parse sample_pretty "''7''" "''abc''" "JObj [(''modules'', JNull)]" "''2024-01-01T00:00:00.000Z''"
        "''/old''" "\<lparr>file_path = ''/p'', current = None\<rparr>"
        "\<lparr>mkdir_ok = True, write_result = None, write_ok = True, move_ok = True, unlink_ok = True\<rparr>" "\<lambda>p. None" ok fs' st'] s
    by (simp add: sample_parse_def sample_policy_def tmp_path_def)
qed

text \<open>An upgrade from the old location: the first load moves the file, and the policy is the one it holds.\<close>

lemma load_migrates:
  assumes "fs (file_path st) = None" and "legacy \<noteq> file_path st" and "fs legacy = Some raw"
    and "parse raw = Some p" and "has_policy p" and "rename_ok flt" and "read_ok flt"
  shows "load parse legacy flt (fs, st) = (move_file legacy (file_path st) fs, st\<lparr>current := Some p\<rparr>)"
  using assms by (simp add: load_def Let_def load_file_def)

end
