(* ===== verification/Gates.thy ===== *)
theory Gates
  imports Jsval
begin

text \<open>
  The pure decision functions of \<open>src/core\<close>: inventory-send-gate.ts, compliance-send-gate.ts,
  resume-detector.ts, reset-baseline.ts, host-match.ts, startup-sequence.ts, the tick delay of scheduler.ts,
  and \<open>src/update/semver.ts\<close>. Times are milliseconds.
\<close>

section \<open>inventory-send-gate.ts and compliance-send-gate.ts\<close>

definition MAX_INVENTORY_SILENCE_MS :: rat where "MAX_INVENTORY_SILENCE_MS = 24 * 60 * 60 * 1000"
definition MAX_COMPLIANCE_SILENCE_MS :: rat where "MAX_COMPLIANCE_SILENCE_MS = 24 * 60 * 60 * 1000"

datatype send_reason = Changes | Initial | Version | Silence

text \<open>The test both gates make on the stamp of the last send; a stamp in the future counts as expired.\<close>

definition silence_exceeded :: "rat \<Rightarrow> jsnum \<Rightarrow> rat \<Rightarrow> bool" where
  "silence_exceeded limit lst now \<longleftrightarrow>
     (case lst of Fin l \<Rightarrow> l \<le> 0 \<or> l > now \<or> now - l > limit | _ \<Rightarrow> True)"

definition decide_facts_send :: "bool \<Rightarrow> bool \<Rightarrow> bool \<Rightarrow> jsnum \<Rightarrow> rat \<Rightarrow> bool \<times> send_reason list" where
  "decide_facts_send has_any_changes force_initial version_changed last_sent now =
     (let reasons = (if has_any_changes then [Changes] else []) @ (if force_initial then [Initial] else [])
            @ (if version_changed then [Version] else [])
            @ (if silence_exceeded MAX_INVENTORY_SILENCE_MS last_sent now then [Silence] else [])
      in (length reasons > 0, reasons))"

definition decide_compliance_send :: "bool \<Rightarrow> jsnum \<Rightarrow> rat \<Rightarrow> bool \<times> send_reason list" where
  "decide_compliance_send has_changes last_sent now =
     (let reasons = (if has_changes then [Changes] else [])
            @ (if silence_exceeded MAX_COMPLIANCE_SILENCE_MS last_sent now then [Silence] else [])
      in (length reasons > 0, reasons))"

definition is_true :: "jsval \<Rightarrow> bool" where
  "is_true v \<longleftrightarrow> v = JBool True"

definition policy_rows_changed :: "jsval \<Rightarrow> bool" where
  "policy_rows_changed v = (case v of
     JArr rows \<Rightarrow> list_ex (\<lambda>r. jprop r ''status'' \<noteq> JStr ''unchanged'') rows | _ \<Rightarrow> False)"

definition namespaces_have_changes :: "(string \<times> jsval) list \<Rightarrow> bool" where
  "namespaces_have_changes nss = list_ex (\<lambda>(_, ns).
     truthy ns \<and> (is_true (jprop (jprop ns ''software'') ''hasChanges'')
       \<or> is_true (jprop (jprop ns ''printers'') ''hasChanges'')
       \<or> is_true (jprop (jprop ns ''browserExtensions'') ''hasChanges'')
       \<or> policy_rows_changed (jprop (jprop ns ''browserExtensions'') ''policy'')
       \<or> is_true (jprop ns ''hasChanges''))) nss"

lemma facts_send_iff: "fst (decide_facts_send c i v l now) \<longleftrightarrow> c \<or> i \<or> v \<or> silence_exceeded MAX_INVENTORY_SILENCE_MS l now"
  by (simp add: decide_facts_send_def)

lemma compliance_send_iff: "fst (decide_compliance_send c l now) \<longleftrightarrow> c \<or> silence_exceeded MAX_COMPLIANCE_SILENCE_MS l now"
  by (simp add: decide_compliance_send_def)

lemma not_silence_exceededD:
  "\<not> silence_exceeded limit l now \<Longrightarrow> \<exists>q. l = Fin q \<and> 0 < q \<and> q \<le> now \<and> now - q \<le> limit"
  by (cases l) (auto simp: silence_exceeded_def)

section \<open>resume-detector.ts\<close>

definition RESUME_GAP_FACTOR :: int where "RESUME_GAP_FACTOR = 3"

record resume_detector =
  rd_interval :: int
  last_tick_at :: int

definition create_resume_detector :: "int \<Rightarrow> int \<Rightarrow> resume_detector" where
  "create_resume_detector interval now = \<lparr>rd_interval = interval, last_tick_at = now\<rparr>"

definition resume_check :: "resume_detector \<Rightarrow> int \<Rightarrow> int option \<times> resume_detector" where
  "resume_check d t =
     (let gap = t - last_tick_at d
      in (if gap > rd_interval d * RESUME_GAP_FACTOR then Some gap else None, d\<lparr>last_tick_at := t\<rparr>))"

text \<open>The answers over a run of ticks.\<close>

fun resume_run :: "resume_detector \<Rightarrow> int list \<Rightarrow> int option list" where
  "resume_run d [] = []"
| "resume_run d (t # ts) = (case resume_check d t of (r, d') \<Rightarrow> r # resume_run d' ts)"

text \<open>The answer at a tick depends only on the distance to the tick before: one suspension is reported once.\<close>

lemma resume_run_nth:
  "i < length ts \<Longrightarrow> resume_run d ts ! i =
     (let gap = ts ! i - (if i = 0 then last_tick_at d else ts ! (i - 1))
      in if gap > rd_interval d * RESUME_GAP_FACTOR then Some gap else None)"
proof (induction ts arbitrary: d i)
  case (Cons t ts)
  show ?case
  proof (cases i)
    case (Suc k)
    with Cons.prems Cons.IH [of k "d\<lparr>last_tick_at := t\<rparr>"] show ?thesis
      by (cases k) (simp_all add: resume_check_def Let_def)
  qed (simp add: resume_check_def Let_def)
qed simp

section \<open>reset-baseline.ts\<close>

definition AMP_BASELINE_SCOPES :: "string list" where
  "AMP_BASELINE_SCOPES = [''software'', ''printers'', ''browserExtensions'']"

datatype reset_plan = ResetOk "string list" | ResetRejected reset_error
  and reset_error = UnsupportedNamespace string | ScopesNotAnArray | UnsupportedScopes "jsval list"

text \<open>\<open>String(v || "")\<close>: \<open>text_of\<close> is \<open>String\<close> on the values that are not strings.\<close>

definition string_or_empty :: "(jsval \<Rightarrow> string) \<Rightarrow> jsval \<Rightarrow> string" where
  "string_or_empty text_of v = (if truthy v then (case v of JStr s \<Rightarrow> s | _ \<Rightarrow> text_of v) else [])"

definition plan_reset_baseline :: "(jsval \<Rightarrow> string) \<Rightarrow> jsval \<Rightarrow> reset_plan" where
  "plan_reset_baseline text_of payload =
     (let ns = to_lower (trim (string_or_empty text_of (jprop payload ''namespace'')));
          raw = jprop payload ''scopes''
      in if ns \<noteq> ''amp'' then ResetRejected (UnsupportedNamespace ns)
         else if raw = JUndef \<or> raw = JNull then ResetOk AMP_BASELINE_SCOPES
         else (case raw of
                 JArr xs \<Rightarrow>
                   (if length xs = 0 then ResetRejected ScopesNotAnArray
                    else let unknown = filter (\<lambda>s. \<not> js_includes (map JStr AMP_BASELINE_SCOPES) s) xs
                         in if length unknown > 0 then ResetRejected (UnsupportedScopes unknown)
                            else ResetOk (filter (\<lambda>s. js_includes xs (JStr s)) AMP_BASELINE_SCOPES))
               | _ \<Rightarrow> ResetRejected ScopesNotAnArray))"

lemma strict_eq_JStr [simp]: "strict_eq v (JStr s) \<longleftrightarrow> v = JStr s" "strict_eq (JStr s) v \<longleftrightarrow> v = JStr s"
  by (cases v; auto)+

lemma js_includes_JStr: "js_includes xs (JStr s) \<longleftrightarrow> JStr s \<in> set xs"
  by (auto simp: js_includes_def same_value_zero_def list_ex_iff)

lemma js_includes_strings: "js_includes (map JStr ss) v \<longleftrightarrow> v \<in> JStr ` set ss"
  by (auto simp: js_includes_def same_value_zero_def list_ex_iff)

text \<open>A reset clears exactly the baselines the job asks for: it is accepted only for the namespace amp, and then the
  scopes it clears are all three when none are named, and otherwise precisely the named ones, all of them known. A job
  with an unknown scope, an empty list or something that is no list clears nothing.\<close>

theorem reset_baseline_exact:
  "plan_reset_baseline text_of payload = ResetOk scopes \<longleftrightarrow>
     to_lower (trim (string_or_empty text_of (jprop payload ''namespace''))) = ''amp'' \<and>
     (jprop payload ''scopes'' \<in> {JUndef, JNull} \<and> scopes = AMP_BASELINE_SCOPES \<or>
      (\<exists>xs. jprop payload ''scopes'' = JArr xs \<and> xs \<noteq> [] \<and> set xs = JStr ` set scopes
          \<and> scopes = filter (\<lambda>s. s \<in> set scopes) AMP_BASELINE_SCOPES))"
    (is "?l \<longleftrightarrow> ?r")
proof (cases "\<exists>xs. jprop payload ''scopes'' = JArr xs \<and> xs \<noteq> []
    \<and> to_lower (trim (string_or_empty text_of (jprop payload ''namespace''))) = ''amp''")
  case True
  then obtain xs where xs: "jprop payload ''scopes'' = JArr xs" "xs \<noteq> []"
    "to_lower (trim (string_or_empty text_of (jprop payload ''namespace''))) = ''amp''" by blast
  let ?F = "filter (\<lambda>s. JStr s \<in> set xs) AMP_BASELINE_SCOPES"
  have "?l \<longleftrightarrow> set xs \<subseteq> JStr ` set AMP_BASELINE_SCOPES \<and> scopes = ?F"
    using xs by (auto simp: plan_reset_baseline_def Let_def js_includes_strings js_includes_JStr filter_empty_conv)
  also have "\<dots> \<longleftrightarrow> set xs = JStr ` set scopes \<and> scopes = filter (\<lambda>s. s \<in> set scopes) AMP_BASELINE_SCOPES"
    (is "?a \<longleftrightarrow> ?b")
  proof
    assume a: ?a
    then have "set xs = JStr ` set scopes" by auto
    moreover from this have "filter (\<lambda>s. s \<in> set scopes) AMP_BASELINE_SCOPES = ?F" by (intro filter_cong) auto
    ultimately show ?b using a by simp
  next
    assume b: ?b
    then have "?F = filter (\<lambda>s. s \<in> set scopes) AMP_BASELINE_SCOPES" by (intro filter_cong) auto
    moreover have "set scopes \<subseteq> set AMP_BASELINE_SCOPES" using b by (metis filter_is_subset)
    ultimately show ?a using b by auto
  qed
  finally show ?thesis using xs by auto
next
  case False
  then show ?thesis
    by (auto simp: plan_reset_baseline_def Let_def split: jsval.split_asm if_split_asm jsval.split if_split)
qed

section \<open>host-match.ts\<close>

definition host_key :: "string \<Rightarrow> string" where
  "host_key s = to_lower (trim s)"

definition short_name :: "string \<Rightarrow> string" where
  "short_name s = hd (split_on CHR ''.'' s)"

definition host_matches :: "string list \<Rightarrow> string \<Rightarrow> bool" where
  "host_matches hosts hostname =
     (let me = host_key hostname; me_short = short_name me
      in if me = [] then False
         else list_ex (\<lambda>h. let x = host_key h in
                x \<noteq> [] \<and> (x = me \<or> x = me_short \<or> short_name x = me \<or> short_name x = me_short)) hosts)"

definition sanitize_host_list :: "jsval \<Rightarrow> nat \<Rightarrow> string list" where
  "sanitize_host_list raw mx =
     (let hs = (case raw of JArr xs \<Rightarrow> xs | _ \<Rightarrow> []);
          strs = List.map_filter (\<lambda>v. case v of JStr s \<Rightarrow> Some (host_key s) | _ \<Rightarrow> None) hs;
          ok = filter (\<lambda>h. length h > 0 \<and> length h \<le> 253) strs
      in take mx (foldl (\<lambda>acc h. if h \<in> set acc then acc else acc @ [h]) [] ok))"

text \<open>\<open>x\<close> and \<open>me\<close> name the same host exactly when their short names agree.\<close>

lemma host_matches_short:
  "host_matches hosts hostname \<longleftrightarrow> host_key hostname \<noteq> []
     \<and> (\<exists>h \<in> set hosts. host_key h \<noteq> [] \<and> short_name (host_key h) = short_name (host_key hostname))"
proof -
  have short: "short_name (short_name x) = short_name x" for x
    by (simp add: short_name_def split_on_no_sep [OF split_on_parts_no_sep [of "hd (split_on CHR ''.'' x)" _ x]])
  show ?thesis unfolding host_matches_def list_ex_iff Let_def using short by (smt (verit, ccfv_SIG))
qed

section \<open>startup-sequence.ts\<close>

definition STARTUP_PATCH_MIN_UPTIME_MS :: rat where "STARTUP_PATCH_MIN_UPTIME_MS = 10 * 60000"
definition STARTUP_STEP_CAP_MS :: int where "STARTUP_STEP_CAP_MS = 10 * 60000"

definition startup_patch_delay_ms :: "jsnum \<Rightarrow> rat \<Rightarrow> int" where
  "startup_patch_delay_ms uptime min_uptime = (case uptime of
     Fin u \<Rightarrow> if u < 0 then 0 else max 0 \<lceil>min_uptime - u * 1000\<rceil>
   | _ \<Rightarrow> 0)"

text \<open>After the wait the machine has been up long enough; the wait is at most the minimum.\<close>

lemma startup_patch_delay_bounds:
  assumes "0 \<le> u"
  shows "min_uptime \<le> u * 1000 + of_int (startup_patch_delay_ms (Fin u) min_uptime)"
    and "0 \<le> min_uptime \<Longrightarrow> startup_patch_delay_ms (Fin u) min_uptime \<le> \<lceil>min_uptime\<rceil>"
proof -
  have "min_uptime - u * 1000 \<le> of_int \<lceil>min_uptime - u * 1000\<rceil>" by simp
  also have "\<dots> \<le> of_int (max 0 \<lceil>min_uptime - u * 1000\<rceil>)" by simp
  finally show "min_uptime \<le> u * 1000 + of_int (startup_patch_delay_ms (Fin u) min_uptime)"
    using assms by (simp add: startup_patch_delay_ms_def algebra_simps)
  assume "0 \<le> min_uptime"
  moreover have "\<lceil>min_uptime - u * 1000\<rceil> \<le> \<lceil>min_uptime\<rceil>" using assms by (intro ceiling_mono) simp
  ultimately show "startup_patch_delay_ms (Fin u) min_uptime \<le> \<lceil>min_uptime\<rceil>"
    using assms by (simp add: startup_patch_delay_ms_def)
qed

section \<open>The tick delay of scheduler.ts\<close>

definition INITIAL_INVENTORY_DELAY_MS :: int where "INITIAL_INVENTORY_DELAY_MS = 45 * 1000"
definition INITIAL_TICK_SPREAD_MS :: int where "INITIAL_TICK_SPREAD_MS = 5 * 60 * 1000"

definition compute_tick_delay :: "int \<Rightarrow> int \<Rightarrow> int option \<Rightarrow> rat \<Rightarrow> int" where
  "compute_tick_delay base_interval jitter_range first_delay rnd =
     (let spread = (case first_delay of Some _ \<Rightarrow> INITIAL_TICK_SPREAD_MS | None \<Rightarrow> jitter_range);
          base = (case first_delay of Some d \<Rightarrow> d | None \<Rightarrow> base_interval)
      in base + \<lfloor>rnd * of_int spread\<rfloor>)"

lemma floor_fraction:
  assumes "0 \<le> rnd" and "rnd < (1 :: rat)" and "0 < n"
  shows "0 \<le> \<lfloor>rnd * of_int n\<rfloor>" and "\<lfloor>rnd * of_int n\<rfloor> < n"
proof -
  show "0 \<le> \<lfloor>rnd * of_int n\<rfloor>" using assms by simp
  have "rnd * of_int n < 1 * of_int n" using assms by (intro mult_strict_right_mono) auto
  then show "\<lfloor>rnd * of_int n\<rfloor> < n" by (simp add: floor_less_iff)
qed

section \<open>semver.ts\<close>

definition segment_value :: "string \<Rightarrow> rat" where
  "segment_value s = (case js_number s of Fin q \<Rightarrow> q | _ \<Rightarrow> 0)"

definition parse_version :: "string \<Rightarrow> rat list" where
  "parse_version v = map segment_value (split_on CHR ''.'' v)"

definition segment_at :: "rat list \<Rightarrow> nat \<Rightarrow> rat" where
  "segment_at xs i = (if i < length xs then xs ! i else 0)"

function semver_loop :: "rat list \<Rightarrow> rat list \<Rightarrow> nat \<Rightarrow> nat \<Rightarrow> int" where
  "semver_loop av bv len i =
     (if i < len then
        (if segment_at av i \<noteq> segment_at bv i then (if segment_at av i > segment_at bv i then 1 else -1)
         else semver_loop av bv len (i + 1))
      else 0)"
  by pat_completeness auto
termination
  by (relation "measure (\<lambda>(a, b, len, i). len - i)") auto

declare semver_loop.simps [simp del]

definition compare_semver :: "string \<Rightarrow> string \<Rightarrow> int" where
  "compare_semver a b =
     (let av = parse_version a; bv = parse_version b
      in semver_loop av bv (max (length av) (length bv)) 0)"

definition is_alnum :: "char \<Rightarrow> bool" where
  "is_alnum c \<longleftrightarrow> is_digit c \<or> (65 \<le> char_code c \<and> char_code c \<le> 90) \<or> (97 \<le> char_code c \<and> char_code c \<le> 122)"

text \<open>\<open>/^\d+\.\d+\.\d+([.-][A-Za-z0-9]+)?$/\<close>\<close>

definition after_number :: "string \<Rightarrow> string option" where
  "after_number s = (if takeWhile is_digit s = [] then None else Some (dropWhile is_digit s))"

definition after_point :: "string \<Rightarrow> string option" where
  "after_point s = (case s of c # r \<Rightarrow> if c = CHR ''.'' then after_number r else None | [] \<Rightarrow> None)"

definition looks_like_semver :: "string \<Rightarrow> bool" where
  "looks_like_semver v =
     (case Option.bind (Option.bind (after_number v) after_point) after_point of
        None \<Rightarrow> False
      | Some [] \<Rightarrow> True
      | Some (c # r) \<Rightarrow> (c = CHR ''.'' \<or> c = CHR ''-'') \<and> r \<noteq> [] \<and> list_all is_alnum r)"

text \<open>The order \<open>compareSemver\<close> decides: lexicographic on the segments, missing ones being zero.\<close>

definition seg :: "string \<Rightarrow> nat \<Rightarrow> rat" where
  "seg v = segment_at (parse_version v)"

definition first_less :: "(nat \<Rightarrow> rat) \<Rightarrow> (nat \<Rightarrow> rat) \<Rightarrow> bool" where
  "first_less x y \<longleftrightarrow> (\<exists>i. (\<forall>j < i. x j = y j) \<and> x i < y i)"

definition seg_less :: "string \<Rightarrow> string \<Rightarrow> bool" where
  "seg_less a b \<longleftrightarrow> first_less (seg a) (seg b)"

lemma semver_loop_cases:
  assumes "\<forall>j < i. segment_at av j = segment_at bv j" and "length av \<le> len" and "length bv \<le> len"
  shows "(semver_loop av bv len i = 0 \<and> segment_at av = segment_at bv)
    \<or> (semver_loop av bv len i = 1 \<and> first_less (segment_at bv) (segment_at av))
    \<or> (semver_loop av bv len i = -1 \<and> first_less (segment_at av) (segment_at bv))"
  using assms
proof (induction av bv len i rule: semver_loop.induct)
  case (1 av bv len i)
  show ?case
  proof (cases "i < len \<and> segment_at av i = segment_at bv i")
    case True
    with "1.prems" have "\<forall>j < i + 1. segment_at av j = segment_at bv j" by (auto simp: less_Suc_eq)
    with True "1.IH" "1.prems" show ?thesis by (subst (1 2 3) semver_loop.simps) auto
  next
    case False
    then show ?thesis
    proof (cases "i < len")
      case True
      with False have "segment_at av i < segment_at bv i \<or> segment_at bv i < segment_at av i" by auto
      moreover have "first_less (segment_at av) (segment_at bv)" if "segment_at av i < segment_at bv i"
        using that "1.prems"(1) by (auto simp: first_less_def)
      moreover have "first_less (segment_at bv) (segment_at av)" if "segment_at bv i < segment_at av i"
        using that "1.prems"(1) unfolding first_less_def by metis
      ultimately show ?thesis using True by (subst (1 2 3) semver_loop.simps) auto
    next
      case len: False
      have "segment_at av j = segment_at bv j" for j
        using "1.prems" len by (cases "j < i") (auto simp: segment_at_def)
      then have "segment_at av = segment_at bv" by (rule ext)
      with len show ?thesis by (subst semver_loop.simps) simp
    qed
  qed
qed

lemma compare_semver_cases:
  "(compare_semver a b = 0 \<and> seg a = seg b) \<or> (compare_semver a b = 1 \<and> seg_less b a) \<or> (compare_semver a b = -1 \<and> seg_less a b)"
  using semver_loop_cases [of 0 "parse_version a" "parse_version b" "max (length (parse_version a)) (length (parse_version b))"]
  by (simp add: compare_semver_def Let_def seg_less_def seg_def)

lemma seg_less_irrefl: "seg_less a b \<Longrightarrow> seg a \<noteq> seg b"
  by (auto simp: seg_less_def first_less_def)

lemma seg_less_trans: "seg_less a b \<Longrightarrow> seg_less b c \<Longrightarrow> seg_less a c"
  unfolding seg_less_def first_less_def by (metis linorder_neqE_nat order_less_trans)

lemma seg_less_asym: "seg_less a b \<Longrightarrow> \<not> seg_less b a"
  using seg_less_trans seg_less_irrefl by blast

lemma seg_less_cong: "seg a = seg a' \<Longrightarrow> seg b = seg b' \<Longrightarrow> seg_less a b = seg_less a' b'"
  by (simp add: seg_less_def)

lemma compare_semver_iff:
  "compare_semver a b = 0 \<longleftrightarrow> seg a = seg b" "compare_semver a b = 1 \<longleftrightarrow> seg_less b a" "compare_semver a b = -1 \<longleftrightarrow> seg_less a b"
  using compare_semver_cases [of a b] seg_less_irrefl [of a b] seg_less_irrefl [of b a] seg_less_asym [of a b] by auto

text \<open>\<open>compareSemver\<close> is a total order on version strings up to equal segments: its sign flips when the arguments are
  swapped, "not older" is transitive, and two versions compare equal exactly when all their numeric segments agree, a missing
  segment or one that is no finite number counting as 0. So choosing the newest of several versions does not depend on the
  order they are compared in.\<close>

theorem compare_semver_total_order:
  "compare_semver b a = - compare_semver a b
   \<and> (compare_semver a b = 0 \<longleftrightarrow> (\<forall>i. segment_at (parse_version a) i = segment_at (parse_version b) i))
   \<and> (compare_semver a b < 0 \<or> compare_semver b c < 0 \<or> 0 \<le> compare_semver a c)"
proof (intro conjI)
  show "compare_semver b a = - compare_semver a b"
    using compare_semver_cases [of a b] compare_semver_iff [of b a] by auto
  show "compare_semver a b = 0 \<longleftrightarrow> (\<forall>i. segment_at (parse_version a) i = segment_at (parse_version b) i)"
    by (auto simp: compare_semver_iff seg_def fun_eq_iff)
  have "seg_less a c \<Longrightarrow> seg_less a b \<or> seg_less b c"
    using compare_semver_cases [of a b] compare_semver_cases [of b c] seg_less_trans seg_less_cong by metis
  then show "compare_semver a b < 0 \<or> compare_semver b c < 0 \<or> 0 \<le> compare_semver a c"
    using compare_semver_cases [of a b] compare_semver_cases [of b c] compare_semver_cases [of a c]
    by (auto simp: compare_semver_iff(3) [symmetric])
qed

lemma semver_release_candidate: "parse_version ''1.1.0-rc1'' = [1, 1, 0]"
  by (simp add: parse_version_def segment_value_def js_number_def trim_def is_space_def char_code_def to_lower_def lower_char_def
      decimal_value_def is_digit_def exponent_value_def digits_value_def digit_val_def pow10_def Let_def)

end
