(* ===== verification/Pipeline_Plan.thy ===== *)
theory Pipeline_Plan
  imports Prelude
begin

text \<open>
  Which pipelines are armed and what a policy change does to them: \<open>src/core/pipeline-plan.ts\<close>.
  \<open>policy_view\<close> is the interface \<open>PlanSource\<close>, with the two lists of the capability signature.
\<close>

datatype pipeline_key = Inventory | Update | Compliance | Cdp | Patch

definition PIPELINE_KEYS :: "pipeline_key list" where
  "PIPELINE_KEYS = [Inventory, Update, Compliance, Cdp, Patch]"

record pipeline_state =
  armed :: bool
  effective :: bool
  interval_seconds :: int

type_synonym pipeline_plan = "pipeline_key \<Rightarrow> pipeline_state"

record policy_view =
  inventory_enabled :: bool
  update_enabled :: bool
  compliance_enabled :: bool
  patch_enabled :: bool
  inventory_interval :: int
  update_interval :: int
  compliance_interval :: int
  cdp_interval :: int
  patch_interval :: int
  enabled_plugins :: "string list"
  enabled_modules :: "string list"

text \<open>\<open>PolicyRuntime.pluginEnabled\<close>.\<close>

definition plugin_enabled :: "policy_view \<Rightarrow> string \<Rightarrow> bool" where
  "plugin_enabled p name \<longleftrightarrow> name \<in> set (enabled_plugins p)"

fun read_pipeline_plan :: "policy_view \<Rightarrow> pipeline_plan" where
  "read_pipeline_plan p Inventory =
     \<lparr>armed = inventory_enabled p, effective = inventory_enabled p \<and> plugin_enabled p ''amp'', interval_seconds = inventory_interval p\<rparr>"
| "read_pipeline_plan p Update =
     \<lparr>armed = update_enabled p, effective = update_enabled p, interval_seconds = update_interval p\<rparr>"
| "read_pipeline_plan p Compliance =
     \<lparr>armed = compliance_enabled p, effective = compliance_enabled p \<and> plugin_enabled p ''scp'', interval_seconds = compliance_interval p\<rparr>"
| "read_pipeline_plan p Cdp =
     \<lparr>armed = plugin_enabled p ''cdp'', effective = plugin_enabled p ''cdp'', interval_seconds = cdp_interval p\<rparr>"
| "read_pipeline_plan p Patch =
     \<lparr>armed = patch_enabled p, effective = patch_enabled p \<and> plugin_enabled p ''pmp'', interval_seconds = patch_interval p\<rparr>"

definition needs_rearm :: "pipeline_plan option \<Rightarrow> pipeline_plan \<Rightarrow> pipeline_key \<Rightarrow> bool" where
  "needs_rearm prev nxt k = (case prev of
     None \<Rightarrow> True
   | Some p \<Rightarrow> armed (p k) \<noteq> armed (nxt k) \<or> (armed (nxt k) \<and> interval_seconds (p k) \<noteq> interval_seconds (nxt k)))"

definition becomes_effective :: "pipeline_plan option \<Rightarrow> pipeline_plan \<Rightarrow> pipeline_key \<Rightarrow> bool" where
  "becomes_effective prev nxt k \<longleftrightarrow> effective (nxt k) \<and> \<not> (case prev of None \<Rightarrow> False | Some p \<Rightarrow> effective (p k))"

text \<open>\<open>diffPipelinePlan\<close>: the keys to re-arm and the keys to run now, in the order of \<open>PIPELINE_KEYS\<close>.\<close>

definition diff_pipeline_plan :: "pipeline_plan option \<Rightarrow> pipeline_plan \<Rightarrow> pipeline_key list \<times> pipeline_key list" where
  "diff_pipeline_plan prev nxt = (filter (needs_rearm prev nxt) PIPELINE_KEYS, filter (becomes_effective prev nxt) PIPELINE_KEYS)"

definition capability_signature :: "string list \<Rightarrow> string list \<Rightarrow> string" where
  "capability_signature plugins modules = join_with '','' (sort plugins) @ ''|'' @ join_with '','' (sort modules)"

section \<open>Lemmas\<close>

lemma all_keys [simp]: "k \<in> set PIPELINE_KEYS"
  by (cases k) (simp_all add: PIPELINE_KEYS_def)

lemma pipeline_keys_distinct [simp]: "distinct PIPELINE_KEYS"
  by (simp add: PIPELINE_KEYS_def)

lemma diff_same: "diff_pipeline_plan (Some p) p = ([], [])"
  by (simp add: diff_pipeline_plan_def needs_rearm_def becomes_effective_def filter_empty_conv del: filter_False)

text \<open>A pipeline that does work is armed, so a key to run now has its timer.\<close>

lemma effective_armed: "effective (read_pipeline_plan p k) \<Longrightarrow> armed (read_pipeline_plan p k)"
  by (cases k) auto

end
