(* ===== verification/Scheduler.thy ===== *)
theory Scheduler
  imports Gates Pipeline_Plan
begin

text \<open>
  The scheduler of the agent: \<open>src/core/scheduler.ts\<close>, its timers, its guards against overlapping runs, the
  policy reconciliation and the startup sequence.

  The program is single-threaded and asynchronous. A step of the model is the code from one suspension point
  (\<open>await\<close>, or the return to the event loop) to the next; the pending continuations are part of the state:
  the live timeouts of the event loop, the pipeline runs waiting for their plugin, and the startup sequences. Times are
  milliseconds; the policy a step reads, the clock, the uptime and the random numbers are arguments of the step.
\<close>

section \<open>State\<close>

record timeout =
  t_id :: nat
  t_key :: pipeline_key
  t_base :: int
  t_delay :: int

text \<open>Where a startup sequence waits: for the machine's uptime before a key, or for a run (or its cap) to end.\<close>

datatype startup_wait = Uptime pipeline_key "pipeline_key list" | RunOrCap "pipeline_key list"

record scheduler =
  timers :: "(pipeline_key \<times> nat) list"
  pipeline_active :: "pipeline_key set"
  has_ctx :: bool
  running :: "pipeline_key \<Rightarrow> bool"
  started_at :: "pipeline_key \<Rightarrow> int"
  initial_inventory_sent :: bool
  dex :: bool
  plan :: "pipeline_plan option"
  capability_sig :: "string option"
  startup_gen :: nat
  startup_pending :: "pipeline_key set"
  policy_listeners :: "string list"
  live :: "timeout list"
  next_timeout :: nat
  runs :: "(nat \<times> pipeline_key) list"
  next_run :: nat
  registered :: "string list"
  sequences :: "(nat \<times> startup_wait) list"

definition new_scheduler :: scheduler where
  "new_scheduler = \<lparr>timers = [], pipeline_active = {}, has_ctx = False, running = (\<lambda>_. False), started_at = (\<lambda>_. 0),
     initial_inventory_sent = False, dex = False, plan = None, capability_sig = None, startup_gen = 0, startup_pending = {},
     policy_listeners = [], live = [], next_timeout = 0, runs = [], next_run = 0, registered = [], sequences = []\<rparr>"

text \<open>What a step sees of its surroundings.\<close>

record env =
  e_policy :: policy_view
  e_now :: int
  e_uptime :: jsnum
  e_random :: "pipeline_key \<Rightarrow> rat"
  e_dex_ok :: bool

section \<open>Runs of a pipeline\<close>

definition WORKER_STUCK_TIMEOUT_MS :: int where "WORKER_STUCK_TIMEOUT_MS = 30 * 60 * 1000"

text \<open>\<open>checkStuckWorker\<close>: proceed, clear the guard of a stuck run.\<close>

definition check_stuck_worker :: "bool \<Rightarrow> int \<Rightarrow> int \<Rightarrow> bool \<times> bool" where
  "check_stuck_worker is_running since now =
     (if \<not> is_running then (True, False)
      else if now - since > WORKER_STUCK_TIMEOUT_MS then (True, True)
      else (False, False))"

text \<open>The guards on the policy at the head of each \<open>run*\<close>.\<close>

fun run_allowed :: "policy_view \<Rightarrow> pipeline_key \<Rightarrow> bool" where
  "run_allowed p Inventory = (inventory_enabled p \<and> plugin_enabled p ''amp'')"
| "run_allowed p Compliance = (compliance_enabled p \<and> plugin_enabled p ''scp'')"
| "run_allowed p Cdp = plugin_enabled p ''cdp''"
| "run_allowed p Update = update_enabled p"
| "run_allowed p Patch = (patch_enabled p \<and> plugin_enabled p ''pmp'')"

text \<open>\<open>runPipeline\<close> up to the first \<open>await\<close> of its body; the run it starts is pending.\<close>

definition run_pipeline :: "env \<Rightarrow> pipeline_key \<Rightarrow> scheduler \<Rightarrow> scheduler" where
  "run_pipeline e k s =
     (if \<not> run_allowed (e_policy e) k then s
      else case check_stuck_worker (running s k) (started_at s k) (e_now e) of (proceed, clear_stuck) \<Rightarrow>
        if \<not> proceed then s
        else s\<lparr>running := (running s)(k := True), started_at := (started_at s)(k := e_now e),
               runs := runs s @ [(next_run s, k)], next_run := next_run s + 1\<rparr>)"

text \<open>The \<open>finally\<close> of a run, whichever way it ends.\<close>

definition end_run :: "nat \<Rightarrow> scheduler \<Rightarrow> scheduler" where
  "end_run i s = (case map_of (runs s) i of
     None \<Rightarrow> s
   | Some k \<Rightarrow> s\<lparr>running := (running s)(k := False), started_at := (started_at s)(k := 0),
                 runs := filter (\<lambda>r. fst r \<noteq> i) (runs s)\<rparr>)"

section \<open>Timers\<close>

definition clear_timeout :: "nat \<Rightarrow> scheduler \<Rightarrow> scheduler" where
  "clear_timeout i s = s\<lparr>live := filter (\<lambda>t. t_id t \<noteq> i) (live s)\<rparr>"

definition arm_jittered_pipeline :: "env \<Rightarrow> pipeline_key \<Rightarrow> int \<Rightarrow> int \<Rightarrow> int option \<Rightarrow> scheduler \<Rightarrow> scheduler" where
  "arm_jittered_pipeline e k base_interval jitter first_delay s =
     (if k \<notin> pipeline_active s then s
      else s\<lparr>live := live s @ [\<lparr>t_id = next_timeout s, t_key = k, t_base = base_interval,
                 t_delay = compute_tick_delay base_interval jitter first_delay (e_random e k)\<rparr>],
             timers := map_set (timers s) k (next_timeout s), next_timeout := next_timeout s + 1\<rparr>)"

definition JITTER_MS :: int where "JITTER_MS = 30000"

definition arm_pipeline :: "env \<Rightarrow> pipeline_key \<Rightarrow> int \<Rightarrow> bool \<Rightarrow> scheduler \<Rightarrow> scheduler" where
  "arm_pipeline e k interval initial s =
     arm_jittered_pipeline e k (interval * 1000) JITTER_MS
       (if initial \<and> k = Inventory then Some INITIAL_INVENTORY_DELAY_MS else None)
       (s\<lparr>pipeline_active := insert k (pipeline_active s)\<rparr>)"

text \<open>The callback of a timeout; it re-arms the pipeline when it is still active.\<close>

definition fire :: "env \<Rightarrow> nat \<Rightarrow> scheduler \<Rightarrow> scheduler" where
  "fire e i s = (case find (\<lambda>t. t_id t = i) (live s) of
     None \<Rightarrow> s
   | Some t \<Rightarrow>
       arm_jittered_pipeline e (t_key t) (t_base t) JITTER_MS None
         (run_pipeline e (t_key t)
           (clear_timeout i s\<lparr>timers := AList.delete (t_key t) (timers s)\<rparr>)))"

definition stop_pipeline :: "pipeline_key \<Rightarrow> scheduler \<Rightarrow> scheduler" where
  "stop_pipeline k s =
     (let s1 = s\<lparr>pipeline_active := pipeline_active s - {k}\<rparr>;
          s2 = (case map_of (timers s) k of Some i \<Rightarrow> clear_timeout i s1 | None \<Rightarrow> s1)
      in s2\<lparr>timers := AList.delete k (timers s2)\<rparr>)"

definition stop_all :: "scheduler \<Rightarrow> scheduler" where
  "stop_all s =
     (foldl (\<lambda>s (k, i). clear_timeout i s)
        (s\<lparr>startup_gen := startup_gen s + 1, startup_pending := {}, pipeline_active := {}\<rparr>) (timers s))\<lparr>timers := []\<rparr>"

section \<open>The startup sequence\<close>

definition STARTUP_SERIAL_ORDER :: "pipeline_key list" where
  "STARTUP_SERIAL_ORDER = [Compliance, Cdp, Patch]"

definition is_armed :: "scheduler \<Rightarrow> pipeline_key \<Rightarrow> bool" where
  "is_armed s k = (case plan s of None \<Rightarrow> False | Some p \<Rightarrow> armed (p k))"

definition suspend_sequence :: "nat \<Rightarrow> startup_wait \<Rightarrow> scheduler \<Rightarrow> scheduler" where
  "suspend_sequence g w s = s\<lparr>sequences := sequences s @ [(g, w)]\<rparr>"

text \<open>
  The loop of \<open>runStartupSequence\<close> from the head of an iteration to the next \<open>await\<close>; \<open>waited\<close> says
  that the uptime wait of the first key is over.
\<close>

fun startup_loop :: "env \<Rightarrow> nat \<Rightarrow> bool \<Rightarrow> pipeline_key list \<Rightarrow> scheduler \<Rightarrow> scheduler" where
  "startup_loop e g waited [] s = s"
| "startup_loop e g waited (k # ks) s =
     (if g \<noteq> startup_gen s then s
      else if \<not> waited \<and> k = Patch \<and> startup_patch_delay_ms (e_uptime e) STARTUP_PATCH_MIN_UPTIME_MS > 0
      then suspend_sequence g (Uptime k ks) s
      else
        (let s1 = s\<lparr>startup_pending := startup_pending s - {k}\<rparr>
         in if \<not> is_armed s1 k then startup_loop e g False ks s1
            else suspend_sequence g (RunOrCap ks) (run_pipeline e k s1)))"

definition run_startup_sequence :: "env \<Rightarrow> scheduler \<Rightarrow> scheduler" where
  "run_startup_sequence e s =
     (let g = startup_gen s + 1
      in startup_loop e g False STARTUP_SERIAL_ORDER
           (s\<lparr>startup_gen := g, startup_pending := set STARTUP_SERIAL_ORDER\<rparr>))"

text \<open>A sequence goes on: its wait is over, or the run it waits for has ended or passed its cap.\<close>

definition resume_sequence :: "env \<Rightarrow> nat \<Rightarrow> scheduler \<Rightarrow> scheduler" where
  "resume_sequence e n s =
     (if n < length (sequences s) then
        (let (g, w) = sequences s ! n;
             s1 = s\<lparr>sequences := take n (sequences s) @ drop (Suc n) (sequences s)\<rparr>
         in case w of
              Uptime k ks \<Rightarrow> startup_loop e g True (k # ks) s1
            | RunOrCap ks \<Rightarrow> startup_loop e g False ks s1)
      else s)"

section \<open>Starting, reconciling, stopping\<close>

definition sig_of :: "policy_view \<Rightarrow> string" where
  "sig_of p = capability_signature (enabled_plugins p) (enabled_modules p)"

definition start_one :: "env \<Rightarrow> pipeline_plan \<Rightarrow> scheduler \<Rightarrow> pipeline_key \<Rightarrow> scheduler" where
  "start_one e p s k = (if \<not> armed (p k) then s else arm_pipeline e k (interval_seconds (p k)) True s)"

definition start_pipelines :: "env \<Rightarrow> scheduler \<Rightarrow> scheduler" where
  "start_pipelines e s =
     (let p = read_pipeline_plan (e_policy e);
          s1 = (stop_all s)\<lparr>plan := Some p, capability_sig := Some (sig_of (e_policy e))\<rparr>;
          s2 = foldl (start_one e p) s1 PIPELINE_KEYS;
          s3 = (if armed (p Update) then run_pipeline e Update s2 else s2)
      in run_startup_sequence e s3)"

text \<open>The bodies of the two loops of \<open>reconcilePipelines\<close>.\<close>

definition rearm_one :: "env \<Rightarrow> pipeline_plan \<Rightarrow> scheduler \<Rightarrow> pipeline_key \<Rightarrow> scheduler" where
  "rearm_one e nxt s k = (let s' = stop_pipeline k s
     in if armed (nxt k) then arm_pipeline e k (interval_seconds (nxt k)) False s' else s')"

definition run_one_now :: "env \<Rightarrow> scheduler \<Rightarrow> pipeline_key \<Rightarrow> scheduler" where
  "run_one_now e s k = (if k = Inventory then s else if k \<in> startup_pending s then s else run_pipeline e k s)"

definition reconcile_pipelines :: "env \<Rightarrow> scheduler \<Rightarrow> scheduler" where
  "reconcile_pipelines e s =
     (let nxt = read_pipeline_plan (e_policy e);
          (rearm, run_now) = diff_pipeline_plan (plan s) nxt;
          sig = sig_of (e_policy e);
          capabilities_changed = (capability_sig s \<noteq> Some sig);
          s1 = s\<lparr>plan := Some nxt, capability_sig := Some sig\<rparr>
      in if length rearm = 0 \<and> length run_now = 0 \<and> \<not> capabilities_changed then s1
         else
           (let s2 = foldl (rearm_one e nxt) s1 rearm;
                s3 = foldl (run_one_now e) s2 run_now
            in if Inventory \<in> set run_now \<or> capabilities_changed then run_pipeline e Inventory s3 else s3))"

definition clear_policy_listeners :: "scheduler \<Rightarrow> scheduler" where
  "clear_policy_listeners s =
     (if \<not> has_ctx s then s\<lparr>policy_listeners := []\<rparr>
      else s\<lparr>registered := foldl (\<lambda>r ev. remove1 ev r) (registered s) (policy_listeners s), policy_listeners := []\<rparr>)"

definition POLICY_EVENTS :: "string list" where
  "POLICY_EVENTS = [''inventoryIntervalChanged'', ''updateIntervalChanged'', ''complianceIntervalChanged'',
     ''cdpIntervalChanged'', ''patchIntervalChanged'', ''pluginsChanged'', ''modulesChanged'', ''featuresChanged'']"

definition add_policy_listener :: "scheduler \<Rightarrow> string \<Rightarrow> scheduler" where
  "add_policy_listener s ev = s\<lparr>registered := registered s @ [ev], policy_listeners := policy_listeners s @ [ev]\<rparr>"

text \<open>\<open>start\<close> in its two halves, before and after \<open>await this.runInventory(ctx)\<close>.\<close>

definition start_begin :: "env \<Rightarrow> scheduler \<Rightarrow> scheduler" where
  "start_begin e s = run_pipeline e Inventory ((clear_policy_listeners s)\<lparr>has_ctx := True, initial_inventory_sent := False\<rparr>)"

definition start_resume :: "env \<Rightarrow> scheduler \<Rightarrow> scheduler" where
  "start_resume e s = foldl add_policy_listener ((start_pipelines e s)\<lparr>dex := e_dex_ok e\<rparr>) POLICY_EVENTS"

definition stop :: "scheduler \<Rightarrow> scheduler" where
  "stop s = (clear_policy_listeners (stop_all (s\<lparr>dex := False\<rparr>)))\<lparr>has_ctx := False\<rparr>"

definition reload :: "env \<Rightarrow> scheduler \<Rightarrow> scheduler" where
  "reload e s = (if \<not> has_ctx s then s else start_pipelines e s)"

section \<open>Steps\<close>

datatype sched_event =
    StartBegin env
  | StartResume env
  | Stop
  | Reload env
  | PolicyEvent env string
  | Fire env nat
  | SequenceResumes env nat
  | RunEnds nat
  | SnapshotSent

fun sched_step :: "scheduler \<Rightarrow> sched_event \<Rightarrow> scheduler" where
  "sched_step s (StartBegin e) = start_begin e s"
| "sched_step s (StartResume e) = start_resume e s"
| "sched_step s Stop = stop s"
| "sched_step s (Reload e) = reload e s"
| "sched_step s (PolicyEvent e ev) = (if ev \<in> set (registered s) then reconcile_pipelines e s else s)"
| "sched_step s (Fire e i) = fire e i s"
| "sched_step s (SequenceResumes e n) = resume_sequence e n s"
| "sched_step s (RunEnds i) = end_run i s"
| "sched_step s SnapshotSent = s\<lparr>initial_inventory_sent := True\<rparr>"

abbreviation sched_run :: "scheduler \<Rightarrow> sched_event list \<Rightarrow> scheduler" where
  "sched_run s es \<equiv> foldl sched_step s es"

section \<open>Frames\<close>

text \<open>Timer operations and runs touch disjoint parts of the state.\<close>

definition frame_timers :: "scheduler \<Rightarrow> scheduler \<Rightarrow> bool" where
  "frame_timers s s' \<longleftrightarrow> s' = s\<lparr>timers := timers s', live := live s', next_timeout := next_timeout s',
     pipeline_active := pipeline_active s'\<rparr>"

definition frame_runs :: "scheduler \<Rightarrow> scheduler \<Rightarrow> bool" where
  "frame_runs s s' \<longleftrightarrow> s' = s\<lparr>running := running s', started_at := started_at s', runs := runs s', next_run := next_run s'\<rparr>"

lemma frame_timers_iff:
  "frame_timers s s' \<longleftrightarrow> has_ctx s' = has_ctx s \<and> running s' = running s \<and> started_at s' = started_at s
     \<and> initial_inventory_sent s' = initial_inventory_sent s \<and> dex s' = dex s \<and> plan s' = plan s
     \<and> capability_sig s' = capability_sig s \<and> startup_gen s' = startup_gen s \<and> startup_pending s' = startup_pending s
     \<and> policy_listeners s' = policy_listeners s \<and> runs s' = runs s \<and> next_run s' = next_run s \<and> registered s' = registered s
     \<and> sequences s' = sequences s"
  by (cases s; cases s') (auto simp: frame_timers_def)

lemma frame_runs_iff:
  "frame_runs s s' \<longleftrightarrow> timers s' = timers s \<and> pipeline_active s' = pipeline_active s \<and> has_ctx s' = has_ctx s
     \<and> initial_inventory_sent s' = initial_inventory_sent s \<and> dex s' = dex s \<and> plan s' = plan s
     \<and> capability_sig s' = capability_sig s \<and> startup_gen s' = startup_gen s \<and> startup_pending s' = startup_pending s
     \<and> policy_listeners s' = policy_listeners s \<and> live s' = live s \<and> next_timeout s' = next_timeout s \<and> registered s' = registered s
     \<and> sequences s' = sequences s"
  by (cases s; cases s') (auto simp: frame_runs_def)

lemma frame_timers_refl [simp]: "frame_timers s s" and frame_runs_refl [simp]: "frame_runs s s"
  by (simp_all add: frame_timers_iff frame_runs_iff)

lemma frame_timers_trans: "frame_timers s t \<Longrightarrow> frame_timers t u \<Longrightarrow> frame_timers s u"
  by (simp add: frame_timers_iff)

lemma frame_runs_trans: "frame_runs s t \<Longrightarrow> frame_runs t u \<Longrightarrow> frame_runs s u"
  by (simp add: frame_runs_iff)

lemma frame_clear_timeout: "frame_timers s (clear_timeout i s)"
  by (simp add: frame_timers_iff clear_timeout_def)

lemma frame_stop_pipeline: "frame_timers s (stop_pipeline k s)"
  by (auto simp: frame_timers_iff clear_timeout_def stop_pipeline_def Let_def split: option.splits)

lemma frame_arm_pipeline: "frame_timers s (arm_pipeline e k i ini s)"
  by (simp add: frame_timers_iff arm_pipeline_def arm_jittered_pipeline_def)

lemma frame_run_pipeline: "frame_runs s (run_pipeline e k s)"
  by (simp add: frame_runs_iff run_pipeline_def split: prod.splits)

lemma frame_timers_foldl: "(\<And>s k. frame_timers s (f s k)) \<Longrightarrow> frame_timers s (foldl f s ks)"
proof (induction ks arbitrary: s)
  case (Cons k ks)
  then show ?case using frame_timers_trans [of s "f s k"] by simp
qed simp

lemma frame_runs_foldl: "(\<And>s k. frame_runs s (f s k)) \<Longrightarrow> frame_runs s (foldl f s ks)"
proof (induction ks arbitrary: s)
  case (Cons k ks)
  then show ?case using frame_runs_trans [of s "f s k"] by simp
qed simp

section \<open>One live timer per armed pipeline\<close>

definition timers_ok :: "scheduler \<Rightarrow> bool" where
  "timers_ok s \<longleftrightarrow> distinct (map fst (timers s)) \<and> distinct (map t_id (live s)) \<and> (\<forall>t \<in> set (live s). t_id t < next_timeout s)
     \<and> (\<lambda>t. (t_key t, t_id t)) ` set (live s) = set (timers s) \<and> fst ` set (timers s) = pipeline_active s"

lemma timers_okD:
  assumes "timers_ok s"
  shows "distinct (map fst (timers s))" and "distinct (map t_id (live s))" and "t \<in> set (live s) \<Longrightarrow> t_id t < next_timeout s"
    and "t \<in> set (live s) \<Longrightarrow> (t_key t, t_id t) \<in> set (timers s)" and "fst ` set (timers s) = pipeline_active s"
    and "(k, i) \<in> set (timers s) \<Longrightarrow> \<exists>t \<in> set (live s). t_key t = k \<and> t_id t = i"
proof -
  show "\<exists>t \<in> set (live s). t_key t = k \<and> t_id t = i" if "(k, i) \<in> set (timers s)"
  proof -
    have "(k, i) \<in> (\<lambda>t. (t_key t, t_id t)) ` set (live s)" using assms that by (simp add: timers_ok_def)
    then show ?thesis by auto
  qed
qed (use assms in \<open>auto simp: timers_ok_def\<close>)

lemma timers_ok_frame: "frame_runs s s' \<Longrightarrow> timers_ok s' = timers_ok s"
  by (simp add: frame_runs_iff timers_ok_def)

lemma live_key_unique:
  assumes "timers_ok s" and "t \<in> set (live s)" and "u \<in> set (live s)" and "t_key t = t_key u"
  shows "t = u"
proof -
  have "(t_key t, t_id t) \<in> set (timers s)" by (rule timers_okD(4) [OF assms(1,2)])
  moreover have "(t_key t, t_id u) \<in> set (timers s)" unfolding assms(4) by (rule timers_okD(4) [OF assms(1,3)])
  ultimately have "t_id t = t_id u" using timers_okD(1) [OF assms(1)] by (metis map_of_is_SomeI option.inject)
  then show ?thesis using distinct_map_inj_on [OF timers_okD(2) [OF assms(1)] assms(2,3)] by simp
qed

lemma live_keys: "timers_ok s \<Longrightarrow> t_key ` set (live s) = pipeline_active s"
proof -
  assume "timers_ok s"
  then have "fst ` (\<lambda>t. (t_key t, t_id t)) ` set (live s) = pipeline_active s" by (simp add: timers_ok_def)
  then show ?thesis by (simp add: image_image)
qed

lemma update_append: "k \<notin> fst ` set xs \<Longrightarrow> AList.update k v xs = xs @ [(k, v)]"
  by (induction xs) auto

lemma set_delete: "set (AList.delete k xs) = {p \<in> set xs. fst p \<noteq> k}"
  by (auto simp: AList.delete_eq)

lemma image_filter_fst: "(\<And>x. fst (f x) = g x) \<Longrightarrow> f ` {x \<in> A. g x \<noteq> k} = {p \<in> f ` A. fst p \<noteq> k}"
  by auto

lemma fst_image_filter: "fst ` {p \<in> A. fst p \<noteq> k} = fst ` A - {k}"
  by auto

lemma timers_ok_remove:
  assumes ok: "timers_ok s" and k: "(k, i) \<in> set (timers s)"
  shows "timers_ok (clear_timeout i (s\<lparr>pipeline_active := pipeline_active s - {k}\<rparr>)\<lparr>timers := AList.delete k (timers s)\<rparr>)"
    and "{t \<in> set (live s). t_id t \<noteq> i} = {t \<in> set (live s). t_key t \<noteq> k}"
proof -
  obtain u where u: "u \<in> set (live s)" "t_key u = k" "t_id u = i" using timers_okD(6) [OF ok k] by blast
  show same: "{t \<in> set (live s). t_id t \<noteq> i} = {t \<in> set (live s). t_key t \<noteq> k}"
  proof (rule Collect_cong, rule conj_cong [OF refl])
    fix t assume t: "t \<in> set (live s)"
    have i: "t = u" if "t_id t = i" by (rule distinct_map_inj_on [OF timers_okD(2) [OF ok] t u(1)]) (simp add: that u(3))
    have k: "t = u" if "t_key t = k" by (rule live_key_unique [OF ok t u(1)]) (simp add: that u(2))
    show "t_id t \<noteq> i \<longleftrightarrow> t_key t \<noteq> k" using i k u(2,3) by blast
  qed
  have "(\<lambda>t. (t_key t, t_id t)) ` {t \<in> set (live s). t_key t \<noteq> k}
      = {p \<in> (\<lambda>t. (t_key t, t_id t)) ` set (live s). fst p \<noteq> k}" by (rule image_filter_fst) simp
  also have "\<dots> = {p \<in> set (timers s). fst p \<noteq> k}" using ok by (simp add: timers_ok_def)
  finally have "(\<lambda>t. (t_key t, t_id t)) ` {t \<in> set (live s). t_key t \<noteq> k} = {p \<in> set (timers s). fst p \<noteq> k}" .
  moreover have "fst ` {p \<in> set (timers s). fst p \<noteq> k} = pipeline_active s - {k}"
    unfolding timers_okD(5) [OF ok, symmetric] by (rule fst_image_filter)
  ultimately show "timers_ok (clear_timeout i (s\<lparr>pipeline_active := pipeline_active s - {k}\<rparr>)\<lparr>timers := AList.delete k (timers s)\<rparr>)"
    using timers_okD(1,2) [OF ok] timers_okD(3) [OF ok] same
    by (simp add: timers_ok_def clear_timeout_def set_delete distinct_map_filter distinct_delete)
qed

lemma timers_ok_stop_pipeline:
  assumes ok: "timers_ok s"
  shows "timers_ok (stop_pipeline k s)" and "set (live (stop_pipeline k s)) = {t \<in> set (live s). t_key t \<noteq> k}"
    and "pipeline_active (stop_pipeline k s) = pipeline_active s - {k}"
proof -
  have "timers_ok (stop_pipeline k s) \<and> set (live (stop_pipeline k s)) = {t \<in> set (live s). t_key t \<noteq> k}"
  proof (cases "map_of (timers s) k")
    case None
    then have k: "k \<notin> fst ` set (timers s)" by (simp add: map_of_eq_None_iff)
    then have "k \<notin> pipeline_active s" using timers_okD(5) [OF ok] by simp
    moreover have "\<forall>t \<in> set (live s). t_key t \<noteq> k" using timers_okD(4) [OF ok] k by force
    moreover have "AList.delete k (timers s) = timers s" using k by (simp add: delete_id)
    ultimately show ?thesis using ok None by (auto simp: stop_pipeline_def timers_ok_def)
  next
    case (Some i)
    then have "(k, i) \<in> set (timers s)" by (rule map_of_SomeD)
    note r = timers_ok_remove [OF ok this]
    show ?thesis using r Some by (simp add: stop_pipeline_def clear_timeout_def)
  qed
  then show "timers_ok (stop_pipeline k s)" "set (live (stop_pipeline k s)) = {t \<in> set (live s). t_key t \<noteq> k}" by auto
  show "pipeline_active (stop_pipeline k s) = pipeline_active s - {k}"
    by (simp add: stop_pipeline_def clear_timeout_def Let_def split: option.splits)
qed

definition armed_timeout :: "env \<Rightarrow> pipeline_key \<Rightarrow> int \<Rightarrow> int option \<Rightarrow> scheduler \<Rightarrow> timeout" where
  "armed_timeout e k base fd s = \<lparr>t_id = next_timeout s, t_key = k, t_base = base,
     t_delay = compute_tick_delay base JITTER_MS fd (e_random e k)\<rparr>"

lemma timers_ok_arm_jittered:
  assumes ok: "timers_ok s" and k: "k \<notin> pipeline_active s"
  shows "timers_ok (arm_jittered_pipeline e k base JITTER_MS fd (s\<lparr>pipeline_active := insert k (pipeline_active s)\<rparr>))"
proof -
  have "k \<notin> fst ` set (timers s)" using k timers_okD(5) [OF ok] by simp
  note upd = update_append [OF this]
  show ?thesis
    using ok \<open>k \<notin> fst ` set (timers s)\<close> by (force simp: timers_ok_def arm_jittered_pipeline_def upd)
qed

lemma timers_ok_arm:
  assumes "timers_ok s" and "k \<notin> pipeline_active s"
  shows "timers_ok (arm_pipeline e k i ini s)"
    and "set (live (arm_pipeline e k i ini s)) = insert (armed_timeout e k (i * 1000)
           (if ini \<and> k = Inventory then Some INITIAL_INVENTORY_DELAY_MS else None) s) (set (live s))"
    and "pipeline_active (arm_pipeline e k i ini s) = insert k (pipeline_active s)"
  using timers_ok_arm_jittered [OF assms]
  by (auto simp: arm_pipeline_def arm_jittered_pipeline_def armed_timeout_def)

lemma timers_ok_fields:
  "timers s' = timers s \<Longrightarrow> live s' = live s \<Longrightarrow> next_timeout s' = next_timeout s \<Longrightarrow> pipeline_active s' = pipeline_active s
    \<Longrightarrow> timers_ok s' = timers_ok s"
  by (simp add: timers_ok_def)

lemma clear_timeout_fields [simp]:
  "live (clear_timeout i s) = filter (\<lambda>t. t_id t \<noteq> i) (live s)" "timers (clear_timeout i s) = timers s"
  "next_timeout (clear_timeout i s) = next_timeout s" "pipeline_active (clear_timeout i s) = pipeline_active s"
  by (simp_all add: clear_timeout_def)

lemma active_unchanged: "pipeline_active s = A \<Longrightarrow> s\<lparr>pipeline_active := A\<rparr> = s"
  by (cases s) simp

lemma timers_ok_fire:
  assumes ok: "timers_ok s"
  shows "timers_ok (fire e i s)" and "pipeline_active (fire e i s) = pipeline_active s"
    and "t \<in> set (live (fire e i s)) \<Longrightarrow> \<exists>u \<in> set (live s). t_key t = t_key u \<and> t_base t = t_base u"
proof -
  have "timers_ok (fire e i s) \<and> pipeline_active (fire e i s) = pipeline_active s
    \<and> (\<forall>t \<in> set (live (fire e i s)). \<exists>u \<in> set (live s). t_key t = t_key u \<and> t_base t = t_base u)"
  proof (cases "find (\<lambda>t. t_id t = i) (live s)")
    case None
    then show ?thesis using ok by (auto simp: fire_def)
  next
    case (Some u)
    then have u: "u \<in> set (live s)" "t_id u = i" by (auto simp: find_Some_iff)
    let ?k = "t_key u"
    let ?c = "clear_timeout i s\<lparr>timers := AList.delete ?k (timers s)\<rparr>"
    let ?r = "run_pipeline e ?k ?c"
    let ?r' = "?r\<lparr>pipeline_active := pipeline_active ?r - {?k}\<rparr>"
    have ki: "(?k, i) \<in> set (timers s)" using timers_okD(4) [OF ok u(1)] u(2) by simp
    have act: "?k \<in> pipeline_active s" using live_keys [OF ok] u(1) by blast
    have r: "timers ?r = timers ?c" "live ?r = live ?c" "next_timeout ?r = next_timeout ?c" "pipeline_active ?r = pipeline_active s"
      using frame_run_pipeline [of ?c e ?k] by (simp_all add: frame_runs_iff)
    have "timers_ok ?r' = timers_ok (clear_timeout i (s\<lparr>pipeline_active := pipeline_active s - {?k}\<rparr>)\<lparr>timers := AList.delete ?k (timers s)\<rparr>)"
      by (rule timers_ok_fields) (simp_all add: r)
    then have "timers_ok ?r'" using timers_ok_remove(1) [OF ok ki] by simp
    from timers_ok_arm_jittered [OF this, of ?k e "t_base u" None] act
    have "timers_ok (arm_jittered_pipeline e ?k (t_base u) JITTER_MS None ?r)"
      by (simp add: r insert_absorb active_unchanged [OF r(4)])
    then show ?thesis using Some act u(1) by (auto simp: fire_def arm_jittered_pipeline_def r)
  qed
  then show "timers_ok (fire e i s)" "pipeline_active (fire e i s) = pipeline_active s"
    "t \<in> set (live (fire e i s)) \<Longrightarrow> \<exists>u \<in> set (live s). t_key t = t_key u \<and> t_base t = t_base u" by auto
qed

lemma clear_all_timeouts:
  "foldl (\<lambda>s (k, i). clear_timeout i s) s ts = s\<lparr>live := filter (\<lambda>t. t_id t \<notin> snd ` set ts) (live s)\<rparr>"
proof (induction ts arbitrary: s)
  case (Cons p ts)
  show ?case by (cases p) (simp add: Cons.IH, simp add: clear_timeout_def conj_commute)
qed simp

lemma stop_all_ok:
  assumes ok: "timers_ok s"
  shows "stop_all s = s\<lparr>startup_gen := startup_gen s + 1, startup_pending := {}, pipeline_active := {}, live := [], timers := []\<rparr>"
    and "timers_ok (stop_all s)"
proof -
  have "\<forall>t \<in> set (live s). t_id t \<in> snd ` set (timers s)"
    using timers_okD(4) [OF ok] by (metis image_eqI snd_conv)
  then have "filter (\<lambda>t. t_id t \<notin> snd ` set (timers s)) (live s) = []" by (simp add: filter_empty_conv)
  then show eq: "stop_all s = s\<lparr>startup_gen := startup_gen s + 1, startup_pending := {}, pipeline_active := {}, live := [], timers := []\<rparr>"
    by (simp add: stop_all_def clear_all_timeouts)
  show "timers_ok (stop_all s)" by (simp add: eq timers_ok_def)
qed

section \<open>Arming a plan\<close>

definition bases_follow :: "pipeline_plan \<Rightarrow> scheduler \<Rightarrow> bool" where
  "bases_follow p s \<longleftrightarrow> (\<forall>t \<in> set (live s). t_base t = interval_seconds (p (t_key t)) * 1000)"

lemma rearm_one_effect:
  assumes ok: "timers_ok s"
  shows "timers_ok (rearm_one e nxt s k)" and "frame_timers s (rearm_one e nxt s k)"
    and "pipeline_active (rearm_one e nxt s k) = pipeline_active s - {k} \<union> (if armed (nxt k) then {k} else {})"
    and "{t \<in> set (live (rearm_one e nxt s k)). t_key t \<noteq> k} = {t \<in> set (live s). t_key t \<noteq> k}"
    and "t \<in> set (live (rearm_one e nxt s k)) \<Longrightarrow> t_key t = k \<Longrightarrow> armed (nxt k) \<and> t_base t = interval_seconds (nxt k) * 1000 \<and> next_timeout s \<le> t_id t"
    and "next_timeout s \<le> next_timeout (rearm_one e nxt s k)"
proof -
  note st = timers_ok_stop_pipeline [OF ok, of k]
  have k: "k \<notin> pipeline_active (stop_pipeline k s)" by (simp add: st)
  note ar = timers_ok_arm [OF st(1) k, of e "interval_seconds (nxt k)" False]
  have nt: "next_timeout (stop_pipeline k s) = next_timeout s"
    by (simp add: stop_pipeline_def clear_timeout_def Let_def split: option.splits)
  show "timers_ok (rearm_one e nxt s k)" using st(1) ar(1) by (simp add: rearm_one_def Let_def)
  show "frame_timers s (rearm_one e nxt s k)"
    using frame_stop_pipeline frame_arm_pipeline frame_timers_trans by (simp add: rearm_one_def Let_def) blast
  show "pipeline_active (rearm_one e nxt s k) = pipeline_active s - {k} \<union> (if armed (nxt k) then {k} else {})"
    using st(3) ar(3) by (simp add: rearm_one_def Let_def)
  show "{t \<in> set (live (rearm_one e nxt s k)). t_key t \<noteq> k} = {t \<in> set (live s). t_key t \<noteq> k}"
    using st(2) ar(2) by (auto simp: rearm_one_def Let_def armed_timeout_def)
  show "t \<in> set (live (rearm_one e nxt s k)) \<Longrightarrow> t_key t = k \<Longrightarrow> armed (nxt k) \<and> t_base t = interval_seconds (nxt k) * 1000 \<and> next_timeout s \<le> t_id t"
    using st(2) ar(2) nt by (auto simp: rearm_one_def Let_def armed_timeout_def split: if_splits)
  show "next_timeout s \<le> next_timeout (rearm_one e nxt s k)"
    using nt by (simp add: rearm_one_def Let_def arm_pipeline_def arm_jittered_pipeline_def)
qed

lemma rearm_fold:
  assumes "timers_ok s" and "distinct ks"
  shows "timers_ok (foldl (rearm_one e nxt) s ks) \<and> frame_timers s (foldl (rearm_one e nxt) s ks)
    \<and> pipeline_active (foldl (rearm_one e nxt) s ks) = pipeline_active s - set ks \<union> {k \<in> set ks. armed (nxt k)}
    \<and> {t \<in> set (live (foldl (rearm_one e nxt) s ks)). t_key t \<notin> set ks} = {t \<in> set (live s). t_key t \<notin> set ks}
    \<and> (\<forall>t \<in> set (live (foldl (rearm_one e nxt) s ks)). t_key t \<in> set ks \<longrightarrow>
          t_base t = interval_seconds (nxt (t_key t)) * 1000 \<and> next_timeout s \<le> t_id t)"
  using assms
proof (induction ks arbitrary: s)
  case (Cons k ks)
  let ?s1 = "rearm_one e nxt s k"
  let ?s2 = "foldl (rearm_one e nxt) ?s1 ks"
  note one = rearm_one_effect [OF Cons.prems(1), where e = e and nxt = nxt and k = k]
  from Cons.prems(2) have k: "k \<notin> set ks" and d: "distinct ks" by auto
  note IH = Cons.IH [OF one(1) d]
  have "frame_timers s ?s2" using IH one(2) frame_timers_trans by blast
  moreover have "pipeline_active ?s2 = pipeline_active s - set (k # ks) \<union> {j \<in> set (k # ks). armed (nxt j)}"
    using IH one(3) k by auto
  moreover have "{t \<in> set (live ?s2). t_key t \<notin> set (k # ks)} = {t \<in> set (live s). t_key t \<notin> set (k # ks)}"
  proof -
    have "{t \<in> set (live ?s2). t_key t \<notin> set (k # ks)} = {t \<in> {t \<in> set (live ?s2). t_key t \<notin> set ks}. t_key t \<noteq> k}" by auto
    also have "\<dots> = {t \<in> {t \<in> set (live ?s1). t_key t \<noteq> k}. t_key t \<notin> set ks}" using IH by auto
    also have "\<dots> = {t \<in> set (live s). t_key t \<notin> set (k # ks)}" unfolding one(4) by auto
    finally show ?thesis .
  qed
  moreover have "t_base t = interval_seconds (nxt (t_key t)) * 1000 \<and> next_timeout s \<le> t_id t"
    if t: "t \<in> set (live ?s2)" "t_key t \<in> set (k # ks)" for t
  proof (cases "t_key t \<in> set ks")
    case True
    then show ?thesis using IH t(1) one(6) by fastforce
  next
    case False
    with t have "t \<in> {t \<in> set (live ?s1). t_key t \<notin> set ks}" using IH by blast
    with False t(2) one(5) [of t] show ?thesis by auto
  qed
  ultimately show ?case using IH by simp
qed simp

lemma start_one_effect:
  assumes ok: "timers_ok s" and k: "k \<notin> pipeline_active s"
  shows "timers_ok (start_one e p s k)" and "frame_timers s (start_one e p s k)"
    and "pipeline_active (start_one e p s k) = pipeline_active s \<union> (if armed (p k) then {k} else {})"
    and "bases_follow p s \<Longrightarrow> bases_follow p (start_one e p s k)"
  using ok timers_ok_arm [OF ok k, of e "interval_seconds (p k)" True] frame_arm_pipeline
  by (auto simp: start_one_def bases_follow_def armed_timeout_def)

lemma start_fold:
  assumes "timers_ok s" and "distinct ks" and "pipeline_active s \<inter> set ks = {}" and "bases_follow p s"
  shows "timers_ok (foldl (start_one e p) s ks) \<and> frame_timers s (foldl (start_one e p) s ks)
    \<and> pipeline_active (foldl (start_one e p) s ks) = pipeline_active s \<union> {k \<in> set ks. armed (p k)}
    \<and> bases_follow p (foldl (start_one e p) s ks)"
  using assms
proof (induction ks arbitrary: s)
  case (Cons k ks)
  from Cons.prems have "k \<notin> pipeline_active s" by auto
  note one = start_one_effect [OF Cons.prems(1) this, where e = e and p = p]
  have "pipeline_active (start_one e p s k) \<inter> set ks = {}" using Cons.prems(2,3) one(3) by auto
  note IH = Cons.IH [OF one(1) _ this one(4) [OF Cons.prems(4)]]
  have "frame_timers s (foldl (start_one e p) (start_one e p s k) ks)"
    using IH Cons.prems(2) one(2) frame_timers_trans by fastforce
  with IH Cons.prems(2) one(3) show ?case by auto
qed simp

section \<open>The invariant\<close>

definition runs_ok :: "scheduler \<Rightarrow> bool" where
  "runs_ok s \<longleftrightarrow> distinct (map fst (runs s)) \<and> (\<forall>r \<in> set (runs s). fst r < next_run s)
     \<and> (\<forall>k. running s k \<longrightarrow> k \<in> snd ` set (runs s)) \<and> (\<forall>k. \<not> running s k \<longrightarrow> started_at s k = 0)"

definition plan_ok :: "scheduler \<Rightarrow> bool" where
  "plan_ok s \<longleftrightarrow> (pipeline_active s \<noteq> {} \<or> registered s \<noteq> [] \<longrightarrow> (\<exists>p. plan s = Some p \<and> pipeline_active s = {k. armed (p k)}))
     \<and> (\<forall>p. plan s = Some p \<longrightarrow> bases_follow p s)"

text \<open>\<open>w\<close>: a call of \<open>start\<close> waits for its first inventory.\<close>

definition calls_ok :: "bool \<Rightarrow> scheduler \<Rightarrow> bool" where
  "calls_ok w s \<longleftrightarrow> registered s = policy_listeners s \<and> (registered s \<noteq> [] \<or> w \<or> pipeline_active s \<noteq> {} \<longrightarrow> has_ctx s)"

definition sequences_ok :: "scheduler \<Rightarrow> bool" where
  "sequences_ok s \<longleftrightarrow> (\<forall>g \<in> fst ` set (sequences s). g \<le> startup_gen s)"

definition sched_inv :: "bool \<Rightarrow> scheduler \<Rightarrow> bool" where
  "sched_inv w s \<longleftrightarrow> timers_ok s \<and> runs_ok s \<and> plan_ok s \<and> calls_ok w s \<and> sequences_ok s"

lemma runs_ok_run_pipeline:
  assumes "runs_ok s"
  shows "runs_ok (run_pipeline e k s)"
proof -
  have "next_run s \<notin> fst ` set (runs s)" using assms by (auto simp: runs_ok_def)
  with assms show ?thesis by (auto simp: runs_ok_def run_pipeline_def split: prod.splits)
qed

lemma runs_ok_end_run:
  assumes ok: "runs_ok s"
  shows "runs_ok (end_run i s)"
proof (cases "map_of (runs s) i")
  case None
  then show ?thesis using ok by (simp add: end_run_def)
next
  case (Some k)
  have other: "j \<in> snd ` set (filter (\<lambda>r. fst r \<noteq> i) (runs s))" if j: "running s j" "j \<noteq> k" for j
  proof -
    obtain r where r: "r \<in> set (runs s)" "snd r = j" using ok j(1) by (auto simp: runs_ok_def)
    have "fst r \<noteq> i"
    proof
      assume "fst r = i"
      then have "map_of (runs s) i = Some j" using ok r by (auto simp: runs_ok_def)
      with Some j(2) show False by simp
    qed
    with r show ?thesis by auto
  qed
  with ok Some show ?thesis by (auto simp: runs_ok_def end_run_def distinct_map_filter)
qed

lemma runs_ok_frame: "frame_timers s s' \<Longrightarrow> runs_ok s' = runs_ok s"
  by (simp add: frame_timers_iff runs_ok_def)

lemma runs_ok_fields:
  "running s' = running s \<Longrightarrow> started_at s' = started_at s \<Longrightarrow> runs s' = runs s \<Longrightarrow> next_run s' = next_run s \<Longrightarrow> runs_ok s' = runs_ok s"
  by (simp add: runs_ok_def)

text \<open>The startup sequence touches runs, its own waits and the set of pending keys.\<close>

definition frame_startup :: "scheduler \<Rightarrow> scheduler \<Rightarrow> bool" where
  "frame_startup s s' \<longleftrightarrow> timers s' = timers s \<and> pipeline_active s' = pipeline_active s \<and> has_ctx s' = has_ctx s
     \<and> initial_inventory_sent s' = initial_inventory_sent s \<and> dex s' = dex s \<and> plan s' = plan s
     \<and> capability_sig s' = capability_sig s \<and> startup_gen s' = startup_gen s
     \<and> policy_listeners s' = policy_listeners s \<and> live s' = live s \<and> next_timeout s' = next_timeout s \<and> registered s' = registered s"

lemma frame_startup_loop: "frame_startup s (startup_loop e g w ks s)"
proof (induction e g w ks s rule: startup_loop.induct)
  case (2 e g w k ks s)
  let ?s1 = "s\<lparr>startup_pending := startup_pending s - {k}\<rparr>"
  have "frame_startup s (suspend_sequence g v (run_pipeline e k ?s1))" for v
    using frame_run_pipeline [of ?s1 e k] by (simp add: frame_runs_iff frame_startup_def suspend_sequence_def)
  with 2 show ?case by (auto simp: frame_startup_def suspend_sequence_def Let_def)
qed (simp add: frame_startup_def)

lemma runs_ok_startup_loop: "runs_ok s \<Longrightarrow> runs_ok (startup_loop e g w ks s)"
proof (induction e g w ks s rule: startup_loop.induct)
  case (2 e g w k ks s)
  let ?s1 = "s\<lparr>startup_pending := startup_pending s - {k}\<rparr>"
  have s1: "runs_ok ?s1" using 2 by (simp add: runs_ok_def)
  have "runs_ok (suspend_sequence g v t) = runs_ok t" for v t by (simp add: runs_ok_def suspend_sequence_def)
  with 2 s1 runs_ok_run_pipeline [OF s1, of e k] show ?case by (auto simp: Let_def)
qed simp

lemma sequences_ok_startup_loop: "sequences_ok s \<Longrightarrow> g \<le> startup_gen s \<Longrightarrow> sequences_ok (startup_loop e g w ks s)"
proof (induction e g w ks s rule: startup_loop.induct)
  case (2 e g w k ks s)
  let ?s1 = "s\<lparr>startup_pending := startup_pending s - {k}\<rparr>"
  have s1: "sequences_ok ?s1" "g \<le> startup_gen ?s1" using 2 by (simp_all add: sequences_ok_def)
  have "sequences_ok (run_pipeline e k ?s1)" "startup_gen (run_pipeline e k ?s1) = startup_gen s"
    using s1 frame_run_pipeline [of ?s1 e k] by (simp_all add: sequences_ok_def frame_runs_iff)
  then have "sequences_ok (suspend_sequence g v (run_pipeline e k ?s1))" "sequences_ok (suspend_sequence g v s)" for v
    using 2 by (auto simp: sequences_ok_def suspend_sequence_def)
  with 2 s1 show ?case by (auto simp: Let_def)
qed simp

lemma sched_inv_frame_startup:
  "frame_startup s s' \<Longrightarrow> runs_ok s' \<Longrightarrow> sequences_ok s' \<Longrightarrow> sched_inv w s \<Longrightarrow> sched_inv w s'"
  by (auto simp: frame_startup_def sched_inv_def timers_ok_def plan_ok_def calls_ok_def bases_follow_def)

lemma sched_inv_frame_runs: "frame_runs s s' \<Longrightarrow> runs_ok s' \<Longrightarrow> sched_inv w s \<Longrightarrow> sched_inv w s'"
  by (auto simp: frame_runs_iff sched_inv_def timers_ok_def plan_ok_def calls_ok_def bases_follow_def sequences_ok_def)

lemma sched_inv_run_pipeline: "sched_inv w s \<Longrightarrow> sched_inv w (run_pipeline e k s)"
  by (rule sched_inv_frame_runs [OF frame_run_pipeline]) (simp_all add: sched_inv_def runs_ok_run_pipeline)

lemma sched_inv_next_gen: "sched_inv w s \<Longrightarrow> sched_inv w (s\<lparr>startup_gen := startup_gen s + 1, startup_pending := P\<rparr>)"
  by (fastforce simp: sched_inv_def timers_ok_def runs_ok_def plan_ok_def calls_ok_def sequences_ok_def bases_follow_def)

lemma sched_inv_start_pipelines:
  assumes inv: "sched_inv w s" and ctx: "has_ctx s"
  shows "sched_inv w (start_pipelines e s)"
    and "\<exists>p. plan (start_pipelines e s) = Some p \<and> pipeline_active (start_pipelines e s) = {k. armed (p k)}"
    and "has_ctx (start_pipelines e s)" and "registered (start_pipelines e s) = registered s"
    and "policy_listeners (start_pipelines e s) = policy_listeners s"
proof -
  let ?p = "read_pipeline_plan (e_policy e)"
  let ?s1 = "(stop_all s)\<lparr>plan := Some ?p, capability_sig := Some (sig_of (e_policy e))\<rparr>"
  let ?s2 = "foldl (start_one e ?p) ?s1 PIPELINE_KEYS"
  let ?s3 = "if armed (?p Update) then run_pipeline e Update ?s2 else ?s2"
  let ?g = "startup_gen ?s3 + 1"
  let ?s4 = "?s3\<lparr>startup_gen := ?g, startup_pending := set STARTUP_SERIAL_ORDER\<rparr>"
  have ok: "timers_ok s" using inv by (simp add: sched_inv_def)
  note sa = stop_all_ok [OF ok]
  have "timers_ok ?s1" "pipeline_active ?s1 = {}" "bases_follow ?p ?s1"
    using sa(2) by (auto simp: sa(1) timers_ok_def bases_follow_def)
  then have two: "timers_ok ?s2" "frame_timers ?s1 ?s2" "pipeline_active ?s2 = {k. armed (?p k)}" "bases_follow ?p ?s2"
    using start_fold [of ?s1 PIPELINE_KEYS ?p e] by auto
  have fields: "plan ?s2 = Some ?p" "has_ctx ?s2" "registered ?s2 = registered s" "policy_listeners ?s2 = policy_listeners s"
    using two(2) ctx by (simp_all add: frame_timers_iff sa(1))
  have "runs_ok ?s2" using inv two(2) by (simp add: frame_timers_iff sa(1) sched_inv_def runs_ok_def)
  moreover have "sequences_ok ?s2" using inv two(2) by (auto simp: frame_timers_iff sa(1) sched_inv_def sequences_ok_def le_Suc_eq)
  ultimately have "sched_inv w ?s2"
    using inv two fields by (simp add: sched_inv_def plan_ok_def calls_ok_def)
  then have three: "sched_inv w ?s3" using sched_inv_run_pipeline by simp
  have f3: "plan ?s3 = Some ?p" "has_ctx ?s3" "registered ?s3 = registered s" "policy_listeners ?s3 = policy_listeners s"
    "pipeline_active ?s3 = {k. armed (?p k)}"
    using fields two(3) frame_run_pipeline [of ?s2 e Update] by (simp_all add: frame_runs_iff)
  note four = sched_inv_next_gen [OF three, of "set STARTUP_SERIAL_ORDER"]
  have res: "start_pipelines e s = startup_loop e ?g False STARTUP_SERIAL_ORDER ?s4"
    by (simp only: start_pipelines_def run_startup_sequence_def Let_def)
  note fr = frame_startup_loop [of ?s4 e ?g False STARTUP_SERIAL_ORDER, folded res]
  have "runs_ok (start_pipelines e s)" "sequences_ok (start_pipelines e s)"
    unfolding res using four by (auto intro!: runs_ok_startup_loop sequences_ok_startup_loop simp: sched_inv_def)
  then show "sched_inv w (start_pipelines e s)" using sched_inv_frame_startup [OF fr _ _ four] by simp
  show "\<exists>p. plan (start_pipelines e s) = Some p \<and> pipeline_active (start_pipelines e s) = {k. armed (p k)}"
    "has_ctx (start_pipelines e s)" "registered (start_pipelines e s) = registered s"
    "policy_listeners (start_pipelines e s) = policy_listeners s"
    using fr f3 by (simp_all add: frame_startup_def)
qed

lemma run_now_fold: "frame_runs s (foldl (run_one_now e) s ks) \<and> (runs_ok s \<longrightarrow> runs_ok (foldl (run_one_now e) s ks))"
proof (induction ks arbitrary: s)
  case (Cons k ks)
  have "frame_runs s (run_one_now e s k)" "runs_ok s \<longrightarrow> runs_ok (run_one_now e s k)"
    by (auto simp: run_one_now_def frame_run_pipeline runs_ok_run_pipeline)
  then show ?case using Cons.IH [of "run_one_now e s k"] frame_runs_trans by auto
qed simp

text \<open>The state of a reconciliation after its timers are set: the early return is the case of no key to re-arm.\<close>

definition rearmed :: "env \<Rightarrow> scheduler \<Rightarrow> scheduler" where
  "rearmed e s =
     (let nxt = read_pipeline_plan (e_policy e)
      in foldl (rearm_one e nxt) (s\<lparr>plan := Some nxt, capability_sig := Some (sig_of (e_policy e))\<rparr>)
           (fst (diff_pipeline_plan (plan s) nxt)))"

definition start_due :: "env \<Rightarrow> pipeline_key list \<Rightarrow> bool \<Rightarrow> scheduler \<Rightarrow> scheduler" where
  "start_due e run_now capabilities_changed s =
     (let s3 = foldl (run_one_now e) s run_now
      in if Inventory \<in> set run_now \<or> capabilities_changed then run_pipeline e Inventory s3 else s3)"

lemma reconcile_eq:
  "reconcile_pipelines e s = start_due e (snd (diff_pipeline_plan (plan s) (read_pipeline_plan (e_policy e))))
     (capability_sig s \<noteq> Some (sig_of (e_policy e))) (rearmed e s)"
  by (simp add: reconcile_pipelines_def start_due_def rearmed_def Let_def split: prod.splits)

lemma frame_start_due: "frame_runs s (start_due e ks c s)"
  and runs_ok_start_due: "runs_ok s \<Longrightarrow> runs_ok (start_due e ks c s)"
  using run_now_fold [of s e ks] frame_run_pipeline [of "foldl (run_one_now e) s ks" e Inventory]
    runs_ok_run_pipeline [of "foldl (run_one_now e) s ks" e Inventory] frame_runs_trans
  by (auto simp: start_due_def Let_def)

lemma rearmed_effect:
  assumes inv: "sched_inv w s" and p: "plan s = Some p" and act: "pipeline_active s = {k. armed (p k)}" and ctx: "has_ctx s"
  shows "sched_inv w (rearmed e s)"
    and "needs_rearm (Some p) (read_pipeline_plan (e_policy e)) k \<or>
      {t \<in> set (live (rearmed e s)). t_key t = k} = {t \<in> set (live s). t_key t = k}"
    and "t \<in> set (live (rearmed e s)) \<Longrightarrow> needs_rearm (Some p) (read_pipeline_plan (e_policy e)) (t_key t) \<Longrightarrow> next_timeout s \<le> t_id t"
    and "pipeline_active (rearmed e s) = {k. armed (read_pipeline_plan (e_policy e) k)}"
    and "plan (rearmed e s) = Some (read_pipeline_plan (e_policy e))"
    and "running (rearmed e s) = running s" and "runs (rearmed e s) = runs s" and "startup_pending (rearmed e s) = startup_pending s"
proof -
  let ?n = "read_pipeline_plan (e_policy e)"
  let ?s1 = "s\<lparr>plan := Some ?n, capability_sig := Some (sig_of (e_policy e))\<rparr>"
  let ?ks = "filter (needs_rearm (Some p) ?n) PIPELINE_KEYS"
  have res: "rearmed e s = foldl (rearm_one e ?n) ?s1 ?ks" by (simp add: rearmed_def diff_pipeline_plan_def p Let_def)
  have ok1: "timers_ok ?s1" using inv by (simp add: sched_inv_def timers_ok_def)
  from rearm_fold [OF ok1, of ?ks e ?n] have
    f: "timers_ok (rearmed e s)" "frame_timers ?s1 (rearmed e s)"
      "pipeline_active (rearmed e s) = pipeline_active s - set ?ks \<union> {k \<in> set ?ks. armed (?n k)}"
      "{t \<in> set (live (rearmed e s)). t_key t \<notin> set ?ks} = {t \<in> set (live s). t_key t \<notin> set ?ks}"
      "\<forall>t \<in> set (live (rearmed e s)). t_key t \<in> set ?ks \<longrightarrow> t_base t = interval_seconds (?n (t_key t)) * 1000 \<and> next_timeout s \<le> t_id t"
    unfolding res by auto
  show act': "pipeline_active (rearmed e s) = {k. armed (?n k)}"
    using f(3) act by (auto simp: needs_rearm_def)
  show pl: "plan (rearmed e s) = Some ?n" and "running (rearmed e s) = running s" and rs: "runs (rearmed e s) = runs s"
    and "startup_pending (rearmed e s) = startup_pending s"
    using f(2) by (simp_all add: frame_timers_iff)
  show "needs_rearm (Some p) ?n k \<or> {t \<in> set (live (rearmed e s)). t_key t = k} = {t \<in> set (live s). t_key t = k}"
  proof (cases "k \<in> set ?ks")
    case False
    have "{t \<in> set (live (rearmed e s)). t_key t = k} = {t \<in> {t \<in> set (live (rearmed e s)). t_key t \<notin> set ?ks}. t_key t = k}"
      using False by blast
    also have "\<dots> = {t \<in> set (live s). t_key t = k}" unfolding f(4) using False by blast
    finally show ?thesis by simp
  qed simp
  show "t \<in> set (live (rearmed e s)) \<Longrightarrow> needs_rearm (Some p) ?n (t_key t) \<Longrightarrow> next_timeout s \<le> t_id t"
    using f(5) by simp
  have old: "t_base t = interval_seconds (p (t_key t)) * 1000" if "t \<in> set (live s)" for t
    using inv p that by (simp add: sched_inv_def plan_ok_def bases_follow_def)
  have "t_base t = interval_seconds (?n (t_key t)) * 1000" if t: "t \<in> set (live (rearmed e s))" for t
  proof (cases "t_key t \<in> set ?ks")
    case True
    then show ?thesis using f(5) t by simp
  next
    case False
    then have "t \<in> {t \<in> set (live s). t_key t \<notin> set ?ks}" unfolding f(4) [symmetric] using t by simp
    then have s: "t \<in> set (live s)" by simp
    have "armed (?n (t_key t))" using live_keys [OF f(1)] act' t by blast
    with False old [OF s] show ?thesis by (simp add: needs_rearm_def)
  qed
  then have "plan_ok (rearmed e s)" using act' pl by (auto simp: plan_ok_def bases_follow_def)
  moreover have "runs_ok (rearmed e s)" using inv f(2) by (simp add: sched_inv_def runs_ok_def frame_timers_iff)
  moreover have "calls_ok w (rearmed e s)" using inv f(2) ctx by (simp add: sched_inv_def calls_ok_def frame_timers_iff)
  moreover have "sequences_ok (rearmed e s)" using inv f(2) by (simp add: sched_inv_def sequences_ok_def frame_timers_iff)
  ultimately show "sched_inv w (rearmed e s)" using f(1) by (simp add: sched_inv_def)
qed

text \<open>How the service calls: \<open>start\<close> is awaited before \<open>stop\<close> or another \<open>start\<close>.\<close>

fun calls_next :: "bool \<Rightarrow> sched_event \<Rightarrow> bool option" where
  "calls_next w (StartBegin e) = (if w then None else Some True)"
| "calls_next w (StartResume e) = (if w then Some False else None)"
| "calls_next w Stop = (if w then None else Some w)"
| "calls_next w _ = Some w"

fun well_called :: "bool \<Rightarrow> sched_event list \<Rightarrow> bool" where
  "well_called w [] = True"
| "well_called w (ev # es) = (case calls_next w ev of None \<Rightarrow> False | Some w' \<Rightarrow> well_called w' es)"

lemma foldl_remove1_self: "foldl (\<lambda>r ev. remove1 ev r) xs xs = []"
  by (induction xs) simp_all

lemma clear_policy_listeners_inv:
  "sched_inv w s \<Longrightarrow> clear_policy_listeners s = s\<lparr>policy_listeners := [], registered := []\<rparr>"
  by (auto simp: clear_policy_listeners_def sched_inv_def calls_ok_def foldl_remove1_self)

lemma add_listeners: "foldl add_policy_listener s evs = s\<lparr>registered := registered s @ evs, policy_listeners := policy_listeners s @ evs\<rparr>"
  by (induction evs arbitrary: s) (simp_all add: add_policy_listener_def)

lemma sched_inv_fields:
  assumes "sched_inv w s" and "timers s' = timers s" and "live s' = live s" and "next_timeout s' = next_timeout s"
    and "pipeline_active s' = pipeline_active s" and "running s' = running s" and "started_at s' = started_at s" and "runs s' = runs s"
    and "next_run s' = next_run s" and "plan s' = plan s" and "sequences s' = sequences s" and "startup_gen s' = startup_gen s"
    and "calls_ok w' s'" and "registered s' \<noteq> [] \<Longrightarrow> registered s \<noteq> [] \<or> (\<exists>p. plan s = Some p \<and> pipeline_active s = {k. armed (p k)})"
  shows "sched_inv w' s'"
  using assms by (auto simp: sched_inv_def timers_ok_def runs_ok_def plan_ok_def sequences_ok_def bases_follow_def)

lemma sched_inv_started:
  "sched_inv w s \<Longrightarrow> registered s \<noteq> [] \<Longrightarrow> has_ctx s \<and> (\<exists>p. plan s = Some p \<and> pipeline_active s = {k. armed (p k)})"
  by (auto simp: sched_inv_def plan_ok_def calls_ok_def)

lemma sched_inv_start_begin:
  assumes "sched_inv False s"
  shows "sched_inv True (start_begin e s)"
  unfolding start_begin_def clear_policy_listeners_inv [OF assms]
  by (intro sched_inv_run_pipeline sched_inv_fields [OF assms]) (simp_all add: calls_ok_def)

lemma sched_inv_start_resume:
  assumes inv: "sched_inv True s"
  shows "sched_inv False (start_resume e s)"
proof -
  have ctx: "has_ctx s" "registered s = policy_listeners s" using inv by (auto simp: sched_inv_def calls_ok_def)
  note sp = sched_inv_start_pipelines [OF inv ctx(1), of e]
  show ?thesis
    unfolding start_resume_def add_listeners
    by (rule sched_inv_fields [OF sp(1)]) (use sp ctx in \<open>simp_all add: calls_ok_def\<close>)
qed

lemma sched_inv_stop:
  assumes inv: "sched_inv w s"
  shows "sched_inv False (stop s)"
    and "stop s = s\<lparr>startup_gen := startup_gen s + 1, startup_pending := {}, pipeline_active := {}, live := [], timers := [],
       dex := False, policy_listeners := [], registered := [], has_ctx := False\<rparr>"
proof -
  have d: "sched_inv w (s\<lparr>dex := False\<rparr>)" by (rule sched_inv_fields [OF inv]) (use inv in \<open>auto simp: sched_inv_def calls_ok_def\<close>)
  then have "timers_ok (s\<lparr>dex := False\<rparr>)" by (simp add: sched_inv_def)
  note sa = stop_all_ok [OF this]
  have "clear_policy_listeners (stop_all (s\<lparr>dex := False\<rparr>)) = (stop_all (s\<lparr>dex := False\<rparr>))\<lparr>policy_listeners := [], registered := []\<rparr>"
    using inv by (auto simp: clear_policy_listeners_def sa(1) sched_inv_def calls_ok_def foldl_remove1_self)
  then show eq: "stop s = s\<lparr>startup_gen := startup_gen s + 1, startup_pending := {}, pipeline_active := {}, live := [], timers := [],
       dex := False, policy_listeners := [], registered := [], has_ctx := False\<rparr>"
    by (simp add: stop_def sa(1))
  show "sched_inv False (stop s)"
    using inv by (fastforce simp: eq sched_inv_def timers_ok_def runs_ok_def plan_ok_def calls_ok_def sequences_ok_def bases_follow_def)
qed

lemma sched_inv_reconcile:
  assumes inv: "sched_inv w s" and r: "registered s \<noteq> []"
  shows "sched_inv w (reconcile_pipelines e s)"
proof -
  obtain p where p: "plan s = Some p" "pipeline_active s = {k. armed (p k)}" "has_ctx s" using sched_inv_started [OF inv r] by blast
  note re = rearmed_effect(1) [OF inv p, of e]
  show ?thesis unfolding reconcile_eq
    by (rule sched_inv_frame_runs [OF frame_start_due runs_ok_start_due re]) (use re in \<open>simp add: sched_inv_def\<close>)
qed

lemma sched_inv_fire:
  assumes inv: "sched_inv w s"
  shows "sched_inv w (fire e i s)"
proof (cases "find (\<lambda>t. t_id t = i) (live s)")
  case None
  then show ?thesis using inv by (simp add: fire_def)
next
  case (Some u)
  have ok: "timers_ok s" using inv by (simp add: sched_inv_def)
  note f = timers_ok_fire [OF ok, where e = e and i = i]
  let ?c = "clear_timeout i s\<lparr>timers := AList.delete (t_key u) (timers s)\<rparr>"
  let ?r = "run_pipeline e (t_key u) ?c"
  have fr: "frame_timers ?r (fire e i s)" using Some by (simp add: fire_def arm_jittered_pipeline_def frame_timers_iff)
  have c: "frame_timers s ?c" by (simp add: frame_timers_iff clear_timeout_def)
  have "runs_ok ?c" using inv runs_ok_frame [OF c] by (simp add: sched_inv_def)
  then have "runs_ok (fire e i s)" using runs_ok_run_pipeline runs_ok_frame [OF fr] by blast
  moreover have same: "plan (fire e i s) = plan s" "registered (fire e i s) = registered s" "has_ctx (fire e i s) = has_ctx s"
    "policy_listeners (fire e i s) = policy_listeners s" "sequences (fire e i s) = sequences s" "startup_gen (fire e i s) = startup_gen s"
    using fr frame_run_pipeline [of ?c e "t_key u"] c by (simp_all add: frame_timers_iff frame_runs_iff)
  moreover have "bases_follow p (fire e i s)" if "bases_follow p s" for p
    using that f(3) unfolding bases_follow_def by metis
  ultimately show ?thesis using inv f(1,2) by (simp add: sched_inv_def plan_ok_def calls_ok_def sequences_ok_def)
qed

lemma sched_inv_sequences:
  assumes "sched_inv w s" and "set q \<subseteq> set (sequences s)"
  shows "sched_inv w (s\<lparr>sequences := q\<rparr>)"
proof -
  have "sequences_ok s" using assms(1) by (simp add: sched_inv_def)
  then have "sequences_ok (s\<lparr>sequences := q\<rparr>)" using assms(2)
    unfolding sequences_ok_def by simp blast
  with assms(1) show ?thesis by (simp add: sched_inv_def timers_ok_def runs_ok_def plan_ok_def calls_ok_def bases_follow_def)
qed

lemma sched_inv_resume_sequence:
  assumes inv: "sched_inv w s"
  shows "sched_inv w (resume_sequence e n s)"
proof (cases "n < length (sequences s)")
  case True
  obtain g v where gv: "sequences s ! n = (g, v)" by (cases "sequences s ! n")
  let ?s1 = "s\<lparr>sequences := take n (sequences s) @ drop (Suc n) (sequences s)\<rparr>"
  have "(g, v) \<in> set (sequences s)" using True gv nth_mem by metis
  then have g: "g \<le> startup_gen s" using inv by (force simp: sched_inv_def sequences_ok_def)
  have "set (sequences ?s1) \<subseteq> set (sequences s)" by (auto dest: in_set_takeD in_set_dropD)
  then have "set (take n (sequences s) @ drop (Suc n) (sequences s)) \<subseteq> set (sequences s)" by simp
  note s1 = sched_inv_sequences [OF inv this]
  have "sched_inv w (startup_loop e g b ks ?s1)" for b ks
    by (rule sched_inv_frame_startup [OF frame_startup_loop _ _ s1])
      (use s1 g in \<open>auto simp: sched_inv_def intro!: runs_ok_startup_loop sequences_ok_startup_loop\<close>)
  then show ?thesis using True gv by (simp del: startup_loop.simps add: resume_sequence_def Let_def split: startup_wait.split)
qed (use inv in \<open>simp add: resume_sequence_def\<close>)

lemma sched_inv_end_run:
  assumes inv: "sched_inv w s"
  shows "sched_inv w (end_run i s)"
proof (rule sched_inv_frame_runs [OF _ _ inv])
  show "frame_runs s (end_run i s)" by (simp add: end_run_def frame_runs_iff split: option.splits)
  show "runs_ok (end_run i s)" using inv runs_ok_end_run by (simp add: sched_inv_def)
qed

lemma sched_inv_step:
  assumes inv: "sched_inv w s" and nxt: "calls_next w ev = Some w'"
  shows "sched_inv w' (sched_step s ev)"
proof (cases ev)
  case (Reload e)
  then show ?thesis using assms sched_inv_start_pipelines(1) by (simp add: reload_def)
next
  case SnapshotSent
  have "sched_inv w (s\<lparr>initial_inventory_sent := True\<rparr>)"
    by (rule sched_inv_fields [OF inv]) (use inv in \<open>auto simp: sched_inv_def calls_ok_def\<close>)
  then show ?thesis using SnapshotSent nxt by simp
next
  case (PolicyEvent e x)
  then show ?thesis using assms sched_inv_reconcile by fastforce
qed (use assms in \<open>auto split: if_splits intro: sched_inv_start_begin sched_inv_start_resume sched_inv_stop
    sched_inv_fire sched_inv_resume_sequence sched_inv_end_run\<close>)

lemma sched_inv_new: "sched_inv False new_scheduler"
  by (simp add: sched_inv_def new_scheduler_def timers_ok_def runs_ok_def plan_ok_def calls_ok_def sequences_ok_def bases_follow_def)

text \<open>The waiting flag after a list of steps.\<close>

fun flag_after :: "bool \<Rightarrow> sched_event list \<Rightarrow> bool" where
  "flag_after w [] = w"
| "flag_after w (ev # es) = (case calls_next w ev of None \<Rightarrow> w | Some w' \<Rightarrow> flag_after w' es)"

lemma sched_inv_run: "sched_inv w s \<Longrightarrow> well_called w es \<Longrightarrow> sched_inv (flag_after w es) (sched_run s es)"
proof (induction es arbitrary: w s)
  case (Cons ev es)
  then obtain w' where w': "calls_next w ev = Some w'" "well_called w' es" by (auto split: option.splits)
  then show ?case using Cons.IH [OF sched_inv_step [OF Cons.prems(1) w'(1)] w'(2)] by simp
qed simp

lemma well_called_append: "well_called w (es @ fs) \<longleftrightarrow> well_called w es \<and> well_called (flag_after w es) fs"
  by (induction es arbitrary: w) (auto split: option.splits)

section \<open>Sample surroundings\<close>

definition all_on :: policy_view where
  "all_on = \<lparr>inventory_enabled = True, update_enabled = True, compliance_enabled = True, patch_enabled = True,
     inventory_interval = 21600, update_interval = 3600, compliance_interval = 28800, cdp_interval = 86400, patch_interval = 86400,
     enabled_plugins = [''amp'', ''scp'', ''cdp'', ''pmp''], enabled_modules = [''inventory'']\<rparr>"

definition env_at :: "policy_view \<Rightarrow> int \<Rightarrow> env" where
  "env_at p now = \<lparr>e_policy = p, e_now = now, e_uptime = Fin 60, e_random = (\<lambda>_. 1 / 2), e_dex_ok = True\<rparr>"

lemmas sched_eval = env_at_def all_on_def new_scheduler_def start_begin_def start_resume_def start_pipelines_def run_startup_sequence_def
  clear_policy_listeners_def run_pipeline_def check_stuck_worker_def plugin_enabled_def stop_all_def start_one_def PIPELINE_KEYS_def
  arm_pipeline_def arm_jittered_pipeline_def compute_tick_delay_def STARTUP_SERIAL_ORDER_def is_armed_def suspend_sequence_def
  add_policy_listener_def stop_def POLICY_EVENTS_def fire_def end_run_def WORKER_STUCK_TIMEOUT_MS_def reconcile_pipelines_def
  diff_pipeline_plan_def needs_rearm_def becomes_effective_def rearm_one_def run_one_now_def stop_pipeline_def clear_timeout_def

section \<open>Properties\<close>



definition stopped :: "scheduler \<Rightarrow> bool" where
  "stopped s \<longleftrightarrow> live s = [] \<and> pipeline_active s = {} \<and> timers s = [] \<and> registered s = [] \<and> \<not> has_ctx s \<and> \<not> dex s
     \<and> (\<forall>q \<in> set (sequences s). fst q < startup_gen s)"

lemma startup_loop_dead: "g \<noteq> startup_gen s \<Longrightarrow> startup_loop e g w ks s = s"
  by (cases ks) simp_all

lemma stopped_step:
  assumes "stopped s" and "\<And>e. ev \<noteq> StartBegin e \<and> ev \<noteq> StartResume e"
  shows "stopped (sched_step s ev) \<and> set (runs (sched_step s ev)) \<subseteq> set (runs s)"
proof (cases ev)
  case (SequenceResumes e n)
  show ?thesis
  proof (cases "n < length (sequences s)")
    case True
    obtain g v where gv: "sequences s ! n = (g, v)" by (cases "sequences s ! n")
    have "(g, v) \<in> set (sequences s)" using True gv nth_mem by metis
    then have "g \<noteq> startup_gen s" using assms(1) by (auto simp: stopped_def)
    then have "resume_sequence e n s = s\<lparr>sequences := take n (sequences s) @ drop (Suc n) (sequences s)\<rparr>"
      using True gv by (simp add: resume_sequence_def Let_def startup_loop_dead split: startup_wait.split)
    then show ?thesis using SequenceResumes assms(1)
      by (simp add: stopped_def) (meson UnE in_set_dropD in_set_takeD)
  next
    case False
    then show ?thesis using SequenceResumes assms(1) by (simp add: resume_sequence_def)
  qed
next
  case Stop
  then show ?thesis using assms(1)
    by (auto simp: stopped_def stop_def stop_all_def clear_policy_listeners_def)
qed (use assms in \<open>auto simp: stopped_def reload_def fire_def end_run_def split: option.splits\<close>)

text \<open>C3. After \<open>stop\<close> nothing starts any more: whatever still happens (policy events, a reload, late callbacks, runs that
  end, a startup sequence that was waiting), no timer is armed and no pipeline run begins, until the next
  \<open>start\<close>. Runs that were in flight may only end.\<close>

theorem stop_is_final:
  assumes "well_called False (es @ [Stop])" and "\<forall>ev \<in> set fs. \<forall>e. ev \<noteq> StartBegin e \<and> ev \<noteq> StartResume e"
  shows "live (sched_run new_scheduler (es @ [Stop] @ fs)) = []
     \<and> \<not> dex (sched_run new_scheduler (es @ [Stop] @ fs))
     \<and> set (runs (sched_run new_scheduler (es @ [Stop] @ fs))) \<subseteq> set (runs (sched_run new_scheduler es))"
proof -
  let ?s = "sched_run new_scheduler es"
  have inv: "sched_inv (flag_after False es) ?s"
    using assms(1) sched_inv_run [OF sched_inv_new] by (simp add: well_called_append)
  have st0: "stopped (stop ?s) \<and> runs (stop ?s) = runs ?s"
    using inv by (auto simp: sched_inv_stop(2) [OF inv] stopped_def sched_inv_def sequences_ok_def intro: le_imp_less_Suc)
  have rest: "stopped s \<Longrightarrow> stopped (sched_run s fs) \<and> set (runs (sched_run s fs)) \<subseteq> set (runs s)" for s
    using assms(2)
  proof (induction fs arbitrary: s)
    case (Cons ev fs)
    have "\<And>e. ev \<noteq> StartBegin e \<and> ev \<noteq> StartResume e" using Cons.prems(2) by simp
    from stopped_step [OF Cons.prems(1) this]
    have st: "stopped (sched_step s ev)" "set (runs (sched_step s ev)) \<subseteq> set (runs s)" by simp_all
    have "\<forall>ev \<in> set fs. \<forall>e. ev \<noteq> StartBegin e \<and> ev \<noteq> StartResume e" using Cons.prems(2) by simp
    from Cons.IH [OF st(1) this] st(2) show ?case by (simp only: foldl.simps) blast
  qed simp
  from rest [OF conjunct1 [OF st0]] st0
  have "stopped (sched_run (stop ?s) fs)" "set (runs (sched_run (stop ?s) fs)) \<subseteq> set (runs ?s)" by simp_all
  then show ?thesis by (simp add: stopped_def)
qed

lemma stop_is_final_witness:
  "live (sched_run new_scheduler ([StartBegin (env_at all_on 0), StartResume (env_at all_on 9)] @ [Stop]
      @ [PolicyEvent (env_at all_on 10) ''pluginsChanged'', SequenceResumes (env_at all_on 11) 0, Fire (env_at all_on 12) 0, Reload (env_at all_on 13)])) = []"
  using stop_is_final [of "[StartBegin (env_at all_on 0), StartResume (env_at all_on 9)]"
      "[PolicyEvent (env_at all_on 10) ''pluginsChanged'', SequenceResumes (env_at all_on 11) 0, Fire (env_at all_on 12) 0, Reload (env_at all_on 13)]"]
  by simp

text \<open>The order of the calls matters: a \<open>stop\<close> that arrives while \<open>start\<close> still waits for its first inventory is undone when
  that inventory ends. \<open>start\<close> does not look whether it was stopped, so all five pipelines are armed and the policy
  listeners registered in a scheduler that has no context; a second \<open>stop\<close> then leaves the listeners registered.\<close>

theorem stop_during_start_is_undone:
  "let s = sched_run new_scheduler [StartBegin (env_at all_on 0), Stop, RunEnds 0, StartResume (env_at all_on 9)] in
     \<not> has_ctx s \<and> map t_key (live s) = [Inventory, Update, Compliance, Cdp, Patch] \<and> registered s = POLICY_EVENTS
     \<and> registered (stop s) = POLICY_EVENTS"
  by (simp add: sched_eval Let_def)

text \<open>A policy that is applied again, as the backend does on every reconciliation, does nothing: it arms and stops no timer and
  starts no run.\<close>

theorem policy_reapplied_does_nothing:
  assumes "e_policy e' = e_policy e"
  shows "reconcile_pipelines e' (reconcile_pipelines e s) = reconcile_pipelines e s"
proof -
  have pl: "plan (reconcile_pipelines e s) = Some (read_pipeline_plan (e_policy e))"
    "capability_sig (reconcile_pipelines e s) = Some (sig_of (e_policy e))"
  proof -
    let ?s1 = "s\<lparr>plan := Some (read_pipeline_plan (e_policy e)), capability_sig := Some (sig_of (e_policy e))\<rparr>"
    have "frame_timers ?s1 (rearmed e s)"
      unfolding rearmed_def Let_def
      by (rule frame_timers_foldl) (simp add: rearm_one_def Let_def frame_stop_pipeline frame_timers_trans [OF frame_stop_pipeline frame_arm_pipeline])
    then show "plan (reconcile_pipelines e s) = Some (read_pipeline_plan (e_policy e))"
      "capability_sig (reconcile_pipelines e s) = Some (sig_of (e_policy e))"
      using frame_start_due [of "rearmed e s" e] unfolding reconcile_eq by (auto simp: frame_timers_iff frame_runs_iff)
  qed
  show ?thesis unfolding reconcile_pipelines_def [of e'] Let_def assms pl diff_same by (simp add: pl)
qed

lemma policy_reapplied_does_nothing_witness:
  "reconcile_pipelines (env_at all_on 60000) (reconcile_pipelines (env_at all_on 0) new_scheduler) = reconcile_pipelines (env_at all_on 0) new_scheduler"
  by (rule policy_reapplied_does_nothing) (simp add: env_at_def)

lemma new_runs_run_pipeline: "r \<in> set (runs (run_pipeline e k s)) \<Longrightarrow> r \<in> set (runs s) \<or> snd r = k"
  by (auto simp: run_pipeline_def split: prod.splits if_splits)

lemma new_runs_fold:
  "r \<in> set (runs (foldl (run_one_now e) s ks)) \<Longrightarrow>
     r \<in> set (runs s) \<or> snd r \<in> set ks \<and> snd r \<noteq> Inventory \<and> snd r \<notin> startup_pending s"
proof (induction ks arbitrary: s)
  case (Cons k ks)
  have sp: "startup_pending (run_one_now e s k) = startup_pending s"
    using frame_run_pipeline [of s e k] by (simp add: run_one_now_def frame_runs_iff)
  have one: "r \<in> set (runs (run_one_now e s k)) \<Longrightarrow> r \<in> set (runs s) \<or> snd r = k \<and> k \<noteq> Inventory \<and> k \<notin> startup_pending s"
    using new_runs_run_pipeline [of r e k s] by (auto simp: run_one_now_def split: if_splits)
  from Cons.IH [of "run_one_now e s k"] Cons.prems one sp show ?case by auto
qed simp

lemma new_runs_start_due:
  assumes "r \<in> set (runs (start_due e ks c s))"
  shows "r \<in> set (runs s) \<or> (snd r \<in> set ks \<and> (snd r = Inventory \<or> snd r \<notin> startup_pending s)) \<or> (snd r = Inventory \<and> c)"
  using assms new_runs_fold [of r e s ks] new_runs_run_pipeline [of r e Inventory "foldl (run_one_now e) s ks"]
  by (auto simp: start_due_def Let_def split: if_splits)



definition startup_wait_over :: "env \<Rightarrow> bool" where
  "startup_wait_over e \<longleftrightarrow> startup_patch_delay_ms (e_uptime e) STARTUP_PATCH_MIN_UPTIME_MS = 0"

lemma startup_patch_delay_nonneg: "0 \<le> startup_patch_delay_ms u m"
  by (simp add: startup_patch_delay_ms_def split: jsnum.split)

lemma new_runs_startup_loop:
  "r \<in> set (runs (startup_loop e g w ks s)) \<Longrightarrow> r \<notin> set (runs s) \<Longrightarrow> snd r = Patch \<Longrightarrow> startup_wait_over e \<or> (w \<and> hd ks = Patch)"
proof (induction e g w ks s rule: startup_loop.induct)
  case (2 e g w k ks s)
  let ?s1 = "s\<lparr>startup_pending := startup_pending s - {k}\<rparr>"
  show ?case
  proof (cases "g \<noteq> startup_gen s \<or> (\<not> w \<and> k = Patch \<and> startup_patch_delay_ms (e_uptime e) STARTUP_PATCH_MIN_UPTIME_MS > 0)")
    case True
    then show ?thesis using "2.prems" by (auto simp: suspend_sequence_def split: if_splits)
  next
    case False
    show ?thesis
    proof (cases "is_armed ?s1 k")
      case True
      have "r \<in> set (runs (run_pipeline e k ?s1))"
        using "2.prems"(1) False True by (auto simp: suspend_sequence_def Let_def split: if_splits)
      then have "k = Patch" using "2.prems"(2,3) new_runs_run_pipeline [of r e k ?s1] by simp
      then show ?thesis using False startup_patch_delay_nonneg [of "e_uptime e" STARTUP_PATCH_MIN_UPTIME_MS]
        by (auto simp: startup_wait_over_def)
    next
      case nar: False
      have "startup_wait_over e \<or> (False \<and> hd ks = Patch)"
        by (rule "2.IH" [OF _ _ refl nar]) (use False nar "2.prems" in \<open>auto simp: Let_def\<close>)
      then show ?thesis by simp
    qed
  qed
qed simp

lemma new_runs_start_pipelines:
  assumes "r \<in> set (runs (start_pipelines e s))" and "r \<notin> set (runs s)" and "snd r = Patch"
  shows "startup_wait_over e"
proof -
  let ?p = "read_pipeline_plan (e_policy e)"
  let ?s1 = "(stop_all s)\<lparr>plan := Some ?p, capability_sig := Some (sig_of (e_policy e))\<rparr>"
  let ?s2 = "foldl (start_one e ?p) ?s1 PIPELINE_KEYS"
  let ?s3 = "if armed (?p Update) then run_pipeline e Update ?s2 else ?s2"
  have "frame_timers ?s1 ?s2" by (rule frame_timers_foldl) (simp add: start_one_def frame_arm_pipeline)
  then have "runs ?s2 = runs s" by (simp add: frame_timers_iff stop_all_def clear_all_timeouts)
  then have "r \<notin> set (runs ?s3)" using assms(2,3) new_runs_run_pipeline [of r e Update ?s2] by auto
  with assms(1,3) new_runs_startup_loop [of r e "startup_gen ?s3 + 1" False STARTUP_SERIAL_ORDER
      "?s3\<lparr>startup_gen := startup_gen ?s3 + 1, startup_pending := set STARTUP_SERIAL_ORDER\<rparr>"]
  show ?thesis by (simp add: start_pipelines_def run_startup_sequence_def Let_def)
qed

text \<open>C8. What can start a patch scan, in any state and with any interleaving: its own timer; a policy event by which the scan
  becomes effective, never while the startup sequence still has it to run; or the startup sequence, when the
  machine has been up for its ten minutes or the wait for them is over. In particular neither a start or reload on a freshly
  booted machine nor a re-sent policy starts one.\<close>

theorem patch_scan_causes:
  assumes "r \<in> set (runs (sched_step s ev)) - set (runs s)" and "snd r = Patch"
  shows "(\<exists>e i t. ev = Fire e i \<and> t \<in> set (live s) \<and> t_id t = i \<and> t_key t = Patch)
    \<or> (\<exists>e x. ev = PolicyEvent e x \<and> becomes_effective (plan s) (read_pipeline_plan (e_policy e)) Patch \<and> Patch \<notin> startup_pending s)
    \<or> (\<exists>e. (ev = StartResume e \<or> ev = Reload e) \<and> startup_patch_delay_ms (e_uptime e) STARTUP_PATCH_MIN_UPTIME_MS = 0)
    \<or> (\<exists>e n. ev = SequenceResumes e n \<and> (startup_patch_delay_ms (e_uptime e) STARTUP_PATCH_MIN_UPTIME_MS = 0
         \<or> (\<exists>g ks. sequences s ! n = (g, Uptime Patch ks))))"
proof (cases ev)
  case (StartBegin e)
  then show ?thesis
    using assms new_runs_run_pipeline [of r e Inventory "(clear_policy_listeners s)\<lparr>has_ctx := True, initial_inventory_sent := False\<rparr>"]
    by (auto simp: start_begin_def clear_policy_listeners_def split: if_splits)
next
  case (StartResume e)
  then show ?thesis using assms new_runs_start_pipelines [of r e s]
    by (auto simp: start_resume_def add_listeners startup_wait_over_def)
next
  case (Reload e)
  then show ?thesis using assms new_runs_start_pipelines [of r e s]
    by (auto simp: reload_def startup_wait_over_def split: if_splits)
next
  case (PolicyEvent e x)
  have fr: "runs (rearmed e s) = runs s \<and> startup_pending (rearmed e s) = startup_pending s"
  proof -
    let ?s1 = "s\<lparr>plan := Some (read_pipeline_plan (e_policy e)), capability_sig := Some (sig_of (e_policy e))\<rparr>"
    have "frame_timers ?s1 (rearmed e s)"
      unfolding rearmed_def Let_def
      by (rule frame_timers_foldl) (simp add: rearm_one_def Let_def frame_stop_pipeline frame_timers_trans [OF frame_stop_pipeline frame_arm_pipeline])
    then show ?thesis by (simp add: frame_timers_iff)
  qed
  from assms PolicyEvent have "r \<in> set (runs (reconcile_pipelines e s))" by (auto split: if_splits)
  from new_runs_start_due [OF this [unfolded reconcile_eq]] assms fr
  have "becomes_effective (plan s) (read_pipeline_plan (e_policy e)) Patch \<and> Patch \<notin> startup_pending s"
    by (auto simp: diff_pipeline_plan_def)
  then show ?thesis using PolicyEvent by blast
next
  case (Fire e i)
  show ?thesis
  proof (cases "find (\<lambda>t. t_id t = i) (live s)")
    case (Some t)
    then have t: "t \<in> set (live s)" "t_id t = i" by (auto simp: find_Some_iff)
    have "runs (fire e i s) = runs (run_pipeline e (t_key t) (clear_timeout i s\<lparr>timers := AList.delete (t_key t) (timers s)\<rparr>))"
      using Some by (simp add: fire_def arm_jittered_pipeline_def)
    then have "t_key t = Patch"
      using Fire assms new_runs_run_pipeline [of r e "t_key t" "clear_timeout i s\<lparr>timers := AList.delete (t_key t) (timers s)\<rparr>"]
      by (auto simp: clear_timeout_def)
    then show ?thesis using Fire t by blast
  qed (use assms Fire in \<open>simp add: fire_def\<close>)
next
  case (SequenceResumes e n)
  show ?thesis
  proof (cases "n < length (sequences s)")
    case True
    obtain g v where gv: "sequences s ! n = (g, v)" by (cases "sequences s ! n")
    let ?s1 = "s\<lparr>sequences := take n (sequences s) @ drop (Suc n) (sequences s)\<rparr>"
    have "startup_wait_over e \<or> (\<exists>ks. v = Uptime Patch ks)"
    proof (cases v)
      case (Uptime k ks)
      then show ?thesis using assms SequenceResumes True gv new_runs_startup_loop [of r e g True "k # ks" ?s1]
        by (simp add: resume_sequence_def Let_def del: startup_loop.simps)
    next
      case (RunOrCap ks)
      then show ?thesis using assms SequenceResumes True gv new_runs_startup_loop [of r e g False ks ?s1]
        by (simp add: resume_sequence_def Let_def del: startup_loop.simps)
    qed
    then show ?thesis using SequenceResumes gv by (auto simp: startup_wait_over_def)
  qed (use assms SequenceResumes in \<open>simp add: resume_sequence_def\<close>)
qed (use assms in \<open>auto simp: stop_def clear_policy_listeners_def stop_all_def clear_all_timeouts end_run_def split: option.splits if_splits\<close>)

lemma patch_scan_causes_witness:
  "let s = sched_run new_scheduler [StartBegin (env_at all_on 0), StartResume (env_at all_on 5000)];
       i = t_id (live s ! 4)
   in \<exists>e j t. Fire (env_at all_on 100000) i = Fire e j \<and> t \<in> set (live s) \<and> t_id t = j \<and> t_key t = Patch"
proof -
  let ?s = "sched_run new_scheduler [StartBegin (env_at all_on 0), StartResume (env_at all_on 5000)]"
  have "(3, Patch) \<in> set (runs (sched_step ?s (Fire (env_at all_on 100000) 4))) - set (runs ?s)" "t_id (live ?s ! 4) = 4"
    by (simp_all add: sched_eval Let_def startup_patch_delay_ms_def STARTUP_PATCH_MIN_UPTIME_MS_def)
  with patch_scan_causes [of "(3, Patch)" ?s "Fire (env_at all_on 100000) 4"] show ?thesis by (simp only: Let_def) simp
qed

text \<open>A scan that is wedged blocks its pipeline for thirty minutes and no longer.\<close>

lemma run_pipeline_running:
  assumes "run_allowed (e_policy e) k" and "running s k"
  shows "run_pipeline e k s =
     (if e_now e - started_at s k > WORKER_STUCK_TIMEOUT_MS
      then s\<lparr>started_at := (started_at s)(k := e_now e), runs := runs s @ [(next_run s, k)], next_run := next_run s + 1\<rparr>
      else s)"
proof -
  have "(running s)(k := True) = running s" by (rule ext) (simp add: assms(2))
  with assms show ?thesis by (simp add: run_pipeline_def check_stuck_worker_def)
qed

text \<open>A pipeline is never shut off for good by a run that does not return: in any state its guard is either down, or a run
  holds it, and a tick that comes more than thirty minutes after that run began starts a new one, which takes the guard over
  with its own start time. Within the thirty minutes a tick changes nothing.\<close>

theorem wedged_worker_is_released:
  assumes "well_called False es" and "run_allowed (e_policy e) k"
  shows "let s = sched_run new_scheduler es; s' = run_pipeline e k s in
     (\<not> running s k \<or> e_now e - started_at s k > 30 * 60 * 1000 \<longrightarrow>
        set (runs s') = insert (next_run s, k) (set (runs s)) \<and> running s' k \<and> started_at s' k = e_now e)
     \<and> (running s k \<longrightarrow> (\<exists>i. (i, k) \<in> set (runs s)) \<and> (e_now e - started_at s k \<le> 30 * 60 * 1000 \<longrightarrow> s' = s))"
proof -
  let ?s = "sched_run new_scheduler es"
  have "runs_ok ?s" using sched_inv_run [OF sched_inv_new assms(1)] by (simp add: sched_inv_def)
  then have "running ?s k \<Longrightarrow> k \<in> snd ` set (runs ?s)" by (simp add: runs_ok_def)
  then have "running ?s k \<Longrightarrow> \<exists>i. (i, k) \<in> set (runs ?s)" by (metis imageE prod.collapse)
  moreover have "running ?s k \<Longrightarrow> e_now e - started_at ?s k \<le> 30 * 60 * 1000 \<Longrightarrow> run_pipeline e k ?s = ?s"
    by (simp add: run_pipeline_running [OF assms(2)] WORKER_STUCK_TIMEOUT_MS_def)
  moreover have "\<not> running ?s k \<or> e_now e - started_at ?s k > 30 * 60 * 1000 \<Longrightarrow>
      set (runs (run_pipeline e k ?s)) = insert (next_run ?s, k) (set (runs ?s)) \<and> running (run_pipeline e k ?s) k
        \<and> started_at (run_pipeline e k ?s) k = e_now e"
    using assms(2) by (auto simp: run_pipeline_def check_stuck_worker_def WORKER_STUCK_TIMEOUT_MS_def)
  ultimately show ?thesis by (simp add: Let_def)
qed

lemma wedged_worker_is_released_witness:
  "running (run_pipeline (env_at all_on 1800001) Inventory (sched_run new_scheduler [StartBegin (env_at all_on 0)])) Inventory
   \<and> started_at (run_pipeline (env_at all_on 1800001) Inventory (sched_run new_scheduler [StartBegin (env_at all_on 0)])) Inventory = 1800001"
proof -
  let ?s = "sched_run new_scheduler [StartBegin (env_at all_on 0)]"
  have "running ?s Inventory \<and> started_at ?s Inventory = 0" by (simp add: sched_eval)
  then show ?thesis
    using wedged_worker_is_released [of "[StartBegin (env_at all_on 0)]" "env_at all_on 1800001" Inventory]
    by (simp add: Let_def env_at_def all_on_def plugin_enabled_def)
qed

text \<open>The guard does not keep two healthy runs apart. When a run is replaced after thirty minutes and the old one then ends, its
  \<open>finally\<close> lowers the guard of the NEW run, so the next tick starts a second inventory beside one that is a few milliseconds old.
  The source calls the late \<open>finally\<close> a no-op for the new run.\<close>

theorem late_finally_drops_new_guard:
  "let s = sched_run new_scheduler [StartBegin (env_at all_on 0), StartResume (env_at all_on 1),
             Fire (env_at all_on 1800001) 0, RunEnds 0, Fire (env_at all_on 1800002) 5]
   in filter (\<lambda>r. snd r = Inventory) (runs s) = [(3, Inventory), (4, Inventory)]"
  by (simp add: sched_eval Let_def startup_patch_delay_ms_def STARTUP_PATCH_MIN_UPTIME_MS_def)

end
