(* ===== verification/Snapshot_Runs.thy ===== *)
theory Snapshot_Runs
  imports Outbox Canonical Gates
begin

text \<open>
  The bodies of \<open>runInventory\<close>, \<open>runCompliance\<close>, \<open>runCdp\<close> and \<open>runPatch\<close> of \<open>src/core/scheduler.ts\<close>, from the result of
  the plugin on: change detection, the send gate, the rows they put in the outbox and the marks they leave
  in its state table.

  Arguments: what the plugin returned (nothing when it threw), \<open>build_facts\<close> for \<open>buildDeviceFacts\<close> (nothing when it throws), and
  \<open>state_ok\<close>, which says for each key whether writing it succeeds. A run has two clock readings, one for the gate and
  one for the stamp.
\<close>

record run_env =
  r_codec :: "jsval codec"
  r_sha :: "string \<Rightarrow> string"
  r_print :: "rat \<Rightarrow> string"
  r_collate :: "string \<Rightarrow> string \<Rightarrow> bool"
  build_facts :: "(string \<times> jsval) list \<Rightarrow> jsval option"
  state_ok :: "string \<Rightarrow> bool"
  gate_time :: nat
  stamp_time :: nat

datatype run_outcome = NoNamespace | NoChanges | RunFailed | Enqueued nat

text \<open>A \<open>setState\<close> whose exception is caught and logged.\<close>

definition stamp :: "run_env \<Rightarrow> string \<Rightarrow> string \<Rightarrow> outbox \<Rightarrow> outbox" where
  "stamp r k v s = (if state_ok r k then set_state s (int (stamp_time r)) k v else s)"

definition enqueue_facts :: "run_env \<Rightarrow> (string \<times> jsval) list \<Rightarrow> outbox \<Rightarrow> (nat \<times> outbox) option" where
  "enqueue_facts r namespaces s =
     (case build_facts r namespaces of
        None \<Rightarrow> None
      | Some facts \<Rightarrow> (case enqueue (r_codec r) s (int (gate_time r)) FACTS_SNAPSHOT facts of Inl _ \<Rightarrow> None | Inr p \<Rightarrow> Some p))"

section \<open>runCompliance\<close>

definition compliance_body :: "run_env \<Rightarrow> (string \<times> jsval) list option \<Rightarrow> outbox \<Rightarrow> outbox \<times> run_outcome" where
  "compliance_body r scp s = (case scp of
     None \<Rightarrow> (s, NoNamespace)
   | Some ns \<Rightarrow>
       let current_hash = hash_namespace (r_sha r) (r_print r) (r_collate r) (JObj (build_scp_state_for_hash ns));
           has_changes = (get_state s ''namespaceHash:scp'' \<noteq> Some current_hash);
           namespaces = [(''scp'', JObj (map_set ns ''hasChanges'' (JBool has_changes)))];
           gate = decide_compliance_send has_changes (number_of_state (get_state s ''lastSentFactsAt:compliance'')) (of_nat (gate_time r))
       in if \<not> fst gate then (s, NoChanges)
          else case enqueue_facts r namespaces s of
                 None \<Rightarrow> (s, RunFailed)
               | Some (i, s1) \<Rightarrow>
                   if \<not> state_ok r ''namespaceHash:scp'' then (s1, RunFailed)
                   else (stamp r ''lastSentFactsAt:compliance'' (show_nat (stamp_time r))
                           (set_state s1 (int (stamp_time r)) ''namespaceHash:scp'' current_hash), Enqueued i))"

section \<open>runPatch\<close>

definition patch_body :: "run_env \<Rightarrow> (string \<times> jsval) list option \<Rightarrow> outbox \<Rightarrow> outbox \<times> run_outcome" where
  "patch_body r pmp s = (case pmp of
     None \<Rightarrow> (s, NoNamespace)
   | Some ns \<Rightarrow>
       let current_hash = hash_namespace (r_sha r) (r_print r) (r_collate r) (JObj (build_pmp_state_for_hash ns));
           has_changes = (get_state s ''namespaceHash:pmp'' \<noteq> Some current_hash);
           namespaces = [(''pmp'', JObj (map_set ns ''hasChanges'' (JBool has_changes)))]
       in if \<not> has_changes then (s, NoChanges)
          else case enqueue_facts r namespaces s of
                 None \<Rightarrow> (s, RunFailed)
               | Some (i, s1) \<Rightarrow>
                   if \<not> state_ok r ''namespaceHash:pmp'' then (s1, RunFailed)
                   else (stamp r ''lastSentFactsAt:patch'' (show_nat (stamp_time r))
                           (set_state s1 (int (stamp_time r)) ''namespaceHash:pmp'' current_hash), Enqueued i))"

section \<open>runCdp\<close>

text \<open>The plugin itself decides \<open>hasChanges\<close>; the delivery to confirm is staged under the id of the row.\<close>

definition cdp_body :: "run_env \<Rightarrow> (string \<times> jsval) list option \<Rightarrow> outbox \<Rightarrow> outbox \<times> run_outcome" where
  "cdp_body r cdp s = (case cdp of
     None \<Rightarrow> (s, NoNamespace)
   | Some ns \<Rightarrow>
       if \<not> truthy (jprop (JObj ns) ''hasChanges'') then (s, NoChanges)
       else case enqueue_facts r [(''cdp'', JObj ns)] s of
              None \<Rightarrow> (s, RunFailed)
            | Some (i, s1) \<Rightarrow> (stamp r ''lastSentFactsAt:cdp'' (show_nat (stamp_time r)) s1, Enqueued i))"

section \<open>runInventory\<close>

text \<open>
  Re-hydration of one inventory of a forced snapshot: \<open>key\<close> is \<open>software\<close> or \<open>printers\<close>, \<open>baseline\<close> the
  stored list (nothing when loading it throws).
\<close>

definition rehydrate :: "string \<Rightarrow> jsval list option \<Rightarrow> jsval \<Rightarrow> jsval" where
  "rehydrate key baseline amp = (case amp of
     JObj a \<Rightarrow>
       (case jprop amp key of
          JObj o1 \<Rightarrow>
            (if jprop (JObj o1) ''items'' \<in> {JUndef, JNull} then
               (case baseline of
                  Some (b # bs) \<Rightarrow>
                    JObj (map_set a key (JObj (map_set (map_set o1 ''items'' (JArr (b # bs)))
                      ''count'' (JNum (Fin (of_nat (length (b # bs))))))))
                | _ \<Rightarrow> amp)
             else amp)
        | _ \<Rightarrow> amp)
   | _ \<Rightarrow> amp)"

definition inventory_body ::
  "run_env \<Rightarrow> string \<Rightarrow> jsval option \<Rightarrow> jsval list option \<Rightarrow> jsval list option \<Rightarrow> outbox \<times> bool \<Rightarrow> (outbox \<times> bool) \<times> run_outcome" where
  "inventory_body r agent_version collected software_baseline printer_baseline = (\<lambda>(s, initial_sent).
     (case collected of
        None \<Rightarrow> ((s, initial_sent), NoNamespace)
      | Some amp \<Rightarrow>
          let has_any_changes = namespaces_have_changes [(''amp'', amp)];
              force_initial = \<not> initial_sent;
              version_changed = (get_state s ''lastSentAgentVersion'' \<noteq> Some agent_version);
              gate = decide_facts_send has_any_changes force_initial version_changed
                       (number_of_state (get_state s ''lastSentFactsAt:inventory'')) (of_nat (gate_time r))
          in if \<not> fst gate then ((s, initial_sent), NoChanges)
             else
               let needs_rehydrate = force_initial \<or> version_changed;
                   amp' = (if needs_rehydrate
                           then rehydrate ''printers'' printer_baseline (rehydrate ''software'' software_baseline amp) else amp)
               in case enqueue_facts r [(''amp'', amp')] s of
                    None \<Rightarrow> ((s, initial_sent), RunFailed)
                  | Some (i, s1) \<Rightarrow>
                      ((stamp r ''lastSentFactsAt:inventory'' (show_nat (stamp_time r))
                          (stamp r ''lastSentAgentVersion'' agent_version s1), True), Enqueued i)))"

section \<open>Lemmas\<close>

lemma get_state_set_state [simp]: "get_state (set_state s t k v) k' = (if k' = k then Some v else get_state s k')"
  by (rule outbox_kv.kget_kput)

lemma rows_set_state [simp]: "ob_rows (set_state s t k v) = ob_rows s"
  by (simp add: set_state_def)

lemma rows_stamp [simp]: "ob_rows (stamp r k v s) = ob_rows s"
  by (simp add: stamp_def)

lemma get_state_stamp: "get_state (stamp r k v s) k' = (if k' = k \<and> state_ok r k then Some v else get_state s k')"
  by (simp add: stamp_def)

lemma outbox_inv_set_state: "outbox_inv s \<Longrightarrow> outbox_inv (set_state s t k v)"
  using outbox_machine.minv_step [where s = s and e = "OpSetState t k v"] by simp

lemma outbox_inv_stamp: "outbox_inv s \<Longrightarrow> outbox_inv (stamp r k v s)"
  by (simp add: stamp_def outbox_inv_set_state)

text \<open>Enqueueing leaves the state table alone; the row it names is live and carries the event.\<close>

definition holds_snapshot :: "run_env \<Rightarrow> outbox \<Rightarrow> nat \<Rightarrow> (string \<times> jsval) list \<Rightarrow> bool" where
  "holds_snapshot r s i namespaces \<longleftrightarrow>
     (\<exists>facts row. build_facts r namespaces = Some facts \<and> row \<in> set (ob_rows s) \<and> row_id row = i
        \<and> row_type row = FACTS_SNAPSHOT \<and> active row
        \<and> payload_hash row = sha256 (r_codec r) (stringify (r_codec r) facts))"

lemma enqueue_state: "enqueue c s t ty p = Inr (i, s') \<Longrightarrow> get_state s' k = get_state s k"
  by (auto simp: enqueue_def Let_def get_state_def notify_changed_def split: if_splits option.splits)

lemma enqueue_facts_row: "enqueue_facts r ns s = Some (i, s1) \<Longrightarrow> holds_snapshot r s1 i ns"
  by (auto simp: enqueue_facts_def enqueue_def holds_snapshot_def Let_def active_def dest!: find_SomeD
      split: option.splits sum.splits if_splits)

lemma enqueue_facts_state: "enqueue_facts r ns s = Some (i, s1) \<Longrightarrow> get_state s1 k = get_state s k"
  by (auto simp: enqueue_facts_def split: option.splits sum.splits intro: enqueue_state)

lemma holds_snapshot_rows: "ob_rows s' = ob_rows s \<Longrightarrow> holds_snapshot r s' i ns = holds_snapshot r s i ns"
  by (simp add: holds_snapshot_def)

section \<open>Properties\<close>

text \<open>C9. The change mark of the compliance evidence moves only together with its snapshot. When the recorded hash differs from
  before, the outbox holds a live snapshot of exactly the evidence that was collected, marked as changed, and the new mark is the hash of that
  evidence; and a run that failed at any point leaves the old mark, so that the next run finds the change again.\<close>

theorem compliance_hash_moves_with_snapshot:
  assumes "compliance_body r (Some ns) s = (s', outcome)"
  shows "(get_state s' ''namespaceHash:scp'' \<noteq> get_state s ''namespaceHash:scp'' \<longrightarrow>
            (\<exists>i. outcome = Enqueued i \<and> holds_snapshot r s' i [(''scp'', JObj (map_set ns ''hasChanges'' (JBool True)))])
            \<and> get_state s' ''namespaceHash:scp''
                = Some (hash_namespace (r_sha r) (r_print r) (r_collate r) (JObj (build_scp_state_for_hash ns))))
       \<and> (outcome = RunFailed \<longrightarrow> (\<forall>k. get_state s' k = get_state s k))
       \<and> (outcome = NoChanges \<longrightarrow> s' = s \<and> get_state s ''namespaceHash:scp''
                = Some (hash_namespace (r_sha r) (r_print r) (r_collate r) (JObj (build_scp_state_for_hash ns))))"
proof -
  let ?h = "hash_namespace (r_sha r) (r_print r) (r_collate r) (JObj (build_scp_state_for_hash ns))"
  let ?c = "get_state s ''namespaceHash:scp'' \<noteq> Some ?h"
  let ?n = "[(''scp'', JObj (map_set ns ''hasChanges'' (JBool ?c)))]"
  let ?l = "number_of_state (get_state s ''lastSentFactsAt:compliance'')"
  show ?thesis
  proof (cases "fst (decide_compliance_send ?c ?l (of_nat (gate_time r)))")
    case False
    then have "\<not> ?c" by (simp add: compliance_send_iff)
    with False show ?thesis using assms by (simp add: compliance_body_def Let_def)
  next
    case go: True
    show ?thesis
    proof (cases "enqueue_facts r ?n s")
      case None
      then show ?thesis using assms go by (simp add: compliance_body_def Let_def)
    next
      case (Some p)
      obtain i s1 where p: "p = (i, s1)" by (cases p)
      note row = enqueue_facts_row [OF Some [unfolded p]] and st = enqueue_facts_state [OF Some [unfolded p]]
      show ?thesis
      proof (cases "state_ok r ''namespaceHash:scp''")
        case False
        then show ?thesis using assms go Some p st by (simp add: compliance_body_def Let_def)
      next
        case True
        let ?t = "stamp r ''lastSentFactsAt:compliance'' (show_nat (stamp_time r)) (set_state s1 (int (stamp_time r)) ''namespaceHash:scp'' ?h)"
        have eq: "s' = ?t" "outcome = Enqueued i" using assms go Some p True by (simp_all add: compliance_body_def Let_def)
        have "holds_snapshot r ?t i ?n" using row by (simp add: holds_snapshot_rows [of ?t s1])
        moreover have "get_state ?t ''namespaceHash:scp'' = Some ?h" by (simp add: get_state_stamp)
        ultimately show ?thesis unfolding eq by (cases ?c) auto
      qed
    qed
  qed
qed

definition sample_run :: run_env where
  "sample_run = \<lparr>r_codec = \<lparr>stringify = (\<lambda>v. plain_text show_fraction v), parse_json = (\<lambda>_. None), sha256 = (\<lambda>t. t),
       gzip64 = (\<lambda>_. None), gunzip64 = (\<lambda>_. None)\<rparr>, r_sha = (\<lambda>t. t), r_print = show_fraction, r_collate = (\<lambda>a b. a \<le> b),
     build_facts = (\<lambda>ns. Some (JObj ns)), state_ok = (\<lambda>_. True), gate_time = 100, stamp_time = 101\<rparr>"

lemma compliance_hash_moves_with_snapshot_witness:
  "let (s', outcome) = compliance_body sample_run (Some [(''firewall'', JBool True)]) (empty_outbox ''me'') in
     (\<exists>i. outcome = Enqueued i \<and> holds_snapshot sample_run s' i [(''scp'', JObj [(''firewall'', JBool True), (''hasChanges'', JBool True)])])"
proof -
  obtain s' outcome where e: "compliance_body sample_run (Some [(''firewall'', JBool True)]) (empty_outbox ''me'') = (s', outcome)"
    by (metis prod.exhaust)
  have "get_state s' ''namespaceHash:scp'' \<noteq> get_state (empty_outbox ''me'') ''namespaceHash:scp''"
    using e by (auto simp: compliance_body_def sample_run_def decide_compliance_send_def enqueue_facts_def enqueue_def empty_outbox_def
        get_state_stamp Let_def get_state_def [of "\<lparr>ob_rows = _, ob_next_id = _, ob_state = _, ob_owner = _, ob_listeners = _, ob_calls = _\<rparr>"]
        maybe_compress_payload_def byte_length_def COMPRESS_THRESHOLD_BYTES_def MAX_PAYLOAD_BYTES_def json_string_def json_escape_def json_bool_def
        char_code_def dquote_def split: if_splits)
  with compliance_hash_moves_with_snapshot [OF e] show ?thesis by (simp add: e)
qed

text \<open>C10. The stamp the gates read is never older than a day after a run that got as far as the gate. For the inventory: when the plugin
  answered, the facts could be built and enqueued and the stamp written, then afterwards the stored text of the stamp
  reads back as a time that is not in the future and at most 24 hours old, whether this run sent something or not, and whatever
  the table held before (nothing, garbage, a time in the future).\<close>

theorem inventory_never_silent_for_a_day:
  assumes "inventory_body r version (Some amp) sb pb (s, initial) = ((s', initial'), outcome)"
    and "outcome \<noteq> RunFailed" and "state_ok r ''lastSentFactsAt:inventory''" and "0 < gate_time r" and "gate_time r \<le> stamp_time r"
  shows "\<exists>t. number_of_state (get_state s' ''lastSentFactsAt:inventory'') = Fin t \<and> 0 < t \<and> t \<le> of_nat (stamp_time r)
     \<and> of_nat (gate_time r) - t \<le> 24 * 60 * 60 * 1000
     \<and> (outcome = NoChanges \<or> t = of_nat (stamp_time r))"
proof -
  let ?go = "fst (decide_facts_send (namespaces_have_changes [(''amp'', amp)]) (\<not> initial)
      (get_state s ''lastSentAgentVersion'' \<noteq> Some version) (number_of_state (get_state s ''lastSentFactsAt:inventory'')) (of_nat (gate_time r)))"
  show ?thesis
  proof (cases ?go)
    case False
    then have "\<not> silence_exceeded MAX_INVENTORY_SILENCE_MS (number_of_state (get_state s ''lastSentFactsAt:inventory'')) (of_nat (gate_time r))"
      by (simp add: facts_send_iff)
    from not_silence_exceededD [OF this] obtain q where q: "number_of_state (get_state s ''lastSentFactsAt:inventory'') = Fin q"
      "0 < q" "q \<le> of_nat (gate_time r)" "of_nat (gate_time r) - q \<le> MAX_INVENTORY_SILENCE_MS" by blast
    have "s' = s" "outcome = NoChanges" using assms(1) False by (simp_all add: inventory_body_def Let_def)
    moreover have "q \<le> of_nat (stamp_time r)" using q(3) assms(5) by (meson of_nat_le_iff order_trans)
    ultimately show ?thesis using q by (simp add: MAX_INVENTORY_SILENCE_MS_def)
  next
    case True
    then obtain i s1 where "s' = stamp r ''lastSentFactsAt:inventory'' (show_nat (stamp_time r)) s1" "outcome = Enqueued i"
      using assms(1,2) by (auto simp: inventory_body_def Let_def split: option.splits)
    then have "number_of_state (get_state s' ''lastSentFactsAt:inventory'') = Fin (of_nat (stamp_time r))"
      using assms(3) by (simp add: get_state_stamp number_of_state_def js_number_show_nat)
    moreover have "(of_nat (gate_time r) :: rat) \<le> of_nat (stamp_time r)" using assms(5) by simp
    ultimately show ?thesis using assms(4,5) by simp
  qed
qed

lemma inventory_never_silent_for_a_day_witness:
  "\<exists>t. number_of_state (get_state (fst (fst (inventory_body sample_run ''1.2.0'' (Some (JObj [])) None None (empty_outbox ''me'', True))))
      ''lastSentFactsAt:inventory'') = Fin t \<and> 0 < t \<and> t \<le> 101"
proof -
  obtain s' i' outcome where e: "inventory_body sample_run ''1.2.0'' (Some (JObj [])) None None (empty_outbox ''me'', True) = ((s', i'), outcome)"
    by (metis prod.exhaust)
  have "outcome \<noteq> RunFailed"
    using e by (auto simp: inventory_body_def sample_run_def decide_facts_send_def enqueue_facts_def enqueue_def empty_outbox_def rehydrate_def
        Let_def get_state_def maybe_compress_payload_def byte_length_def COMPRESS_THRESHOLD_BYTES_def MAX_PAYLOAD_BYTES_def json_string_def
        json_escape_def char_code_def dquote_def split: if_splits)
  from inventory_never_silent_for_a_day [OF e this]
  obtain t where "number_of_state (get_state s' ''lastSentFactsAt:inventory'') = Fin t" "0 < t" "t \<le> of_nat (stamp_time sample_run)"
    by (auto simp: sample_run_def)
  moreover from this have "t \<le> 101" by (simp add: sample_run_def)
  ultimately show ?thesis unfolding e by auto
qed

lemma jprop_map_set: "jprop (JObj (map_set a k v)) k' = (if k' = k then v else jprop (JObj a) k')"
  by (simp add: update_conv')

lemma rehydrate_keeps_other:
  "key' \<noteq> key \<Longrightarrow> jprop (rehydrate key b amp) key' = jprop amp key'"
  by (auto simp: rehydrate_def jprop_map_set update_conv' split: jsval.split list.split option.split)

lemma rehydrate_fills:
  assumes "jprop (JObj a) key = JObj o1" and "jprop (JObj o1) ''items'' \<in> {JUndef, JNull}"
  shows "jprop (jprop (rehydrate key (Some (b # bs)) (JObj a)) key) ''items'' = JArr (b # bs)"
    and "jprop (jprop (rehydrate key (Some (b # bs)) (JObj a)) key) ''count'' = JNum (Fin (of_nat (length (b # bs))))"
proof -
  have "rehydrate key (Some (b # bs)) (JObj a) = JObj (map_set a key (JObj (map_set (map_set o1 ''items'' (JArr (b # bs)))
      ''count'' (JNum (Fin (of_nat (length (b # bs))))))))"
    unfolding rehydrate_def using assms by (simp del: jprop.simps)
  then show "jprop (jprop (rehydrate key (Some (b # bs)) (JObj a)) key) ''items'' = JArr (b # bs)"
    "jprop (jprop (rehydrate key (Some (b # bs)) (JObj a)) key) ''count'' = JNum (Fin (of_nat (length (b # bs))))"
    by (simp_all add: jprop_map_set del: jprop.simps)
qed

lemma inventory_body_forced:
  assumes "\<not> initial \<or> get_state s ''lastSentAgentVersion'' \<noteq> Some version"
  shows "inventory_body r version (Some amp) sb pb (s, initial) =
    (case enqueue_facts r [(''amp'', rehydrate ''printers'' pb (rehydrate ''software'' sb amp))] s of
       None \<Rightarrow> ((s, initial), RunFailed)
     | Some (i, s1) \<Rightarrow> ((stamp r ''lastSentFactsAt:inventory'' (show_nat (stamp_time r))
          (stamp r ''lastSentAgentVersion'' version s1), True), Enqueued i))"
proof -
  have "fst (decide_facts_send c (\<not> initial) (get_state s ''lastSentAgentVersion'' \<noteq> Some version) l t) = True" for c l t
    using assms by (auto simp: facts_send_iff)
  moreover have "(\<not> initial \<or> get_state s ''lastSentAgentVersion'' \<noteq> Some version) = True" using assms by simp
  ultimately show ?thesis
    by (simp only: inventory_body_def Let_def prod.case option.case not_True_eq_False if_True if_False)
qed

text \<open>The first snapshot after a start, and the first with a new agent version, is complete: it is sent even when nothing changed, and when
  the plugin left out the list of software because it was unchanged, the snapshot that is queued carries the stored list with its length.\<close>

theorem forced_snapshot_is_complete:
  assumes "inventory_body r version (Some (JObj a)) (Some (b # bs)) pb (s, initial) = ((s', initial'), outcome)"
    and "\<not> initial \<or> get_state s ''lastSentAgentVersion'' \<noteq> Some version"
    and "jprop (JObj a) ''software'' = JObj o1" and "jprop (JObj o1) ''items'' \<in> {JUndef, JNull}"
  shows "outcome = RunFailed \<or>
    (\<exists>i amp'. outcome = Enqueued i \<and> initial' \<and> holds_snapshot r s' i [(''amp'', amp')]
       \<and> jprop (jprop amp' ''software'') ''items'' = JArr (b # bs)
       \<and> jprop (jprop amp' ''software'') ''count'' = JNum (Fin (of_nat (length (b # bs)))))"
proof -
  let ?a = "rehydrate ''printers'' pb (rehydrate ''software'' (Some (b # bs)) (JObj a))"
  show ?thesis
  proof (cases "enqueue_facts r [(''amp'', ?a)] s")
    case None
    then show ?thesis using assms(1) by (simp add: inventory_body_forced [OF assms(2)])
  next
    case (Some p)
    obtain i s1 where p: "p = (i, s1)" by (cases p)
    have "s' = stamp r ''lastSentFactsAt:inventory'' (show_nat (stamp_time r)) (stamp r ''lastSentAgentVersion'' version s1)
      \<and> outcome = Enqueued i \<and> initial'"
      using assms(1) by (simp only: inventory_body_forced [OF assms(2)] Some p option.case prod.case prod.inject simp_thms)
    then have eq: "s' = stamp r ''lastSentFactsAt:inventory'' (show_nat (stamp_time r)) (stamp r ''lastSentAgentVersion'' version s1)"
      "outcome = Enqueued i" initial' by simp_all
    have "holds_snapshot r s' i [(''amp'', ?a)]"
      using enqueue_facts_row [OF Some [unfolded p]] unfolding eq(1) by (simp only: holds_snapshot_def rows_stamp)
    moreover have "jprop ?a ''software'' = jprop (rehydrate ''software'' (Some (b # bs)) (JObj a)) ''software''"
      by (rule rehydrate_keeps_other) simp
    then have "jprop (jprop ?a ''software'') ''items'' = JArr (b # bs)"
      "jprop (jprop ?a ''software'') ''count'' = JNum (Fin (of_nat (length (b # bs))))"
      by (simp_all only: rehydrate_fills [OF assms(3,4)])
    ultimately show ?thesis using eq(2,3) by blast
  qed
qed

lemma forced_snapshot_is_complete_witness:
  "\<exists>i amp'. holds_snapshot sample_run
      (fst (fst (inventory_body sample_run ''1.2.0'' (Some (JObj [(''software'', JObj [])])) (Some [JNull]) None (empty_outbox ''me'', False))))
      i [(''amp'', amp')] \<and> jprop (jprop amp' ''software'') ''items'' = JArr [JNull]"
proof -
  obtain s' i' outcome where e: "inventory_body sample_run ''1.2.0'' (Some (JObj [(''software'', JObj [])])) (Some [JNull]) None
      (empty_outbox ''me'', False) = ((s', i'), outcome)"
    by (metis prod.exhaust)
  have "outcome \<noteq> RunFailed"
    using e by (auto simp: inventory_body_def sample_run_def decide_facts_send_def enqueue_facts_def enqueue_def empty_outbox_def rehydrate_def
        Let_def get_state_def maybe_compress_payload_def byte_length_def COMPRESS_THRESHOLD_BYTES_def MAX_PAYLOAD_BYTES_def json_string_def
        json_escape_def char_code_def dquote_def json_number_def show_fraction_def show_nat.simps split: if_splits)
  with forced_snapshot_is_complete [OF e, of "[]"] show ?thesis by (auto simp: e)
qed

end
