(* ===== verification/Asp_Predicate.thy ===== *)
theory Asp_Predicate
  imports Jsval "HOL-Library.Word"
begin

unbundle bit_operations_syntax

text \<open>
  The predicate language of the assessment service: \<open>src/plugins/asp/predicate.ts\<close>. A predicate is data (a value of the
  language), checked by \<open>compile_predicate\<close> and run by \<open>evaluate_predicate\<close>. Regular expressions are arguments: \<open>rx_ok\<close> says that
  the pattern compiles, \<open>rx_test\<close> is \<open>test\<close>; both take the flag \<open>i\<close>.
\<close>

section \<open>Rules\<close>

datatype param_type = Path | Scalar | ScalarArray | Number | MaskInteger | Pattern | RuleList | OneRule

definition MAX_DEPTH :: nat where "MAX_DEPTH = 5"
definition MAX_NODES :: nat where "MAX_NODES = 60"
definition MAX_REGEX_LENGTH :: nat where "MAX_REGEX_LENGTH = 200"

definition RULES :: "(string \<times> (string \<times> param_type) list) list" where
  "RULES =
    [(''equals'', [(''path'', Path), (''value'', Scalar)]),
     (''not_equals'', [(''path'', Path), (''value'', Scalar)]),
     (''in_set'', [(''path'', Path), (''values'', ScalarArray)]),
     (''not_in_set'', [(''path'', Path), (''values'', ScalarArray)]),
     (''at_most'', [(''path'', Path), (''max'', Number)]),
     (''at_least'', [(''path'', Path), (''min'', Number)]),
     (''between'', [(''path'', Path), (''min'', Number), (''max'', Number)]),
     (''is_true'', [(''path'', Path)]),
     (''is_false'', [(''path'', Path)]),
     (''regex_match'', [(''path'', Path), (''pattern'', Pattern)]),
     (''regex_not_match'', [(''path'', Path), (''pattern'', Pattern)]),
     (''bits_all'', [(''path'', Path), (''mask'', MaskInteger)]),
     (''bits_none'', [(''path'', Path), (''mask'', MaskInteger)]),
     (''all_of'', [(''rules'', RuleList)]),
     (''any_of'', [(''rules'', RuleList)]),
     (''not'', [(''predicate'', OneRule)])]"

definition FORBIDDEN_SEGMENTS :: "string list" where
  "FORBIDDEN_SEGMENTS = [''__proto__'', ''constructor'', ''prototype'']"

definition path_char :: "char \<Rightarrow> bool" where
  "path_char c \<longleftrightarrow> is_digit c \<or> (65 \<le> char_code c \<and> char_code c \<le> 90) \<or> (97 \<le> char_code c \<and> char_code c \<le> 122)
     \<or> c = CHR ''_'' \<or> c = CHR ''-''"

text \<open>\<open>PATH_RE\<close> and the forbidden segments.\<close>

definition valid_path :: "string \<Rightarrow> bool" where
  "valid_path s \<longleftrightarrow> list_all (\<lambda>w. w \<noteq> [] \<and> list_all path_char w) (split_on CHR ''.'' s)
     \<and> \<not> list_ex (\<lambda>w. w \<in> set FORBIDDEN_SEGMENTS) (split_on CHR ''.'' s)"

record regex =
  rx_ok :: "bool \<Rightarrow> string \<Rightarrow> bool"
  rx_test :: "bool \<Rightarrow> string \<Rightarrow> string \<Rightarrow> bool"

definition flag_i :: "jsval \<Rightarrow> bool" where
  "flag_i node \<longleftrightarrow> jprop node ''flags'' = JStr ''i''"

section \<open>compilePredicate\<close>

datatype problem = TooManyNodes | TooDeep | NotAnObject | UnknownRule jsval | InvalidPath | NotScalar | NotScalarArray
  | NotFiniteNumber | NotNonNegativeInteger | NotNonEmptyString | TooLong | InvalidRegex | NotPredicateArray | MinGreaterThanMax
  | BadFlags

type_synonym compile_state = "nat \<times> (string \<times> problem) list"

definition add_error :: "string \<Rightarrow> problem \<Rightarrow> compile_state \<Rightarrow> compile_state" where
  "add_error wh pr st = (fst st, snd st @ [(wh, pr)])"

definition is_min_above_max :: "jsval \<Rightarrow> bool" where
  "is_min_above_max node = (case (jprop node ''min'', jprop node ''max'') of
     (JNum a, JNum b) \<Rightarrow> num_lt b a | _ \<Rightarrow> False)"

text \<open>The parameters without children.\<close>

definition check_leaf :: "regex \<Rightarrow> jsval \<Rightarrow> param_type \<Rightarrow> string \<Rightarrow> jsval \<Rightarrow> compile_state \<Rightarrow> compile_state" where
  "check_leaf rx node ty wh v st = (case ty of
     Path \<Rightarrow> (case v of JStr s \<Rightarrow> if valid_path s then st else add_error wh InvalidPath st | _ \<Rightarrow> add_error wh InvalidPath st)
   | Scalar \<Rightarrow> if is_scalar v then st else add_error wh NotScalar st
   | ScalarArray \<Rightarrow> (case v of JArr vs \<Rightarrow> if vs \<noteq> [] \<and> list_all is_scalar vs then st else add_error wh NotScalarArray st
                     | _ \<Rightarrow> add_error wh NotScalarArray st)
   | Number \<Rightarrow> (case v of JNum n \<Rightarrow> if is_finite n then st else add_error wh NotFiniteNumber st | _ \<Rightarrow> add_error wh NotFiniteNumber st)
   | MaskInteger \<Rightarrow> (case v of JNum n \<Rightarrow> if is_safe_integer n \<and> num_le (Fin 0) n then st else add_error wh NotNonNegativeInteger st
                     | _ \<Rightarrow> add_error wh NotNonNegativeInteger st)
   | Pattern \<Rightarrow> (case v of
       JStr s \<Rightarrow> if length s = 0 then add_error wh NotNonEmptyString st
                else if length s > MAX_REGEX_LENGTH then add_error wh TooLong st
                else if rx_ok rx (flag_i node) s then st
                else add_error wh InvalidRegex st
     | _ \<Rightarrow> add_error wh NotNonEmptyString st)
   | _ \<Rightarrow> st)"

lemma jprop_size: "size (jprop (JObj kvs) k) < size (JObj kvs)"
proof (cases "map_of kvs k")
  case (Some v)
  then have "(k, v) \<in> set kvs" by (rule map_of_SomeD)
  from size_entry [OF this] Some show ?thesis by simp
qed simp

lemma jprop_size_arr: "jprop (JObj kvs) k = JArr vs \<Longrightarrow> size_list size vs < size (JObj kvs)"
  using jprop_size [of kvs k] by simp

text \<open>The function \<open>walk\<close>, its loop over the parameters and its loop over the children.\<close>

function walk :: "regex \<Rightarrow> jsval \<Rightarrow> string \<Rightarrow> nat \<Rightarrow> compile_state \<Rightarrow> compile_state"
  and walk_params :: "regex \<Rightarrow> (string \<times> jsval) list \<Rightarrow> string \<Rightarrow> nat \<Rightarrow> (string \<times> param_type) list \<Rightarrow> compile_state \<Rightarrow> compile_state"
  and walk_children :: "regex \<Rightarrow> jsval list \<Rightarrow> string \<Rightarrow> nat \<Rightarrow> nat \<Rightarrow> compile_state \<Rightarrow> compile_state" where
  "walk rx node wh depth st =
     (let n = fst st + 1; st1 = (n, snd st)
      in if n > MAX_NODES then (if n = MAX_NODES + 1 then add_error wh TooManyNodes st1 else st1)
         else if depth > MAX_DEPTH then add_error wh TooDeep st1
         else (case node of
                 JObj kvs \<Rightarrow>
                   (case jprop (JObj kvs) ''rule'' of
                      JStr name \<Rightarrow>
                        (case map_of RULES name of
                           None \<Rightarrow> add_error wh (UnknownRule (JStr name)) st1
                         | Some params \<Rightarrow>
                             (let st2 = walk_params rx kvs wh depth params st1;
                                  st3 = (if name = ''between'' \<and> is_min_above_max (JObj kvs) then add_error wh MinGreaterThanMax st2 else st2);
                                  f = jprop (JObj kvs) ''flags''
                              in if f \<noteq> JUndef \<and> f \<noteq> JStr ''i'' then add_error (wh @ ''.flags'') BadFlags st3 else st3))
                    | v \<Rightarrow> add_error wh (UnknownRule v) st1)
               | _ \<Rightarrow> add_error wh NotAnObject st1))"
| "walk_params rx kvs wh depth [] st = st"
| "walk_params rx kvs wh depth ((param, ty) # ps) st =
     (let v = jprop (JObj kvs) param; here = wh @ ''.'' @ param;
          st1 = (case ty of
                   RuleList \<Rightarrow> (case v of
                       JArr vs \<Rightarrow> if length vs = 0 then add_error here NotPredicateArray st else walk_children rx vs here 0 (depth + 1) st
                     | _ \<Rightarrow> add_error here NotPredicateArray st)
                 | OneRule \<Rightarrow> walk rx v here (depth + 1) st
                 | _ \<Rightarrow> check_leaf rx (JObj kvs) ty here v st)
      in walk_params rx kvs wh depth ps st1)"
| "walk_children rx [] wh i depth st = st"
| "walk_children rx (c # cs) wh i depth st =
     walk_children rx cs wh (i + 1) depth (walk rx c (wh @ ''['' @ show_nat i @ '']'') depth st)"
  by pat_completeness auto
termination
  apply (relation "inv_image (less_than <*lex*> less_than <*lex*> less_than) (\<lambda>x. case x of
       Inl (rx, node, wh, depth, st) \<Rightarrow> (size node, 2, 0)
     | Inr (Inl (rx, kvs, wh, depth, ps, st)) \<Rightarrow> (size (JObj kvs), 1, length ps)
     | Inr (Inr (rx, cs, wh, i, depth, st)) \<Rightarrow> (size_list size cs, 0, 0))")
       apply (auto simp del: jsval.size jprop.simps simp: jprop_size jprop_size_arr)
  done

declare walk.simps [simp del] walk_params.simps [simp del] walk_children.simps [simp del]

definition compile_predicate :: "regex \<Rightarrow> jsval \<Rightarrow> (string \<times> problem) list" where
  "compile_predicate rx p = snd (walk rx p ''predicate'' 0 (0, []))"

section \<open>Reading evidence\<close>

text \<open>An own property of a value: of an object, or of an array (its elements and its length).\<close>

definition own_property :: "jsval \<Rightarrow> string \<Rightarrow> jsval option" where
  "own_property v k = (case v of
     JObj kvs \<Rightarrow> map_of kvs k
   | JArr vs \<Rightarrow>
       (if k = ''length'' then Some (JNum (Fin (of_nat (length vs))))
        else let i = digits_value 10 k in
          if all_digits k \<and> show_nat i = k \<and> i < length vs then Some (vs ! i) else None)
   | _ \<Rightarrow> None)"

fun resolve_parts :: "jsval \<Rightarrow> string list \<Rightarrow> jsval option" where
  "resolve_parts node [] = (if node = JUndef then None else Some node)"
| "resolve_parts node (part # ps) =
     (if part \<in> set FORBIDDEN_SEGMENTS then None
      else case own_property node part of None \<Rightarrow> None | Some v \<Rightarrow> resolve_parts v ps)"

text \<open>\<open>resolveEvidencePath\<close>: nothing is \<open>found: false\<close>.\<close>

definition resolve_evidence_path :: "jsval \<Rightarrow> string \<Rightarrow> jsval option" where
  "resolve_evidence_path ev p = resolve_parts ev (split_on CHR ''.'' p)"

text \<open>\<open>/^-?\d+(\.\d+)?$/\<close>\<close>

definition unsigned_decimal :: "string \<Rightarrow> bool" where
  "unsigned_decimal s \<longleftrightarrow>
     (let r = dropWhile is_digit s
      in takeWhile is_digit s \<noteq> [] \<and> (r = [] \<or> (hd r = CHR ''.'' \<and> all_digits (tl r))))"

definition plain_decimal :: "string \<Rightarrow> bool" where
  "plain_decimal s \<longleftrightarrow> (case s of c # r \<Rightarrow> if c = CHR ''-'' then unsigned_decimal r else unsigned_decimal s | [] \<Rightarrow> False)"

definition to_number :: "jsval \<Rightarrow> rat option" where
  "to_number v = (case v of
     JNum (Fin q) \<Rightarrow> Some q
   | JStr s \<Rightarrow> if plain_decimal (trim s) then (case js_number (trim s) of Fin q \<Rightarrow> Some q | _ \<Rightarrow> None) else None
   | _ \<Rightarrow> None)"

text \<open>\<open>n & mask\<close> and \<open>>>> 0\<close>: 32 bits, read as unsigned.\<close>

definition to_uint32 :: "rat \<Rightarrow> 32 word" where
  "to_uint32 q = word_of_int \<lfloor>q\<rfloor>"

section \<open>evaluatePredicate\<close>

text \<open>The exceptions of the source: the one that carries a missing path, and any other.\<close>

datatype outcome = Holds bool | Missing string | Crash

definition read_path :: "jsval \<Rightarrow> jsval \<Rightarrow> (jsval \<Rightarrow> outcome) \<Rightarrow> outcome" where
  "read_path evidence node k = (case jprop node ''path'' of
     JStr p \<Rightarrow> (case resolve_evidence_path evidence p of None \<Rightarrow> Missing p | Some v \<Rightarrow> k v)
   | _ \<Rightarrow> Crash)"

definition compare_number :: "jsval \<Rightarrow> (rat \<Rightarrow> bool) \<Rightarrow> outcome" where
  "compare_number v test = Holds (case to_number v of None \<Rightarrow> False | Some n \<Rightarrow> test n)"

definition bound :: "jsval \<Rightarrow> string \<Rightarrow> (rat \<Rightarrow> outcome) \<Rightarrow> outcome" where
  "bound node k f = (case jprop node k of JNum (Fin b) \<Rightarrow> f b | _ \<Rightarrow> Crash)"

definition test_bits :: "bool \<Rightarrow> rat \<Rightarrow> jsval \<Rightarrow> bool" where
  "test_bits all msk v = (case to_number v of
     None \<Rightarrow> False
   | Some n \<Rightarrow>
       if \<not> is_safe_integer (Fin n) then False
       else let masked = to_uint32 n AND to_uint32 msk
            in if all then masked = to_uint32 msk else masked = 0)"

text \<open>\<open>String(v)\<close> of a value that is no string is an argument (\<open>text_of\<close>).\<close>

definition subject_text :: "(jsval \<Rightarrow> string) \<Rightarrow> jsval \<Rightarrow> string" where
  "subject_text text_of v = (case v of JNull \<Rightarrow> [] | JStr s \<Rightarrow> s | _ \<Rightarrow> text_of v)"

text \<open>
  The rules that read one value. A predicate that was not compiled can make the source throw an error of its own
  (a missing \<open>values\<close>, a bound that is no number); that is \<open>Crash\<close>.
\<close>

definition eval_leaf :: "regex \<Rightarrow> (jsval \<Rightarrow> string) \<Rightarrow> string \<Rightarrow> jsval \<Rightarrow> jsval \<Rightarrow> outcome" where
  "eval_leaf rx text_of rule node evidence =
     (if rule = ''equals'' then read_path evidence node (\<lambda>v. Holds (strict_eq v (jprop node ''value'')))
      else if rule = ''not_equals'' then read_path evidence node (\<lambda>v. Holds (\<not> strict_eq v (jprop node ''value'')))
      else if rule = ''in_set'' then
        (case jprop node ''values'' of JArr vs \<Rightarrow> read_path evidence node (\<lambda>v. Holds (js_includes vs v)) | _ \<Rightarrow> Crash)
      else if rule = ''not_in_set'' then
        (case jprop node ''values'' of JArr vs \<Rightarrow> read_path evidence node (\<lambda>v. Holds (\<not> js_includes vs v)) | _ \<Rightarrow> Crash)
      else if rule = ''at_most'' then read_path evidence node (\<lambda>v. bound node ''max'' (\<lambda>b. compare_number v (\<lambda>n. n \<le> b)))
      else if rule = ''at_least'' then read_path evidence node (\<lambda>v. bound node ''min'' (\<lambda>b. compare_number v (\<lambda>n. n \<ge> b)))
      else if rule = ''between'' then
        read_path evidence node (\<lambda>v. bound node ''min'' (\<lambda>a. bound node ''max'' (\<lambda>b. compare_number v (\<lambda>n. n \<ge> a \<and> n \<le> b))))
      else if rule = ''is_true'' then read_path evidence node (\<lambda>v. Holds (v = JBool True))
      else if rule = ''is_false'' then read_path evidence node (\<lambda>v. Holds (v = JBool False))
      else if rule = ''regex_match'' \<or> rule = ''regex_not_match'' then
        read_path evidence node (\<lambda>v. case jprop node ''pattern'' of
          JStr pat \<Rightarrow>
            (if \<not> rx_ok rx (flag_i node) pat then Crash
             else let matched = rx_test rx (flag_i node) pat (subject_text text_of v)
                  in Holds (if rule = ''regex_match'' then matched else \<not> matched))
        | _ \<Rightarrow> Crash)
      else if rule = ''bits_all'' \<or> rule = ''bits_none'' then
        read_path evidence node (\<lambda>v. bound node ''mask'' (\<lambda>m. Holds (test_bits (rule = ''bits_all'') m v)))
      else Crash)"

text \<open>\<open>evalNode\<close> with the loops of \<open>all_of\<close> (a \<open>map\<close>, then \<open>every\<close>) and \<open>any_of\<close>.\<close>

function eval_node :: "regex \<Rightarrow> (jsval \<Rightarrow> string) \<Rightarrow> jsval \<Rightarrow> jsval \<Rightarrow> outcome"
  and eval_all :: "regex \<Rightarrow> (jsval \<Rightarrow> string) \<Rightarrow> jsval list \<Rightarrow> bool \<Rightarrow> jsval \<Rightarrow> outcome"
  and eval_any :: "regex \<Rightarrow> (jsval \<Rightarrow> string) \<Rightarrow> jsval list \<Rightarrow> string option \<Rightarrow> jsval \<Rightarrow> outcome" where
  "eval_node rx tx node evidence =
     (case node of
        JObj kvs \<Rightarrow>
          (case jprop (JObj kvs) ''rule'' of
             JStr rule \<Rightarrow>
               (if rule = ''all_of'' then (case jprop (JObj kvs) ''rules'' of JArr rs \<Rightarrow> eval_all rx tx rs True evidence | _ \<Rightarrow> Crash)
                else if rule = ''any_of'' then (case jprop (JObj kvs) ''rules'' of JArr rs \<Rightarrow> eval_any rx tx rs None evidence | _ \<Rightarrow> Crash)
                else if rule = ''not'' then
                  (case eval_node rx tx (jprop (JObj kvs) ''predicate'') evidence of Holds b \<Rightarrow> Holds (\<not> b) | r \<Rightarrow> r)
                else eval_leaf rx tx rule (JObj kvs) evidence)
           | _ \<Rightarrow> Crash)
      | _ \<Rightarrow> Crash)"
| "eval_all rx tx [] acc evidence = Holds acc"
| "eval_all rx tx (r # rs) acc evidence =
     (case eval_node rx tx r evidence of Holds b \<Rightarrow> eval_all rx tx rs (acc \<and> b) evidence | res \<Rightarrow> res)"
| "eval_any rx tx [] missing evidence = (case missing of Some p \<Rightarrow> Missing p | None \<Rightarrow> Holds False)"
| "eval_any rx tx (r # rs) missing evidence =
     (case eval_node rx tx r evidence of
        Holds b \<Rightarrow> if b then Holds True else eval_any rx tx rs missing evidence
      | Missing p \<Rightarrow> eval_any rx tx rs (case missing of Some q \<Rightarrow> Some q | None \<Rightarrow> Some p) evidence
      | Crash \<Rightarrow> Crash)"
  by pat_completeness auto
termination
  apply (relation "inv_image (less_than <*lex*> less_than) (\<lambda>x. case x of
       Inl (rx, tx, node, ev) \<Rightarrow> (size node, 1)
     | Inr (Inl (rx, tx, rs, acc, ev)) \<Rightarrow> (size_list size rs, 0)
     | Inr (Inr (rx, tx, rs, m, ev)) \<Rightarrow> (size_list size rs, 0 :: nat))")
        apply (auto simp del: jsval.size jprop.simps simp: jprop_size jprop_size_arr)
  done

declare eval_node.simps [simp del] eval_all.simps [simp del] eval_any.simps [simp del]

definition evaluate_predicate :: "regex \<Rightarrow> (jsval \<Rightarrow> string) \<Rightarrow> jsval \<Rightarrow> jsval \<Rightarrow> outcome" where
  "evaluate_predicate rx tx p evidence = eval_node rx tx p evidence"

section \<open>Compiled predicates\<close>

text \<open>The shape a predicate has when the compiler finds nothing wrong with it.\<close>

definition leaf_ok :: "regex \<Rightarrow> jsval \<Rightarrow> param_type \<Rightarrow> jsval \<Rightarrow> bool" where
  "leaf_ok rx node ty v \<longleftrightarrow> snd (check_leaf rx node ty [] v (0, [])) = []"

lemma check_leaf_errors:
  "check_leaf rx node ty wh v st = (if leaf_ok rx node ty v then st else add_error wh (snd (hd (snd (check_leaf rx node ty wh v (0, []))))) st)"
  by (auto simp: leaf_ok_def check_leaf_def add_error_def split: param_type.split jsval.split)

inductive well_formed :: "regex \<Rightarrow> jsval \<Rightarrow> bool" for rx where
  leaf: "jprop (JObj kvs) ''rule'' = JStr name \<Longrightarrow> map_of RULES name = Some params \<Longrightarrow>
     (\<And>k ty. (k, ty) \<in> set params \<Longrightarrow> ty \<noteq> RuleList \<and> ty \<noteq> OneRule \<and> leaf_ok rx (JObj kvs) ty (jprop (JObj kvs) k)) \<Longrightarrow>
     well_formed rx (JObj kvs)"
| rules: "jprop (JObj kvs) ''rule'' = JStr name \<Longrightarrow> name = ''all_of'' \<or> name = ''any_of'' \<Longrightarrow>
     jprop (JObj kvs) ''rules'' = JArr vs \<Longrightarrow> vs \<noteq> [] \<Longrightarrow> (\<And>v. v \<in> set vs \<Longrightarrow> well_formed rx v) \<Longrightarrow> well_formed rx (JObj kvs)"
| negation: "jprop (JObj kvs) ''rule'' = JStr ''not'' \<Longrightarrow> well_formed rx (jprop (JObj kvs) ''predicate'') \<Longrightarrow> well_formed rx (JObj kvs)"

definition params_ok :: "regex \<Rightarrow> (string \<times> jsval) list \<Rightarrow> (string \<times> param_type) list \<Rightarrow> bool" where
  "params_ok rx kvs ps \<longleftrightarrow> (\<forall>(k, ty) \<in> set ps. case ty of
     RuleList \<Rightarrow> (\<exists>vs. jprop (JObj kvs) k = JArr vs \<and> vs \<noteq> [] \<and> (\<forall>v \<in> set vs. well_formed rx v))
   | OneRule \<Rightarrow> well_formed rx (jprop (JObj kvs) k)
   | _ \<Rightarrow> leaf_ok rx (JObj kvs) ty (jprop (JObj kvs) k))"

lemma params_ok_leaf:
  assumes "params_ok rx kvs ps" and "(k, ty) \<in> set ps" and "ty \<noteq> RuleList" and "ty \<noteq> OneRule"
  shows "leaf_ok rx (JObj kvs) ty (jprop (JObj kvs) k)"
  using bspec [OF assms(1) [unfolded params_ok_def] assms(2)] assms(3,4) by (cases ty) (simp_all del: jprop.simps)

lemma well_formed_params:
  assumes "jprop (JObj kvs) ''rule'' = JStr name" and "map_of RULES name = Some params" and "params_ok rx kvs params"
  shows "well_formed rx (JObj kvs)"
proof -
  consider (rules) "name = ''all_of'' \<or> name = ''any_of''" "params = [(''rules'', RuleList)]"
    | (negation) "name = ''not''" "params = [(''predicate'', OneRule)]"
    | (leaf) "\<forall>(k, ty) \<in> set params. ty \<noteq> RuleList \<and> ty \<noteq> OneRule"
    using assms(2) by (auto simp: RULES_def split: if_splits)
  then show ?thesis
  proof cases
    case rules
    then show ?thesis using assms(1,3) by (auto simp: params_ok_def simp del: jprop.simps intro: well_formed.rules)
  next
    case negation
    then show ?thesis using assms(1,3) by (auto simp: params_ok_def simp del: jprop.simps intro: well_formed.negation)
  next
    case leaf
    show ?thesis
    proof (rule well_formed.leaf [OF assms(1,2)])
      fix k ty assume "(k, ty) \<in> set params"
      moreover from this leaf have "ty \<noteq> RuleList" "ty \<noteq> OneRule" by auto
      ultimately show "ty \<noteq> RuleList \<and> ty \<noteq> OneRule \<and> leaf_ok rx (JObj kvs) ty (jprop (JObj kvs) k)"
        using params_ok_leaf [OF assms(3)] by blast
    qed
  qed
qed

text \<open>The node counter only passes the limit together with an error.\<close>

definition counted :: "compile_state \<Rightarrow> bool" where
  "counted st \<longleftrightarrow> (fst st > MAX_NODES \<longrightarrow> snd st \<noteq> [])"

lemma counted_add_error [simp]: "counted (add_error wh p st)" "snd (add_error wh p st) \<noteq> []"
  by (simp_all add: counted_def add_error_def)

lemma counted_check_leaf:
  "counted st \<Longrightarrow> counted (check_leaf rx node ty wh v st)
     \<and> (snd (check_leaf rx node ty wh v st) = [] \<longrightarrow> snd st = [] \<and> leaf_ok rx node ty v)"
  by (subst (1 2) check_leaf_errors) simp

lemma walk_params_leaf:
  "ty \<noteq> RuleList \<Longrightarrow> ty \<noteq> OneRule \<Longrightarrow>
     walk_params rx kvs wh d ((p, ty) # ps) st =
     walk_params rx kvs wh d ps (check_leaf rx (JObj kvs) ty (wh @ ''.'' @ p) (jprop (JObj kvs) p) st)"
  by (subst walk_params.simps) (simp add: Let_def del: jprop.simps split: param_type.split)

lemma params_ok_Cons:
  "params_ok rx kvs ((p, ty) # ps) \<longleftrightarrow>
     (case ty of RuleList \<Rightarrow> (\<exists>vs. jprop (JObj kvs) p = JArr vs \<and> vs \<noteq> [] \<and> (\<forall>v \<in> set vs. well_formed rx v))
      | OneRule \<Rightarrow> well_formed rx (jprop (JObj kvs) p)
      | _ \<Rightarrow> leaf_ok rx (JObj kvs) ty (jprop (JObj kvs) p)) \<and> params_ok rx kvs ps"
  by (simp add: params_ok_def del: jprop.simps)

definition sound_walk :: "regex \<Rightarrow> compile_state \<Rightarrow> compile_state \<Rightarrow> bool \<Rightarrow> bool" where
  "sound_walk rx st r ok \<longleftrightarrow> (counted st \<longrightarrow> counted r \<and> (snd r = [] \<longrightarrow> snd st = [] \<and> ok))"

lemma sound_walk_trans: "sound_walk rx st r a \<Longrightarrow> sound_walk rx r r' b \<Longrightarrow> sound_walk rx st r' (a \<and> b)"
  by (auto simp: sound_walk_def)

lemma sound_walk_error [simp]: "sound_walk rx st (add_error wh p r) a"
  by (simp add: sound_walk_def)

lemma sound_walk_refl: "sound_walk rx st st True"
  by (simp add: sound_walk_def)

lemma sound_walk_all:
  "sound_walk rx st (walk rx node wh d st) (well_formed rx node)"
  "sound_walk rx st (walk_params rx kvs wh d ps st) (params_ok rx kvs ps)"
  "sound_walk rx st (walk_children rx cs wh i d st) (\<forall>c \<in> set cs. well_formed rx c)"
proof (induction rx node wh d st and rx kvs wh d ps st and rx cs wh i d st rule: walk_walk_params_walk_children.induct)
  case (1 rx node wh d st)
  let ?st1 = "(fst st + 1, snd st)"
  show ?case
  proof (cases "fst st + 1 > MAX_NODES")
    case True
    then show ?thesis
      by (subst walk.simps) (auto simp: sound_walk_def Let_def counted_def add_error_def)
  next
    case small: False
    show ?thesis
    proof (cases "d > MAX_DEPTH")
      case True
      then show ?thesis using small by (subst walk.simps) (simp add: Let_def)
    next
      case shallow: False
      show ?thesis
      proof (cases node)
        case (JObj kvs)
        show ?thesis
        proof (cases "\<exists>name params. jprop (JObj kvs) ''rule'' = JStr name \<and> map_of RULES name = Some params")
          case True
          then obtain name params where np: "jprop (JObj kvs) ''rule'' = JStr name" "map_of RULES name = Some params" by blast
          have IH: "sound_walk rx ?st1 (walk_params rx kvs wh d params ?st1) (params_ok rx kvs params)"
            using "1" small shallow JObj np by (simp del: jprop.simps)
          have "sound_walk rx st ?st1 True" using small by (simp add: sound_walk_def counted_def)
          from sound_walk_trans [OF this IH]
          have two: "sound_walk rx st (walk_params rx kvs wh d params ?st1) (well_formed rx (JObj kvs))"
            using well_formed_params [OF np] by (auto simp: sound_walk_def)
          let ?w = "walk_params rx kvs wh d params ?st1"
          have eq: "walk rx (JObj kvs) wh d st =
             (let st3 = (if name = ''between'' \<and> is_min_above_max (JObj kvs) then add_error wh MinGreaterThanMax ?w else ?w);
                  f = jprop (JObj kvs) ''flags''
              in if f \<noteq> JUndef \<and> f \<noteq> JStr ''i'' then add_error (wh @ ''.flags'') BadFlags st3 else st3)"
            using small shallow np by (subst walk.simps) (simp del: jprop.simps add: Let_def)
          show ?thesis unfolding JObj eq Let_def using two by simp
        next
          case False
          then show ?thesis using small shallow JObj
            by (subst walk.simps) (auto simp del: jprop.simps simp: Let_def split: jsval.split option.split)
        qed
      qed (use small shallow in \<open>subst walk.simps, simp add: Let_def\<close>)+
    qed
  qed
next
  case (2 rx kvs wh d st)
  then show ?case by (simp add: walk_params.simps sound_walk_def params_ok_def)
next
  case (3 rx kvs wh d p ty ps st)
  let ?v = "jprop (JObj kvs) p"
  let ?h = "wh @ ''.'' @ p"
  show ?case
  proof (cases "ty = RuleList \<or> ty = OneRule")
    case False
    have "sound_walk rx st (check_leaf rx (JObj kvs) ty ?h ?v st) (leaf_ok rx (JObj kvs) ty ?v)"
      using counted_check_leaf [of st rx "JObj kvs" ty ?h ?v] by (simp add: sound_walk_def del: jprop.simps)
    moreover have "sound_walk rx (check_leaf rx (JObj kvs) ty ?h ?v st)
        (walk_params rx kvs wh d ps (check_leaf rx (JObj kvs) ty ?h ?v st)) (params_ok rx kvs ps)"
      using "3.IH"(3) [OF refl refl refl] False by (cases ty) (simp_all del: jprop.simps)
    ultimately show ?thesis using False sound_walk_trans
      by (cases ty) (simp_all add: walk_params_leaf params_ok_Cons del: jprop.simps)
  next
    case True
    then show ?thesis
    proof
      assume ty: "ty = OneRule"
      have "sound_walk rx st (walk rx ?v ?h (d + 1) st) (well_formed rx ?v)"
        using "3.IH"(2) [OF refl refl ty] by simp
      moreover have "sound_walk rx (walk rx ?v ?h (d + 1) st) (walk_params rx kvs wh d ps (walk rx ?v ?h (d + 1) st)) (params_ok rx kvs ps)"
        using "3.IH"(3) [OF refl refl refl] ty by simp
      moreover have "walk_params rx kvs wh d ((p, ty) # ps) st = walk_params rx kvs wh d ps (walk rx ?v ?h (d + 1) st)"
        by (subst walk_params.simps) (simp add: ty Let_def del: jprop.simps)
      ultimately show ?thesis using sound_walk_trans by (simp add: params_ok_Cons ty del: jprop.simps)
    next
      assume ty: "ty = RuleList"
      show ?thesis
      proof (cases "\<exists>vs. ?v = JArr vs \<and> vs \<noteq> []")
        case True
        then obtain vs where vs: "?v = JArr vs" "vs \<noteq> []" by blast
        have "sound_walk rx st (walk_children rx vs ?h 0 (d + 1) st) (\<forall>c \<in> set vs. well_formed rx c)"
          using "3.IH"(1) [OF refl refl ty vs(1)] vs(2) by simp
        moreover have "sound_walk rx (walk_children rx vs ?h 0 (d + 1) st)
            (walk_params rx kvs wh d ps (walk_children rx vs ?h 0 (d + 1) st)) (params_ok rx kvs ps)"
          using "3.IH"(3) [OF refl refl refl] ty vs by simp
        moreover have "walk_params rx kvs wh d ((p, ty) # ps) st = walk_params rx kvs wh d ps (walk_children rx vs ?h 0 (d + 1) st)"
          by (subst walk_params.simps) (simp add: ty Let_def vs del: jprop.simps)
        ultimately show ?thesis using sound_walk_trans by (simp add: params_ok_Cons ty vs del: jprop.simps)
      next
        case False
        let ?e = "add_error ?h NotPredicateArray st"
        have "walk_params rx kvs wh d ((p, ty) # ps) st = walk_params rx kvs wh d ps ?e"
          using False by (subst walk_params.simps) (auto simp: ty Let_def simp del: jprop.simps split: jsval.split)
        moreover have "sound_walk rx ?e (walk_params rx kvs wh d ps ?e) (params_ok rx kvs ps)"
          using "3.IH"(3) [OF refl refl refl] ty False by (auto simp del: jprop.simps split: jsval.splits if_splits)
        ultimately show ?thesis by (simp add: sound_walk_def)
      qed
    qed
  qed
next
  case (4 rx wh i d st)
  then show ?case by (simp add: walk_children.simps sound_walk_def)
next
  case (5 rx c cs wh i d st)
  then show ?case using sound_walk_trans by (subst walk_children.simps) fastforce
qed

lemma leaf_ok_simps:
  "leaf_ok rx node Path v \<longleftrightarrow> (\<exists>s. v = JStr s \<and> valid_path s)"
  "leaf_ok rx node ScalarArray v \<longleftrightarrow> (\<exists>vs. v = JArr vs \<and> vs \<noteq> [] \<and> list_all is_scalar vs)"
  "leaf_ok rx node Number v \<longleftrightarrow> (\<exists>q. v = JNum (Fin q))"
  "leaf_ok rx node MaskInteger v \<longleftrightarrow> (\<exists>q. v = JNum (Fin q) \<and> is_safe_integer (Fin q) \<and> 0 \<le> q)"
  "leaf_ok rx node Pattern v \<longleftrightarrow> (\<exists>s. v = JStr s \<and> s \<noteq> [] \<and> length s \<le> MAX_REGEX_LENGTH \<and> rx_ok rx (flag_i node) s)"
  by (auto simp: leaf_ok_def check_leaf_def add_error_def is_finite_def is_safe_integer_def split: jsval.splits jsnum.splits if_splits)

lemma read_path_no_crash:
  "jprop node ''path'' = JStr p \<Longrightarrow> (\<And>v. k v \<noteq> Crash) \<Longrightarrow> read_path evidence node k \<noteq> Crash"
  by (simp add: read_path_def split: option.split)

lemma eval_leaf_no_crash:
  assumes np: "map_of RULES name = Some params"
    and ok: "\<And>k ty. (k, ty) \<in> set params \<Longrightarrow> ty \<noteq> RuleList \<and> ty \<noteq> OneRule \<and> leaf_ok rx node ty (jprop node k)"
  shows "eval_leaf rx tx name node evidence \<noteq> Crash"
proof -
  have kinds: "\<forall>x \<in> set params. snd x \<noteq> RuleList \<and> snd x \<noteq> OneRule" using ok by auto
  have path: "(''path'', Path) \<in> set params" using np kinds by (auto simp: RULES_def split: if_splits)
  then obtain p where p: "jprop node ''path'' = JStr p" using ok leaf_ok_simps(1) by blast
  have arr: "\<exists>vs. jprop node ''values'' = JArr vs" if "name = ''in_set'' \<or> name = ''not_in_set''"
    using that np ok [of "''values''" ScalarArray] by (auto simp: RULES_def leaf_ok_simps)
  have mx: "\<exists>q. jprop node ''max'' = JNum (Fin q)" if "name = ''at_most'' \<or> name = ''between''"
    using that np ok [of "''max''" Number] by (auto simp: RULES_def leaf_ok_simps)
  have mn: "\<exists>q. jprop node ''min'' = JNum (Fin q)" if "name = ''at_least'' \<or> name = ''between''"
    using that np ok [of "''min''" Number] by (auto simp: RULES_def leaf_ok_simps)
  have msk: "\<exists>q. jprop node ''mask'' = JNum (Fin q)" if "name = ''bits_all'' \<or> name = ''bits_none''"
    using that np ok [of "''mask''" MaskInteger] by (auto simp: RULES_def leaf_ok_simps)
  have pat: "\<exists>s. jprop node ''pattern'' = JStr s \<and> rx_ok rx (flag_i node) s" if "name = ''regex_match'' \<or> name = ''regex_not_match''"
    using that np ok [of "''pattern''" Pattern] by (auto simp: RULES_def leaf_ok_simps)
  have "name \<in> {''equals'', ''not_equals'', ''in_set'', ''not_in_set'', ''at_most'', ''at_least'', ''between'', ''is_true'', ''is_false'',
      ''regex_match'', ''regex_not_match'', ''bits_all'', ''bits_none''}"
    using np kinds by (auto simp: RULES_def split: if_splits)
  then show ?thesis
    using arr mx mn msk pat
    by (elim insertE emptyE) (auto simp: eval_leaf_def bound_def compare_number_def Let_def
        intro!: read_path_no_crash [OF p] dest: read_path_no_crash [OF p, THEN notE, rotated])
qed

lemma eval_all_cases:
  "eval_all rx tx rs acc evidence =
     (case find (\<lambda>r. \<forall>b. eval_node rx tx r evidence \<noteq> Holds b) rs of
        Some r \<Rightarrow> eval_node rx tx r evidence
      | None \<Rightarrow> Holds (acc \<and> (\<forall>r \<in> set rs. eval_node rx tx r evidence = Holds True)))"
proof (induction rs arbitrary: acc)
  case (Cons r rs)
  show ?case
  proof (cases "eval_node rx tx r evidence")
    case (Holds b)
    then show ?thesis by (subst eval_all.simps) (auto simp: Cons.IH split: option.split)
  qed (subst eval_all.simps, simp)+
qed (simp add: eval_all.simps)

lemma eval_all_cong:
  "\<forall>r \<in> set rs. eval_node rx tx r e' = eval_node rx tx r e \<Longrightarrow> eval_all rx tx rs acc e' = eval_all rx tx rs acc e"
proof (induction rs arbitrary: acc)
  case (Cons r rs)
  then show ?case by (subst (1 2) eval_all.simps) (simp split: outcome.split)
qed (simp add: eval_all.simps)

text \<open>The first branch without a verdict.\<close>

fun first_missing :: "outcome list \<Rightarrow> string option" where
  "first_missing [] = None"
| "first_missing (Missing p # rs) = Some p"
| "first_missing (_ # rs) = first_missing rs"

lemma eval_any_cases:
  assumes "\<forall>r \<in> set rs. eval_node rx tx r evidence \<noteq> Crash"
  shows "eval_any rx tx rs m evidence =
     (if \<exists>r \<in> set rs. eval_node rx tx r evidence = Holds True then Holds True
      else case (case m of Some p \<Rightarrow> Some p | None \<Rightarrow> first_missing (map (\<lambda>r. eval_node rx tx r evidence) rs)) of
             Some p \<Rightarrow> Missing p | None \<Rightarrow> Holds False)"
  using assms
proof (induction rs arbitrary: m)
  case (Cons r rs)
  then show ?case
    by (cases "eval_node rx tx r evidence") (subst eval_any.simps, auto split: option.split)+
qed (simp add: eval_any.simps split: option.split)

lemma eval_node_JObj:
  assumes "jprop (JObj kvs) ''rule'' = JStr rule"
  shows "eval_node rx tx (JObj kvs) evidence =
     (if rule = ''all_of'' then (case jprop (JObj kvs) ''rules'' of JArr rs \<Rightarrow> eval_all rx tx rs True evidence | _ \<Rightarrow> Crash)
      else if rule = ''any_of'' then (case jprop (JObj kvs) ''rules'' of JArr rs \<Rightarrow> eval_any rx tx rs None evidence | _ \<Rightarrow> Crash)
      else if rule = ''not'' then
        (case eval_node rx tx (jprop (JObj kvs) ''predicate'') evidence of Holds b \<Rightarrow> Holds (\<not> b) | r \<Rightarrow> r)
      else eval_leaf rx tx rule (JObj kvs) evidence)"
  using assms by (subst eval_node.simps) (simp del: jprop.simps)

lemma leaf_rule_name:
  assumes "map_of RULES name = Some params" and "\<And>k ty. (k, ty) \<in> set params \<Longrightarrow> ty \<noteq> RuleList \<and> ty \<noteq> OneRule"
  shows "name \<notin> {''all_of'', ''any_of'', ''not''}"
  using assms by (auto simp: RULES_def)

lemma well_formed_no_crash: "well_formed rx p \<Longrightarrow> eval_node rx tx p evidence \<noteq> Crash"
proof (induction rule: well_formed.induct)
  case (leaf kvs name params)
  then have "name \<notin> {''all_of'', ''any_of'', ''not''}" using leaf_rule_name by blast
  then show ?case using eval_leaf_no_crash [OF leaf.hyps(2), of rx "JObj kvs"] leaf.hyps(3) by (simp add: eval_node_JObj [OF leaf.hyps(1)])
next
  case (rules kvs name vs)
  have "eval_all rx tx vs True evidence \<noteq> Crash"
    using rules.IH by (auto simp: eval_all_cases find_Some_iff split: option.split)
  moreover have "eval_any rx tx vs None evidence \<noteq> Crash"
    using rules.IH eval_any_cases [of vs rx tx evidence None] by (auto split: option.splits)
  ultimately show ?case using rules.hyps(2,3) by (auto simp: eval_node_JObj [OF rules.hyps(1)] simp del: jprop.simps)
next
  case (negation kvs)
  then show ?case by (simp add: eval_node_JObj [OF negation.hyps(1)] del: jprop.simps split: outcome.split)
qed

lemma compiled_well_formed: "compile_predicate rx p = [] \<Longrightarrow> well_formed rx p"
  using sound_walk_all(1) [of rx "(0, [])" p "''predicate''" 0] by (simp add: sound_walk_def counted_def compile_predicate_def)

section \<open>Properties\<close>


definition sample_regex :: regex where
  "sample_regex = \<lparr>rx_ok = (\<lambda>i p. True), rx_test = (\<lambda>i p s. p = s)\<rparr>"

definition sample_predicate :: jsval where
  "sample_predicate = JObj [(''rule'', JStr ''all_of''), (''rules'', JArr
     [JObj [(''rule'', JStr ''at_most''), (''path'', JStr ''count''), (''max'', JNum (Fin 0))],
      JObj [(''rule'', JStr ''not''), (''predicate'', JObj [(''rule'', JStr ''is_true''), (''path'', JStr ''truncated'')])]])]"

lemma sample_predicate_compiles: "compile_predicate sample_regex sample_predicate = []"
  by (simp add: compile_predicate_def sample_predicate_def walk.simps walk_params.simps walk_children.simps RULES_def MAX_NODES_def MAX_DEPTH_def
      Let_def check_leaf_def valid_path_def path_char_def FORBIDDEN_SEGMENTS_def is_digit_def char_code_def is_finite_def)


text \<open>\<open>e'\<close> has everything \<open>e\<close> has.\<close>

definition extends :: "jsval \<Rightarrow> jsval \<Rightarrow> bool" where
  "extends e' e \<longleftrightarrow> (\<forall>p v. resolve_evidence_path e p = Some v \<longrightarrow> resolve_evidence_path e' p = Some v)"

lemma read_path_extends:
  assumes "extends e' e" and "read_path e node k = Holds b"
  shows "read_path e' node k = Holds b"
  using assms by (auto simp: read_path_def extends_def split: jsval.splits option.splits)

lemma eval_leaf_extends:
  assumes "extends e' e" and "eval_leaf rx tx rule node e = Holds b"
  shows "eval_leaf rx tx rule node e' = Holds b"
proof (cases "rule \<in> {''regex_match'', ''regex_not_match'', ''bits_all'', ''bits_none''}")
  case True
  then show ?thesis using assms(2) read_path_extends [OF assms(1)]
    by (elim insertE emptyE) (simp_all add: eval_leaf_def)
next
  case False
  then show ?thesis using assms(2) read_path_extends [OF assms(1)]
    by (simp add: eval_leaf_def split: if_splits jsval.splits)
qed

text \<open>A verdict is stable under more evidence: when a compiled predicate is true or false on what the collector sent, it has the same
  outcome on any evidence that contains it. So a path that did not arrive can never have decided a verdict, inside any nesting of
  all_of, any_of and not.\<close>

theorem verdict_stable_under_more_evidence:
  assumes "compile_predicate rx p = []" and "evaluate_predicate rx text_of p e = Holds b" and "extends e' e"
  shows "evaluate_predicate rx text_of p e' = Holds b"
proof -
  have "well_formed rx p" by (rule compiled_well_formed [OF assms(1)])
  then have "eval_node rx text_of p e = Holds b \<Longrightarrow> eval_node rx text_of p e' = Holds b"
  proof (induction arbitrary: b rule: well_formed.induct)
    case (leaf kvs name params)
    then have "name \<notin> {''all_of'', ''any_of'', ''not''}" using leaf_rule_name by blast
    then show ?case using leaf.prems eval_leaf_extends [OF assms(3)] by (simp add: eval_node_JObj [OF leaf.hyps(1)])
  next
    case (rules kvs name vs)
    have nc: "\<forall>r \<in> set vs. eval_node rx text_of r e \<noteq> Crash" "\<forall>r \<in> set vs. eval_node rx text_of r e' \<noteq> Crash"
      using rules.hyps(5) well_formed_no_crash by blast+
    have all: "eval_all rx text_of vs True e' = Holds b" if "eval_all rx text_of vs True e = Holds b"
    proof -
      have "\<forall>r \<in> set vs. \<exists>c. eval_node rx text_of r e = Holds c"
        using that nc(1) by (auto simp: eval_all_cases find_Some_iff find_None_iff split: option.splits)
      then have "\<forall>r \<in> set vs. eval_node rx text_of r e' = eval_node rx text_of r e" using rules.IH by metis
      then have "eval_all rx text_of vs True e' = eval_all rx text_of vs True e" by (rule eval_all_cong)
      with that show ?thesis by simp
    qed
    have any: "eval_any rx text_of vs None e' = Holds b" if a: "eval_any rx text_of vs None e = Holds b"
    proof (cases "\<exists>r \<in> set vs. eval_node rx text_of r e = Holds True")
      case True
      then show ?thesis using a rules.IH eval_any_cases [OF nc(1), of None] eval_any_cases [OF nc(2), of None] by auto
    next
      case False
      then have b: "b = False" "first_missing (map (\<lambda>r. eval_node rx text_of r e) vs) = None"
        using a eval_any_cases [OF nc(1), of None] by (auto split: option.splits)
      have "first_missing os = None \<Longrightarrow> o1 \<in> set os \<Longrightarrow> o1 \<noteq> Missing q" for os o1 q
        by (induction os rule: first_missing.induct) auto
      with b(2) have "eval_node rx text_of r e \<noteq> Missing q" if "r \<in> set vs" for r q using that by fastforce
      with nc(1) False have fls: "\<forall>r \<in> set vs. eval_node rx text_of r e = Holds False" by (metis outcome.exhaust)
      then have "\<forall>r \<in> set vs. eval_node rx text_of r e' = Holds False" using rules.IH by blast
      then have "map (\<lambda>r. eval_node rx text_of r e') vs = map (\<lambda>r. eval_node rx text_of r e) vs" using fls by simp
      then have "first_missing (map (\<lambda>r. eval_node rx text_of r e') vs) = None" using b(2) by (simp only:)
      moreover have "\<not> (\<exists>r \<in> set vs. eval_node rx text_of r e' = Holds True)"
        using \<open>\<forall>r \<in> set vs. eval_node rx text_of r e' = Holds False\<close> by simp
      ultimately show ?thesis using eval_any_cases [OF nc(2), of None] b(1) by simp
    qed
    show ?case using rules.prems rules.hyps(2,3) all any
      by (auto simp: eval_node_JObj [OF rules.hyps(1)] simp del: jprop.simps split: if_splits)
  next
    case (negation kvs)
    then show ?case by (auto simp: eval_node_JObj [OF negation.hyps(1)] simp del: jprop.simps split: outcome.splits)
  qed
  with assms(2) show ?thesis by (simp add: evaluate_predicate_def)
qed

lemma verdict_stable_under_more_evidence_witness:
  "evaluate_predicate sample_regex (\<lambda>_. []) sample_predicate (JObj [(''count'', JNum (Fin 0)), (''truncated'', JBool False)]) = Holds True"
proof (rule verdict_stable_under_more_evidence [OF sample_predicate_compiles])
  let ?e = "JObj [(''count'', JNum (Fin 0)), (''truncated'', JBool False)]"
  show "evaluate_predicate sample_regex (\<lambda>_. []) sample_predicate ?e = Holds True"
    by (simp add: evaluate_predicate_def sample_predicate_def eval_node.simps eval_all.simps eval_leaf_def read_path_def resolve_evidence_path_def
        own_property_def FORBIDDEN_SEGMENTS_def bound_def compare_number_def to_number_def)
  show "extends ?e ?e" by (simp add: extends_def)
qed

text \<open>A bit mask of which all set bits lie above the 32nd makes \<open>bits_all\<close> true for every attribute value: the compiler accepts the mask
  (it is a non-negative safe integer), but the test compares \<open>mask >>> 0\<close>, which is 0. Such an indicator passes on anything.\<close>

theorem wide_mask_passes_everything:
  "compile_predicate rx (JObj [(''rule'', JStr ''bits_all''), (''path'', JStr ''value''), (''mask'', JNum (Fin 4294967296))]) = []
   \<and> (\<forall>n :: int. \<bar>n\<bar> \<le> 9007199254740991 \<longrightarrow>
       evaluate_predicate rx tx (JObj [(''rule'', JStr ''bits_all''), (''path'', JStr ''value''), (''mask'', JNum (Fin 4294967296))])
         (JObj [(''value'', JNum (Fin (of_int n)))]) = Holds True)"
proof (intro conjI allI impI)
  show "compile_predicate rx (JObj [(''rule'', JStr ''bits_all''), (''path'', JStr ''value''), (''mask'', JNum (Fin 4294967296))]) = []"
    by (simp add: compile_predicate_def walk.simps walk_params.simps walk_children.simps RULES_def MAX_NODES_def MAX_DEPTH_def
        Let_def check_leaf_def valid_path_def path_char_def FORBIDDEN_SEGMENTS_def is_digit_def char_code_def is_safe_integer_def)
  fix n :: int assume "\<bar>n\<bar> \<le> 9007199254740991"
  moreover have "to_uint32 4294967296 = 0" by (simp add: to_uint32_def)
  ultimately show "evaluate_predicate rx tx (JObj [(''rule'', JStr ''bits_all''), (''path'', JStr ''value''), (''mask'', JNum (Fin 4294967296))])
         (JObj [(''value'', JNum (Fin (of_int n)))]) = Holds True"
    by (simp add: evaluate_predicate_def eval_node.simps eval_leaf_def read_path_def resolve_evidence_path_def own_property_def
        FORBIDDEN_SEGMENTS_def bound_def test_bits_def to_number_def is_safe_integer_def)
qed

lemma wide_mask_passes_everything_witness:
  "evaluate_predicate sample_regex (\<lambda>_. []) (JObj [(''rule'', JStr ''bits_all''), (''path'', JStr ''value''), (''mask'', JNum (Fin 4294967296))])
     (JObj [(''value'', JNum (Fin (of_int 5)))]) = Holds True"
proof -
  have "\<bar>5 :: int\<bar> \<le> 9007199254740991" by simp
  then show ?thesis using wide_mask_passes_everything [where rx = sample_regex and tx = "\<lambda>_. []"] by blast
qed

end
