(* ===== verification/Asp_Run.thy ===== *)
theory Asp_Run
  imports Asp_Predicate "HOL-Library.Multiset"
begin

text \<open>
  A run of the assessment service: the verdict on one indicator (\<open>src/plugins/asp/evaluate.ts\<close>), the local store of a run
  (\<open>run-store.ts\<close>) and the run itself (\<open>runner.ts\<close>). \<open>text_of\<close> is \<open>String(v)\<close> on values that are no strings.
\<close>

section \<open>evaluate.ts\<close>

datatype verdict = Pass | Fail | NotAssessed | NeedsReview | NotApplicable

record indicator =
  control_id :: string
  severity :: jsval
  requires :: jsval
  query :: jsval
  derive :: "jsval list"
  predicate :: jsval
  on_fail_review :: bool
  missing_not_applicable :: bool

record asp_result =
  r_control :: string
  r_status :: verdict
  r_severity :: jsval
  affected_count :: jsval
  evidence :: jsval
  reason :: "string option"

definition PRIVILEGE_HRESULTS :: "string list" where
  "PRIVILEGE_HRESULTS = [''0x8007200A'', ''0x80070005'', ''0x80072098'']"

definition FILETIME_EPOCH_OFFSET_MS :: int where "FILETIME_EPOCH_OFFSET_MS = 11644473600000"
definition FILETIME_NEVER :: string where "FILETIME_NEVER = ''9223372036854775807''"

fun get_parts :: "jsval \<Rightarrow> string list \<Rightarrow> jsval" where
  "get_parts node [] = node"
| "get_parts node (part # ps) = (case own_property node part of None \<Rightarrow> JUndef | Some v \<Rightarrow> get_parts v ps)"

definition get_path :: "jsval \<Rightarrow> string \<Rightarrow> jsval" where
  "get_path v p = get_parts v (split_on CHR ''.'' p)"

text \<open>\<open>fileTimeAgeDays\<close>; the division by 10000 is the one on big integers.\<close>

definition file_time_age_days :: "(jsval \<Rightarrow> string) \<Rightarrow> jsval \<Rightarrow> rat \<Rightarrow> int option" where
  "file_time_age_days text_of raw now =
     (if nullish raw then None
      else let s = trim (string_of text_of raw)
        in if \<not> all_digits s \<or> s = ''0'' \<or> s = FILETIME_NEVER then None
           else let ms = int (digits_value 10 s div 10000) - FILETIME_EPOCH_OFFSET_MS
             in if ms \<le> 0 then None else Some (max 0 \<lfloor>(now - of_int ms) / 86400000\<rfloor>))"

definition finite_build :: "jsval \<Rightarrow> rat option" where
  "finite_build b = (case jprop b ''minBuild'' of JNum (Fin q) \<Rightarrow> Some q | _ \<Rightarrow> None)"

text \<open>\<open>absentValueFor\<close>: among the builds the collector has reached, the value of the highest.\<close>

definition absent_value_for :: "jsval \<Rightarrow> jsval \<Rightarrow> jsval" where
  "absent_value_for q os_build = (case jprop q ''absentValueByOsBuild'' of
     JArr bs \<Rightarrow>
       (let build = (case os_build of JNum n \<Rightarrow> n | _ \<Rightarrow> Fin 0);
            sorted_bs = sort_by (\<lambda>a b. the (finite_build b) \<le> the (finite_build a)) (filter (\<lambda>b. finite_build b \<noteq> None) bs)
        in case find (\<lambda>b. num_le (Fin (the (finite_build b))) build) sorted_bs of
             Some b \<Rightarrow> jprop b ''value''
           | None \<Rightarrow> jprop q ''absentValue'')
   | _ \<Rightarrow> jprop q ''absentValue'')"

definition bound_list :: "jsval \<Rightarrow> nat \<Rightarrow> jsval list \<times> bool" where
  "bound_list l limit = (case l of JArr vs \<Rightarrow> (take limit vs, length vs > limit) | _ \<Rightarrow> ([], False))"

text \<open>The own entries of a value, as a spread or \<open>Object.entries\<close> sees them.\<close>

definition entries_of :: "jsval \<Rightarrow> (string \<times> jsval) list" where
  "entries_of v = (case v of
     JObj kvs \<Rightarrow> kvs
   | JArr vs \<Rightarrow> zip (map show_nat [0..<length vs]) vs
   | JStr s \<Rightarrow> zip (map show_nat [0..<length s]) (map (\<lambda>c. JStr [c]) s)
   | _ \<Rightarrow> [])"

definition is_number :: "jsval \<Rightarrow> bool" where
  "is_number v \<longleftrightarrow> (case v of JNum _ \<Rightarrow> True | _ \<Rightarrow> False)"

definition copy_number :: "jsval \<Rightarrow> string \<Rightarrow> (string \<times> jsval) list \<Rightarrow> (string \<times> jsval) list" where
  "copy_number data k ev = (if is_number (jprop data k) then map_set ev k (jprop data k) else ev)"

definition with_defaults :: "jsval \<Rightarrow> (string \<times> jsval) list \<Rightarrow> (string \<times> jsval) list" where
  "with_defaults q attrs = (case jprop q ''defaults'' of
     JStr _ \<Rightarrow> attrs
   | d \<Rightarrow> foldl (\<lambda>a (k, v). if map_of a k = None then map_set a k v else a) attrs (entries_of d))"

definition is_object_like :: "jsval \<Rightarrow> bool" where
  "is_object_like v \<longleftrightarrow> (case v of JObj _ \<Rightarrow> True | JArr _ \<Rightarrow> True | _ \<Rightarrow> False)"

definition registry_evidence :: "jsval \<Rightarrow> jsval \<Rightarrow> jsval \<Rightarrow> (string \<times> jsval) list" where
  "registry_evidence q data os_build =
     (let present = (jprop data ''present'' = JBool True)
      in [(''present'', JBool present), (''value'', if present then jprop data ''value'' else absent_value_for q os_build)]
         @ (if present then [] else [(''absent'', JBool True)]))"

definition object_evidence :: "jsval \<Rightarrow> jsval \<Rightarrow> (string \<times> jsval) list" where
  "object_evidence q data =
     (if jprop data ''found'' = JBool False then [(''found'', JBool False)]
      else [(''found'', JBool True), (''attributes'', JObj (with_defaults q (entries_of (jprop data ''attributes''))))])"

definition sample_evidence :: "jsval \<Rightarrow> nat \<Rightarrow> (string \<times> jsval) list" where
  "sample_evidence data limit =
     (if jprop data ''found'' = JBool False then [(''found'', JBool False)]
      else let (lst, truncated) = bound_list (jprop data ''sample'') limit;
               e1 = map_set (copy_number data ''count'' []) ''sample'' (JArr lst);
               e2 = (if truncated \<or> jprop data ''truncated'' = JBool True then map_set e1 ''truncated'' (JBool True) else e1);
               e3 = copy_number data ''objectsScanned'' (copy_number data ''filesScanned'' e2);
               e4 = (if is_object_like (jprop data ''lastWrite'') then map_set e3 ''lastWrite'' (jprop data ''lastWrite'') else e3);
               e5 = (case jprop data ''notFound'' of JNum n \<Rightarrow> if num_lt (Fin 0) n then map_set e4 ''notFound'' (JNum n) else e4 | _ \<Rightarrow> e4)
           in foldl (\<lambda>e k. copy_number data k e) e5 [''withoutAttribute'', ''aceCount'', ''retrieversSeen'', ''gposLinked''])"

definition derive_one :: "(jsval \<Rightarrow> string) \<Rightarrow> rat \<Rightarrow> (string \<times> jsval) list \<Rightarrow> jsval \<Rightarrow> (string \<times> jsval) list" where
  "derive_one text_of now ev d =
     (if jprop d ''op'' = JStr ''fileTimeAgeDays'' then
        (case file_time_age_days text_of (get_path (JObj ev) (string_of text_of (jprop d ''from''))) now of
           Some age \<Rightarrow> map_set ev (string_of text_of (jprop d ''as'')) (JNum (Fin (of_int age)))
         | None \<Rightarrow> ev)
      else ev)"

definition build_evidence :: "(jsval \<Rightarrow> string) \<Rightarrow> indicator \<Rightarrow> jsval \<Rightarrow> nat \<Rightarrow> jsval \<Rightarrow> rat \<Rightarrow> (string \<times> jsval) list" where
  "build_evidence text_of ind data limit os_build now =
     (let q = query ind; kind = jprop q ''kind'';
          ev = (if kind = JStr ''registry'' then registry_evidence q data os_build
                else if kind = JStr ''ldap_object'' \<or> kind = JStr ''rootdse'' then object_evidence q data
                else sample_evidence data limit)
      in foldl (derive_one text_of now) ev (derive ind))"

definition not_assessed :: "indicator \<Rightarrow> jsval \<Rightarrow> jsval \<Rightarrow> string \<Rightarrow> asp_result" where
  "not_assessed ind affected ev why = \<lparr>r_control = control_id ind, r_status = NotAssessed, r_severity = severity ind,
     affected_count = affected, evidence = ev, reason = Some why\<rparr>"

definition hresult_text :: "(jsval \<Rightarrow> string) \<Rightarrow> jsval \<Rightarrow> string" where
  "hresult_text text_of raw =
     (let h = jprop (jprop raw ''error'') ''hresult'';
          u = to_upper (if nullish h then [] else string_of text_of h)
      in if starts_with u ''0X'' then ''0x'' @ drop 2 u else u)"

text \<open>The branch of a query that failed.\<close>

definition failed_query :: "(jsval \<Rightarrow> string) \<Rightarrow> indicator \<Rightarrow> jsval \<Rightarrow> asp_result" where
  "failed_query text_of ind raw =
     (let err = jprop raw ''error''; hr = hresult_text text_of raw; ty = jprop err ''type''; msg = jprop err ''message'';
          cut = (\<lambda>n v. case v of JStr s \<Rightarrow> JStr (take n s) | _ \<Rightarrow> JNull)
      in if ty = JStr ''budget_exceeded'' then not_assessed ind JNull JNull ''budget_exceeded''
         else if hr \<in> set PRIVILEGE_HRESULTS then
           not_assessed ind JNull JNull ((if requires ind = JStr ''privileged'' then ''requires_privileged_read:'' else ''insufficient_rights:'') @ hr)
         else
           not_assessed ind JNull
             (if truthy (cut 300 msg) \<or> truthy (cut 100 ty) then
                JObj [(''collectorError'', JObj [(''hresult'', if hr = [] then JNull else JStr hr), (''type'', cut 100 ty), (''message'', cut 300 msg)])]
              else JNull)
             (''collector_error:'' @ (if hr \<noteq> [] then hr else if truthy ty then string_of text_of ty else ''unknown'')))"

text \<open>\<open>evaluateIndicator\<close>; nothing is an exception of the predicate.\<close>

definition evaluate_indicator ::
  "regex \<Rightarrow> (jsval \<Rightarrow> string) \<Rightarrow> indicator \<Rightarrow> jsval \<Rightarrow> jsval \<Rightarrow> nat \<Rightarrow> rat \<Rightarrow> asp_result option" where
  "evaluate_indicator rx text_of ind raw collector limit now =
     (if requires ind = JStr ''dc_registry'' \<and> jprop collector ''isDomainController'' \<noteq> JBool True
      then Some (not_assessed ind JNull JNull ''requires_dc_registry'')
      else if \<not> truthy raw then Some (not_assessed ind JNull JNull ''collector_no_result'')
      else if jprop raw ''ok'' \<noteq> JBool True then Some (failed_query text_of ind raw)
      else
        (let data = jprop raw ''data'';
             ev = build_evidence text_of ind data limit (jprop collector ''osBuild'') now;
             affected = (if is_number (jprop (JObj ev) ''count'') then jprop (JObj ev) ''count'' else JNull);
             unreadable = (case jprop data ''unreadable'' of JNum n \<Rightarrow> n | _ \<Rightarrow> Fin 0);
             res = (\<lambda>st why. \<lparr>r_control = control_id ind, r_status = st, r_severity = severity ind, affected_count = affected,
                               evidence = JObj ev, reason = why\<rparr>)
         in case evaluate_predicate rx text_of (predicate ind) (JObj ev) of
              Crash \<Rightarrow> None
            | Holds b \<Rightarrow>
                Some (if b \<and> num_lt (Fin 0) unreadable then res NotAssessed (Some (''insufficient_read:'' @ text_of (JNum unreadable)))
                      else if b then res Pass None
                      else res (if on_fail_review ind then NeedsReview else Fail) None)
            | Missing p \<Rightarrow>
                Some (if missing_not_applicable ind then res NotApplicable (Some (''not_present:'' @ p))
                      else res NotAssessed (Some (''missing_evidence:'' @ p)))))"

text \<open>C38. A pass is never given in the dark. An indicator passes only when the collector answered, a registry probe ran on a domain
  controller, nothing of the population was reported unreadable, and the predicate is true on exactly the evidence that is sent along,
  with no path missing. And blindness hides no finding: when the predicate is false the verdict is a fail (or a review) however
  much was unreadable.\<close>

theorem pass_needs_full_reading:
  assumes "evaluate_indicator rx text_of ind raw collector limit now = Some r"
  shows "(r_status r = Pass \<longrightarrow>
            jprop raw ''ok'' = JBool True
            \<and> (requires ind = JStr ''dc_registry'' \<longrightarrow> jprop collector ''isDomainController'' = JBool True)
            \<and> (\<forall>n. jprop (jprop raw ''data'') ''unreadable'' = JNum n \<longrightarrow> \<not> num_lt (Fin 0) n)
            \<and> evaluate_predicate rx text_of (predicate ind) (evidence r) = Holds True)
       \<and> (r_status r \<in> {Fail, NeedsReview} \<longrightarrow> evaluate_predicate rx text_of (predicate ind) (evidence r) = Holds False)
       \<and> (jprop raw ''ok'' = JBool True \<and> requires ind \<noteq> JStr ''dc_registry''
            \<and> evaluate_predicate rx text_of (predicate ind)
                (JObj (build_evidence text_of ind (jprop raw ''data'') limit (jprop collector ''osBuild'') now)) = Holds False
            \<longrightarrow> r_status r \<in> {Fail, NeedsReview})"
proof -
  let ?ev = "JObj (build_evidence text_of ind (jprop raw ''data'') limit (jprop collector ''osBuild'') now)"
  have fq: "r_status (failed_query text_of ind raw) = NotAssessed"
    by (simp add: failed_query_def not_assessed_def Let_def)
  have tr: "jprop raw ''ok'' = JBool True \<Longrightarrow> truthy raw" by (cases raw) auto
  show ?thesis
  proof (cases "(requires ind = JStr ''dc_registry'' \<and> jprop collector ''isDomainController'' \<noteq> JBool True) \<or> \<not> truthy raw \<or> jprop raw ''ok'' \<noteq> JBool True")
    case True
    then have "r_status r = NotAssessed"
      using assms fq by (auto simp: evaluate_indicator_def not_assessed_def split: if_splits)
    then show ?thesis using True tr by auto
  next
    case False
    then show ?thesis
      using assms by (cases "evaluate_predicate rx text_of (predicate ind) ?ev")
        (auto simp: evaluate_indicator_def Let_def simp del: jprop.simps split: if_splits jsval.splits)
  qed
qed

definition krbtgt_age :: indicator where
  "krbtgt_age = \<lparr>control_id = ''ASP-1'', severity = JStr ''high'', requires = JStr ''member'', query = JObj [(''kind'', JStr ''ldap_search'')],
     derive = [], predicate = JObj [(''rule'', JStr ''at_most''), (''path'', JStr ''count''), (''max'', JNum (Fin 0))],
     on_fail_review = False, missing_not_applicable = False\<rparr>"

lemma pass_needs_full_reading_witness:
  "\<exists>r. evaluate_indicator sample_regex (\<lambda>_. []) krbtgt_age (JObj [(''ok'', JBool True), (''data'', JObj [(''count'', JNum (Fin 0))])])
        JNull 200 0 = Some r \<and> r_status r = Pass
      \<and> evaluate_predicate sample_regex (\<lambda>_. []) (predicate krbtgt_age) (evidence r) = Holds True"
proof -
  let ?raw = "JObj [(''ok'', JBool True), (''data'', JObj [(''count'', JNum (Fin 0))])]"
  obtain r where r: "evaluate_indicator sample_regex (\<lambda>_. []) krbtgt_age ?raw JNull 200 0 = Some r" "r_status r = Pass"
    by (simp add: evaluate_indicator_def krbtgt_age_def build_evidence_def sample_evidence_def bound_list_def copy_number_def is_number_def
        is_object_like_def evaluate_predicate_def eval_node.simps eval_leaf_def read_path_def resolve_evidence_path_def own_property_def
        FORBIDDEN_SEGMENTS_def bound_def compare_number_def to_number_def num_lt_def num_eq_def)
  with pass_needs_full_reading [OF r(1)] show ?thesis by blast
qed

section \<open>run-store.ts\<close>

datatype run_status = Running | Evaluated | EnqueuedRun | FailedRun | Aborted

record local_run =
  lr_id :: string
  lr_instance :: jsval
  lr_domain :: string
  lr_job :: string
  lr_status :: run_status
  lr_started :: int
  lr_finished :: "int option"
  lr_total :: nat
  lr_chunks :: "nat option"
  lr_duration :: "int option"
  lr_notes :: "string list"
  lr_error :: "string option"

record asp_store =
  runs :: "local_run list"
  results :: "((string \<times> string) \<times> asp_result) list"

text \<open>What \<open>JSON.parse(JSON.stringify(v ?? null))\<close> keeps of a value.\<close>

function json_value :: "jsval \<Rightarrow> jsval" where
  "json_value JUndef = JNull"
| "json_value JNull = JNull"
| "json_value (JBool b) = JBool b"
| "json_value (JNum n) = (if is_finite n then JNum n else JNull)"
| "json_value (JStr s) = JStr s"
| "json_value (JArr vs) = JArr (map json_value vs)"
| "json_value (JObj kvs) = JObj (map (\<lambda>(k, v). (k, json_value v)) (filter (\<lambda>(k, v). v \<noteq> JUndef) kvs))"
  by pat_completeness auto
termination
  by (relation "measure size") (auto simp: size_elem size_entry)

definition update_run :: "string \<Rightarrow> (local_run \<Rightarrow> bool) \<Rightarrow> (local_run \<Rightarrow> local_run) \<Rightarrow> asp_store \<Rightarrow> asp_store" where
  "update_run i P f st = st\<lparr>runs := map (\<lambda>r. if lr_id r = i \<and> P r then f r else r) (runs st)\<rparr>"

definition get_run :: "asp_store \<Rightarrow> string \<Rightarrow> local_run option" where
  "get_run st i = find (\<lambda>r. lr_id r = i) (runs st)"

definition running_run :: "asp_store \<Rightarrow> local_run option" where
  "running_run st = (case sort_by (\<lambda>a b. lr_started b \<le> lr_started a) (filter (\<lambda>r. lr_status r = Running) (runs st)) of
     [] \<Rightarrow> None | r # _ \<Rightarrow> Some r)"

text \<open>The primary key: a second run with the same id is an exception.\<close>

definition start_run :: "string \<Rightarrow> jsval \<Rightarrow> string \<Rightarrow> string \<Rightarrow> nat \<Rightarrow> int \<Rightarrow> asp_store \<Rightarrow> asp_store option" where
  "start_run i inst dmn job tot started st =
     (if get_run st i \<noteq> None then None
      else Some (st\<lparr>runs := runs st @ [\<lparr>lr_id = i, lr_instance = inst, lr_domain = dmn, lr_job = job, lr_status = Running,
        lr_started = started, lr_finished = None, lr_total = tot, lr_chunks = None, lr_duration = None, lr_notes = [], lr_error = None\<rparr>]\<rparr>))"

definition insert_result :: "string \<Rightarrow> ((string \<times> string) \<times> asp_result) list \<Rightarrow> asp_result \<Rightarrow> ((string \<times> string) \<times> asp_result) list" where
  "insert_result i tbl r = map_set tbl (i, r_control r) (r\<lparr>evidence := json_value (evidence r)\<rparr>)"

definition save_evaluated :: "string \<Rightarrow> asp_result list \<Rightarrow> nat \<Rightarrow> int \<Rightarrow> string list \<Rightarrow> int \<Rightarrow> asp_store \<Rightarrow> asp_store" where
  "save_evaluated i rs chunks duration notes finished st =
     update_run i (\<lambda>_. True) (\<lambda>r. r\<lparr>lr_status := Evaluated, lr_finished := Some finished, lr_chunks := Some chunks,
         lr_duration := Some duration, lr_notes := notes\<rparr>)
       (st\<lparr>results := foldl (insert_result i) (filter (\<lambda>((j, c), r). j \<noteq> i) (results st)) rs\<rparr>)"

definition stored_results :: "asp_store \<Rightarrow> string \<Rightarrow> asp_result list" where
  "stored_results st i = map snd (sort_key (\<lambda>x. snd (fst x)) (filter (\<lambda>((j, c), r). j = i) (results st)))"

definition mark_enqueued :: "string \<Rightarrow> asp_store \<Rightarrow> asp_store" where
  "mark_enqueued i = update_run i (\<lambda>r. lr_status r = Evaluated) (\<lambda>r. r\<lparr>lr_status := EnqueuedRun\<rparr>)"

definition mark_run_failed :: "string \<Rightarrow> int \<Rightarrow> string \<Rightarrow> asp_store \<Rightarrow> asp_store" where
  "mark_run_failed i now err = update_run i (\<lambda>_. True)
     (\<lambda>r. r\<lparr>lr_status := FailedRun, lr_finished := Some now, lr_error := Some (take 500 err)\<rparr>)"

definition pending_enqueue :: "asp_store \<Rightarrow> local_run list" where
  "pending_enqueue st = sort_by (\<lambda>a b. lr_started a \<le> lr_started b) (filter (\<lambda>r. lr_status r = Evaluated) (runs st))"

definition abort_running :: "int \<Rightarrow> asp_store \<Rightarrow> nat \<times> asp_store" where
  "abort_running now st =
     (length (filter (\<lambda>r. lr_status r = Running) (runs st)),
      st\<lparr>runs := map (\<lambda>r. if lr_status r = Running
         then r\<lparr>lr_status := Aborted, lr_finished := Some now, lr_error := Some ''agent_restarted''\<rparr> else r) (runs st)\<rparr>)"

definition cleanup_runs :: "int \<Rightarrow> int \<Rightarrow> asp_store \<Rightarrow> nat \<times> asp_store" where
  "cleanup_runs now days st =
     (let cutoff = now - days * 86400000;
          old = map lr_id (filter (\<lambda>r. lr_status r \<in> {EnqueuedRun, FailedRun, Aborted} \<and> lr_started r < cutoff) (runs st))
      in (length old, st\<lparr>runs := filter (\<lambda>r. lr_id r \<notin> set old) (runs st),
                        results := filter (\<lambda>((j, c), r). j \<notin> set old) (results st)\<rparr>))"

section \<open>runner.ts\<close>

definition ASP_RUN_BUDGET_MS_DEFAULT :: int where "ASP_RUN_BUDGET_MS_DEFAULT = 900000"
definition ASP_PRIVSVC_BATCH_CEILING_MS :: int where "ASP_PRIVSVC_BATCH_CEILING_MS = 300000"
definition ASP_BATCH_SIZE :: nat where "ASP_BATCH_SIZE = 8"
definition ASP_CHUNK_SIZE :: nat where "ASP_CHUNK_SIZE = 10"
definition MIN_BATCH_BUDGET_MS :: int where "MIN_BATCH_BUDGET_MS = 20000"

record assess_payload =
  p_run :: string
  p_instance :: jsval
  p_domain :: string
  p_family :: string
  p_version :: string
  p_budget :: rat
  p_limit :: nat
  p_manual :: bool
  p_indicators :: "indicator list"

definition is_hex :: "char \<Rightarrow> bool" where
  "is_hex c \<longleftrightarrow> hex_val c \<noteq> None"

definition is_uuid :: "string \<Rightarrow> bool" where
  "is_uuid s \<longleftrightarrow> map length (split_on CHR ''-'' s) = [8, 4, 4, 4, 12] \<and> list_all (list_all is_hex) (split_on CHR ''-'' s)"

text \<open>The loop over the indicators: the first error.\<close>

fun indicator_error :: "regex \<Rightarrow> (jsval \<Rightarrow> string) \<Rightarrow> jsval list \<Rightarrow> string option" where
  "indicator_error rx text_of [] = None"
| "indicator_error rx text_of (i # is) =
     (if \<not> (case jprop i ''controlId'' of JStr _ \<Rightarrow> truthy i | _ \<Rightarrow> False) \<or> \<not> truthy (jprop i ''query'')
         \<or> (case jprop (jprop i ''query'') ''kind'' of JStr _ \<Rightarrow> False | _ \<Rightarrow> True) then Some ''bad_indicator_shape''
      else if compile_predicate rx (jprop i ''predicate'') \<noteq> [] then Some (''bad_predicate:'' @ string_of text_of (jprop i ''controlId''))
      else indicator_error rx text_of is)"

definition indicator_of :: "(jsval \<Rightarrow> string) \<Rightarrow> jsval \<Rightarrow> indicator" where
  "indicator_of text_of i = \<lparr>control_id = string_of text_of (jprop i ''controlId''), severity = jprop i ''severity'', requires = jprop i ''requires'',
     query = jprop i ''query'', derive = (case jprop i ''derive'' of JArr ds \<Rightarrow> ds | _ \<Rightarrow> []), predicate = jprop i ''predicate'',
     on_fail_review = (jprop i ''onFail'' = JStr ''needs_review''),
     missing_not_applicable = (jprop i ''whenMissing'' = JStr ''not_applicable'')\<rparr>"

definition positive_safe_integer :: "jsval \<Rightarrow> bool" where
  "positive_safe_integer v = (case v of JNum n \<Rightarrow> is_safe_integer n \<and> num_lt (Fin 0) n | _ \<Rightarrow> False)"

definition validate_assess_payload :: "regex \<Rightarrow> (jsval \<Rightarrow> string) \<Rightarrow> jsval \<Rightarrow> string + assess_payload" where
  "validate_assess_payload rx text_of raw =
     (if \<not> is_object_like raw then Inl ''payload_not_object''
      else case jprop raw ''runId'' of
        JStr run \<Rightarrow>
          (if \<not> is_uuid run then Inl ''bad_run_id''
           else if \<not> positive_safe_integer (jprop raw ''instanceId'') then Inl ''bad_instance_id''
           else case jprop raw ''domain'' of
             JStr dmn \<Rightarrow>
               (if trim dmn = [] then Inl ''bad_domain''
                else case jprop raw ''indicators'' of
                  JArr inds \<Rightarrow>
                    (if length inds = 0 \<or> length inds > 500 then Inl ''bad_indicators''
                     else case indicator_error rx text_of inds of
                       Some e \<Rightarrow> Inl e
                     | None \<Rightarrow>
                         let budget = number_of_value text_of (jprop raw ''budgetSeconds'');
                             limit = number_of_value text_of (jprop raw ''evidenceLimit'');
                             text = (\<lambda>v. if nullish v then [] else string_of text_of v)
                         in Inr \<lparr>p_run = to_lower run, p_instance = jprop raw ''instanceId'', p_domain = to_lower (trim dmn),
                              p_family = text (jprop raw ''catalogFamily''), p_version = text (jprop raw ''catalogVersion''),
                              p_budget = (case budget of Fin q \<Rightarrow> if q > 0 then min q 3600 else of_int ASP_RUN_BUDGET_MS_DEFAULT / 1000
                                          | _ \<Rightarrow> of_int ASP_RUN_BUDGET_MS_DEFAULT / 1000),
                              p_limit = (case limit of Fin q \<Rightarrow> if is_integer (Fin q) \<and> 1 \<le> q \<and> q \<le> 200 then nat \<lfloor>q\<rfloor> else 200 | _ \<Rightarrow> 200),
                              p_manual = (jprop raw ''trigger'' = JStr ''manual''),
                              p_indicators = map (indicator_of text_of) inds\<rparr>)
                | _ \<Rightarrow> Inl ''bad_indicators'')
           | _ \<Rightarrow> Inl ''bad_domain'')
      | _ \<Rightarrow> Inl ''bad_run_id'')"

text \<open>\<open>for (i = 0; i < n; i += sz) out.push(xs.slice(i, i + sz))\<close>\<close>

function slices :: "nat \<Rightarrow> 'a list \<Rightarrow> nat \<Rightarrow> 'a list list" where
  "slices sz xs i = (if i < length xs \<and> 0 < sz then take sz (drop i xs) # slices sz xs (i + sz) else [])"
  by pat_completeness auto
termination
  by (relation "measure (\<lambda>(sz, xs, i). length xs - i)") auto

declare slices.simps [simp del]

definition is_registry :: "indicator \<Rightarrow> bool" where
  "is_registry i \<longleftrightarrow> jprop (query i) ''kind'' = JStr ''registry''"

definition plan_batches :: "nat \<Rightarrow> indicator list \<Rightarrow> indicator list list" where
  "plan_batches sz inds =
     (let registry = filter is_registry inds; rest = filter (\<lambda>i. \<not> is_registry i) inds
      in slices sz rest 0 @ (if registry = [] then [] else [registry]))"

datatype asp_event =
    ChunkEvent string nat "asp_result list"
  | CompleteEvent string nat nat int "string list"

definition chunk_count :: "nat \<Rightarrow> nat \<Rightarrow> nat" where
  "chunk_count n sz = max 1 ((n + sz - 1) div sz)"

definition build_upload_events :: "string \<Rightarrow> asp_result list \<Rightarrow> int \<Rightarrow> string list \<Rightarrow> nat \<Rightarrow> asp_event list" where
  "build_upload_events i rs duration notes sz =
     (let chunks = chunk_count (length rs) sz
      in map (\<lambda>seq. ChunkEvent i seq (take sz (drop (seq * sz) rs))) [0..<chunks]
         @ [CompleteEvent i (length rs) chunks duration notes])"

text \<open>The queue is an argument: \<open>enq\<close> adds an event or throws (a message).\<close>

fun enqueue_all :: "(asp_event \<Rightarrow> 'q \<Rightarrow> string + 'q) \<Rightarrow> asp_event list \<Rightarrow> 'q \<Rightarrow> string option \<times> 'q" where
  "enqueue_all enq [] q = (None, q)"
| "enqueue_all enq (e # es) q = (case enq e q of Inl m \<Rightarrow> (Some m, q) | Inr q' \<Rightarrow> enqueue_all enq es q')"

definition enqueue_evaluated_run :: "(asp_event \<Rightarrow> 'q \<Rightarrow> string + 'q) \<Rightarrow> string \<Rightarrow> asp_store \<times> 'q \<Rightarrow> string option \<times> asp_store \<times> 'q" where
  "enqueue_evaluated_run enq i = (\<lambda>(st, q).
     (case get_run st i of
        None \<Rightarrow> (None, st, q)
      | Some run \<Rightarrow>
          if lr_status run \<noteq> Evaluated \<and> lr_status run \<noteq> EnqueuedRun then (None, st, q)
          else
            let events = build_upload_events i (stored_results st i) (case lr_duration run of Some d \<Rightarrow> d | None \<Rightarrow> 0) (lr_notes run) ASP_CHUNK_SIZE
            in case enqueue_all enq events q of
                 (Some m, q') \<Rightarrow> (Some m, st, q')
               | (None, q') \<Rightarrow> (None, mark_enqueued i st, q')))"

record collect_request =
  c_run :: string
  c_batch :: nat
  c_limit :: nat
  c_budget :: rat
  c_queries :: "(string \<times> jsval) list"

record collected =
  c_raw :: "(string \<times> jsval) list"
  c_collector :: jsval
  c_context :: "string option"

definition privsvc_reason :: "(jsval \<Rightarrow> string) \<Rightarrow> jsval \<Rightarrow> string" where
  "privsvc_reason text_of resp =
     (let err = jprop resp ''error''; code = jprop err ''code''; msg = jprop err ''message''
      in ''privsvc:'' @ (if truthy code then string_of text_of code else ''unknown'')
         @ (if truthy msg then '':'' @ take 120 (string_of text_of msg) else []))"

definition absorb_batch :: "(jsval \<Rightarrow> string) \<Rightarrow> indicator list \<Rightarrow> jsval \<Rightarrow> collected \<Rightarrow> collected" where
  "absorb_batch text_of batch result acc =
     \<lparr>c_raw = foldl (\<lambda>m ind. let r = jprop (jprop result ''results'') (control_id ind)
                in if truthy r then map_set m (control_id ind) r else m) (c_raw acc) batch,
      c_collector = (if \<not> truthy (c_collector acc) \<and> truthy (jprop result ''collector'') then jprop result ''collector'' else c_collector acc),
      c_context = (let ce = jprop result ''contextError'' in
        if truthy ce \<and> c_context acc \<in> {None, Some []}
        then Some (if \<not> nullish (jprop ce ''hresult'') then string_of text_of (jprop ce ''hresult'')
                   else if \<not> nullish (jprop ce ''message'') then string_of text_of (jprop ce ''message'') else ''context_error'')
        else c_context acc)\<rparr>"

text \<open>
  The loop over the batches: \<open>clk b\<close> is the clock at batch \<open>b\<close>, \<open>call\<close> the privileged service (the message of an
  exception, or its answer). The reason of a failed run, or what was collected.
\<close>

fun collect_batches ::
  "(jsval \<Rightarrow> string) \<Rightarrow> (nat \<Rightarrow> rat) \<Rightarrow> (collect_request \<Rightarrow> string + jsval) \<Rightarrow> assess_payload \<Rightarrow> rat \<Rightarrow> nat
     \<Rightarrow> indicator list list \<Rightarrow> nat \<Rightarrow> collected \<Rightarrow> string + collected" where
  "collect_batches text_of clk call p deadline n [] b acc = Inr acc"
| "collect_batches text_of clk call p deadline n (batch # bs) b acc =
     (let remaining = deadline - clk b in
      if remaining < of_int MIN_BATCH_BUDGET_MS then Inl (''budget_exceeded:batch_'' @ show_nat b @ ''_of_'' @ show_nat n)
      else case call \<lparr>c_run = p_run p, c_batch = b, c_limit = p_limit p,
                      c_budget = min (remaining - 5000) (of_int ASP_PRIVSVC_BATCH_CEILING_MS),
                      c_queries = map (\<lambda>i. (control_id i, query i)) batch\<rparr> of
             Inl m \<Rightarrow> Inl (''ipc:'' @ take 160 m)
           | Inr resp \<Rightarrow>
               if \<not> truthy (jprop resp ''ok'') then Inl (privsvc_reason text_of resp)
               else collect_batches text_of clk call p deadline n bs (b + 1)
                      (absorb_batch text_of batch (if nullish (jprop resp ''result'') then JObj [] else jprop resp ''result'') acc))"

datatype run_result = RunComplete nat nat int nat | RunFailedWith string

definition collector_notes :: "(jsval \<Rightarrow> string) \<Rightarrow> collected \<Rightarrow> string list" where
  "collector_notes text_of c =
     (let col = c_collector c; txt = (\<lambda>k. string_of text_of (jprop col k)) in
      [if truthy col then ''host:'' @ (if nullish (jprop col ''host'') then ''?'' else txt ''host'') else ''host:unknown'',
       if truthy col then ''is_dc:'' @ (if jprop col ''isDomainController'' = JBool True then ''true'' else ''false'') else ''is_dc:unknown'']
      @ (if truthy col \<and> truthy (jprop col ''ranAs'') then [''ran_as:'' @ txt ''ranAs''] else [])
      @ (if truthy col \<and> truthy (jprop col ''psVersion'') then [''ps:'' @ txt ''psVersion''] else [])
      @ (case c_context c of Some e \<Rightarrow> if e = [] then [] else [''context_error:'' @ e] | None \<Rightarrow> []))"

text \<open>The results of all indicators, or nothing when one evaluation throws.\<close>

definition evaluate_all :: "regex \<Rightarrow> (jsval \<Rightarrow> string) \<Rightarrow> assess_payload \<Rightarrow> collected \<Rightarrow> rat \<Rightarrow> asp_result list option" where
  "evaluate_all rx text_of p c now =
     those (map (\<lambda>ind. evaluate_indicator rx text_of ind
                  (case map_of (c_raw c) (control_id ind) of Some r \<Rightarrow> r | None \<Rightarrow> JUndef) (c_collector c) (p_limit p) now) (p_indicators p))"

text \<open>
  \<open>runAspAssessment\<close>. \<open>started\<close> and \<open>finished\<close> are the first and the last clock reading, \<open>failed_at\<close> the one of
  \<open>markFailed\<close>; \<open>crash_text\<close> is the message of an evaluation that throws. Nothing is the rejection of a run id that
  was already there.
\<close>

definition run_asp_assessment ::
  "regex \<Rightarrow> (jsval \<Rightarrow> string) \<Rightarrow> (nat \<Rightarrow> rat) \<Rightarrow> int \<Rightarrow> int \<Rightarrow> int \<Rightarrow> string \<Rightarrow> (collect_request \<Rightarrow> string + jsval)
     \<Rightarrow> (asp_event \<Rightarrow> 'q \<Rightarrow> string + 'q) \<Rightarrow> string \<Rightarrow> assess_payload \<Rightarrow> asp_store \<times> 'q \<Rightarrow> (run_result \<times> asp_store \<times> 'q) option" where
  "run_asp_assessment rx text_of clk started finished failed_at crash_text call enq job p = (\<lambda>(st, q).
     (case start_run (p_run p) (p_instance p) (p_domain p) job (length (p_indicators p)) started st of
        None \<Rightarrow> None
      | Some st1 \<Rightarrow>
          let batches = plan_batches ASP_BATCH_SIZE (p_indicators p);
              fail = (\<lambda>why st q. Some (RunFailedWith why, mark_run_failed (p_run p) failed_at why st, q))
          in case collect_batches text_of clk call p (of_int started + p_budget p * 1000) (length batches) batches 0
                    \<lparr>c_raw = [], c_collector = JNull, c_context = None\<rparr> of
               Inl why \<Rightarrow> fail why st1 q
             | Inr c \<Rightarrow>
                 (case evaluate_all rx text_of p c (of_int finished) of
                    None \<Rightarrow> fail (''runner:'' @ take 160 crash_text) st1 q
                  | Some rs \<Rightarrow>
                      let chunks = chunk_count (length rs) ASP_CHUNK_SIZE;
                          st2 = save_evaluated (p_run p) rs chunks (finished - started) (collector_notes text_of c) finished st1
                      in case enqueue_evaluated_run enq (p_run p) (st2, q) of
                           (Some m, st3, q') \<Rightarrow> fail (''runner:'' @ take 160 m) st3 q'
                         | (None, st3, q') \<Rightarrow>
                             Some (RunComplete (length rs) chunks (finished - started)
                               (length (filter (\<lambda>r. r_status r = NotAssessed) rs)), st3, q'))))"

section \<open>Lemmas\<close>

lemma concat_slices: "0 < sz \<Longrightarrow> concat (slices sz xs i) = drop i xs"
proof (induction sz xs i rule: slices.induct)
  case (1 sz xs i)
  have "take sz (drop i xs) @ drop (i + sz) xs = drop i xs"
    by (metis add.commute append_take_drop_id drop_drop)
  with 1 show ?case by (subst slices.simps) simp
qed

lemma length_slices: "b \<in> set (slices sz xs i) \<Longrightarrow> 0 < length b \<and> length b \<le> sz"
proof (induction sz xs i rule: slices.induct)
  case (1 sz xs i)
  have "b \<in> set (if i < length xs \<and> 0 < sz then take sz (drop i xs) # slices sz xs (i + sz) else [])"
    using "1.prems" by (subst (asm) slices.simps)
  with "1.IH" show ?case by (auto split: if_splits)
qed

text \<open>Every indicator is in one batch; the registry probes are together, the others at most \<open>sz\<close> at a time.\<close>

lemma plan_batches_partition:
  assumes "0 < sz"
  shows "mset (concat (plan_batches sz inds)) = mset inds"
    and "b \<in> set (plan_batches sz inds) \<Longrightarrow> (length b \<le> sz \<and> list_all (\<lambda>i. \<not> is_registry i) b) \<or> b = filter is_registry inds"
proof -
  have "concat (plan_batches sz inds) = filter (\<lambda>i. \<not> is_registry i) inds @ filter is_registry inds"
    using concat_slices [OF assms, of "filter (\<lambda>i. \<not> is_registry i) inds" 0]
    by (simp add: plan_batches_def Let_def)
  moreover have "mset (filter is_registry inds) + mset (filter (\<lambda>i. \<not> is_registry i) inds) = mset inds"
    by (simp flip: multiset_partition)
  ultimately show "mset (concat (plan_batches sz inds)) = mset inds" by (simp only: mset_append add.commute)
next
  assume b: "b \<in> set (plan_batches sz inds)"
  show "(length b \<le> sz \<and> list_all (\<lambda>i. \<not> is_registry i) b) \<or> b = filter is_registry inds"
  proof (cases "b \<in> set (slices sz (filter (\<lambda>i. \<not> is_registry i) inds) 0)")
    case True
    then have "set b \<subseteq> set (concat (slices sz (filter (\<lambda>i. \<not> is_registry i) inds) 0))" by auto
    then have "set b \<subseteq> set (filter (\<lambda>i. \<not> is_registry i) inds)" by (simp only: concat_slices [OF assms] drop_0)
    then have "list_all (\<lambda>i. \<not> is_registry i) b" by (auto simp: list_all_iff)
    with length_slices [OF True] show ?thesis by simp
  next
    case False
    then show ?thesis using b by (auto simp: plan_batches_def Let_def split: if_splits)
  qed
qed

lemma concat_chunks: "concat (map (\<lambda>k. take sz (drop (k * sz) xs)) [0..<n]) = take (n * sz) xs"
proof (induction n)
  case (Suc n)
  have "take (Suc n * sz) xs = take (n * sz) xs @ take sz (drop (n * sz) xs)"
    by (simp add: take_add [symmetric] add.commute)
  with Suc show ?case by simp
qed simp

lemma chunk_count_covers: "0 < sz \<Longrightarrow> n \<le> chunk_count n sz * sz"
proof -
  assume sz: "0 < sz"
  have "n \<le> (n + sz - 1) div sz * sz"
    using div_mult_mod_eq [of "n + sz - 1" sz] mod_less_divisor [OF sz, of "n + sz - 1"] by linarith
  also have "\<dots> \<le> chunk_count n sz * sz" by (simp add: chunk_count_def)
  finally show ?thesis .
qed

lemma those_Some: "those xs = Some ys \<longleftrightarrow> xs = map Some ys"
  by (induction xs arbitrary: ys) (auto split: option.splits)

lemma evaluate_indicator_control: "pred_option (\<lambda>r. r_control r = control_id ind) (evaluate_indicator rx text_of ind raw col limit now)"
proof -
  have fq: "r_control (failed_query text_of ind raw) = control_id ind"
    by (simp add: failed_query_def not_assessed_def Let_def)
  show ?thesis
    unfolding evaluate_indicator_def Let_def
    by (simp add: fq not_assessed_def del: jprop.simps split: outcome.split)
qed

lemma evaluate_all_controls:
  assumes "evaluate_all rx text_of p c now = Some rs"
  shows "map r_control rs = map control_id (p_indicators p)"
proof -
  let ?ev = "\<lambda>ind. evaluate_indicator rx text_of ind (case map_of (c_raw c) (control_id ind) of Some r \<Rightarrow> r | None \<Rightarrow> JUndef)
      (c_collector c) (p_limit p) now"
  have eq: "map ?ev inds = map Some rs \<Longrightarrow> map r_control rs = map control_id inds" for inds rs
  proof (induction inds arbitrary: rs)
    case (Cons ind inds)
    from Cons.prems obtain r rs' where rs: "rs = r # rs'" "?ev ind = Some r" "map ?ev inds = map Some rs'"
      by (cases rs) auto
    have "r_control r = control_id ind"
      using evaluate_indicator_control [of ind rx text_of "case map_of (c_raw c) (control_id ind) of Some r \<Rightarrow> r | None \<Rightarrow> JUndef" "c_collector c" "p_limit p" now]
      by (simp only: rs(2) option.pred_inject)
    with Cons.IH [OF rs(3)] show ?case by (simp add: rs(1))
  qed simp
  show ?thesis
    by (rule eq) (use assms in \<open>simp only: evaluate_all_def those_Some\<close>)
qed

lemma insert_results:
  assumes "distinct (map r_control rs)" and "\<forall>x \<in> set tbl. fst x \<notin> (\<lambda>r. (i, r_control r)) ` set rs"
  shows "foldl (insert_result i) tbl rs = tbl @ map (\<lambda>r. ((i, r_control r), r\<lparr>evidence := json_value (evidence r)\<rparr>)) rs"
  using assms
proof (induction rs arbitrary: tbl)
  case (Cons r rs)
  have "(i, r_control r) \<notin> fst ` set tbl" using Cons.prems(2) by force
  then have "insert_result i tbl r = tbl @ [((i, r_control r), r\<lparr>evidence := json_value (evidence r)\<rparr>)]"
    unfolding insert_result_def by (induction tbl) auto
  moreover have "\<forall>x \<in> set (tbl @ [((i, r_control r), r\<lparr>evidence := json_value (evidence r)\<rparr>)]). fst x \<notin> (\<lambda>r. (i, r_control r)) ` set rs"
    using Cons.prems by auto
  ultimately show ?case using Cons.IH [of "tbl @ [((i, r_control r), r\<lparr>evidence := json_value (evidence r)\<rparr>)]"] Cons.prems(1) by simp
qed simp

lemma insort_key_map: "insort_key g (f x) (map f xs) = map f (insort_key (\<lambda>x. g (f x)) x xs)"
  by (induction xs) auto

lemma sort_key_map: "sort_key g (map f xs) = map f (sort_key (\<lambda>x. g (f x)) xs)"
  by (induction xs) (simp_all add: insort_key_map)

text \<open>What a saved run reads back as: its results, through JSON, in the order of the control ids.\<close>

lemma stored_results_save:
  assumes "distinct (map r_control rs)"
  shows "stored_results (save_evaluated i rs chunks d notes fin st) i
    = map (\<lambda>r. r\<lparr>evidence := json_value (evidence r)\<rparr>) (sort_key r_control rs)"
proof -
  let ?old = "filter (\<lambda>((j, c), r). j \<noteq> i) (results st)"
  have "foldl (insert_result i) ?old rs = ?old @ map (\<lambda>r. ((i, r_control r), r\<lparr>evidence := json_value (evidence r)\<rparr>)) rs"
    by (rule insert_results [OF assms]) auto
  moreover have "filter (\<lambda>((j, c), r). j = i) ?old = []" by (auto simp: filter_empty_conv)
  ultimately have "filter (\<lambda>((j, c), r). j = i) (foldl (insert_result i) ?old rs)
      = map (\<lambda>r. ((i, r_control r), r\<lparr>evidence := json_value (evidence r)\<rparr>)) rs"
    by (simp add: filter_map comp_def)
  then show ?thesis
    by (simp add: stored_results_def save_evaluated_def update_run_def sort_key_map comp_def)
qed

lemma get_run_update:
  "get_run (update_run i P f st) i = (case get_run st i of None \<Rightarrow> None | Some r \<Rightarrow> Some (if P r then f r else r))"
  if "\<And>r. lr_id (f r) = lr_id r"
proof -
  have "find (\<lambda>r. lr_id r = i) (map (\<lambda>r. if lr_id r = i \<and> P r then f r else r) xs)
      = (case find (\<lambda>r. lr_id r = i) xs of None \<Rightarrow> None | Some r \<Rightarrow> Some (if P r then f r else r))" for xs
    by (induction xs) (auto simp: that)
  then show ?thesis by (simp add: get_run_def update_run_def)
qed

definition appends :: "(asp_event \<Rightarrow> asp_event list \<Rightarrow> string + asp_event list) \<Rightarrow> bool" where
  "appends enq \<longleftrightarrow> (\<forall>e q. enq e q = Inr (q @ [e]) \<or> (\<exists>m. enq e q = Inl m))"

lemma enqueue_all_appends:
  assumes "appends enq"
  shows "enqueue_all enq es q = (None, q @ es) \<or> (\<exists>m k. k < length es \<and> enqueue_all enq es q = (Some m, q @ take k es))"
proof (induction es arbitrary: q)
  case (Cons e es)
  consider "enq e q = Inr (q @ [e])" | m where "enq e q = Inl m" using assms by (auto simp: appends_def)
  then show ?case
  proof cases
    case 1
    from Cons.IH [of "q @ [e]"] show ?thesis
    proof
      assume "\<exists>m k. k < length es \<and> enqueue_all enq es (q @ [e]) = (Some m, (q @ [e]) @ take k es)"
      then obtain m k where "k < length es" "enqueue_all enq es (q @ [e]) = (Some m, (q @ [e]) @ take k es)" by blast
      then have "Suc k < length (e # es) \<and> enqueue_all enq (e # es) q = (Some m, q @ take (Suc k) (e # es))" using 1 by simp
      then show ?thesis by blast
    qed (use 1 in simp)
  next
    case (2 m)
    then have "0 < length (e # es) \<and> enqueue_all enq (e # es) q = (Some m, q @ take 0 (e # es))" by simp
    then show ?thesis by blast
  qed
qed simp

fun is_complete_event :: "asp_event \<Rightarrow> bool" where
  "is_complete_event (CompleteEvent _ _ _ _ _) = True"
| "is_complete_event (ChunkEvent _ _ _) = False"

lemma upload_take_no_complete:
  "k < length (build_upload_events i rs d notes sz) \<Longrightarrow> e \<in> set (take k (build_upload_events i rs d notes sz)) \<Longrightarrow> \<not> is_complete_event e"
  by (auto simp: build_upload_events_def Let_def dest!: in_set_takeD)

lemma run_of_save:
  assumes "get_run st i = Some r"
  shows "get_run (save_evaluated i rs chunks d notes fin st) i = Some (r\<lparr>lr_status := Evaluated, lr_finished := Some fin,
    lr_chunks := Some chunks, lr_duration := Some d, lr_notes := notes\<rparr>)"
  using assms unfolding save_evaluated_def
  by (subst get_run_update) (simp_all add: get_run_def)

lemma run_of_failed: "get_run st i = Some r \<Longrightarrow> map_option lr_status (get_run (mark_run_failed i now err st) i) = Some FailedRun"
  unfolding mark_run_failed_def by (subst get_run_update) simp_all

lemma run_of_enqueued:
  "get_run st i = Some r \<Longrightarrow> lr_status r = Evaluated \<Longrightarrow> map_option lr_status (get_run (mark_enqueued i st) i) = Some EnqueuedRun"
  unfolding mark_enqueued_def by (subst get_run_update) simp_all

lemma run_of_start: "start_run i inst dmn job tot started st = Some st1 \<Longrightarrow> \<exists>r. get_run st1 i = Some r"
proof -
  assume "start_run i inst dmn job tot started st = Some st1"
  then obtain r where "runs st1 = runs st @ [r]" "lr_id r = i" by (auto simp: start_run_def split: if_splits)
  moreover have "\<exists>r'. find (\<lambda>r. lr_id r = i) (xs @ [r]) = Some r'" if "lr_id r = i" for xs
    by (induction xs) (simp_all add: that)
  ultimately show ?thesis by (simp add: get_run_def)
qed

text \<open>What an evaluated run puts on the queue.\<close>

lemma enqueue_saved_run:
  assumes enq: "appends enq" and rs: "distinct (map r_control rs)" and r: "get_run st i = Some r"
    and run: "enqueue_evaluated_run enq i (save_evaluated i rs chunks d notes fin st, q) = (err, st', q')"
  shows "let rs' = map (\<lambda>r. r\<lparr>evidence := json_value (evidence r)\<rparr>) (sort_key r_control rs);
             es = build_upload_events i rs' d notes ASP_CHUNK_SIZE
         in (err = None \<and> q' = q @ es \<and> map_option lr_status (get_run st' i) = Some EnqueuedRun)
          \<or> (\<exists>m k. err = Some m \<and> k < length es \<and> q' = q @ take k es \<and> st' = save_evaluated i rs chunks d notes fin st)"
proof -
  let ?st = "save_evaluated i rs chunks d notes fin st"
  let ?es = "build_upload_events i (map (\<lambda>r. r\<lparr>evidence := json_value (evidence r)\<rparr>) (sort_key r_control rs)) d notes ASP_CHUNK_SIZE"
  have g: "get_run ?st i = Some (r\<lparr>lr_status := Evaluated, lr_finished := Some fin,
    lr_chunks := Some chunks, lr_duration := Some d, lr_notes := notes\<rparr>)" by (rule run_of_save [OF r])
  have e: "enqueue_evaluated_run enq i (?st, q) = (case enqueue_all enq ?es q of (Some m, q') \<Rightarrow> (Some m, ?st, q') | (None, q') \<Rightarrow> (None, mark_enqueued i ?st, q'))"
    by (simp add: enqueue_evaluated_run_def g stored_results_save [OF rs])
  from enqueue_all_appends [OF enq, of ?es q] show ?thesis
  proof
    assume "enqueue_all enq ?es q = (None, q @ ?es)"
    with e run have "err = None" "q' = q @ ?es" "st' = mark_enqueued i ?st" by simp_all
    then show ?thesis using run_of_enqueued [OF g] by (simp add: Let_def)
  next
    assume "\<exists>m k. k < length ?es \<and> enqueue_all enq ?es q = (Some m, q @ take k ?es)"
    then obtain m k where mk: "k < length ?es" "enqueue_all enq ?es q = (Some m, q @ take k ?es)" by blast
    with e run have "err = Some m" "q' = q @ take k ?es" "st' = ?st" by simp_all
    then show ?thesis using mk by (auto simp: Let_def)
  qed
qed


definition one_indicator_request :: assess_payload where
  "one_indicator_request = \<lparr>p_run = ''r1'', p_instance = JNum (Fin 1), p_domain = ''corp.local'', p_family = [], p_version = [],
     p_budget = 900, p_limit = 200, p_manual = False, p_indicators = [krbtgt_age]\<rparr>"


section \<open>Validated requests\<close>

lemma indicator_error_None:
  "indicator_error rx text_of is = None \<Longrightarrow> i \<in> set is \<Longrightarrow> compile_predicate rx (jprop i ''predicate'') = []"
  by (induction "is") (auto simp del: jprop.simps split: if_splits)

lemma evaluate_indicator_total:
  assumes "compile_predicate rx (predicate ind) = []"
  shows "evaluate_indicator rx text_of ind raw col limit now \<noteq> None"
proof -
  have "evaluate_predicate rx text_of (predicate ind) ev \<noteq> Crash" for ev
    unfolding evaluate_predicate_def by (rule well_formed_no_crash) (rule compiled_well_formed [OF assms])
  then show ?thesis
    unfolding evaluate_indicator_def Let_def by (simp del: jprop.simps split: outcome.split)
qed

text \<open>What the validation of an assessment request is for. A request that passes it has between one and five hundred indicators, a
  budget of at most an hour and a positive one, and an evidence limit between 1 and 200; and whatever the
  collector then answers, evaluating it produces a result for every indicator: no predicate throws halfway.\<close>

theorem validated_request_evaluates:
  assumes "validate_assess_payload rx text_of raw = Inr p"
  shows "1 \<le> length (p_indicators p) \<and> length (p_indicators p) \<le> 500 \<and> 0 < p_budget p \<and> p_budget p \<le> 3600
    \<and> 1 \<le> p_limit p \<and> p_limit p \<le> 200
    \<and> (\<forall>c now. \<exists>rs. evaluate_all rx text_of p c now = Some rs \<and> map r_control rs = map control_id (p_indicators p))"
proof -
  obtain run d inds where raw: "jprop raw ''runId'' = JStr run" "is_uuid run" "jprop raw ''domain'' = JStr d"
    "jprop raw ''indicators'' = JArr inds" "length inds \<noteq> 0" "length inds \<le> 500" "indicator_error rx text_of inds = None"
    using assms unfolding validate_assess_payload_def
    by (auto simp del: jprop.simps simp: not_less split: if_splits jsval.splits option.splits)
  let ?budget = "number_of_value text_of (jprop raw ''budgetSeconds'')"
  let ?limit = "number_of_value text_of (jprop raw ''evidenceLimit'')"
  have p: "p_indicators p = map (indicator_of text_of) inds"
    "p_budget p = (case ?budget of Fin q \<Rightarrow> if q > 0 then min q 3600 else of_int ASP_RUN_BUDGET_MS_DEFAULT / 1000
                     | _ \<Rightarrow> of_int ASP_RUN_BUDGET_MS_DEFAULT / 1000)"
    "p_limit p = (case ?limit of Fin q \<Rightarrow> if is_integer (Fin q) \<and> 1 \<le> q \<and> q \<le> 200 then nat \<lfloor>q\<rfloor> else 200 | _ \<Rightarrow> 200)"
    using assms raw unfolding validate_assess_payload_def Let_def
    by (auto simp del: jprop.simps split: if_splits)
  have "0 < p_budget p \<and> p_budget p \<le> 3600"
    unfolding p(2) by (simp add: ASP_RUN_BUDGET_MS_DEFAULT_def split: jsnum.split)
  moreover have "1 \<le> p_limit p \<and> p_limit p \<le> 200"
  proof (cases "\<exists>q. ?limit = Fin q \<and> is_integer (Fin q) \<and> 1 \<le> q \<and> q \<le> 200")
    case True
    then obtain q :: rat where q: "p_limit p = nat \<lfloor>q\<rfloor>" "1 \<le> q" "q \<le> 200" unfolding p(3) by auto
    then have "1 \<le> \<lfloor>q\<rfloor>" "\<lfloor>q\<rfloor> \<le> 200" by (simp_all add: floor_le_iff)
    then show ?thesis unfolding q(1) by linarith
  next
    case False
    then show ?thesis unfolding p(3) by (auto split: jsnum.split)
  qed
  moreover have "\<exists>rs. evaluate_all rx text_of p c now = Some rs \<and> map r_control rs = map control_id (p_indicators p)" for c now
  proof -
    let ?ev = "\<lambda>ind. evaluate_indicator rx text_of ind (case map_of (c_raw c) (control_id ind) of Some r \<Rightarrow> r | None \<Rightarrow> JUndef)
      (c_collector c) (p_limit p) now"
    have "\<forall>x \<in> set (map ?ev (p_indicators p)). x \<noteq> None"
    proof
      fix x assume "x \<in> set (map ?ev (p_indicators p))"
      then obtain i where i: "i \<in> set inds" "x = ?ev (indicator_of text_of i)" unfolding p(1) by auto
      have "compile_predicate rx (predicate (indicator_of text_of i)) = []"
        using indicator_error_None [OF raw(7) i(1)] by (simp add: indicator_of_def)
      then show "x \<noteq> None" unfolding i(2) by (rule evaluate_indicator_total)
    qed
    then have "map ?ev (p_indicators p) = map Some (map the (map ?ev (p_indicators p)))" by (simp add: list.map_comp)
    then have "evaluate_all rx text_of p c now = Some (map the (map ?ev (p_indicators p)))"
      unfolding evaluate_all_def those_Some .
    with evaluate_all_controls show ?thesis by blast
  qed
  moreover have "1 \<le> length (p_indicators p)" "length (p_indicators p) \<le> 500" using raw(5,6) unfolding p(1) by (simp_all add: Suc_leI)
  ultimately show ?thesis by blast
qed

definition sample_request :: jsval where
  "sample_request = JObj [(''runId'', JStr ''0123abcd-0123-0123-0123-0123456789ab''), (''instanceId'', JNum (Fin 7)), (''domain'', JStr '' Corp ''),
     (''budgetSeconds'', JNum (Fin 9000)), (''indicators'', JArr [JObj [(''controlId'', JStr ''ASP-1''),
       (''query'', JObj [(''kind'', JStr ''ldap_search'')]), (''predicate'', sample_predicate)]])]"

lemma validated_request_evaluates_witness:
  "\<exists>p. validate_assess_payload sample_regex (\<lambda>_. []) sample_request = Inr p \<and> p_budget p \<le> 3600
     \<and> (\<exists>rs. evaluate_all sample_regex (\<lambda>_. []) p \<lparr>c_raw = [], c_collector = JNull, c_context = None\<rparr> 0 = Some rs)"
proof -
  have u: "is_uuid ''0123abcd-0123-0123-0123-0123456789ab''" by code_simp
  let ?ind = "JObj [(''controlId'', JStr ''ASP-1''), (''query'', JObj [(''kind'', JStr ''ldap_search'')]), (''predicate'', sample_predicate)]"
  have f: "jprop sample_request ''runId'' = JStr ''0123abcd-0123-0123-0123-0123456789ab''" "jprop sample_request ''instanceId'' = JNum (Fin 7)"
    "jprop sample_request ''domain'' = JStr '' Corp ''" "jprop sample_request ''indicators'' = JArr [?ind]" "is_object_like sample_request"
    by (simp_all add: sample_request_def is_object_like_def)
  have i: "indicator_error sample_regex (\<lambda>_. []) [?ind] = None" by (simp add: sample_predicate_compiles)
  have s: "positive_safe_integer (JNum (Fin 7))" "trim '' Corp '' \<noteq> []" by code_simp+
  obtain p where p: "validate_assess_payload sample_regex (\<lambda>_. []) sample_request = Inr p"
    unfolding validate_assess_payload_def Let_def f jsval.case i using u s f(5) by simp
  from validated_request_evaluates [OF p] p show ?thesis by blast
qed

end
