(* ===== verification/Posix_Path.thy ===== *)
theory Posix_Path
  imports Jsval
begin

text \<open>
  The functions of Node's \<open>path.posix\<close> the agent uses (\<open>resolve\<close>, \<open>normalize\<close>, \<open>join\<close>, \<open>dirname\<close>, \<open>basename\<close>,
  \<open>extname\<close>) on strings, and what they do on the paths that \<open>resolve\<close> returns: such a path is \<open>path_of cs\<close> for a list
  of plain components, so that containment of paths becomes \<^const>\<open>prefix\<close> on components.
\<close>

section \<open>The functions\<close>

abbreviation slash :: char where "slash \<equiv> CHR ''/''"

text \<open>\<open>normalizeString\<close>: the components, dots resolved; \<open>up\<close> keeps the dots that lead above the start.\<close>

fun normal_parts :: "bool \<Rightarrow> string list \<Rightarrow> string list \<Rightarrow> string list" where
  "normal_parts up acc [] = rev acc"
| "normal_parts up acc (w # ws) =
     (if w = [] \<or> w = ''.'' then normal_parts up acc ws
      else if w = ''..'' then
        (case acc of
           [] \<Rightarrow> normal_parts up (if up then [w] else []) ws
         | a # acc' \<Rightarrow> normal_parts up (if a = ''..'' then w # acc else acc') ws)
      else normal_parts up (w # acc) ws)"

definition path_of :: "string list \<Rightarrow> string" where
  "path_of cs = slash # join_with [slash] cs"

definition is_rooted :: "string \<Rightarrow> bool" where
  "is_rooted s \<longleftrightarrow> starts_with s [slash]"

definition posix_resolve :: "string \<Rightarrow> string \<Rightarrow> string" where
  "posix_resolve cwd s = path_of (normal_parts False [] (split_on slash (if is_rooted s then s else cwd @ [slash] @ s)))"

definition posix_normalize :: "string \<Rightarrow> string" where
  "posix_normalize s =
     (if s = [] then ''.''
      else let abs = is_rooted s; trailing = (last s = slash);
               q = join_with [slash] (normal_parts (\<not> abs) [] (split_on slash s))
           in if q = [] then (if abs then [slash] else if trailing then ''./'' else ''.'')
              else (if abs then [slash] else []) @ q @ (if trailing then [slash] else []))"

definition posix_join :: "string list \<Rightarrow> string" where
  "posix_join ws = (let xs = filter (\<lambda>w. w \<noteq> []) ws in if xs = [] then ''.'' else posix_normalize (join_with [slash] xs))"

definition posix_dirname :: "string \<Rightarrow> string" where
  "posix_dirname s = (case s of [] \<Rightarrow> ''.''
     | c # t \<Rightarrow>
         (case dropWhile (\<lambda>x. x \<noteq> slash) (dropWhile (\<lambda>x. x = slash) (rev t)) of
            [] \<Rightarrow> if c = slash then [slash] else ''.''
          | _ # t' \<Rightarrow> if c = slash \<and> t' = [] then ''//'' else c # rev t'))"

definition posix_basename :: "string \<Rightarrow> string" where
  "posix_basename s = rev (takeWhile (\<lambda>x. x \<noteq> slash) (dropWhile (\<lambda>x. x = slash) (rev s)))"

text \<open>The extension of the last component: from its last dot, unless the dot begins it or it is \<open>..\<close>.\<close>

definition posix_extname :: "string \<Rightarrow> string" where
  "posix_extname s =
     (let b = posix_basename s; after = rev (takeWhile (\<lambda>x. x \<noteq> CHR ''.'') (rev b));
          n = length b - length after
      in if n \<le> 1 \<or> b = ''..'' then [] else CHR ''.'' # after)"

section \<open>Resolved paths\<close>

definition plain :: "string \<Rightarrow> bool" where
  "plain c \<longleftrightarrow> c \<noteq> [] \<and> c \<noteq> ''.'' \<and> c \<noteq> ''..'' \<and> slash \<notin> set c"

definition comps :: "string \<Rightarrow> string list" where
  "comps p = filter (\<lambda>w. w \<noteq> []) (split_on slash p)"

lemma join_snoc: "join_with d (xs @ [y]) = (if xs = [] then y else join_with d xs @ d @ y)"
proof (induction xs)
  case (Cons x xs)
  then show ?case by (cases xs) auto
qed simp

lemma plain_last:
  assumes "plain c"
  shows "c \<noteq> []" and "last c \<noteq> slash"
proof -
  show ne: "c \<noteq> []" using assms by (simp add: plain_def)
  from last_in_set [OF ne] show "last c \<noteq> slash" using assms unfolding plain_def by metis
qed

lemma join_append: "us \<noteq> [] \<Longrightarrow> join_with d (xs @ us) = (if xs = [] then join_with d us else join_with d xs @ d @ join_with d us)"
proof (induction xs)
  case (Cons x xs)
  then show ?case by (cases "xs @ us"; cases xs) auto
qed simp

lemma split_on_at: "split_on d (s @ d # t) = split_on d s @ split_on d t"
proof (induction s)
  case (Cons c s)
  then show ?case by (cases "split_on d s") auto
qed simp

lemma split_path_of: "\<forall>c \<in> set cs. plain c \<Longrightarrow> split_on slash (path_of cs) = [] # (if cs = [] then [[]] else cs)"
  using split_join [of cs slash] by (auto simp: path_of_def plain_def)

lemma comps_path_of [simp]: "\<forall>c \<in> set cs. plain c \<Longrightarrow> comps (path_of cs) = cs"
  by (auto simp: comps_def split_path_of plain_def filter_id_conv)

lemma path_of_inj: "\<forall>c \<in> set cs. plain c \<Longrightarrow> \<forall>c \<in> set ds. plain c \<Longrightarrow> path_of cs = path_of ds \<longleftrightarrow> cs = ds"
  by (metis comps_path_of)

lemma normal_parts_plain: "\<forall>c \<in> set cs. plain c \<Longrightarrow> normal_parts up acc cs = rev acc @ cs"
  by (induction cs arbitrary: acc) (auto simp: plain_def)

lemma normal_parts_result:
  "\<forall>c \<in> set cs. slash \<notin> set c \<Longrightarrow> \<forall>c \<in> set acc. plain c \<Longrightarrow> \<forall>c \<in> set (normal_parts False acc cs). plain c"
proof (induction cs arbitrary: acc)
  case (Cons w ws)
  have IH: "\<forall>c \<in> set acc'. plain c \<Longrightarrow> \<forall>c \<in> set (normal_parts False acc' ws). plain c" for acc'
    using Cons by simp
  consider "w = [] \<or> w = ''.''" | "w = ''..''" | "w \<noteq> []" "w \<noteq> ''.''" "w \<noteq> ''..''" by blast
  then show ?case
  proof cases
    case 1
    then show ?thesis using IH [OF Cons.prems(2)] by auto
  next
    case 2
    have "normal_parts False acc (w # ws) = normal_parts False (tl acc) ws"
      using 2 Cons.prems(2) by (cases acc) (simp_all add: plain_def)
    moreover have "\<forall>c \<in> set (tl acc). plain c" using Cons.prems(2) by (cases acc) simp_all
    ultimately show ?thesis using IH by simp
  next
    case 3
    then have "plain w" using Cons.prems(1) by (simp add: plain_def)
    with Cons.prems(2) have "\<forall>c \<in> set (w # acc). plain c" by simp
    from IH [OF this] show ?thesis by (simp only: normal_parts.simps 3 simp_thms if_False)
  qed
qed simp

lemma plain_split: "c \<in> set (normal_parts False [] (split_on slash s)) \<Longrightarrow> plain c"
proof -
  have "\<forall>c \<in> set (split_on slash s). slash \<notin> set c" by (blast dest: split_on_parts_no_sep)
  from normal_parts_result [OF this, of "[]"] show "c \<in> set (normal_parts False [] (split_on slash s)) \<Longrightarrow> plain c" by simp
qed

text \<open>A resolved path has plain components.\<close>

lemma resolve_plain: "\<exists>cs. posix_resolve cwd s = path_of cs \<and> (\<forall>c \<in> set cs. plain c)"
  unfolding posix_resolve_def using plain_split by blast

lemma dropWhile_takeWhile_snoc: "\<forall>x \<in> set xs. P x \<Longrightarrow> \<not> P y \<Longrightarrow> dropWhile P (xs @ y # ys) = y # ys \<and> takeWhile P (xs @ y # ys) = xs"
  by (induction xs) auto

lemma plain_rev: "plain c \<Longrightarrow> (\<forall>x \<in> set (rev c). x \<noteq> slash) \<and> dropWhile (\<lambda>x. x = slash) (rev c @ s) = rev c @ s"
  by (cases "rev c") (auto simp: plain_def)

lemma rev_path_of_snoc: "rev (tl (path_of (cs @ [c]))) = rev c @ (if cs = [] then [] else slash # rev (join_with [slash] cs))"
  by (simp add: path_of_def join_snoc)

lemma join_eq_Nil: "\<forall>c \<in> set cs. plain c \<Longrightarrow> join_with [slash] cs = [] \<longleftrightarrow> cs = []"
  by (cases cs; cases "tl cs") (auto simp: plain_def)

lemma dirname_path_of [simp]:
  "posix_dirname (path_of []) = path_of []"
  "\<forall>c \<in> set cs. plain c \<Longrightarrow> plain c \<Longrightarrow> posix_dirname (path_of (cs @ [c])) = path_of cs"
proof -
  show "posix_dirname (path_of []) = path_of []" by (simp add: posix_dirname_def path_of_def)
  assume cs: "\<forall>c \<in> set cs. plain c" and c: "plain c"
  let ?t = "join_with [slash] (cs @ [c])"
  have r: "rev ?t = rev c @ (if cs = [] then [] else slash # rev (join_with [slash] cs))" by (simp add: join_snoc)
  have d: "dropWhile (\<lambda>x. x \<noteq> slash) (dropWhile (\<lambda>x. x = slash) (rev ?t)) = (if cs = [] then [] else slash # rev (join_with [slash] cs))"
    unfolding r using plain_rev [OF c] dropWhile_takeWhile_snoc [of "rev c" "\<lambda>x. x \<noteq> slash" slash]
    by (auto simp: dropWhile_eq_Nil_conv)
  show "posix_dirname (path_of (cs @ [c])) = path_of cs"
    using d join_eq_Nil [OF cs] by (simp add: posix_dirname_def path_of_def)
qed

lemma basename_path_of [simp]: "plain c \<Longrightarrow> posix_basename (path_of (cs @ [c])) = c"
proof -
  assume c: "plain c"
  have r: "rev (path_of (cs @ [c])) = rev c @ slash # (if cs = [] then [] else rev (path_of cs))"
    by (simp add: path_of_def join_snoc)
  show ?thesis unfolding posix_basename_def r
    using plain_rev [OF c] dropWhile_takeWhile_snoc [of "rev c" "\<lambda>x. x \<noteq> slash" slash] by simp
qed

lemma is_rooted_path_of [simp]: "is_rooted (path_of cs)"
  by (simp add: is_rooted_def path_of_def starts_with_def)

lemma join_path_of:
  assumes "\<forall>c \<in> set cs. plain c" and "\<forall>c \<in> set us. plain c" and "us \<noteq> []"
  shows "posix_join (path_of cs # us) = path_of (cs @ us)"
proof -
  have ne: "filter (\<lambda>w. w \<noteq> []) (path_of cs # us) = path_of cs # us"
    using assms(2) by (auto simp: path_of_def plain_def filter_id_conv)
  let ?s = "path_of cs @ [slash] @ join_with [slash] us"
  have s: "join_with [slash] (path_of cs # us) = ?s" using assms(3) by (cases us) auto
  have split: "split_on slash ?s = [] # (if cs = [] then [[]] else cs) @ us"
  proof -
    have "split_on slash (join_with [slash] ((if cs = [] then [[]] else cs) @ us)) = (if cs = [] then [[]] else cs) @ us"
      by (rule split_join) (use assms in \<open>auto simp: plain_def\<close>)
    moreover have "?s = slash # join_with [slash] ((if cs = [] then [[]] else cs) @ us)"
      using join_append [OF assms(3), of "[slash]"] by (simp add: path_of_def)
    ultimately show ?thesis by simp
  qed
  have n: "normal_parts False [] (split_on slash ?s) = cs @ us"
    unfolding split using assms(1,2) normal_parts_plain [of "cs @ us" False "[]"] by auto
  have "last ?s \<noteq> slash"
  proof -
    obtain ts t where t: "us = ts @ [t]" using assms(3) by (cases us rule: rev_cases) auto
    then have "plain t" using assms(2) by simp
    note plain_last [OF this]
    then show ?thesis by (simp add: t join_snoc)
  qed
  moreover have "join_with [slash] (cs @ us) \<noteq> []" using join_eq_Nil [of "cs @ us"] assms by auto
  moreover have "is_rooted ?s" by (simp add: is_rooted_def path_of_def starts_with_def)
  ultimately have "posix_normalize ?s = path_of (cs @ us)"
    using n by (simp add: posix_normalize_def Let_def path_of_def del: split_on.simps)
  then show ?thesis unfolding posix_join_def ne s Let_def by (simp only: list.distinct if_False)
qed

end
