(* ===== verification/Path_Jail.thy ===== *)
theory Path_Jail
  imports Posix_Path
begin

text \<open>
  \<open>plugins/rcp/path-jail.ts\<close>: where the file operations of a remote session may reach. The platform's path library
  \<open>P\<close> and the file system (\<open>existsSync\<close>, \<open>realpathSync\<close>) are what the jail is given, as in the source. On POSIX the
  library is the one of the theory Posix_Path; \<open>path.win32\<close> is only an argument. The second half puts the jail on a file system with
  symbolic links and shows what the returned path can lead to.
\<close>

section \<open>The host\<close>

datatype platform = Win32 | Darwin | Linux

record path_lib =
  p_sep :: char
  p_resolve :: "string \<Rightarrow> string"
  p_join :: "string list \<Rightarrow> string"
  p_dirname :: "string \<Rightarrow> string"
  p_basename :: "string \<Rightarrow> string"
  p_extname :: "string \<Rightarrow> string"

definition posix_lib :: "string \<Rightarrow> path_lib" where
  "posix_lib cwd = \<lparr>p_sep = slash, p_resolve = posix_resolve cwd, p_join = posix_join, p_dirname = posix_dirname,
     p_basename = posix_basename, p_extname = posix_extname\<rparr>"

text \<open>\<open>JailDeps\<close>: a \<open>realpathSync\<close> that throws gives its message.\<close>

record jail_deps =
  d_platform :: platform
  d_env :: "string \<Rightarrow> string option"
  d_real :: "string \<Rightarrow> string + string"
  d_exists :: "string \<Rightarrow> bool"
  d_tmpdir :: string
  d_win32 :: path_lib
  d_posix :: path_lib

record jail_config =
  cfg_roots :: jsval
  cfg_deny_paths :: jsval
  cfg_deny_exts :: jsval
  cfg_deny_exceptions :: jsval

datatype deny_code = PathInvalid | PathOutsideRoots | PathDenied | PathUnresolvable

datatype decision = Allowed string | Denied deny_code string

definition backslash :: char where "backslash = CHR 0x5C"

text \<open>\<open>env.X || dflt\<close>\<close>

definition env_or :: "(string \<Rightarrow> string option) \<Rightarrow> string \<Rightarrow> string \<Rightarrow> string" where
  "env_or env k dflt = (case env k of Some v \<Rightarrow> if v = [] then dflt else v | None \<Rightarrow> dflt)"

section \<open>The built-in policy\<close>

definition program_data :: "(string \<Rightarrow> string option) \<Rightarrow> string" where
  "program_data env = env_or env ''ProgramData'' (''C:'' @ [backslash] @ ''ProgramData'')"

definition agent_data_dirs :: "jail_deps \<Rightarrow> string list" where
  "agent_data_dirs d = (case d_platform d of
     Win32 \<Rightarrow> [p_join (d_win32 d) [program_data (d_env d), ''Tracenium'']]
   | Darwin \<Rightarrow> [''/Library/Application Support/Tracenium'', ''/etc/tracenium'']
   | Linux \<Rightarrow> [''/var/lib/tracenium'', ''/etc/tracenium''])"

definition default_roots :: "jail_deps \<Rightarrow> string list" where
  "default_roots d = (let env = d_env d; W = d_win32 d in case d_platform d of
     Win32 \<Rightarrow>
       (let drive = env_or env ''SystemDrive'' ''C:'';
            temp = env_or env ''TEMP'' (env_or env ''TMP'' (p_join W [drive, [backslash] @ ''Windows'' @ [backslash] @ ''Temp'']))
        in [p_join W [drive, [backslash] @ ''Users''],
            program_data env,
            env_or env ''ProgramFiles'' (p_join W [drive, [backslash] @ ''Program Files'']),
            env_or env ''ProgramFiles(x86)'' (p_join W [drive, [backslash] @ ''Program Files (x86)'']),
            temp,
            p_join W [p_join W [program_data env, ''Tracenium''], ''PrivSvc'', ''logs''],
            d_tmpdir d])
   | Darwin \<Rightarrow> [''/Users'', ''/tmp'', ''/private/tmp'', ''/var/tmp'', ''/opt'', ''/srv'', ''/Library/Logs/Tracenium'', d_tmpdir d]
   | Linux \<Rightarrow> [''/home'', ''/tmp'', ''/var/tmp'', ''/opt'', ''/srv'', ''/var/log/tracenium'', d_tmpdir d])"

definition default_deny_exceptions :: "jail_deps \<Rightarrow> string list" where
  "default_deny_exceptions d = (case d_platform d of
     Win32 \<Rightarrow> [p_join (d_win32 d) [program_data (d_env d), ''Tracenium'', ''PrivSvc'', ''logs'']]
   | Darwin \<Rightarrow> [''/Library/Application Support/Tracenium/Logs'', ''/Library/Logs/Tracenium'']
   | Linux \<Rightarrow> [''/var/log/tracenium''])"

definition default_deny_paths :: "jail_deps \<Rightarrow> string list" where
  "default_deny_paths d = agent_data_dirs d @
     (if d_platform d = Win32
      then (let root = env_or (d_env d) ''SystemRoot'' (''C:'' @ [backslash] @ ''Windows'')
            in [p_join (d_win32 d) [root, ''System32'', ''config''], p_join (d_win32 d) [root, ''System32'', ''GroupPolicy'']])
      else [''/etc/shadow'', ''/etc/gshadow'', ''/etc/sudoers'', ''/etc/sudoers.d'', ''/etc/ssh'', ''/root''])"

definition DENIED_SEGMENTS :: "string list" where
  "DENIED_SEGMENTS = [''.ssh'', ''.gnupg'', ''.aws'', ''.kube'', ''.docker'', ''id_rsa'', ''id_dsa'', ''id_ecdsa'', ''id_ed25519'']"

definition DEFAULT_DENY_EXTENSIONS :: "string list" where
  "DEFAULT_DENY_EXTENSIONS = [''.key'', ''.pem'', ''.pfx'', ''.p12'', ''.jks'', ''.keystore'', ''.ppk'']"

definition JAIL_PATHS_MAX :: nat where "JAIL_PATHS_MAX = 32"
definition JAIL_PATH_MAXLEN :: nat where "JAIL_PATH_MAXLEN = 512"

section \<open>Path lists of a policy\<close>

definition is_letter :: "char \<Rightarrow> bool" where
  "is_letter c \<longleftrightarrow> (65 \<le> char_code c \<and> char_code c \<le> 90) \<or> (97 \<le> char_code c \<and> char_code c \<le> 122)"

definition is_absolute :: "string \<Rightarrow> bool" where
  "is_absolute s \<longleftrightarrow> is_rooted s
     \<or> (case s of a # b # c # _ \<Rightarrow> is_letter a \<and> b = CHR '':'' \<and> (c = slash \<or> c = backslash) | _ \<Rightarrow> False)"

text \<open>The loop over the input: what was taken so far (in order) and the keys seen.\<close>

fun sanitize_paths :: "platform \<Rightarrow> jsval list \<Rightarrow> string list \<Rightarrow> string list \<Rightarrow> string list" where
  "sanitize_paths plat [] out seen = out"
| "sanitize_paths plat (v # vs) out seen =
     (if JAIL_PATHS_MAX \<le> length out then out
      else case v of
        JStr raw \<Rightarrow>
          (let s = trim raw; key = (if plat = Win32 then to_lower s else s) in
           if s = [] \<or> JAIL_PATH_MAXLEN < length s \<or> CHR 0x00 \<in> set s \<or> \<not> is_absolute s \<or> key \<in> set seen
           then sanitize_paths plat vs out seen
           else sanitize_paths plat vs (out @ [s]) (key # seen))
      | _ \<Rightarrow> sanitize_paths plat vs out seen)"

definition sanitize_absolute_paths :: "jsval \<Rightarrow> platform \<Rightarrow> string list" where
  "sanitize_absolute_paths v plat = (case v of JArr vs \<Rightarrow> sanitize_paths plat vs [] [] | _ \<Rightarrow> [])"

section \<open>The jail\<close>

definition jail_lib :: "jail_deps \<Rightarrow> path_lib" where
  "jail_lib d = (if d_platform d = Win32 then d_win32 d else d_posix d)"

definition case_sensitive :: "jail_deps \<Rightarrow> bool" where
  "case_sensitive d \<longleftrightarrow> d_platform d \<noteq> Win32"

text \<open>
  The climb to the deepest existing ancestor: that ancestor and what hangs below it; nothing when not even the
  root exists. The fuel is the length of the path plus one.
\<close>

fun climb :: "nat \<Rightarrow> jail_deps \<Rightarrow> string \<Rightarrow> string list \<Rightarrow> (string \<times> string list) option" where
  "climb 0 d probe below = None"
| "climb (Suc n) d probe below =
     (if d_exists d probe then Some (probe, below)
      else let parent = p_dirname (jail_lib d) probe
           in if parent = probe then None else climb n d parent (p_basename (jail_lib d) probe # below))"

definition resolve_real :: "jail_deps \<Rightarrow> string \<Rightarrow> string + string" where
  "resolve_real d absolute = (case climb (length absolute + 1) d absolute [] of
     None \<Rightarrow> Inr absolute
   | Some (probe, below) \<Rightarrow>
       (case d_real d probe of Inl m \<Rightarrow> Inl m
        | Inr base \<Rightarrow> Inr (if below = [] then base else p_join (jail_lib d) (base # below))))"

definition try_real :: "jail_deps \<Rightarrow> string \<Rightarrow> string" where
  "try_real d p = (case resolve_real d (p_resolve (jail_lib d) p) of Inr r \<Rightarrow> r | Inl _ \<Rightarrow> p_resolve (jail_lib d) p)"

definition for_compare :: "jail_deps \<Rightarrow> string \<Rightarrow> string" where
  "for_compare d p =
     (let s = (if 1 < length p \<and> (last p = p_sep (jail_lib d) \<or> last p = slash) then butlast p else p)
      in if case_sensitive d then s else to_lower s)"

definition forward :: "string \<Rightarrow> string" where
  "forward s = map (\<lambda>c. if c = backslash then slash else c) s"

definition is_within :: "jail_deps \<Rightarrow> string \<Rightarrow> string \<Rightarrow> bool" where
  "is_within d child parent \<longleftrightarrow>
     (let sep = [p_sep (jail_lib d)] in
      child = parent
      \<or> starts_with child (if ends_with parent sep then parent else parent @ sep)
      \<or> (\<not> case_sensitive d \<and>
          (let alt = forward parent; childAlt = forward child
           in childAlt = alt \<or> starts_with childAlt (if ends_with alt [slash] then alt else alt @ [slash]))))"

definition segments_of :: "string \<Rightarrow> string list" where
  "segments_of p = filter (\<lambda>w. w \<noteq> []) (split_on slash (forward p))"

record jail =
  j_roots :: "string list"
  j_display :: "string list"
  j_deny :: "string list"
  j_exceptions :: "string list"
  j_exts :: "string list"

text \<open>Roots are compared after they are resolved: \<open>(display, compare)\<close>.\<close>

fun collect_roots :: "jail_deps \<Rightarrow> string list \<Rightarrow> string list \<times> string list \<Rightarrow> string list \<times> string list" where
  "collect_roots d [] acc = acc"
| "collect_roots d (raw # rs) (display, keys) =
     (let rp = try_real d raw; key = for_compare d rp
      in if key \<in> set keys then collect_roots d rs (display, keys)
         else collect_roots d rs (display @ [rp], keys @ [key]))"

definition deny_extensions :: "jsval \<Rightarrow> string list" where
  "deny_extensions v =
     map to_lower (filter (\<lambda>e. starts_with e ''.'' \<and> length e \<le> 16)
       (DEFAULT_DENY_EXTENSIONS @ (case v of JArr vs \<Rightarrow> concat (map (\<lambda>e. case e of JStr s \<Rightarrow> [s] | _ \<Rightarrow> []) vs) | _ \<Rightarrow> [])))"

definition new_jail :: "jail_config \<Rightarrow> jail_deps \<Rightarrow> jail" where
  "new_jail cfg d =
     (let configured = sanitize_absolute_paths (cfg_roots cfg) (d_platform d);
          roots = collect_roots d (if configured \<noteq> [] then configured else default_roots d) ([], []);
          keys = (\<lambda>dflt own. map (\<lambda>p. for_compare d (try_real d p)) (dflt @ sanitize_absolute_paths own (d_platform d)))
      in \<lparr>j_roots = snd roots, j_display = fst roots,
          j_deny = keys (default_deny_paths d) (cfg_deny_paths cfg),
          j_exceptions = keys (default_deny_exceptions d) (cfg_deny_exceptions cfg),
          j_exts = deny_extensions (cfg_deny_exts cfg)\<rparr>)"

definition list_roots :: "jail \<Rightarrow> string list" where
  "list_roots j = j_display j"

definition BLOCKED :: string where
  "BLOCKED = ''This location is blocked by the remote access policy''"

text \<open>\<open>check\<close>\<close>

definition jail_check :: "jail_deps \<Rightarrow> jail \<Rightarrow> jsval \<Rightarrow> decision" where
  "jail_check d j input = (case input of
     JStr text \<Rightarrow>
       (let raw = trim text in
        if raw = [] then Denied PathInvalid ''Path is empty''
        else if CHR 0x00 \<in> set raw then Denied PathInvalid ''Path contains a NUL byte''
        else if JAIL_PATH_MAXLEN < length raw then Denied PathInvalid ''Path is too long''
        else case resolve_real d (p_resolve (jail_lib d) raw) of
          Inl m \<Rightarrow> Denied PathUnresolvable (''Path could not be resolved on the device: '' @ m)
        | Inr rp \<Rightarrow>
            (let cmp = for_compare d rp;
                 rescued = list_ex (\<lambda>ex. is_within d cmp ex) (j_exceptions j);
                 ext = to_lower (p_extname (jail_lib d) rp)
             in if list_ex (\<lambda>dn. \<not> rescued \<and> is_within d cmp dn) (j_deny j) then Denied PathDenied BLOCKED
                else if list_ex (\<lambda>s. to_lower s \<in> set DENIED_SEGMENTS) (segments_of rp) then Denied PathDenied BLOCKED
                else if ext \<noteq> [] \<and> ext \<in> set (j_exts j)
                then Denied PathDenied (''Files of type '' @ ext @ '' are blocked by the remote access policy'')
                else if list_ex (\<lambda>root. is_within d cmp root) (j_roots j) then Allowed rp
                else Denied PathOutsideRoots ''This path is outside the locations remote file access is allowed to reach''))
   | _ \<Rightarrow> Denied PathInvalid ''Path must be a string'')"

section \<open>A file system with symbolic links\<close>

text \<open>
  What is at a location (a list of components). A link holds the location it refers to. \<open>walk fs n cur cs\<close> is
  where the system ends when it looks up \<open>cs\<close> from \<open>cur\<close> and may still follow \<open>n\<close> links (a kernel follows 40
  in one lookup, then fails): the location without links, or nothing.
\<close>

datatype entry = FileE | DirE | LinkE "string list"

type_synonym link_fs = "string list \<Rightarrow> entry option"

function walk :: "link_fs \<Rightarrow> nat \<Rightarrow> string list \<Rightarrow> string list \<Rightarrow> string list option" where
  "walk fs n cur [] = Some cur"
| "walk fs n cur (c # cs) = (case fs (cur @ [c]) of
      None \<Rightarrow> None
    | Some DirE \<Rightarrow> walk fs n (cur @ [c]) cs
    | Some FileE \<Rightarrow> if cs = [] then Some (cur @ [c]) else None
    | Some (LinkE t) \<Rightarrow> if n = 0 then None else walk fs (n - 1) [] (t @ cs))"
  by pat_completeness auto
termination
  by (relation "measures [\<lambda>(fs, n, cur, cs). n, \<lambda>(fs, n, cur, cs). length cs]") auto

text \<open>The jail's view of it: \<open>existsSync\<close> and \<open>realpathSync\<close>.\<close>

definition on_fs :: "link_fs \<Rightarrow> nat \<Rightarrow> string \<Rightarrow> jail_deps \<Rightarrow> jail_deps" where
  "on_fs fs hops cwd d = d\<lparr>d_exists := (\<lambda>p. walk fs hops [] (comps p) \<noteq> None),
     d_real := (\<lambda>p. case walk fs hops [] (comps p) of None \<Rightarrow> Inl ''ENOENT'' | Some l \<Rightarrow> Inr (path_of l)),
     d_posix := posix_lib cwd\<rparr>"

section \<open>Lookups\<close>

definition is_dir :: "link_fs \<Rightarrow> string list \<Rightarrow> bool" where
  "is_dir fs l \<longleftrightarrow> l = [] \<or> fs l = Some DirE"

definition links_plain :: "link_fs \<Rightarrow> bool" where
  "links_plain fs \<longleftrightarrow> (\<forall>p t. fs p = Some (LinkE t) \<longrightarrow> (\<forall>c \<in> set t. plain c))"

declare walk.simps [simp del]

lemma walk_Nil [simp]: "walk fs n cur [] = Some cur"
  by (simp add: walk.simps)

lemma walk_past:
  assumes "walk fs 0 pre xs = Some (pre @ xs)" and "is_dir fs (pre @ xs) \<or> xs = []"
  shows "walk fs n pre (xs @ ys) = walk fs n (pre @ xs) ys"
  using assms
proof (induction xs arbitrary: pre)
  case (Cons x xs)
  have d: "is_dir fs ((pre @ [x]) @ xs)" using Cons.prems(2) by simp
  from Cons.prems(1) obtain e where e: "fs (pre @ [x]) = Some e" by (cases "fs (pre @ [x])") (simp_all add: walk.simps(2))
  show ?case
  proof (cases e)
    case FileE
    then have "xs = []" using Cons.prems(1) e by (simp add: walk.simps(2) split: if_splits)
    then show ?thesis using d e FileE by (simp add: is_dir_def)
  next
    case DirE
    then have "walk fs 0 (pre @ [x]) xs = Some ((pre @ [x]) @ xs)" using Cons.prems(1) e by (simp add: walk.simps(2))
    from Cons.IH [OF this] d have "walk fs n (pre @ [x]) (xs @ ys) = walk fs n ((pre @ [x]) @ xs) ys" by blast
    then show ?thesis using e DirE by (simp add: walk.simps(2))
  next
    case (LinkE t)
    then show ?thesis using Cons.prems(1) e by (simp add: walk.simps(2))
  qed
qed simp

text \<open>A lookup that followed no link ends in the same place with more links allowed.\<close>

lemma walk_more_hops: "walk fs 0 pre xs = Some l \<Longrightarrow> walk fs n pre xs = Some l"
proof (induction xs arbitrary: pre)
  case (Cons x xs)
  then obtain e where e: "fs (pre @ [x]) = Some e" by (cases "fs (pre @ [x])") (simp_all add: walk.simps(2))
  then show ?case using Cons by (cases e) (simp_all add: walk.simps(2))
qed simp

lemma walk_past_file:
  assumes "walk fs 0 pre xs = Some (pre @ xs)" and "fs (pre @ xs) = Some FileE" and "xs \<noteq> []"
  shows "walk fs n pre (xs @ y # ys) = None"
  using assms
proof (induction xs arbitrary: pre)
  case (Cons x xs)
  show ?case
  proof (cases "fs (pre @ [x])")
    case (Some e)
    then show ?thesis using Cons.IH [of "pre @ [x]"] Cons.prems
      by (cases e; cases "xs = []") (auto simp: walk.simps(2) split: if_splits)
  qed (use Cons.prems in \<open>simp add: walk.simps(2)\<close>)
qed simp

text \<open>Where a lookup ends there is no link on the way any more.\<close>

lemma walk_end_is_real:
  assumes "walk fs n cur cs = Some l" and "walk fs 0 [] cur = Some cur" and "is_dir fs cur"
  shows "walk fs 0 [] l = Some l \<and> (is_dir fs l \<or> fs l = Some FileE)"
  using assms
proof (induction fs n cur cs rule: walk.induct)
  case (2 fs n cur c cs)
  have past: "walk fs 0 [] (cur @ [c]) = walk fs 0 cur [c]"
    using walk_past [of fs "[]" cur 0 "[c]"] "2.prems"(2,3) by simp
  show ?case
  proof (cases "fs (cur @ [c])")
    case (Some e)
    show ?thesis
    proof (cases e)
      case FileE
      then show ?thesis using 2 Some past by (auto simp: walk.simps(2) split: if_splits)
    next
      case DirE
      then show ?thesis using 2 Some past by (auto simp: walk.simps(2) is_dir_def)
    next
      case (LinkE t)
      then show ?thesis using 2 Some by (auto simp: walk.simps(2) is_dir_def split: if_splits)
    qed
  qed (use "2.prems" in \<open>simp add: walk.simps(2)\<close>)
qed simp

lemma walk_end_plain:
  assumes "walk fs n cur cs = Some l" and "links_plain fs" and "\<forall>c \<in> set cur. plain c" and "\<forall>c \<in> set cs. plain c"
  shows "\<forall>c \<in> set l. plain c"
  using assms
proof (induction fs n cur cs rule: walk.induct)
  case (2 fs n cur c cs)
  show ?case
  proof (cases "fs (cur @ [c])")
    case (Some e)
    show ?thesis
    proof (cases e)
      case (LinkE t)
      then have "\<forall>c \<in> set t. plain c" using Some "2.prems"(2) by (simp add: links_plain_def)
      then show ?thesis using 2 Some LinkE by (auto simp: walk.simps(2) split: if_splits)
    qed (use 2 Some in \<open>auto simp: walk.simps(2) split: if_splits\<close>)
  qed (use "2.prems" in \<open>simp add: walk.simps(2)\<close>)
qed simp

lemma walk_one_more:
  assumes "walk fs n cur cs = Some l" and "is_dir fs l"
  shows "\<exists>m. walk fs n cur (cs @ ys) = walk fs m l ys"
  using assms
proof (induction fs n cur cs rule: walk.induct)
  case (2 fs n cur c cs)
  show ?case
  proof (cases "fs (cur @ [c])")
    case (Some e)
    show ?thesis
    proof (cases e)
      case FileE
      then show ?thesis using "2.prems" Some by (auto simp: walk.simps(2) is_dir_def split: if_splits)
    next
      case DirE
      then show ?thesis using 2 Some by (simp add: walk.simps(2))
    next
      case (LinkE t)
      then show ?thesis using 2 Some by (auto simp: walk.simps(2) split: if_splits)
    qed
  qed (use "2.prems" in \<open>simp add: walk.simps(2)\<close>)
qed auto

lemma walk_part_missing: "walk fs n cur xs = None \<Longrightarrow> walk fs n cur (xs @ ys) = None"
proof (induction fs n cur xs rule: walk.induct)
  case (2 fs n cur c cs)
  show ?case
  proof (cases "fs (cur @ [c])")
    case (Some e)
    then show ?thesis using 2 by (cases e) (auto simp: walk.simps(2) split: if_splits)
  qed (simp add: walk.simps(2))
qed simp

section \<open>What the jail computes on POSIX\<close>

lemma plain_length: "\<forall>c \<in> set cs. plain c \<Longrightarrow> length cs < length (path_of cs)"
proof (induction cs rule: rev_induct)
  case (snoc c cs)
  then show ?case by (cases c) (auto simp: path_of_def join_snoc plain_def)
qed (simp add: path_of_def)

lemma posix_jail_lib:
  assumes "d_platform d \<noteq> Win32"
  shows "jail_lib (on_fs fs hops cwd d) = posix_lib cwd" and "case_sensitive (on_fs fs hops cwd d)"
  using assms by (simp_all add: jail_lib_def on_fs_def case_sensitive_def)

lemma on_fs_exists [simp]: "d_exists (on_fs fs hops cwd d) p \<longleftrightarrow> walk fs hops [] (comps p) \<noteq> None"
  by (simp add: on_fs_def)

text \<open>The climb ends at the deepest ancestor that exists; its fuel is enough.\<close>

lemma climb_path_of:
  assumes "d_platform d \<noteq> Win32" and "\<forall>c \<in> set cs. plain c" and "length cs < n"
  shows "\<exists>k \<le> length cs. climb n (on_fs fs hops cwd d) (path_of cs) below = Some (path_of (take k cs), drop k cs @ below)
    \<and> walk fs hops [] (take k cs) \<noteq> None \<and> (k < length cs \<longrightarrow> walk fs hops [] (take (Suc k) cs) = None)"
  using assms(2,3)
proof (induction cs arbitrary: n below rule: rev_induct)
  case Nil
  then obtain m where "n = Suc m" by (cases n) auto
  then show ?case by (simp add: path_of_def comps_def walk.simps)
next
  case (snoc c cs)
  then obtain m where n: "n = Suc m" "length cs < m" by (cases n) auto
  let ?d = "on_fs fs hops cwd d"
  have plain: "\<forall>c \<in> set cs. plain c" "plain c" using snoc.prems(1) by simp_all
  show ?case
  proof (cases "walk fs hops [] (cs @ [c]) = None")
    case False
    then show ?thesis using n snoc.prems(1) by (intro exI [of _ "length (cs @ [c])"]) simp
  next
    case True
    have "path_of cs \<noteq> path_of (cs @ [c])" using path_of_inj [of cs "cs @ [c]"] plain by auto
    then have step: "climb n ?d (path_of (cs @ [c])) below = climb m ?d (path_of cs) (c # below)"
      using True n plain snoc.prems(1) by (simp add: posix_jail_lib [OF assms(1)] posix_lib_def)
    from snoc.IH [OF plain(1) n(2), of "c # below"] obtain k where k: "k \<le> length cs"
      "climb m ?d (path_of cs) (c # below) = Some (path_of (take k cs), drop k cs @ c # below)"
      "walk fs hops [] (take k cs) \<noteq> None" "k < length cs \<longrightarrow> walk fs hops [] (take (Suc k) cs) = None" by blast
    have "k < length (cs @ [c]) \<longrightarrow> walk fs hops [] (take (Suc k) (cs @ [c])) = None"
      using k(1,4) True by (cases "k = length cs") auto
    then show ?thesis using k step by (intro exI [of _ k]) auto
  qed
qed

lemma resolve_real_path_of:
  assumes "d_platform d \<noteq> Win32" and "links_plain fs" and "\<forall>c \<in> set cs. plain c"
  shows "\<exists>k l. resolve_real (on_fs fs hops cwd d) (path_of cs) = Inr (path_of (l @ drop k cs)) \<and> k \<le> length cs
    \<and> walk fs hops [] (take k cs) = Some l \<and> (k < length cs \<longrightarrow> walk fs hops [] (take (Suc k) cs) = None)
    \<and> (\<forall>c \<in> set (l @ drop k cs). plain c)"
proof -
  let ?d = "on_fs fs hops cwd d"
  have "length cs < length (path_of cs) + 1" using plain_length [OF assms(3)] by simp
  from climb_path_of [OF assms(1,3) this, of fs hops cwd "[]"] obtain k where k: "k \<le> length cs"
    "climb (length (path_of cs) + 1) ?d (path_of cs) [] = Some (path_of (take k cs), drop k cs)"
    "walk fs hops [] (take k cs) \<noteq> None" "k < length cs \<longrightarrow> walk fs hops [] (take (Suc k) cs) = None" by auto
  then obtain l where l: "walk fs hops [] (take k cs) = Some l" by blast
  have pk: "\<forall>c \<in> set (take k cs). plain c" "\<forall>c \<in> set (drop k cs). plain c" using assms(3) by (auto dest: in_set_takeD in_set_dropD)
  have pl: "\<forall>c \<in> set l. plain c" by (rule walk_end_plain [OF l assms(2)]) (use pk in simp_all)
  have real: "d_real ?d (path_of (take k cs)) = Inr (path_of l)" using pk l by (simp add: on_fs_def)
  have res: "resolve_real ?d (path_of cs) = Inr (path_of (l @ drop k cs))"
    unfolding resolve_real_def k(2) option.case prod.case real sum.case
    using join_path_of [OF pl pk(2)] by (simp add: posix_jail_lib [OF assms(1)] posix_lib_def)
  have "\<forall>c \<in> set (l @ drop k cs). plain c" using pl pk(2) by auto
  then show ?thesis using k(1,4) l res by blast
qed

text \<open>The path the jail hands back leads to its own location, unless the first component that was missing is a link.\<close>

lemma resolved_is_real:
  assumes "walk fs hops [] (take k cs) = Some l" and "k < length cs \<longrightarrow> walk fs hops [] (take (Suc k) cs) = None"
    and "walk fs n [] (l @ drop k cs) = Some loc"
  shows "loc = l @ drop k cs \<or> (k < length cs \<and> (\<exists>t. fs (l @ [cs ! k]) = Some (LinkE t)))"
proof -
  have l: "walk fs 0 [] l = Some l" "is_dir fs l \<or> fs l = Some FileE"
    using walk_end_is_real [OF assms(1)] by (simp_all add: is_dir_def)
  show ?thesis
  proof (cases "k < length cs")
    case False
    have "walk fs n [] l = Some l"
      by (rule walk_more_hops [OF l(1)])
    then show ?thesis using assms(3) False by simp
  next
    case True
    then have drop: "drop k cs = cs ! k # drop (Suc k) cs" and take: "take (Suc k) cs = take k cs @ [cs ! k]"
      by (simp_all add: Cons_nth_drop_Suc take_Suc_conv_app_nth)
    show ?thesis
    proof (cases "is_dir fs l")
      case dir: True
      have "walk fs n [] (l @ drop k cs) = walk fs n l (drop k cs)" using walk_past [of fs "[]" l n] l dir by simp
      then obtain e where e: "fs (l @ [cs ! k]) = Some e"
        using assms(3) unfolding drop by (cases "fs (l @ [cs ! k])") (simp_all add: walk.simps(2))
      from walk_one_more [OF assms(1) dir] obtain m where "walk fs hops [] (take (Suc k) cs) = walk fs m l [cs ! k]"
        unfolding take by blast
      then have "walk fs m l [cs ! k] = None" using assms(2) True by simp
      then have "\<exists>t. e = LinkE t" using e by (cases e) (simp_all add: walk.simps(2))
      then show ?thesis using e True by blast
    next
      case False
      then have "walk fs n [] (l @ drop k cs) = None"
        using l walk_past_file [of fs "[]" l n] unfolding drop by (auto simp: is_dir_def)
      then show ?thesis using assms(3) by simp
    qed
  qed
qed

section \<open>Strings and components\<close>

lemma for_compare_path_of:
  assumes "d_platform d \<noteq> Win32" and "\<forall>c \<in> set cs. plain c"
  shows "for_compare (on_fs fs hops cwd d) (path_of cs) = path_of cs"
proof -
  have no_trailing: "\<not> (1 < length (path_of cs) \<and> last (path_of cs) = slash)"
  proof (cases cs rule: rev_cases)
    case (snoc xs x)
    then have "plain x" using assms(2) by simp
    note plain_last [OF this]
    then have "last (path_of cs) \<noteq> slash" by (simp add: snoc path_of_def join_snoc)
    then show ?thesis by blast
  qed (simp add: path_of_def)
  have sep: "p_sep (jail_lib (on_fs fs hops cwd d)) = slash" by (simp add: posix_jail_lib [OF assms(1)] posix_lib_def)
  show ?thesis
    unfolding for_compare_def sep Let_def if_P [OF posix_jail_lib(2) [OF assms(1)]]
    using no_trailing by (simp only: disj_absorb if_False)
qed

lemma is_within_path_of:
  assumes "d_platform d \<noteq> Win32" and "\<forall>c \<in> set cs. plain c" and "\<forall>c \<in> set ps. plain c"
  shows "is_within (on_fs fs hops cwd d) (path_of cs) (path_of ps) \<longleftrightarrow> prefix ps cs"
proof (cases "ps = []")
  case True
  then show ?thesis using posix_jail_lib [OF assms(1)]
    by (simp add: is_within_def posix_lib_def path_of_def ends_with_def starts_with_def)
next
  case False
  then obtain xs x where ps: "ps = xs @ [x]" by (cases ps rule: rev_cases) auto
  then have "plain x" using assms(3) by simp
  note plain_last [OF this]
  then have last: "last (path_of ps) \<noteq> slash" by (simp add: ps path_of_def join_snoc)
  have "ends_with s [slash] \<Longrightarrow> last s = slash" for s
    unfolding ends_with_def by (metis append_take_drop_id last_snoc length_Cons list.size(3))
  then have "\<not> ends_with (path_of ps) [slash]" using last by blast
  then have iff: "is_within (on_fs fs hops cwd d) (path_of cs) (path_of ps) \<longleftrightarrow> cs = ps \<or> prefix (path_of ps @ [slash]) (path_of cs)"
    using posix_jail_lib [OF assms(1)] path_of_inj [OF assms(2,3)]
    by (simp add: is_within_def posix_lib_def starts_with_prefix)
  show ?thesis
  proof
    assume "is_within (on_fs fs hops cwd d) (path_of cs) (path_of ps)"
    then consider "cs = ps" | s where "path_of cs = path_of ps @ slash # s" unfolding iff by (auto simp: prefix_def)
    then show "prefix ps cs"
    proof cases
      case 2
      have "split_on slash (path_of cs) = split_on slash (path_of ps) @ split_on slash s"
        unfolding 2 by (rule split_on_at)
      then have "comps (path_of cs) = comps (path_of ps) @ comps s" by (simp add: comps_def)
      then show ?thesis using assms(2,3) by simp
    qed simp
  next
    assume "prefix ps cs"
    then obtain us where us: "cs = ps @ us" by (auto simp: prefix_def)
    show "is_within (on_fs fs hops cwd d) (path_of cs) (path_of ps)"
    proof (cases "us = []")
      case ne: False
      have "path_of cs = (path_of ps @ [slash]) @ join_with [slash] us"
        using join_append [OF ne, of "[slash]" ps] False by (simp add: us path_of_def)
      then show ?thesis unfolding iff by (auto simp: prefix_def)
    qed (simp add: is_within_def us)
  qed
qed

lemma segments_path_of:
  assumes "\<forall>c \<in> set cs. plain c" and "c \<in> set cs" and "backslash \<notin> set c"
  shows "c \<in> set (segments_of (path_of cs))"
proof -
  have "forward c = c" using assms(3) by (auto simp: forward_def intro: map_idI)
  moreover have "split_on slash (forward (path_of cs)) = [] # concat (map (\<lambda>c. split_on slash (forward c)) cs)"
  proof -
    have "cs \<noteq> []" using assms(2) by auto
    then have "split_on slash (forward (join_with [slash] cs)) = concat (map (\<lambda>c. split_on slash (forward c)) cs)"
    proof (induction cs)
      case (Cons x xs)
      then show ?case
        by (cases xs) (simp_all add: forward_def split_on_at)
    qed simp
    then show ?thesis by (simp add: path_of_def forward_def backslash_def)
  qed
  moreover have "split_on slash c = [c]" "c \<noteq> []" using assms(1,2) by (simp_all add: split_on_no_sep plain_def)
  ultimately show ?thesis using assms(2) by (auto simp: segments_of_def intro!: bexI [of _ c])
qed

lemma denied_no_backslash: "to_lower c \<in> set DENIED_SEGMENTS \<Longrightarrow> backslash \<notin> set c"
proof
  assume d: "to_lower c \<in> set DENIED_SEGMENTS" and "backslash \<in> set c"
  moreover have "lower_char backslash = backslash" by code_simp
  ultimately have "backslash \<in> set (to_lower c)" by (metis imageI list.set_map to_lower_def)
  moreover have "list_all (\<lambda>s. backslash \<notin> set s) DENIED_SEGMENTS" by code_simp
  ultimately show False using d by (simp add: list_all_iff)
qed

section \<open>Properties\<close>

text \<open>Every location the jail compares with is a path of plain components.\<close>

lemma try_real_path_of:
  assumes "d_platform d \<noteq> Win32" and "links_plain fs"
  shows "\<exists>cs. try_real (on_fs fs hops cwd d) p = path_of cs \<and> (\<forall>c \<in> set cs. plain c)"
proof -
  obtain cs where cs: "posix_resolve cwd p = path_of cs" "\<forall>c \<in> set cs. plain c" using resolve_plain by blast
  from resolve_real_path_of [OF assms cs(2), of hops cwd] obtain ds where
    "resolve_real (on_fs fs hops cwd d) (path_of cs) = Inr (path_of ds)" "\<forall>c \<in> set ds. plain c" by blast
  then show ?thesis unfolding try_real_def posix_jail_lib(1) [OF assms(1)] by (auto simp: posix_lib_def cs(1))
qed

lemma compared_path:
  assumes "d_platform d \<noteq> Win32" and "links_plain fs" and "x = for_compare (on_fs fs hops cwd d) (try_real (on_fs fs hops cwd d) p)"
  shows "\<exists>cs. x = path_of cs \<and> (\<forall>c \<in> set cs. plain c)"
  using try_real_path_of [OF assms(1,2), of hops cwd p] for_compare_path_of [OF assms(1)] assms(3) by auto

lemma collected_roots:
  "x \<in> set (snd (collect_roots d rs (display, keys))) \<Longrightarrow> x \<in> set keys \<or> (\<exists>p. x = for_compare d (try_real d p))"
proof (induction rs arbitrary: display keys)
  case (Cons r rs)
  show ?case
  proof (cases "for_compare d (try_real d r) \<in> set keys")
    case True
    then show ?thesis using Cons by (simp add: Let_def)
  next
    case False
    then have "x \<in> set (snd (collect_roots d rs (display @ [try_real d r], keys @ [for_compare d (try_real d r)])))"
      using Cons.prems by (simp add: Let_def)
    from Cons.IH [OF this] show ?thesis by auto
  qed
qed simp

lemma jail_paths:
  assumes "d_platform d \<noteq> Win32" and "links_plain fs" and "j = new_jail cfg (on_fs fs hops cwd d)"
    and "x \<in> set (j_roots j) \<union> set (j_deny j) \<union> set (j_exceptions j)"
  shows "\<exists>cs. x = path_of cs \<and> (\<forall>c \<in> set cs. plain c)"
proof -
  have "\<exists>p. x = for_compare (on_fs fs hops cwd d) (try_real (on_fs fs hops cwd d) p)"
    using assms(3,4) by (auto simp: new_jail_def Let_def dest: collected_roots split: if_splits)
  then show ?thesis using compared_path [OF assms(1,2)] by blast
qed

lemma within_comps:
  assumes "d_platform d \<noteq> Win32" and "\<forall>c \<in> set cs. plain c" and "\<exists>ps. x = path_of ps \<and> (\<forall>c \<in> set ps. plain c)"
  shows "is_within (on_fs fs hops cwd d) (path_of cs) x \<longleftrightarrow> prefix (comps x) cs"
  using is_within_path_of [OF assms(1,2)] assms(3) by auto

text \<open>C12. The jail confines, on every file system with links and every policy. A path it allows is absolute and plain; component by component
  it lies in one of the roots (so \<open>/users-evil\<close> is not in \<open>/users\<close>), outside every denied subtree that no exception
  rescues, through no credential directory and with no denied extension. And it is safe to open: the path is its own real location,
  however many links the system would follow, except that the first component that did not exist when the jail looked may be a link.\<close>

theorem jail_confines:
  assumes "d_platform d \<noteq> Win32" and "links_plain fs"
    and "jail_check (on_fs fs hops cwd d) (new_jail cfg (on_fs fs hops cwd d)) (JStr req) = Allowed r"
  shows "\<exists>cs. r = path_of cs \<and> (\<forall>c \<in> set cs. plain c)
    \<and> (\<exists>root \<in> set (j_roots (new_jail cfg (on_fs fs hops cwd d))). prefix (comps root) cs)
    \<and> (\<forall>dn \<in> set (j_deny (new_jail cfg (on_fs fs hops cwd d))). prefix (comps dn) cs \<longrightarrow>
         (\<exists>ex \<in> set (j_exceptions (new_jail cfg (on_fs fs hops cwd d))). prefix (comps ex) cs))
    \<and> (\<forall>c \<in> set cs. to_lower c \<notin> set DENIED_SEGMENTS)
    \<and> (posix_extname r = [] \<or> to_lower (posix_extname r) \<notin> set (j_exts (new_jail cfg (on_fs fs hops cwd d))))
    \<and> (\<forall>n loc. walk fs n [] cs = Some loc \<longrightarrow> loc = cs
         \<or> (walk fs hops [] (comps (posix_resolve cwd (trim req))) = None \<and> (\<exists>k t. fs (take (Suc k) cs) = Some (LinkE t))))"
proof -
  let ?d = "on_fs fs hops cwd d" let ?j = "new_jail cfg ?d"
  obtain ps where ps: "posix_resolve cwd (trim req) = path_of ps" "\<forall>c \<in> set ps. plain c" using resolve_plain by blast
  from resolve_real_path_of [OF assms(1,2) ps(2), of hops cwd] obtain k l where
    res: "resolve_real ?d (path_of ps) = Inr (path_of (l @ drop k ps))" and k: "k \<le> length ps"
    and l: "walk fs hops [] (take k ps) = Some l" and missing: "k < length ps \<longrightarrow> walk fs hops [] (take (Suc k) ps) = None"
    and plain: "\<forall>c \<in> set (l @ drop k ps). plain c" by blast
  let ?cs = "l @ drop k ps"
  have lib: "jail_lib ?d = posix_lib cwd" by (rule posix_jail_lib [OF assms(1)])
  have real: "resolve_real ?d (p_resolve (jail_lib ?d) (trim req)) = Inr (path_of ?cs)"
    using res by (simp add: lib posix_lib_def ps(1))
  have cmp: "for_compare ?d (path_of ?cs) = path_of ?cs" by (rule for_compare_path_of [OF assms(1) plain])
  have "jail_check ?d ?j (JStr req) = Allowed r" by (rule assms(3))
  then have all: "r = path_of ?cs"
      "\<not> list_ex (\<lambda>dn. \<not> list_ex (is_within ?d (path_of ?cs)) (j_exceptions ?j) \<and> is_within ?d (path_of ?cs) dn) (j_deny ?j)"
      "\<not> list_ex (\<lambda>s. to_lower s \<in> set DENIED_SEGMENTS) (segments_of (path_of ?cs))"
      "\<not> (to_lower (posix_extname (path_of ?cs)) \<noteq> [] \<and> to_lower (posix_extname (path_of ?cs)) \<in> set (j_exts ?j))"
      "list_ex (is_within ?d (path_of ?cs)) (j_roots ?j)"
    unfolding jail_check_def jsval.case real sum.case Let_def cmp by (auto simp: lib posix_lib_def split: if_splits)
  have within: "is_within ?d (path_of ?cs) x \<longleftrightarrow> prefix (comps x) ?cs"
    if "x \<in> set (j_roots ?j) \<union> set (j_deny ?j) \<union> set (j_exceptions ?j)" for x
    by (rule within_comps [OF assms(1) plain jail_paths [OF assms(1,2) refl that]])
  have roots: "\<exists>root \<in> set (j_roots ?j). prefix (comps root) ?cs"
    using all(5) within by (auto simp: list_ex_iff)
  have deny: "\<forall>dn \<in> set (j_deny ?j). prefix (comps dn) ?cs \<longrightarrow> (\<exists>ex \<in> set (j_exceptions ?j). prefix (comps ex) ?cs)"
    using all(2) within by (auto simp: list_ex_iff)
  have segs: "\<forall>c \<in> set ?cs. to_lower c \<notin> set DENIED_SEGMENTS"
  proof
    fix c assume c: "c \<in> set ?cs"
    show "to_lower c \<notin> set DENIED_SEGMENTS"
    proof
      assume dn: "to_lower c \<in> set DENIED_SEGMENTS"
      have "c \<in> set (segments_of (path_of ?cs))" by (rule segments_path_of [OF plain c denied_no_backslash [OF dn]])
      then show False using all(3) dn by (auto simp: list_ex_iff)
    qed
  qed
  have ext: "posix_extname r = [] \<or> to_lower (posix_extname r) \<notin> set (j_exts ?j)"
    using all(4) by (auto simp: all(1) to_lower_def)
  have opens: "loc = ?cs \<or> (walk fs hops [] (comps (posix_resolve cwd (trim req))) = None \<and> (\<exists>k t. fs (take (Suc k) ?cs) = Some (LinkE t)))"
    if w: "walk fs n [] ?cs = Some loc" for n loc
  proof -
    from resolved_is_real [OF l missing w] show ?thesis
    proof
      assume "k < length ps \<and> (\<exists>t. fs (l @ [ps ! k]) = Some (LinkE t))"
      then obtain t where kt: "k < length ps" "fs (l @ [ps ! k]) = Some (LinkE t)" by blast
      have "take (Suc (length l)) ?cs = l @ [ps ! k]" using kt(1) by (simp add: Cons_nth_drop_Suc [symmetric])
      moreover have "walk fs hops [] ps = None"
      proof (rule ccontr)
        assume "walk fs hops [] ps \<noteq> None"
        moreover have "walk fs hops [] (take (Suc k) ps @ drop (Suc k) ps) = None"
          by (rule walk_part_missing) (use missing kt(1) in blast)
        ultimately show False by simp
      qed
      ultimately show ?thesis using kt(2) ps by (metis comps_path_of)
    qed blast
  qed
  show ?thesis using all(1) plain roots deny segs ext opens by (intro exI [of _ ?cs]) blast
qed

text \<open>A machine on which anyone has put two links into \<open>/tmp\<close>.\<close>

definition planted_fs :: link_fs where
  "planted_fs = map_of [([''tmp''], DirE), ([''tmp'', ''d''], LinkE [''tmp'']), ([''tmp'', ''x''], LinkE [''etc'', ''shadow'']),
     ([''etc''], DirE), ([''etc'', ''shadow''], FileE), ([''tmp'', ''a.txt''], FileE)]"

definition linux_host :: jail_deps where
  "linux_host = \<lparr>d_platform = Linux, d_env = (\<lambda>_. None), d_real = (\<lambda>_. Inl []), d_exists = (\<lambda>_. False), d_tmpdir = ''/tmp'',
     d_win32 = posix_lib ''/'', d_posix = posix_lib ''/''\<rparr>"

definition no_policy :: jail_config where
  "no_policy = \<lparr>cfg_roots = JUndef, cfg_deny_paths = JUndef, cfg_deny_exts = JUndef, cfg_deny_exceptions = JUndef\<rparr>"

lemma planted_links_plain: "links_plain planted_fs"
  unfolding links_plain_def planted_fs_def by (auto simp: plain_def split: if_splits)

lemma jail_confines_witness:
  "\<exists>cs. ''/tmp/a.txt'' = path_of cs \<and> (\<forall>n loc. walk planted_fs n [] cs = Some loc \<longrightarrow> loc = cs)"
proof -
  have a: "jail_check (on_fs planted_fs 40 ''/'' linux_host) (new_jail no_policy (on_fs planted_fs 40 ''/'' linux_host)) (JStr '' /tmp/d/a.txt'')
      = Allowed ''/tmp/a.txt''" by code_simp
  have w: "d_platform linux_host \<noteq> Win32" by (simp add: linux_host_def)
  have e: "walk planted_fs 40 [] (comps (posix_resolve ''/'' (trim '' /tmp/d/a.txt''))) \<noteq> None" by code_simp
  from jail_confines [OF w planted_links_plain a] obtain cs where cs: "''/tmp/a.txt'' = path_of cs"
    and "\<forall>n loc. walk planted_fs n [] cs = Some loc \<longrightarrow> loc = cs \<or>
       (walk planted_fs 40 [] (comps (posix_resolve ''/'' (trim '' /tmp/d/a.txt''))) = None
        \<and> (\<exists>k t. planted_fs (take (Suc k) cs) = Some (LinkE t)))"
    by (elim exE conjE)
  then have "\<forall>n loc. walk planted_fs n [] cs = Some loc \<longrightarrow> loc = cs" using e by (simp only: simp_thms)
  with cs show ?thesis by blast
qed

text \<open>The exception is real. A request that passes through more links than the system follows in one lookup does not exist for
  \<open>existsSync\<close>, while its parent does; the jail resolves the parent and hands back the last name below it, though that name is itself a
  link. Opening the returned path then follows it: with the built-in policy the jail refuses \<open>/tmp/x\<close>, a link to
  \<open>/etc/shadow\<close>, and allows it when the request goes round a loop first.\<close>

theorem link_limit_escape:
  "jail_check (on_fs planted_fs 40 ''/'' linux_host) (new_jail no_policy (on_fs planted_fs 40 ''/'' linux_host)) (JStr ''/tmp/x'')
      = Denied PathDenied BLOCKED
   \<and> jail_check (on_fs planted_fs 40 ''/'' linux_host) (new_jail no_policy (on_fs planted_fs 40 ''/'' linux_host))
        (JStr (''/tmp'' @ concat (replicate 40 ''/d'') @ ''/x'')) = Allowed ''/tmp/x''
   \<and> walk planted_fs 40 [] [''tmp'', ''x''] = Some [''etc'', ''shadow'']"
  by code_simp

end
