(* ===== verification/File_Session.thy ===== *)
theory File_Session
  imports Path_Jail
begin

text \<open>
  \<open>plugins/rcp/file-session.ts\<close>: the file transfers of a remote session. Uploads are objects the handlers share
  (the table of uploads, and a handler that waits for the disk), so they live in a store and are named by their
  index. The staging files are a map from paths to contents and the open descriptors a table, the lowest free number being
  given out first. What the host answers (the jail, a write, \<open>mkdir\<close>, \<open>rename\<close>) is an argument of each step.
\<close>

section \<open>State\<close>

record upload_state =
  u_path :: string
  u_tmp :: string
  u_fd :: nat
  u_size :: jsnum
  u_received :: nat
  u_cancelled :: bool
  u_failure :: "string option"
  u_hash :: string
  u_digested :: bool

datatype file_msg =
    MError string string "string option"
  | MReady string
  | MComplete string nat string
  | MChunk string nat string bool
  | MListing string "(string \<times> bool \<times> nat option) list"
  | MRoots "string list" jsnum

record transfer_audit =
  ta_id :: string
  ta_upload :: bool
  ta_remote :: string
  ta_filename :: string
  ta_size :: jsnum
  ta_transferred :: nat
  ta_status :: string
  ta_error :: string

text \<open>\<open>finals\<close>: the handlers of \<open>uploadDone\<close> that wait for \<open>mkdir\<close> and \<open>rename\<close>, with the target and the digest.\<close>

record final =
  f_id :: string
  f_obj :: nat
  f_real :: string
  f_digest :: string

record file_session =
  objs :: "upload_state list"
  uploads :: "(string \<times> nat) list"
  finals :: "final list"
  cancelled_downloads :: "string list"
  staging :: "string option"
  disposed :: bool
  disk :: "string \<Rightarrow> string option"
  fds :: "(nat \<times> string) list"
  sent :: "file_msg list"
  audits :: "transfer_audit list"

definition CHUNK_SIZE :: nat where "CHUNK_SIZE = 32 * 1024"
definition DEFAULT_MAX_UPLOAD_BYTES :: int where "DEFAULT_MAX_UPLOAD_BYTES = 2 * 1024 * 1024 * 1024"

section \<open>Helpers\<close>

definition send :: "file_msg \<Rightarrow> file_session \<Rightarrow> file_session" where
  "send m s = (if disposed s then s else s\<lparr>sent := sent s @ [m]\<rparr>)"

definition send_audit :: "transfer_audit \<Rightarrow> file_session \<Rightarrow> file_session" where
  "send_audit a s = s\<lparr>audits := audits s @ [a]\<rparr>"

text \<open>\<open>maxUploadBytes\<close>: the policy may lower the ceiling, never raise it.\<close>

definition max_upload_bytes :: "jsval \<Rightarrow> rat" where
  "max_upload_bytes policy = (case policy of
     JNum (Fin q) \<Rightarrow> if q \<le> 0 then of_int DEFAULT_MAX_UPLOAD_BYTES else min q (of_int DEFAULT_MAX_UPLOAD_BYTES)
   | _ \<Rightarrow> of_int DEFAULT_MAX_UPLOAD_BYTES)"

definition transfer_id_char :: "char \<Rightarrow> bool" where
  "transfer_id_char c \<longleftrightarrow> is_letter c \<or> is_digit c \<or> c = CHR ''_'' \<or> c = CHR ''-''"

definition valid_transfer_id :: "string \<Rightarrow> bool" where
  "valid_transfer_id s \<longleftrightarrow> 1 \<le> length s \<and> length s \<le> 64 \<and> list_all transfer_id_char s"

definition take_transfer_id :: "jsval \<Rightarrow> file_session \<Rightarrow> string option \<times> file_session" where
  "take_transfer_id m s =
     (let raw = (case jprop m ''transferId'' of JStr t \<Rightarrow> t | _ \<Rightarrow> []) in
      if valid_transfer_id raw then (Some raw, s)
      else (None, send (MError ''INVALID_TRANSFER_ID'' ''Transfer id must be alphanumeric (with - or _), 1-64 characters.'' None) s))"

definition code_text :: "deny_code \<Rightarrow> string" where
  "code_text c = (case c of PathInvalid \<Rightarrow> ''PATH_INVALID'' | PathOutsideRoots \<Rightarrow> ''PATH_OUTSIDE_ROOTS''
     | PathDenied \<Rightarrow> ''PATH_DENIED'' | PathUnresolvable \<Rightarrow> ''PATH_UNRESOLVABLE'')"

definition gate :: "(string \<Rightarrow> decision) \<Rightarrow> string \<Rightarrow> string option \<Rightarrow> file_session \<Rightarrow> string option \<times> file_session" where
  "gate check input tid s = (case check input of
     Allowed r \<Rightarrow> (Some r, s)
   | Denied code m \<Rightarrow> (None, send (MError (code_text code) m tid) s))"

definition close_fd :: "nat \<Rightarrow> file_session \<Rightarrow> file_session" where
  "close_fd n s = s\<lparr>fds := AList.delete n (fds s)\<rparr>"

definition cleanup_tmp :: "string \<Rightarrow> file_session \<Rightarrow> file_session" where
  "cleanup_tmp p s = s\<lparr>disk := (disk s)(p := None)\<rparr>"

definition drop_upload :: "string \<Rightarrow> file_session \<Rightarrow> file_session" where
  "drop_upload tid s = s\<lparr>uploads := AList.delete tid (uploads s)\<rparr>"

definition set_obj :: "nat \<Rightarrow> upload_state \<Rightarrow> file_session \<Rightarrow> file_session" where
  "set_obj i u s = s\<lparr>objs := (objs s)[i := u]\<rparr>"

text \<open>The lowest descriptor that is free.\<close>

function free_fd :: "nat \<Rightarrow> (nat \<times> string) list \<Rightarrow> nat" where
  "free_fd n table = (if n \<in> fst ` set table then free_fd (n + 1) table else n)"
  by pat_completeness auto
termination
proof (relation "measure (\<lambda>(n, table). card (fst ` set table - {..<n}))")
  fix n :: nat and table :: "(nat \<times> string) list"
  assume "n \<in> fst ` set table"
  then have "fst ` set table - {..<n + 1} \<subset> fst ` set table - {..<n}" by auto
  then show "((n + 1, table), n, table) \<in> measure (\<lambda>(n, table). card (fst ` set table - {..<n}))"
    by (simp add: psubset_card_mono)
qed simp

declare free_fd.simps [simp del]

definition upload_audit :: "path_lib \<Rightarrow> string \<Rightarrow> string \<Rightarrow> jsnum \<Rightarrow> nat \<Rightarrow> string \<Rightarrow> string \<Rightarrow> transfer_audit" where
  "upload_audit lib tid remote sz moved status err =
     \<lparr>ta_id = tid, ta_upload = True, ta_remote = remote, ta_filename = p_basename lib remote, ta_size = sz, ta_transferred = moved,
      ta_status = status, ta_error = err\<rparr>"

text \<open>The audit of an upload that never began names the path as it was asked for, cut to 512.\<close>

definition asked_audit :: "path_lib \<Rightarrow> string \<Rightarrow> string \<Rightarrow> bool \<Rightarrow> jsnum \<Rightarrow> string \<Rightarrow> transfer_audit" where
  "asked_audit lib tid asked up sz err =
     \<lparr>ta_id = tid, ta_upload = up, ta_remote = take 512 asked, ta_filename = (if asked = [] then [] else p_basename lib asked),
      ta_size = sz, ta_transferred = 0, ta_status = ''failed'', ta_error = err\<rparr>"

definition number_or_zero :: "jsnum \<Rightarrow> jsnum" where
  "number_or_zero n = (if n = NaN then Fin 0 else n)"

definition megabytes :: "rat \<Rightarrow> string" where
  "megabytes q = show_nat (nat \<lfloor>q / 1048576 + 1 / 2\<rfloor>)"

section \<open>Uploads\<close>

text \<open>\<open>handleUploadStart\<close>; \<open>mk\<close> is the answer of \<open>mkdtemp\<close> when the session has no staging directory yet.\<close>

definition handle_upload_start ::
  "path_lib \<Rightarrow> (string \<Rightarrow> decision) \<Rightarrow> jsval \<Rightarrow> string + string \<Rightarrow> string \<Rightarrow> string \<Rightarrow> jsnum \<Rightarrow> file_session \<Rightarrow> file_session" where
  "handle_upload_start lib check policy mk tid dest sz s =
     (let limit = max_upload_bytes policy in
      if (case sz of Fin q \<Rightarrow> limit < q | _ \<Rightarrow> False)
      then send_audit (asked_audit lib tid dest True (number_or_zero sz) ''exceeds the upload size limit'')
             (send (MError ''UPLOAD_TOO_LARGE'' (''This file is '' @ (case sz of Fin q \<Rightarrow> megabytes q | _ \<Rightarrow> [])
                @ '' MB; the limit for this device is '' @ megabytes limit @ '' MB.'') (Some tid)) s)
      else case gate check dest (Some tid) s of
        (None, s1) \<Rightarrow> send_audit (asked_audit lib tid dest True (number_or_zero sz) ''blocked by remote access path policy'') s1
      | (Some resolved, s1) \<Rightarrow>
          (case (case staging s1 of Some d \<Rightarrow> Inr d | None \<Rightarrow> mk) of
             Inl m \<Rightarrow> send (MError ''UPLOAD_INIT_FAILED'' m (Some tid)) s1
           | Inr dir \<Rightarrow>
               (let tmp = p_join lib [dir, tid]; s2 = s1\<lparr>staging := Some dir\<rparr> in
                if disk s2 tmp \<noteq> None then send (MError ''UPLOAD_INIT_FAILED'' ''EEXIST: file already exists'' (Some tid)) s2
                else let fd = free_fd 0 (fds s2);
                         u = \<lparr>u_path = resolved, u_tmp = tmp, u_fd = fd, u_size = sz, u_received = 0, u_cancelled = False,
                              u_failure = None, u_hash = [], u_digested = False\<rparr>
                     in send (MReady tid) (send_audit (upload_audit lib tid resolved sz 0 ''started'' [])
                          (s2\<lparr>disk := (disk s2)(tmp := Some []), fds := (fd, tmp) # fds s2,
                              objs := objs s2 @ [u], uploads := map_set (uploads s2) tid (length (objs s2))\<rparr>)))))"

text \<open>\<open>writeSync\<close> on a descriptor: it throws, or some of the bytes are written (the caller is told how many).\<close>

definition write_fd :: "nat \<Rightarrow> string \<Rightarrow> string + nat \<Rightarrow> file_session \<Rightarrow> string + file_session" where
  "write_fd fd buf wr s = (case map_of (fds s) fd of
     None \<Rightarrow> Inl ''EBADF: bad file descriptor''
   | Some p \<Rightarrow> (case wr of
       Inl m \<Rightarrow> Inl m
     | Inr n \<Rightarrow> Inr (s\<lparr>disk := (disk s)(p := map_option (\<lambda>old. old @ take n buf) (disk s p))\<rparr>)))"

definition handle_chunk :: "path_lib \<Rightarrow> jsval \<Rightarrow> string + nat \<Rightarrow> string \<Rightarrow> string \<Rightarrow> file_session \<Rightarrow> file_session" where
  "handle_chunk lib policy wr tid buf s = (case map_of (uploads s) tid of
     None \<Rightarrow> s
   | Some i \<Rightarrow>
       (let u = objs s ! i in
        if u_cancelled u then s
        else if max_upload_bytes policy < of_nat (u_received u + length buf)
        then send_audit (upload_audit lib tid (u_path u) (u_size u) (u_received u) ''failed'' ''exceeded the upload size limit mid-transfer'')
               (send (MError ''UPLOAD_TOO_LARGE'' (''The upload exceeded this device'' @ [CHR 0x27] @ ''s size limit and was stopped.'') (Some tid))
                 (drop_upload tid (cleanup_tmp (u_tmp u) (close_fd (u_fd u) (set_obj i (u\<lparr>u_cancelled := True\<rparr>) s)))))
        else case write_fd (u_fd u) buf wr s of
          Inl m \<Rightarrow> set_obj i (u\<lparr>u_failure := Some m\<rparr>) s
        | Inr s' \<Rightarrow>
            if u_digested u then set_obj i (u\<lparr>u_failure := Some ''Digest already called''\<rparr>) s'
            else set_obj i (u\<lparr>u_hash := u_hash u @ buf, u_received := u_received u + length buf\<rparr>) s'))"

definition incomplete_text :: "upload_state \<Rightarrow> (jsnum \<Rightarrow> string) \<Rightarrow> string" where
  "incomplete_text u show_num = ''incomplete: received '' @ show_nat (u_received u) @ '' of '' @ show_num (u_size u) @ '' bytes''"

text \<open>\<open>!upload.failure\<close>\<close>

definition no_failure :: "upload_state \<Rightarrow> bool" where
  "no_failure u \<longleftrightarrow> u_failure u = None \<or> u_failure u = Some []"

text \<open>\<open>handleUploadDone\<close> up to its first wait.\<close>

definition handle_upload_done :: "path_lib \<Rightarrow> (string \<Rightarrow> decision) \<Rightarrow> (jsnum \<Rightarrow> string) \<Rightarrow> string \<Rightarrow> file_session \<Rightarrow> file_session" where
  "handle_upload_done lib check show_num tid s = (case map_of (uploads s) tid of
     None \<Rightarrow> s
   | Some i \<Rightarrow>
       (let u0 = objs s ! i; s1 = close_fd (u_fd u0) s in
        if u_digested u0 then s1
        else
          let u = (if \<not> u_cancelled u0 \<and> no_failure u0 \<and> num_lt (Fin 0) (u_size u0) \<and> u_size u0 \<noteq> Fin (of_nat (u_received u0))
                   then u0\<lparr>u_digested := True, u_failure := Some (incomplete_text u0 show_num)\<rparr> else u0\<lparr>u_digested := True\<rparr>);
              s2 = set_obj i u s1;
              gone = drop_upload tid (cleanup_tmp (u_tmp u) s2);
              audit = (\<lambda>status err. upload_audit lib tid (u_path u) (u_size u) (u_received u) status err)
          in if \<not> no_failure u
             then let m = (case u_failure u of Some m \<Rightarrow> m | None \<Rightarrow> [])
                  in send_audit (audit ''failed'' m) (send (MError ''UPLOAD_INCOMPLETE'' m (Some tid)) gone)
             else if u_cancelled u then send_audit (audit ''cancelled'' []) gone
             else case check (u_path u) of
               Denied code m \<Rightarrow>
                 send_audit (audit ''failed'' ''blocked by remote access path policy'') (send (MError (code_text code) m (Some tid)) gone)
             | Allowed target \<Rightarrow> s2\<lparr>finals := finals s2 @ [\<lparr>f_id = tid, f_obj = i, f_real = target, f_digest = u_hash u\<rparr>]\<rparr>))"

text \<open>
  The rest of it, when \<open>mkdir\<close> and \<open>rename\<close> have answered (the message of the one that failed). A \<open>rename\<close> of a
  staging file that is gone fails by itself.
\<close>

definition finish_upload :: "path_lib \<Rightarrow> string option \<Rightarrow> final \<Rightarrow> file_session \<Rightarrow> file_session" where
  "finish_upload lib err f s =
     (let u = objs s ! f_obj f; s1 = s\<lparr>finals := remove1 f (finals s)\<rparr>;
          audit = (\<lambda>status m. upload_audit lib (f_id f) (u_path u) (u_size u) (u_received u) status m);
          failed = (\<lambda>m. send_audit (audit ''failed'' m) (send (MError ''UPLOAD_FINALIZE_FAILED'' m (Some (f_id f)))
             (drop_upload (f_id f) (cleanup_tmp (u_tmp u) s1))))
      in case err of
           Some m \<Rightarrow> failed m
         | None \<Rightarrow>
             (case disk s1 (u_tmp u) of
                None \<Rightarrow> failed ''ENOENT: no such file or directory''
              | Some content \<Rightarrow>
                  send_audit (audit ''completed'' [])
                    (send (MComplete (f_id f) (u_received u) (f_digest f))
                      (drop_upload (f_id f) (s1\<lparr>disk := ((disk s1)(u_tmp u := None))(f_real f := Some content)\<rparr>)))))"

definition handle_cancel :: "string \<Rightarrow> file_session \<Rightarrow> file_session" where
  "handle_cancel tid s =
     (let s1 = s\<lparr>cancelled_downloads := List.insert tid (cancelled_downloads s)\<rparr> in
      case map_of (uploads s1) tid of None \<Rightarrow> s1 | Some i \<Rightarrow> set_obj i ((objs s1 ! i)\<lparr>u_cancelled := True\<rparr>) s1)"

section \<open>Downloads and listings\<close>

text \<open>
  The loop of a download. Each turn: whether it was cancelled (or the session closed) by then, and what the read
  gave: the message of an error, or the bytes (none at the end of the file). The result: how it ended.
\<close>

datatype download_end = Finished | CancelledEnd | ReadFailed string

fun download_loop :: "string \<Rightarrow> nat \<Rightarrow> (bool \<times> (string + string)) list \<Rightarrow> nat \<Rightarrow> nat \<Rightarrow> file_session \<Rightarrow> (nat \<times> download_end \<times> file_session) option" where
  "download_loop tid sz [] moved seq s = None"
| "download_loop tid sz ((stop, r) # rs) moved seq s =
     (if stop \<or> disposed s then Some (moved, CancelledEnd, s)
      else case r of
        Inl m \<Rightarrow> Some (moved, ReadFailed m, s)
      | Inr bytes \<Rightarrow>
          if bytes = [] then Some (moved, Finished, s)
          else download_loop tid sz rs (moved + length bytes) (seq + 1)
                 (send (MChunk tid seq bytes (sz \<le> moved + length bytes)) s))"

definition download_audit :: "path_lib \<Rightarrow> string \<Rightarrow> string \<Rightarrow> nat \<Rightarrow> nat \<Rightarrow> string \<Rightarrow> string \<Rightarrow> transfer_audit" where
  "download_audit lib tid remote sz moved status err =
     \<lparr>ta_id = tid, ta_upload = False, ta_remote = remote, ta_filename = p_basename lib remote, ta_size = Fin (of_nat sz), ta_transferred = moved,
      ta_status = status, ta_error = err\<rparr>"

text \<open>\<open>handleDownload\<close>: \<open>st\<close> is the answer of \<open>stat\<close> (an error, or the size), \<open>reads\<close> the turns of the loop; nothing when they do not come to an end.\<close>

definition handle_download ::
  "path_lib \<Rightarrow> (string \<Rightarrow> decision) \<Rightarrow> string + nat \<Rightarrow> (bool \<times> (string + string)) list \<Rightarrow> string \<Rightarrow> string \<Rightarrow> file_session \<Rightarrow> file_session option" where
  "handle_download lib check st reads tid p s =
     (let s0 = s\<lparr>cancelled_downloads := removeAll tid (cancelled_downloads s)\<rparr> in
      case gate check p (Some tid) s0 of
        (None, s1) \<Rightarrow> Some (send_audit (asked_audit lib tid p False (Fin 0) ''blocked by remote access path policy'') s1)
      | (Some resolved, s1) \<Rightarrow>
          (case st of
             Inl m \<Rightarrow> Some (send (MError ''DOWNLOAD_FAILED'' m (Some tid)) (send_audit (download_audit lib tid resolved 0 0 ''failed'' m) s1))
           | Inr sz \<Rightarrow>
               (case download_loop tid sz reads 0 0 (send_audit (download_audit lib tid resolved sz 0 ''started'' []) s1) of
                  None \<Rightarrow> None
                | Some (moved, e, s2) \<Rightarrow>
                    (let s3 = (case e of ReadFailed m \<Rightarrow> send (MError ''READ_FAILED'' m (Some tid)) s2 | _ \<Rightarrow> s2);
                         s4 = s3\<lparr>cancelled_downloads := removeAll tid (cancelled_downloads s3)\<rparr>
                     in Some (send_audit (case e of
                          ReadFailed m \<Rightarrow> download_audit lib tid resolved sz moved ''failed'' m
                        | Finished \<Rightarrow> download_audit lib tid resolved sz moved ''completed'' []
                        | CancelledEnd \<Rightarrow> download_audit lib tid resolved sz moved ''cancelled'' []) s4)))))"

text \<open>\<open>handleList\<close>: \<open>names\<close> is the directory (or an error), \<open>st\<close> the entries whose \<open>stat\<close> succeeded in the order they came back; \<open>collate\<close> is \<open>localeCompare <= 0\<close>.\<close>

definition handle_list ::
  "(string \<Rightarrow> decision) \<Rightarrow> (string \<Rightarrow> string \<Rightarrow> bool) \<Rightarrow> string + (string \<times> bool \<times> nat option) list \<Rightarrow> string \<Rightarrow> file_session \<Rightarrow> file_session" where
  "handle_list check collate listing p s = (case gate check p None s of
     (None, s1) \<Rightarrow> s1
   | (Some resolved, s1) \<Rightarrow>
       (case listing of
          Inl m \<Rightarrow> send (MError ''LIST_FAILED'' m None) s1
        | Inr es \<Rightarrow> send (MListing resolved
            (sort_by (\<lambda>(a, da, _) (b, db, _). if da \<noteq> db then da else collate a b) es)) s1))"

section \<open>The end of the session\<close>

definition cleanup_all_uploads :: "file_session \<Rightarrow> file_session" where
  "cleanup_all_uploads s =
     (let s1 = foldl (\<lambda>s (tid, i). cleanup_tmp (u_tmp (objs s ! i)) (close_fd (u_fd (objs s ! i)) s)) s (uploads s);
          s2 = s1\<lparr>uploads := []\<rparr>
      in case staging s2 of
           None \<Rightarrow> s2
         | Some dir \<Rightarrow> s2\<lparr>disk := (\<lambda>p. if starts_with p (dir @ [slash]) then None else disk s2 p), staging := None\<rparr>)"

definition dispose :: "file_session \<Rightarrow> file_session" where
  "dispose s = (if disposed s then s else cleanup_all_uploads (s\<lparr>disposed := True\<rparr>))"

section \<open>Messages\<close>

text \<open>What the host answers to one message, and what does not change in a session: the path library, the base64 decoder, and how numbers and other values print.\<close>

record file_io =
  io_check :: "string \<Rightarrow> decision"
  io_policy :: jsval
  io_mkdtemp :: "string + string"
  io_write :: "string + nat"
  io_stat :: "string + nat"
  io_reads :: "(bool \<times> (string + string)) list"
  io_listing :: "string + (string \<times> bool \<times> nat option) list"

record file_env =
  e_lib :: path_lib
  e_decode :: "string \<Rightarrow> string"
  e_show_num :: "jsnum \<Rightarrow> string"
  e_text_of :: "jsval \<Rightarrow> string"
  e_collate :: "string \<Rightarrow> string \<Rightarrow> bool"
  e_roots :: "string list"

definition text_or :: "(jsval \<Rightarrow> string) \<Rightarrow> jsval \<Rightarrow> string \<Rightarrow> string" where
  "text_or text_of v dflt = (if nullish v then dflt else string_of text_of v)"

text \<open>\<open>handleMessage\<close> (with the guard of \<open>onMessage\<close>); a download runs to its end in one step, the cancellations that reach it are in its turns.\<close>

definition handle_message :: "file_env \<Rightarrow> file_io \<Rightarrow> jsval \<Rightarrow> file_session \<Rightarrow> file_session option" where
  "handle_message env io m s =
     (if disposed s then Some s
      else let op = text_or (e_text_of env) (jprop m ''op'') [];
               path = text_or (e_text_of env) (jprop m ''path'');
               with_id = (\<lambda>k. case take_transfer_id m s of (None, s1) \<Rightarrow> Some s1 | (Some tid, s1) \<Rightarrow> k tid s1)
           in if op = ''roots'' then Some (send (MRoots (e_roots env) (Fin (max_upload_bytes (io_policy io)))) s)
              else if op = ''list'' then Some (handle_list (io_check io) (e_collate env) (io_listing io) (path ''/'') s)
              else if op = ''download'' then
                with_id (\<lambda>tid s. handle_download (e_lib env) (io_check io) (io_stat io) (io_reads io) tid (path []) s)
              else if op = ''upload'' then
                with_id (\<lambda>tid s. Some (handle_upload_start (e_lib env) (io_check io) (io_policy io) (io_mkdtemp io) tid (path [])
                  (if nullish (jprop m ''size'') then Fin 0 else number_of_value (e_text_of env) (jprop m ''size'')) s))
              else if op = ''chunk'' then
                with_id (\<lambda>tid s. Some (handle_chunk (e_lib env) (io_policy io) (io_write io) tid
                  (e_decode env (text_or (e_text_of env) (jprop m ''data'') [])) s))
              else if op = ''uploadDone'' then
                with_id (\<lambda>tid s. Some (handle_upload_done (e_lib env) (io_check io) (e_show_num env) tid s))
              else if op = ''cancel'' then with_id (\<lambda>tid s. Some (handle_cancel tid s))
              else Some s)"

section \<open>Sessions of uploads\<close>

text \<open>The steps of the uploads of a session: the four messages, and the disk's answer to a handler that waits.\<close>

datatype upload_event =
    Start "string \<Rightarrow> decision" jsval "string + string" string string jsnum
  | Chunk jsval "string + nat" string string
  | Done "string \<Rightarrow> decision" string
  | Answer "string option" final
  | Cancel string

fun upload_step :: "path_lib \<Rightarrow> (jsnum \<Rightarrow> string) \<Rightarrow> upload_event \<Rightarrow> file_session \<Rightarrow> file_session" where
  "upload_step lib show_num (Start check policy mk tid dest sz) s = handle_upload_start lib check policy mk tid dest sz s"
| "upload_step lib show_num (Chunk policy wr tid buf) s = handle_chunk lib policy wr tid buf s"
| "upload_step lib show_num (Done check tid) s = handle_upload_done lib check show_num tid s"
| "upload_step lib show_num (Answer err f) s = finish_upload lib err f s"
| "upload_step lib show_num (Cancel tid) s = handle_cancel tid s"

text \<open>The handler of an upload is waiting for the disk.\<close>

definition waiting :: "file_session \<Rightarrow> nat \<Rightarrow> bool" where
  "waiting s i \<longleftrightarrow> i \<in> f_obj ` set (finals s)"

text \<open>
  A well-behaved peer says no more about a transfer after \<open>uploadDone\<close>; a well-behaved disk writes the whole
  buffer or throws; a fresh staging directory is empty; and no upload is aimed into a staging file.
\<close>

fun polite :: "file_session \<Rightarrow> upload_event \<Rightarrow> bool" where
  "polite s (Start check policy mk tid dest sz) \<longleftrightarrow> True"
| "polite s (Chunk policy wr tid buf) \<longleftrightarrow>
     (case map_of (uploads s) tid of Some i \<Rightarrow> \<not> waiting s i | None \<Rightarrow> True) \<and> (case wr of Inr n \<Rightarrow> n = length buf | Inl _ \<Rightarrow> True)"
| "polite s (Done check tid) \<longleftrightarrow> (case map_of (uploads s) tid of Some i \<Rightarrow> \<not> waiting s i | None \<Rightarrow> True)"
| "polite s (Answer err f) \<longleftrightarrow> f \<in> set (finals s) \<and> f_real f \<notin> u_tmp ` (\<lambda>(tid, i). objs s ! i) ` set (uploads s)"
| "polite s (Cancel tid) \<longleftrightarrow> True"

definition new_session :: "(nat \<times> string) list \<Rightarrow> (string \<Rightarrow> string option) \<Rightarrow> file_session" where
  "new_session table dsk = \<lparr>objs = [], uploads = [], finals = [], cancelled_downloads = [], staging = None, disposed = False,
     disk = dsk, fds = table, sent = [], audits = []\<rparr>"

inductive upload_run :: "path_lib \<Rightarrow> (jsnum \<Rightarrow> string) \<Rightarrow> file_session \<Rightarrow> bool" for lib show_num where
  fresh: "distinct (map fst table) \<Longrightarrow> \<forall>(n, p) \<in> set table. dsk p \<noteq> None \<Longrightarrow> upload_run lib show_num (new_session table dsk)"
| step: "upload_run lib show_num s \<Longrightarrow> polite s e \<Longrightarrow> upload_run lib show_num (upload_step lib show_num e s)"

section \<open>The invariant of the uploads\<close>

text \<open>An upload of the table: its staging file holds exactly what was hashed; until \<open>uploadDone\<close> its descriptor, and no other, is open on that file.\<close>

definition upload_ok :: "path_lib \<Rightarrow> file_session \<Rightarrow> string \<Rightarrow> nat \<Rightarrow> bool" where
  "upload_ok lib s tid i \<longleftrightarrow>
     (let u = objs s ! i in i < length (objs s)
        \<and> (\<exists>dir. staging s = Some dir \<and> u_tmp u = p_join lib [dir, tid])
        \<and> disk s (u_tmp u) = Some (u_hash u) \<and> length (u_hash u) = u_received u \<and> int (u_received u) \<le> DEFAULT_MAX_UPLOAD_BYTES
        \<and> (\<not> waiting s i \<longrightarrow> \<not> u_digested u \<and> (u_fd u, u_tmp u) \<in> set (fds s))
        \<and> (\<forall>n. (n, u_tmp u) \<in> set (fds s) \<longrightarrow> n = u_fd u \<and> \<not> waiting s i))"

definition final_ok :: "file_session \<Rightarrow> final \<Rightarrow> bool" where
  "final_ok s f \<longleftrightarrow>
     (let u = objs s ! f_obj f in (f_id f, f_obj f) \<in> set (uploads s) \<and> f_digest f = u_hash u \<and> u_digested u
        \<and> (num_lt (Fin 0) (u_size u) \<longrightarrow> u_size u = Fin (of_nat (u_received u))))"

definition upload_inv :: "path_lib \<Rightarrow> file_session \<Rightarrow> bool" where
  "upload_inv lib s \<longleftrightarrow>
     distinct (map fst (uploads s)) \<and> distinct (map snd (uploads s)) \<and> distinct (map fst (fds s)) \<and> distinct (map f_obj (finals s))
     \<and> (\<forall>(tid, i) \<in> set (uploads s). upload_ok lib s tid i)
     \<and> (\<forall>(t, i) \<in> set (uploads s). \<forall>(t', j) \<in> set (uploads s). u_tmp (objs s ! i) = u_tmp (objs s ! j) \<longrightarrow> i = j)
     \<and> (\<forall>f \<in> set (finals s). final_ok s f)
     \<and> (\<forall>(n, p) \<in> set (fds s). disk s p \<noteq> None)"

named_theorems session_simps \<open>what the small state changes leave alone\<close>

lemma same_fields_inv:
  assumes "objs s' = objs s" "uploads s' = uploads s" "finals s' = finals s" "staging s' = staging s" "disk s' = disk s" "fds s' = fds s"
  shows "upload_inv lib s' = upload_inv lib s"
  using assms by (simp add: upload_inv_def upload_ok_def final_ok_def waiting_def)

lemma send_inv [session_simps]: "upload_inv lib (send m s) = upload_inv lib s"
  by (rule same_fields_inv) (simp_all add: send_def)

lemma send_audit_inv [session_simps]: "upload_inv lib (send_audit a s) = upload_inv lib s"
  by (rule same_fields_inv) (simp_all add: send_audit_def)

lemma uploads_unique:
  assumes "upload_inv lib s" and "(t, i) \<in> set (uploads s)" and "(t', j) \<in> set (uploads s)"
  shows "t = t' \<longleftrightarrow> i = j"
proof -
  have d: "distinct (map fst (uploads s))" "distinct (map snd (uploads s))" using assms(1) by (simp_all add: upload_inv_def)
  show ?thesis
    using distinct_map_inj_on [OF d(1) assms(2,3)] distinct_map_inj_on [OF d(2) assms(2,3)] by auto
qed

lemma inv_upload_ok: "upload_inv lib s \<Longrightarrow> (tid, i) \<in> set (uploads s) \<Longrightarrow> upload_ok lib s tid i"
  by (auto simp: upload_inv_def)

lemma inv_final_ok: "upload_inv lib s \<Longrightarrow> f \<in> set (finals s) \<Longrightarrow> final_ok s f"
  by (simp add: upload_inv_def)

lemma inv_tmp_inj:
  "upload_inv lib s \<Longrightarrow> (t, i) \<in> set (uploads s) \<Longrightarrow> (t', j) \<in> set (uploads s) \<Longrightarrow> i \<noteq> j \<Longrightarrow> u_tmp (objs s ! i) \<noteq> u_tmp (objs s ! j)"
  unfolding upload_inv_def by blast

lemma upload_ok_frame:
  assumes "upload_ok lib s t j" and "objs s' ! j = objs s ! j" and "length (objs s) \<le> length (objs s')" and "staging s' = staging s"
    and "disk s' (u_tmp (objs s ! j)) = disk s (u_tmp (objs s ! j))"
    and "\<And>n. (n, u_tmp (objs s ! j)) \<in> set (fds s') \<longleftrightarrow> (n, u_tmp (objs s ! j)) \<in> set (fds s)" and "waiting s' j = waiting s j"
  shows "upload_ok lib s' t j"
  using assms(1,3) unfolding upload_ok_def Let_def assms(2,4,5,6,7) by (blast intro: less_le_trans)

text \<open>An upload that leaves the table, with its staging file and its descriptor.\<close>

lemma inv_forget:
  assumes inv: "upload_inv lib s" and m: "(tid, i) \<in> set (uploads s)"
    and objs: "length (objs s') = length (objs s)" "\<And>j. j \<noteq> i \<Longrightarrow> objs s' ! j = objs s ! j"
    and ups: "uploads s' = AList.delete tid (uploads s)" and st: "staging s' = staging s"
    and fd: "distinct (map fst (fds s'))" "set (fds s') = {(n, p). (n, p) \<in> set (fds s) \<and> p \<noteq> u_tmp (objs s ! i)}"
    and dk: "\<And>t j. (t, j) \<in> set (uploads s) \<Longrightarrow> j \<noteq> i \<Longrightarrow> disk s' (u_tmp (objs s ! j)) = disk s (u_tmp (objs s ! j))"
      "\<And>p. p \<noteq> u_tmp (objs s ! i) \<Longrightarrow> disk s p \<noteq> None \<Longrightarrow> disk s' p \<noteq> None"
    and fin: "set (finals s') = {f \<in> set (finals s). f_obj f \<noteq> i}" "distinct (map f_obj (finals s'))"
  shows "upload_inv lib s'"
proof -
  have U: "(t, j) \<in> set (uploads s') \<longleftrightarrow> (t, j) \<in> set (uploads s) \<and> j \<noteq> i" for t j
    using uploads_unique [OF inv m, of t j] m by (auto simp: ups AList.delete_eq)
  have w: "j \<noteq> i \<Longrightarrow> waiting s' j = waiting s j" for j by (auto simp: waiting_def fin(1))
  have "distinct (map fst (uploads s'))" "distinct (map snd (uploads s'))"
    using inv by (simp_all add: upload_inv_def ups AList.delete_eq distinct_map_filter)
  moreover have "upload_ok lib s' t j" if "(t, j) \<in> set (uploads s')" for t j
  proof -
    have j: "(t, j) \<in> set (uploads s)" "j \<noteq> i" using that U by simp_all
    have "u_tmp (objs s ! j) \<noteq> u_tmp (objs s ! i)" by (rule inv_tmp_inj [OF inv j(1) m j(2)])
    then show ?thesis using inv_upload_ok [OF inv j(1)] objs(2) [OF j(2)] dk(1) [OF j] w [OF j(2)]
      by (simp add: upload_ok_def Let_def objs(1) st fd(2))
  qed
  moreover have "j = k"
    if "(t, j) \<in> set (uploads s')" "(t', k) \<in> set (uploads s')" "u_tmp (objs s' ! j) = u_tmp (objs s' ! k)" for t t' j k
  proof (rule ccontr)
    assume "j \<noteq> k"
    moreover have "(t, j) \<in> set (uploads s)" "j \<noteq> i" "(t', k) \<in> set (uploads s)" "k \<noteq> i" using that(1,2) by (simp_all add: U)
    ultimately show False using inv_tmp_inj [OF inv] objs(2) that(3) by metis
  qed
  moreover have "final_ok s' f" if "f \<in> set (finals s')" for f
    using inv_final_ok [OF inv, of f] that U objs(2) [of "f_obj f"] by (simp add: fin(1) final_ok_def Let_def)
  moreover have "\<forall>(n, p) \<in> set (fds s'). disk s' p \<noteq> None"
    using inv dk(2) by (auto simp: upload_inv_def fd(2))
  ultimately show ?thesis using fd(1) fin(2) unfolding upload_inv_def by fast
qed

text \<open>An upload that changes in place, together with its staging file.\<close>

lemma inv_modify:
  assumes inv: "upload_inv lib s" and m: "(tid, i) \<in> set (uploads s)"
    and same: "objs s' = (objs s)[i := u]" "uploads s' = uploads s" "staging s' = staging s" "fds s' = fds s" "finals s' = finals s"
    and u: "u_tmp u = u_tmp (objs s ! i)" "u_fd u = u_fd (objs s ! i)" "u_digested u = u_digested (objs s ! i)"
      "length (u_hash u) = u_received u" "int (u_received u) \<le> DEFAULT_MAX_UPLOAD_BYTES"
    and dk: "disk s' = (disk s)(u_tmp u := Some (u_hash u))"
    and wait: "waiting s i \<Longrightarrow> u_hash u = u_hash (objs s ! i) \<and> u_size u = u_size (objs s ! i) \<and> u_received u = u_received (objs s ! i)"
  shows "upload_inv lib s'"
proof -
  have i: "i < length (objs s)" using inv_upload_ok [OF inv m] by (simp add: upload_ok_def Let_def)
  have w: "waiting s' j = waiting s j" for j by (simp add: waiting_def same)
  have ok: "upload_ok lib s' t j" if "(t, j) \<in> set (uploads s')" for t j
  proof -
    have j: "(t, j) \<in> set (uploads s)" using that same(2) by simp
    show ?thesis
    proof (cases "j = i")
      case True
      then show ?thesis using inv_upload_ok [OF inv j] u i w by (simp add: upload_ok_def Let_def same dk)
    next
      case False
      then show ?thesis using inv_upload_ok [OF inv j] inv_tmp_inj [OF inv j m False] w
        by (simp add: upload_ok_def Let_def same dk u(1))
    qed
  qed
  have tmp: "u_tmp (objs s' ! j) = u_tmp (objs s ! j)" for j using u(1) i by (cases "j = i") (simp_all add: same)
  have fin: "final_ok s' f" if "f \<in> set (finals s')" for f
  proof -
    have f: "f \<in> set (finals s)" using that same(5) by simp
    show ?thesis
    proof (cases "f_obj f = i")
      case True
      then have "waiting s i" using f by (auto simp: waiting_def)
      from wait [OF this] show ?thesis using inv_final_ok [OF inv f] True u(3) i by (simp add: final_ok_def Let_def same)
    next
      case False
      then show ?thesis using inv_final_ok [OF inv f] by (simp add: final_ok_def Let_def same)
    qed
  qed
  have disk: "\<forall>(n, p) \<in> set (fds s'). disk s' p \<noteq> None" using inv by (auto simp: upload_inv_def same dk)
  have "\<forall>(t, j) \<in> set (uploads s'). \<forall>(t', k) \<in> set (uploads s'). u_tmp (objs s' ! j) = u_tmp (objs s' ! k) \<longrightarrow> j = k"
    using inv by (simp add: upload_inv_def tmp same(2))
  then show ?thesis using inv ok fin disk by (simp add: upload_inv_def same) blast
qed

section \<open>Every step keeps the invariant\<close>

lemma inv_drop_live:
  assumes inv: "upload_inv lib s" and m: "(tid, i) \<in> set (uploads s)" and w: "\<not> waiting s i"
  shows "upload_inv lib (drop_upload tid (cleanup_tmp (u_tmp (objs s ! i)) (close_fd (u_fd (objs s ! i)) (set_obj i u s))))" (is "upload_inv lib ?s'")
proof -
  let ?u = "objs s ! i"
  have ok: "upload_ok lib s tid i" by (rule inv_upload_ok [OF inv m])
  have own: "(u_fd ?u, u_tmp ?u) \<in> set (fds s)" "\<And>n. (n, u_tmp ?u) \<in> set (fds s) \<Longrightarrow> n = u_fd ?u"
    using ok w by (auto simp: upload_ok_def Let_def)
  have dist: "distinct (map fst (fds s))" using inv by (simp add: upload_inv_def)
  have fd: "set (fds ?s') = {(n, p). (n, p) \<in> set (fds s) \<and> p \<noteq> u_tmp ?u}"
  proof -
    have "n = u_fd ?u \<longleftrightarrow> p = u_tmp ?u" if np: "(n, p) \<in> set (fds s)" for n p
    proof
      assume "n = u_fd ?u"
      then have "(u_fd ?u, u_tmp ?u) = (n, p)" by (intro distinct_map_inj_on [OF dist own(1) np]) simp
      then show "p = u_tmp ?u" by simp
    qed (use own(2) np in blast)
    then show ?thesis by (auto simp: drop_upload_def cleanup_tmp_def close_fd_def set_obj_def AList.delete_eq)
  qed
  show ?thesis
  proof (rule inv_forget [OF inv m _ _ _ _ _ fd])
    have "u_tmp (objs s ! j) \<noteq> u_tmp ?u" if "(t, j) \<in> set (uploads s)" "j \<noteq> i" for t j
      by (rule inv_tmp_inj [OF inv that(1) m that(2)])
    then show "disk ?s' (u_tmp (objs s ! j)) = disk s (u_tmp (objs s ! j))" if "(t, j) \<in> set (uploads s)" "j \<noteq> i" for t j
      using that by (auto simp: drop_upload_def cleanup_tmp_def close_fd_def set_obj_def)
    show "set (finals ?s') = {f \<in> set (finals s). f_obj f \<noteq> i}"
      using w by (auto simp: drop_upload_def cleanup_tmp_def close_fd_def set_obj_def waiting_def)
    show "distinct (map f_obj (finals ?s'))" using inv by (simp add: drop_upload_def cleanup_tmp_def close_fd_def set_obj_def upload_inv_def)
    show "distinct (map fst (fds ?s'))"
      by (simp add: drop_upload_def cleanup_tmp_def close_fd_def set_obj_def AList.distinct_delete dist)
  qed (simp_all add: drop_upload_def cleanup_tmp_def close_fd_def set_obj_def)
qed

lemma max_upload_le: "max_upload_bytes policy \<le> of_int DEFAULT_MAX_UPLOAD_BYTES"
  by (simp add: max_upload_bytes_def split: jsval.split jsnum.split)

lemma chunk_inv:
  assumes inv: "upload_inv lib s" and polite: "polite s (Chunk policy wr tid buf)"
  shows "upload_inv lib (handle_chunk lib policy wr tid buf s)"
proof (cases "map_of (uploads s) tid")
  case None
  then show ?thesis using inv by (simp add: handle_chunk_def)
next
  case (Some i)
  let ?u = "objs s ! i"
  have m: "(tid, i) \<in> set (uploads s)" using Some by (rule map_of_SomeD)
  have w: "\<not> waiting s i" using polite Some by simp
  have ok: "upload_ok lib s tid i" by (rule inv_upload_ok [OF inv m])
  have i: "i < length (objs s)" and hash: "disk s (u_tmp ?u) = Some (u_hash ?u)" "length (u_hash ?u) = u_received ?u"
      "int (u_received ?u) \<le> DEFAULT_MAX_UPLOAD_BYTES" and nd: "\<not> u_digested ?u" and own: "(u_fd ?u, u_tmp ?u) \<in> set (fds s)"
    using ok w by (auto simp: upload_ok_def Let_def)
  have fd: "map_of (fds s) (u_fd ?u) = Some (u_tmp ?u)" using inv own by (simp add: upload_inv_def map_of_is_SomeI)
  consider "u_cancelled ?u" | "\<not> u_cancelled ?u" "max_upload_bytes policy < of_nat (u_received ?u + length buf)"
    | "\<not> u_cancelled ?u" "\<not> max_upload_bytes policy < of_nat (u_received ?u + length buf)" by blast
  then show ?thesis
  proof cases
    case 1
    then show ?thesis using inv Some by (simp add: handle_chunk_def)
  next
    case 2
    then show ?thesis using Some inv_drop_live [OF inv m w] by (simp add: handle_chunk_def Let_def session_simps)
  next
    case 3
    then have "of_int (int (u_received ?u + length buf)) \<le> (of_int DEFAULT_MAX_UPLOAD_BYTES :: rat)"
      using max_upload_le [of policy] by simp
    then have le: "int (u_received ?u + length buf) \<le> DEFAULT_MAX_UPLOAD_BYTES" by (simp only: of_int_le_iff)
    show ?thesis
    proof (cases wr)
      case (Inl e)
      have "upload_inv lib (set_obj i (?u\<lparr>u_failure := Some e\<rparr>) s)"
        by (rule inv_modify [OF inv m, where u = "?u\<lparr>u_failure := Some e\<rparr>"])
          (use hash in \<open>auto simp: set_obj_def\<close>)
      then show ?thesis using 3 Some fd Inl by (simp add: handle_chunk_def Let_def write_fd_def)
    next
      case (Inr n)
      then have n: "n = length buf" using polite by simp
      let ?v = "?u\<lparr>u_hash := u_hash ?u @ buf, u_received := u_received ?u + length buf\<rparr>"
      let ?s' = "set_obj i ?v (s\<lparr>disk := (disk s)(u_tmp ?u := Some (u_hash ?u @ buf))\<rparr>)"
      have "upload_inv lib ?s'"
        by (rule inv_modify [OF inv m, where u = ?v]) (use hash le w in \<open>auto simp: set_obj_def\<close>)
      moreover have "write_fd (u_fd ?u) buf wr s = Inr (s\<lparr>disk := (disk s)(u_tmp ?u := Some (u_hash ?u @ buf))\<rparr>)"
        using fd Inr n hash(1) by (simp add: write_fd_def)
      ultimately show ?thesis using 3 Some nd by (simp add: handle_chunk_def Let_def)
    qed
  qed
qed

lemma cancel_inv:
  assumes inv: "upload_inv lib s"
  shows "upload_inv lib (handle_cancel tid s)"
proof -
  let ?s1 = "s\<lparr>cancelled_downloads := List.insert tid (cancelled_downloads s)\<rparr>"
  have inv1: "upload_inv lib ?s1" using inv by (subst same_fields_inv [of _ s]) simp_all
  show ?thesis
  proof (cases "map_of (uploads s) tid")
    case None
    then show ?thesis using inv1 by (simp add: handle_cancel_def Let_def)
  next
    case (Some i)
    then have m: "(tid, i) \<in> set (uploads ?s1)" by (simp add: map_of_SomeD)
    have "upload_inv lib (set_obj i ((objs ?s1 ! i)\<lparr>u_cancelled := True\<rparr>) ?s1)"
      by (rule inv_modify [OF inv1 m, where u = "(objs ?s1 ! i)\<lparr>u_cancelled := True\<rparr>"])
        (use inv_upload_ok [OF inv1 m] in \<open>auto simp: set_obj_def upload_ok_def Let_def\<close>)
    then show ?thesis using Some by (simp add: handle_cancel_def Let_def)
  qed
qed

lemma finish_inv:
  assumes inv: "upload_inv lib s" and polite: "polite s (Answer err f)"
  shows "upload_inv lib (finish_upload lib err f s)"
proof -
  have f: "f \<in> set (finals s)" and target: "f_real f \<notin> u_tmp ` (\<lambda>(tid, i). objs s ! i) ` set (uploads s)" using polite by simp_all
  let ?i = "f_obj f" let ?u = "objs s ! ?i"
  have m: "(f_id f, ?i) \<in> set (uploads s)" using inv_final_ok [OF inv f] by (simp add: final_ok_def Let_def)
  have w: "waiting s ?i" using f by (simp add: waiting_def)
  have closed: "(n, u_tmp ?u) \<notin> set (fds s)" for n using inv_upload_ok [OF inv m] w by (auto simp: upload_ok_def Let_def)
  have df: "distinct (map f_obj (finals s))" using inv by (simp add: upload_inv_def)
  have fin: "set (remove1 f (finals s)) = {g \<in> set (finals s). f_obj g \<noteq> ?i}" "distinct (map f_obj (remove1 f (finals s)))"
  proof -
    have "g = f" if "g \<in> set (finals s)" "f_obj g = f_obj f" for g by (rule distinct_map_inj_on [OF df that(1) f that(2)])
    moreover have "distinct (finals s)" using df by (simp add: distinct_map)
    ultimately show "set (remove1 f (finals s)) = {g \<in> set (finals s). f_obj g \<noteq> ?i}" by auto
    show "distinct (map f_obj (remove1 f (finals s)))" using df by (simp add: distinct_map distinct_remove1 inj_on_def)
  qed
  have forget: "upload_inv lib s'"
    if "objs s' = objs s" "uploads s' = AList.delete (f_id f) (uploads s)" "staging s' = staging s" "fds s' = fds s"
      "finals s' = remove1 f (finals s)" "disk s' = (disk s)(u_tmp ?u := None) \<or> (\<exists>c. disk s' = ((disk s)(u_tmp ?u := None))(f_real f := Some c))" for s'
  proof (rule inv_forget [OF inv m])
    have ne: "u_tmp (objs s ! j) \<noteq> u_tmp ?u \<and> u_tmp (objs s ! j) \<noteq> f_real f" if "(t, j) \<in> set (uploads s)" "j \<noteq> ?i" for t j
      using inv_tmp_inj [OF inv that(1) m that(2)] target that(1) by force
    show "disk s' (u_tmp (objs s ! j)) = disk s (u_tmp (objs s ! j))" if "(t, j) \<in> set (uploads s)" "j \<noteq> ?i" for t j
      using that(1) ne [OF that] \<open>disk s' = _ \<or> _\<close> by auto
    show "disk s' p \<noteq> None" if "p \<noteq> u_tmp ?u" "disk s p \<noteq> None" for p using that \<open>disk s' = _ \<or> _\<close> by auto
    show "set (fds s') = {(n, p). (n, p) \<in> set (fds s) \<and> p \<noteq> u_tmp ?u}" using closed that(4) by auto
  qed (use that fin inv in \<open>simp_all add: upload_inv_def\<close>)
  show ?thesis
  proof (cases "err = None \<and> disk s (u_tmp ?u) \<noteq> None")
    case True
    then obtain c where c: "disk s (u_tmp ?u) = Some c" by blast
    have "upload_inv lib (drop_upload (f_id f) (s\<lparr>finals := remove1 f (finals s), disk := ((disk s)(u_tmp ?u := None))(f_real f := Some c)\<rparr>))"
      by (rule forget) (auto simp: drop_upload_def)
    then show ?thesis using True c by (simp add: finish_upload_def Let_def session_simps)
  next
    case False
    have "upload_inv lib (drop_upload (f_id f) (cleanup_tmp (u_tmp ?u) (s\<lparr>finals := remove1 f (finals s)\<rparr>)))"
      by (rule forget) (auto simp: drop_upload_def cleanup_tmp_def)
    then show ?thesis using False by (auto simp: finish_upload_def Let_def session_simps split: option.split)
  qed
qed

lemma free_fd_free: "free_fd n table \<notin> fst ` set table"
proof (induction n table rule: free_fd.induct)
  case (1 n table)
  then show ?case by (subst free_fd.simps) simp
qed

lemma gate_fields:
  "gate check input tid s = (r, s1) \<Longrightarrow> upload_inv lib s1 = upload_inv lib s \<and> objs s1 = objs s \<and> uploads s1 = uploads s
     \<and> finals s1 = finals s \<and> staging s1 = staging s \<and> disk s1 = disk s \<and> fds s1 = fds s"
proof (cases "check input")
  case (Denied code m)
  moreover have "objs (send x s) = objs s \<and> uploads (send x s) = uploads s \<and> finals (send x s) = finals s \<and> staging (send x s) = staging s
      \<and> disk (send x s) = disk s \<and> fds (send x s) = fds s" for x by (simp add: send_def)
  ultimately show "gate check input tid s = (r, s1) \<Longrightarrow> ?thesis" by (auto simp: gate_def session_simps)
qed (simp add: gate_def)

lemma new_upload_inv:
  assumes inv: "upload_inv lib s" and st: "case staging s of Some d \<Rightarrow> dir = d | None \<Rightarrow> uploads s = []"
    and free: "disk s (p_join lib [dir, tid]) = None"
    and s': "objs s' = objs s @ [\<lparr>u_path = r, u_tmp = p_join lib [dir, tid], u_fd = free_fd 0 (fds s), u_size = sz, u_received = 0,
          u_cancelled = False, u_failure = None, u_hash = [], u_digested = False\<rparr>]"
      "uploads s' = map_set (uploads s) tid (length (objs s))" "finals s' = finals s" "staging s' = Some dir"
      "disk s' = (disk s)(p_join lib [dir, tid] := Some [])" "fds s' = (free_fd 0 (fds s), p_join lib [dir, tid]) # fds s"
  shows "upload_inv lib s'"
proof -
  let ?tmp = "p_join lib [dir, tid]" and ?k = "length (objs s)"
  have old: "upload_ok lib s t j" "j < ?k" "u_tmp (objs s ! j) \<noteq> ?tmp" "t \<noteq> tid" if "(t, j) \<in> set (uploads s)" for t j
  proof -
    show ok: "upload_ok lib s t j" by (rule inv_upload_ok [OF inv that])
    then show "j < ?k" "u_tmp (objs s ! j) \<noteq> ?tmp" using free by (auto simp: upload_ok_def Let_def)
    then show "t \<noteq> tid" using ok st that by (auto simp: upload_ok_def Let_def split: option.splits)
  qed
  have fresh: "tid \<notin> fst ` set (uploads s)"
  proof
    assume "tid \<in> fst ` set (uploads s)"
    then obtain j where "(tid, j) \<in> set (uploads s)" by auto
    from old(4) [OF this] show False by simp
  qed
  have ups: "uploads s' = uploads s @ [(tid, ?k)]" unfolding s'(2) by (rule map_set_new [OF fresh])
  have nth: "objs s' ! j = objs s ! j" if "j < ?k" for j using that by (simp add: s'(1) nth_append)
  have new: "objs s' ! ?k = \<lparr>u_path = r, u_tmp = ?tmp, u_fd = free_fd 0 (fds s), u_size = sz, u_received = 0,
          u_cancelled = False, u_failure = None, u_hash = [], u_digested = False\<rparr>" by (simp add: s'(1))
  have nofd: "(n, ?tmp) \<notin> set (fds s)" for n using inv free by (auto simp: upload_inv_def)
  have w: "waiting s' j = waiting s j" for j by (simp add: waiting_def s'(3))
  have wk: "\<not> waiting s' ?k"
  proof
    assume "waiting s' ?k"
    then obtain f where f: "f \<in> set (finals s)" "f_obj f = ?k" by (auto simp: waiting_def s'(3))
    from inv_final_ok [OF inv f(1)] have "(f_id f, ?k) \<in> set (uploads s)" by (simp add: final_ok_def Let_def f(2))
    then show False using old(2) by blast
  qed
  have ok: "upload_ok lib s' t j" if "(t, j) \<in> set (uploads s')" for t j
  proof (cases "(t, j) \<in> set (uploads s)")
    case True
    have "staging s = Some dir" using st True by (auto split: option.splits)
    then show ?thesis
      using old(3) [OF True] by (intro upload_ok_frame [OF old(1) [OF True] nth [OF old(2) [OF True]]]) (simp_all add: s' w)
  next
    case False
    then have "t = tid" "j = ?k" using that ups by auto
    then show ?thesis using new wk nofd by (simp add: upload_ok_def Let_def DEFAULT_MAX_UPLOAD_BYTES_def s')
  qed
  have tmp: "j = k" if h: "(t, j) \<in> set (uploads s')" "(t', k) \<in> set (uploads s')" "u_tmp (objs s' ! j) = u_tmp (objs s' ! k)" for t j t' k
  proof (rule ccontr)
    assume ne: "j \<noteq> k"
    consider "(t, j) \<in> set (uploads s)" "(t', k) \<in> set (uploads s)" | "j = ?k" "(t', k) \<in> set (uploads s)" | "k = ?k" "(t, j) \<in> set (uploads s)"
      using h(1,2) ne ups by auto
    then show False
    proof cases
      case 1
      then show False using inv_tmp_inj [OF inv 1 ne] h(3) old(2) nth by metis
    next
      case 2
      then show False using h(3) old(2,3) [OF 2(2)] nth new by simp
    next
      case 3
      then show False using h(3) old(2,3) [OF 3(2)] nth new by simp
    qed
  qed
  have fin: "final_ok s' f" if "f \<in> set (finals s')" for f
  proof -
    have ok: "final_ok s f" using inv_final_ok [OF inv] that by (simp add: s'(3))
    then have "(f_id f, f_obj f) \<in> set (uploads s)" by (simp add: final_ok_def Let_def)
    from nth [OF old(2) [OF this]] ok show ?thesis by (simp add: final_ok_def Let_def ups)
  qed
  have d1: "distinct (map fst (uploads s'))" "distinct (map snd (uploads s'))"
  proof -
    have "?k \<notin> snd ` set (uploads s)"
    proof
      assume "?k \<in> snd ` set (uploads s)"
      then obtain t where "(t, ?k) \<in> set (uploads s)" by auto
      from old(2) [OF this] show False by simp
    qed
    then show "distinct (map fst (uploads s'))" "distinct (map snd (uploads s'))"
      using inv fresh by (simp_all add: upload_inv_def ups)
  qed
  have d2: "distinct (map fst (fds s'))" using inv free_fd_free [of 0 "fds s"] by (simp add: upload_inv_def s'(6))
  have dk: "\<forall>(n, p) \<in> set (fds s'). disk s' p \<noteq> None" using inv by (auto simp: upload_inv_def s'(5,6))
  have "distinct (map f_obj (finals s'))" using inv by (simp add: upload_inv_def s'(3))
  with d1 d2 ok tmp fin dk show ?thesis unfolding upload_inv_def by fast
qed

lemma start_inv:
  assumes inv: "upload_inv lib s"
  shows "upload_inv lib (handle_upload_start lib check policy mk tid dest sz s)"
proof -
  obtain r s1 where g: "gate check dest (Some tid) s = (r, s1)" by (cases "gate check dest (Some tid) s")
  have inv1: "upload_inv lib s1" using gate_fields [OF g] inv by simp
  have empty: "staging s1 = None \<Longrightarrow> uploads s1 = []"
    using inv_upload_ok [OF inv1] by (cases "uploads s1") (auto simp: upload_ok_def Let_def)
  show ?thesis
  proof (cases "case sz of Fin q \<Rightarrow> max_upload_bytes policy < q | _ \<Rightarrow> False")
    case True
    then show ?thesis using inv by (simp add: handle_upload_start_def Let_def session_simps)
  next
    case small: False
    show ?thesis
    proof (cases r)
      case None
      then show ?thesis using small g inv1 by (simp add: handle_upload_start_def Let_def session_simps)
    next
      case (Some target)
      show ?thesis
      proof (cases "case staging s1 of Some d \<Rightarrow> Inr d | None \<Rightarrow> mk")
        case (Inl m)
        then show ?thesis using small g Some inv1 by (simp add: handle_upload_start_def Let_def session_simps)
      next
        case (Inr dir)
        let ?s2 = "s1\<lparr>staging := Some dir\<rparr>"
        have dir: "case staging s1 of Some d \<Rightarrow> dir = d | None \<Rightarrow> uploads s1 = []" using Inr empty by (auto split: option.splits)
        show ?thesis
        proof (cases "disk s1 (p_join lib [dir, tid])")
          case None
          let ?u = "\<lparr>u_path = target, u_tmp = p_join lib [dir, tid], u_fd = free_fd 0 (fds s1), u_size = sz, u_received = 0,
            u_cancelled = False, u_failure = None, u_hash = [], u_digested = False\<rparr>"
          have "upload_inv lib (?s2\<lparr>disk := (disk s1)(p_join lib [dir, tid] := Some []), fds := (free_fd 0 (fds s1), p_join lib [dir, tid]) # fds s1,
              objs := objs s1 @ [?u], uploads := map_set (uploads s1) tid (length (objs s1))\<rparr>)"
            by (rule new_upload_inv [OF inv1 dir None]) simp_all
          then show ?thesis using small g Some Inr None by (simp add: handle_upload_start_def Let_def session_simps)
        next
          case (Some c)
          have "upload_inv lib ?s2"
          proof (cases "staging s1")
            case None
            then have "uploads s1 = []" "finals s1 = []"
              using empty inv_final_ok [OF inv1] by (cases "finals s1"; auto simp: final_ok_def Let_def)+
            then show ?thesis using inv1 by (simp add: upload_inv_def)
          next
            case (Some d)
            then show ?thesis using inv1 Inr by (subst same_fields_inv [of _ s1]) simp_all
          qed
          then show ?thesis using small g \<open>r = Some target\<close> Inr Some by (simp add: handle_upload_start_def Let_def session_simps)
        qed
      qed
    qed
  qed
qed

lemma set_obj_close: "set_obj i u (close_fd n s) = close_fd n (set_obj i u s)"
  by (simp add: set_obj_def close_fd_def)

lemma inv_await:
  assumes inv: "upload_inv lib s" and m: "(tid, i) \<in> set (uploads s)" and w: "\<not> waiting s i"
    and u: "u_tmp u = u_tmp (objs s ! i)" "u_hash u = u_hash (objs s ! i)" "u_received u = u_received (objs s ! i)" "u_digested u"
      "num_lt (Fin 0) (u_size u) \<Longrightarrow> u_size u = Fin (of_nat (u_received u))"
    and s': "objs s' = (objs s)[i := u]" "uploads s' = uploads s" "staging s' = staging s" "disk s' = disk s"
      "fds s' = AList.delete (u_fd (objs s ! i)) (fds s)"
      "finals s' = finals s @ [\<lparr>f_id = tid, f_obj = i, f_real = target, f_digest = u_hash u\<rparr>]"
  shows "upload_inv lib s'"
proof -
  let ?u = "objs s ! i"
  note oku = inv_upload_ok [OF inv m, unfolded upload_ok_def Let_def]
  have i: "i < length (objs s)" and own: "(u_fd ?u, u_tmp ?u) \<in> set (fds s)" using oku w by blast+
  have only: "n = u_fd ?u" if "(n, u_tmp ?u) \<in> set (fds s)" for n using oku that by blast
  have dist: "distinct (map fst (fds s))" using inv by (simp add: upload_inv_def)
  have unique: "p = u_tmp ?u" if "(u_fd ?u, p) \<in> set (fds s)" for p
    using distinct_map_inj_on [OF dist own that] by simp
  have fd: "(n, p) \<in> set (fds s') \<longleftrightarrow> (n, p) \<in> set (fds s) \<and> n \<noteq> u_fd ?u" for n p by (auto simp: s'(5) AList.delete_eq)
  have ok: "upload_ok lib s' t j" if "(t, j) \<in> set (uploads s')" for t j
  proof -
    have j: "(t, j) \<in> set (uploads s)" using that by (simp add: s'(2))
    show ?thesis
    proof (cases "j = i")
      case True
      then have "t = tid" using uploads_unique [OF inv j m] by simp
      moreover have "waiting s' i" by (simp add: waiting_def s'(6))
      moreover have "(n, u_tmp ?u) \<notin> set (fds s')" for n using only fd by blast
      ultimately show ?thesis using oku u True i by (simp add: upload_ok_def Let_def s'(1,3,4))
    next
      case False
      have ne: "u_tmp (objs s ! j) \<noteq> u_tmp ?u" by (rule inv_tmp_inj [OF inv j m False])
      show ?thesis
        by (rule upload_ok_frame [OF inv_upload_ok [OF inv j]])
          (use False ne unique fd in \<open>auto simp: s'(1,3,4) waiting_def s'(6)\<close>)
    qed
  qed
  have tmp: "u_tmp (objs s' ! j) = u_tmp (objs s ! j)" for j using u(1) i by (cases "j = i") (simp_all add: s'(1))
  have inj: "\<forall>(t, j) \<in> set (uploads s'). \<forall>(t', k) \<in> set (uploads s'). u_tmp (objs s' ! j) = u_tmp (objs s' ! k) \<longrightarrow> j = k"
    using inv by (simp add: upload_inv_def tmp s'(2))
  have fin: "final_ok s' f" if "f \<in> set (finals s')" for f
  proof (cases "f \<in> set (finals s)")
    case True
    then have "f_obj f \<noteq> i" using w by (auto simp: waiting_def)
    then show ?thesis using inv_final_ok [OF inv True] by (simp add: final_ok_def Let_def s'(1,2))
  next
    case False
    then have f: "f_id f = tid" "f_obj f = i" "f_digest f = u_hash u" using that by (auto simp: s'(6))
    then show ?thesis using u(4,5) m i by (simp add: final_ok_def Let_def s'(1,2))
  qed
  have "i \<notin> f_obj ` set (finals s)" using w by (simp add: waiting_def)
  then have df: "distinct (map f_obj (finals s'))" using inv by (simp add: upload_inv_def s'(6))
  have dfd: "distinct (map fst (fds s'))" by (simp add: s'(5) AList.distinct_delete dist)
  have dk: "\<forall>(n, p) \<in> set (fds s'). disk s' p \<noteq> None" using inv fd by (auto simp: upload_inv_def s'(4))
  have "distinct (map fst (uploads s'))" "distinct (map snd (uploads s'))" using inv by (simp_all add: upload_inv_def s'(2))
  with ok inj fin df dfd dk show ?thesis unfolding upload_inv_def by fast
qed

lemma done_inv:
  assumes inv: "upload_inv lib s" and polite: "polite s (Done check tid)"
  shows "upload_inv lib (handle_upload_done lib check show_num tid s)"
proof (cases "map_of (uploads s) tid")
  case None
  then show ?thesis using inv by (simp add: handle_upload_done_def)
next
  case (Some i)
  let ?u0 = "objs s ! i"
  have m: "(tid, i) \<in> set (uploads s)" using Some by (rule map_of_SomeD)
  have w: "\<not> waiting s i" using polite Some by simp
  note ok = inv_upload_ok [OF inv m, unfolded upload_ok_def Let_def]
  have nd: "\<not> u_digested ?u0" using ok w by blast
  let ?short = "\<not> u_cancelled ?u0 \<and> no_failure ?u0 \<and> num_lt (Fin 0) (u_size ?u0) \<and> u_size ?u0 \<noteq> Fin (of_nat (u_received ?u0))"
  obtain u where u_eq: "u = (if ?short then ?u0\<lparr>u_digested := True, u_failure := Some (incomplete_text ?u0 show_num)\<rparr>
    else ?u0\<lparr>u_digested := True\<rparr>)" by simp
  then have tmp: "u_tmp u = u_tmp ?u0" by simp
  have gone: "upload_inv lib (drop_upload tid (cleanup_tmp (u_tmp u) (set_obj i u (close_fd (u_fd ?u0) s))))"
    unfolding tmp set_obj_close by (rule inv_drop_live [OF inv m w])
  have unfold: "handle_upload_done lib check show_num tid s =
     (let s2 = set_obj i u (close_fd (u_fd ?u0) s); gone = drop_upload tid (cleanup_tmp (u_tmp u) s2);
          audit = (\<lambda>status err. upload_audit lib tid (u_path u) (u_size u) (u_received u) status err)
      in if \<not> no_failure u
         then let m = (case u_failure u of Some m \<Rightarrow> m | None \<Rightarrow> [])
              in send_audit (audit ''failed'' m) (send (MError ''UPLOAD_INCOMPLETE'' m (Some tid)) gone)
         else if u_cancelled u then send_audit (audit ''cancelled'' []) gone
         else case check (u_path u) of
           Denied code m \<Rightarrow>
             send_audit (audit ''failed'' ''blocked by remote access path policy'') (send (MError (code_text code) m (Some tid)) gone)
         | Allowed target \<Rightarrow> s2\<lparr>finals := finals s2 @ [\<lparr>f_id = tid, f_obj = i, f_real = target, f_digest = u_hash u\<rparr>]\<rparr>)"
    unfolding handle_upload_done_def Some option.case Let_def if_not_P [OF nd] u_eq by (rule refl)
  consider "\<not> no_failure u" | "no_failure u" "u_cancelled u" | "no_failure u" "\<not> u_cancelled u" by blast
  then show ?thesis
  proof cases
    case 1
    then show ?thesis using gone unfolding unfold Let_def by (simp add: session_simps del: if_split)
  next
    case 2
    then show ?thesis using gone unfolding unfold Let_def by (simp add: session_simps del: if_split)
  next
    case 3
    show ?thesis
    proof (cases "check (u_path u)")
      case (Denied code mg)
      then show ?thesis using gone 3 unfolding unfold Let_def by (simp add: session_simps del: if_split)
    next
      case (Allowed target)
      have ns: "\<not> ?short" using 3(1) by (auto simp: u_eq no_failure_def incomplete_text_def split: if_splits)
      then have u: "u = ?u0\<lparr>u_digested := True\<rparr>" unfolding u_eq by (rule if_not_P)
      have whole: "u_size ?u0 = Fin (of_nat (u_received ?u0))" if "num_lt (Fin 0) (u_size ?u0)"
        using ns that 3 by (auto simp: u no_failure_def)
      let ?s2 = "set_obj i u (close_fd (u_fd ?u0) s)"
      have "upload_inv lib (?s2\<lparr>finals := finals ?s2 @ [\<lparr>f_id = tid, f_obj = i, f_real = target, f_digest = u_hash u\<rparr>]\<rparr>)"
        by (rule inv_await [OF inv m w, where u = u and target = target])
          (use whole in \<open>simp_all add: u set_obj_def close_fd_def\<close>)
      then show ?thesis using 3 Allowed unfolding unfold Let_def by (simp del: if_split)
    qed
  qed
qed

lemma new_session_inv: "distinct (map fst table) \<Longrightarrow> \<forall>(n, p) \<in> set table. dsk p \<noteq> None \<Longrightarrow> upload_inv lib (new_session table dsk)"
  by (simp add: upload_inv_def new_session_def)

lemma upload_run_inv: "upload_run lib show_num s \<Longrightarrow> upload_inv lib s"
proof (induction rule: upload_run.induct)
  case (step s e)
  then show ?case
    by (cases e) (simp_all add: start_inv chunk_inv done_inv finish_inv cancel_inv del: polite.simps)
qed (rule new_session_inv)

section \<open>Properties\<close>

text \<open>C13. An upload that is reported complete is whole. In every session of well-behaved peers and disks (whatever order the messages of the
  transfers come in), when the handler of an \<open>uploadDone\<close> hears from the disk that the directory and the rename went well, the
  target holds exactly the bytes that were hashed; the browser is told their number and their digest, the number is the declared size
  when one was declared and never above 2 GiB, and the transfer and its staging file are gone.\<close>

theorem completed_upload_is_whole:
  assumes "upload_run lib show_num s" and "polite s (Answer None f)"
  shows "let s' = finish_upload lib None f s; u = objs s ! f_obj f
     in disk s' (f_real f) = Some (f_digest f)
      \<and> (disposed s \<or> last (sent s') = MComplete (f_id f) (length (f_digest f)) (f_digest f))
      \<and> ta_status (last (audits s')) = ''completed'' \<and> ta_transferred (last (audits s')) = length (f_digest f)
      \<and> (num_lt (Fin 0) (u_size u) \<longrightarrow> u_size u = Fin (of_nat (length (f_digest f))))
      \<and> int (length (f_digest f)) \<le> DEFAULT_MAX_UPLOAD_BYTES
      \<and> map_of (uploads s') (f_id f) = None \<and> disk s' (u_tmp u) = None"
proof -
  have inv: "upload_inv lib s" by (rule upload_run_inv [OF assms(1)])
  have f: "f \<in> set (finals s)" "f_real f \<notin> u_tmp ` (\<lambda>(tid, i). objs s ! i) ` set (uploads s)" using assms(2) by simp_all
  let ?u = "objs s ! f_obj f"
  note fo = inv_final_ok [OF inv f(1), unfolded final_ok_def Let_def]
  then have m: "(f_id f, f_obj f) \<in> set (uploads s)" by blast
  note ok = inv_upload_ok [OF inv m, unfolded upload_ok_def Let_def]
  have d: "disk s (u_tmp ?u) = Some (f_digest f)" and len: "u_received ?u = length (f_digest f)"
    and le: "int (length (f_digest f)) \<le> DEFAULT_MAX_UPLOAD_BYTES" using ok fo by simp_all
  have ne: "u_tmp ?u \<noteq> f_real f" using f(2) m by force
  show ?thesis
    using fo d le ne unfolding len
    by (auto simp: finish_upload_def Let_def len send_audit_def send_def drop_upload_def upload_audit_def AList.delete_conv')
qed

text \<open>Two transfers that follow the rules.\<close>

definition open_check :: "string \<Rightarrow> decision" where
  "open_check p = Allowed p"

definition no_num :: "jsnum \<Rightarrow> string" where
  "no_num _ = []"

definition begun :: file_session where
  "begun = foldl (\<lambda>s e. upload_step (posix_lib ''/'') no_num e s) (new_session [] (\<lambda>_. None))
     [Start open_check JNull (Inr ''/tmp/s'') ''A'' ''/tmp/a'' (Fin 2), Chunk JNull (Inr 2) ''A'' ''hi'', Done open_check ''A'']"

lemma begun_run: "upload_run (posix_lib ''/'') no_num begun"
proof -
  let ?step = "upload_step (posix_lib ''/'') no_num"
  let ?s0 = "new_session [] (\<lambda>_. None)"
  let ?e1 = "Start open_check JNull (Inr ''/tmp/s'') ''A'' ''/tmp/a'' (Fin 2)" let ?e2 = "Chunk JNull (Inr 2) ''A'' ''hi''"
  let ?e3 = "Done open_check ''A''"
  have r0: "upload_run (posix_lib ''/'') no_num ?s0" by (rule upload_run.fresh) simp_all
  have r1: "upload_run (posix_lib ''/'') no_num (?step ?e1 ?s0)" by (rule upload_run.step [OF r0]) simp
  have p2: "polite (?step ?e1 ?s0) ?e2" by code_simp
  have r2: "upload_run (posix_lib ''/'') no_num (?step ?e2 (?step ?e1 ?s0))" by (rule upload_run.step [OF r1 p2])
  have p3: "polite (?step ?e2 (?step ?e1 ?s0)) ?e3" by code_simp
  show ?thesis unfolding begun_def foldl.simps by (rule upload_run.step [OF r2 p3])
qed

lemma completed_upload_is_whole_witness:
  "disk (finish_upload (posix_lib ''/'') None \<lparr>f_id = ''A'', f_obj = 0, f_real = ''/tmp/a'', f_digest = ''hi''\<rparr> begun) ''/tmp/a'' = Some ''hi''"
proof -
  have "polite begun (Answer None \<lparr>f_id = ''A'', f_obj = 0, f_real = ''/tmp/a'', f_digest = ''hi''\<rparr>)" by code_simp
  from completed_upload_is_whole [OF begun_run this] show ?thesis unfolding Let_def by simp
qed


text \<open>Nor without a disk that writes whole buffers. The number of bytes \<open>writeSync\<close> says it wrote is not looked at: a write cut short (a disk
  almost full) counts as whole, and the short file is renamed into place and reported complete with the declared size.\<close>

theorem short_write_reported_complete:
  "let step = upload_step (posix_lib ''/'') no_num;
       s = foldl (\<lambda>s e. step e s) (new_session [] (\<lambda>_. None))
         [Start open_check JNull (Inr ''/tmp/s'') ''A'' ''/tmp/a'' (Fin 4), Chunk JNull (Inr 1) ''A'' ''full'', Done open_check ''A''];
       s' = step (Answer None \<lparr>f_id = ''A'', f_obj = 0, f_real = ''/tmp/a'', f_digest = ''full''\<rparr>) s
   in last (sent s') = MComplete ''A'' 4 ''full'' \<and> ta_status (last (audits s')) = ''completed'' \<and> disk s' ''/tmp/a'' = Some ''f''"
  by code_simp

end
