(* ===== verification/Inventory_Delta.thy ===== *)
theory Inventory_Delta
  imports Jsval
begin

text \<open>
  The inventories that travel as deltas: software (\<open>domain/software-inventory-delta.ts\<close>, \<open>software-baseline-repo.ts\<close>),
  printers (\<open>printer-inventory-delta.ts\<close>, \<open>printer-baseline-repo.ts\<close>) and browser extensions
  (\<open>browser-extension-inventory-delta.ts\<close>, \<open>browser-extension-baseline-repo.ts\<close>). The three sources are mirrors of
  one another; what differs (identity, the test for "updated", what a stored row keeps) is a record
  \<open>asset\<close>, and the common code is written once over it. The laws the three share are the locale \<open>asset_laws\<close>.
\<close>

section \<open>The common code\<close>

text \<open>
  \<open>a_store\<close> is the row an upsert writes when the identity is new, \<open>a_keep old x\<close> the one it writes over \<open>old\<close>
  (the first sighting stays); rows that are not \<open>a_valid\<close> are skipped by the upsert.
\<close>

record 'a asset =
  a_key :: "'a \<Rightarrow> string"
  a_updated :: "'a \<Rightarrow> 'a \<Rightarrow> bool"
  a_valid :: "'a \<Rightarrow> bool"
  a_store :: "'a \<Rightarrow> 'a"
  a_keep :: "'a \<Rightarrow> 'a \<Rightarrow> 'a"

record 'a delta =
  added :: "'a list"
  removed :: "'a list"
  updated :: "'a list"
  unchanged :: nat

record 'a delta_result =
  dr_delta :: "'a delta"
  dr_changes :: bool
  dr_count :: nat

type_synonym 'a baseline = "(string \<times> 'a) list"

text \<open>\<open>for (x of xs) if (id) m.set(id, x)\<close>: the last row of an identity wins.\<close>

definition index_rows :: "('a \<Rightarrow> string) \<Rightarrow> 'a list \<Rightarrow> 'a baseline" where
  "index_rows key xs = foldl (\<lambda>m x. if key x = [] then m else map_set m (key x) x) [] xs"

text \<open>\<open>computeSoftwareDelta\<close>, \<open>computePrinterDelta\<close>, \<open>computeBrowserExtensionDelta\<close>; \<open>collate\<close> is \<open>localeCompare <= 0\<close>.\<close>

definition compute_delta :: "(string \<Rightarrow> string \<Rightarrow> bool) \<Rightarrow> 'a asset \<Rightarrow> 'a list \<Rightarrow> 'a list \<Rightarrow> 'a delta_result" where
  "compute_delta collate A current previous =
     (let prev = index_rows (a_key A) previous; cur = index_rows (a_key A) current;
          sort = sort_by (\<lambda>x y. collate (a_key A x) (a_key A y));
          add = sort (filter (\<lambda>x. map_of prev (a_key A x) = None) (map snd cur));
          upd = sort (filter (\<lambda>x. case map_of prev (a_key A x) of None \<Rightarrow> False | Some p \<Rightarrow> a_updated A p x) (map snd cur));
          rem = sort (filter (\<lambda>x. map_of cur (a_key A x) = None) (map snd prev))
      in \<lparr>dr_delta = \<lparr>added = add, removed = rem, updated = upd, unchanged = length cur - length add - length upd\<rparr>,
          dr_changes = (add \<noteq> [] \<or> rem \<noteq> [] \<or> upd \<noteq> []), dr_count = length cur\<rparr>)"

text \<open>\<open>toBaselineOps\<close> and its mirrors.\<close>

definition to_baseline_ops :: "'a asset \<Rightarrow> 'a delta \<Rightarrow> 'a list \<times> string list" where
  "to_baseline_ops A d = (added d @ updated d, filter (\<lambda>k. k \<noteq> []) (map (a_key A) (removed d)))"

text \<open>The baseline tables: load (ordered by the key), upsert in one transaction, delete, clear.\<close>

definition load_rows :: "'a baseline \<Rightarrow> 'a list" where
  "load_rows b = map snd (sort_key fst b)"

definition upsert_row :: "'a asset \<Rightarrow> 'a baseline \<Rightarrow> 'a \<Rightarrow> 'a baseline" where
  "upsert_row A b x =
     (if \<not> a_valid A x then b
      else map_set b (a_key A x) (case map_of b (a_key A x) of None \<Rightarrow> a_store A x | Some old \<Rightarrow> a_keep A old x))"

definition upsert_rows :: "'a asset \<Rightarrow> 'a list \<Rightarrow> 'a baseline \<Rightarrow> 'a baseline" where
  "upsert_rows A xs b = foldl (upsert_row A) b xs"

definition delete_rows :: "string list \<Rightarrow> 'a baseline \<Rightarrow> 'a baseline" where
  "delete_rows ks b = filter (\<lambda>(k, _). k \<notin> set ks) b"

definition clear_rows :: "'a baseline \<Rightarrow> 'a baseline" where
  "clear_rows b = []"

section \<open>The three assets\<close>

text \<open>\<open>normalize\<close>: \<open>value ? value.trim().toLowerCase() : ""\<close>.\<close>

definition normalize_value :: "string option \<Rightarrow> string" where
  "normalize_value v = (case v of None \<Rightarrow> [] | Some s \<Rightarrow> to_lower (trim s))"

record software_app =
  sw_id :: string
  sw_name :: string
  sw_source :: string
  sw_version :: "string option"
  sw_publisher :: "string option"
  sw_location :: "string option"
  sw_package :: "string option"
  sw_uninstall :: "string option"
  sw_quiet :: "string option"
  sw_product :: "string option"
  sw_key_path :: "string option"
  sw_installed_on :: "string option"
  sw_detected :: string

definition app_identity :: "software_app \<Rightarrow> string" where
  "app_identity a = join_with [CHR 0x00] (map normalize_value [sw_product a, sw_uninstall a, sw_quiet a, sw_key_path a])"

definition is_app_updated :: "software_app \<Rightarrow> software_app \<Rightarrow> bool" where
  "is_app_updated prev cur \<longleftrightarrow>
     (let installed = normalize_value (sw_installed_on cur);
          installed_changed = (installed \<noteq> [] \<and> installed \<noteq> normalize_value (sw_installed_on prev))
      in \<not> (normalize_value (sw_version prev) = normalize_value (sw_version cur)
          \<and> normalize_value (sw_publisher prev) = normalize_value (sw_publisher cur)
          \<and> normalize_value (sw_location prev) = normalize_value (sw_location cur)
          \<and> normalize_value (sw_package prev) = normalize_value (sw_package cur)
          \<and> app_identity prev = app_identity cur \<and> \<not> installed_changed))"

definition software_asset :: "software_app asset" where
  "software_asset = \<lparr>a_key = sw_id, a_updated = is_app_updated,
     a_valid = (\<lambda>a. sw_id a \<noteq> [] \<and> sw_name a \<noteq> [] \<and> sw_source a \<noteq> []),
     a_store = (\<lambda>a. a), a_keep = (\<lambda>old a. a\<lparr>sw_detected := sw_detected old\<rparr>)\<rparr>"

record printer =
  pr_id :: string
  pr_name :: string
  pr_source :: string
  pr_driver :: "string option"
  pr_port :: "string option"
  pr_default :: "bool option"
  pr_network :: "bool option"
  pr_shared :: "bool option"
  pr_location :: "string option"
  pr_comments :: "string option"
  pr_share_name :: "string option"
  pr_host :: "string option"
  pr_status :: "string option"
  pr_detected :: string

text \<open>\<open>Boolean(v)\<close>\<close>

definition flag :: "bool option \<Rightarrow> bool" where
  "flag v \<longleftrightarrow> v = Some True"

definition is_printer_updated :: "printer \<Rightarrow> printer \<Rightarrow> bool" where
  "is_printer_updated prev cur \<longleftrightarrow>
     \<not> (normalize_value (pr_driver prev) = normalize_value (pr_driver cur)
      \<and> normalize_value (pr_port prev) = normalize_value (pr_port cur)
      \<and> normalize_value (pr_location prev) = normalize_value (pr_location cur)
      \<and> normalize_value (pr_comments prev) = normalize_value (pr_comments cur)
      \<and> flag (pr_default prev) = flag (pr_default cur)
      \<and> flag (pr_shared prev) = flag (pr_shared cur)
      \<and> flag (pr_network prev) = flag (pr_network cur)
      \<and> normalize_value (pr_share_name prev) = normalize_value (pr_share_name cur)
      \<and> normalize_value (pr_host prev) = normalize_value (pr_host cur))"

definition store_printer :: "printer \<Rightarrow> printer" where
  "store_printer p = p\<lparr>pr_default := Some (flag (pr_default p)), pr_network := Some (flag (pr_network p)), pr_shared := Some (flag (pr_shared p))\<rparr>"

definition printer_asset :: "printer asset" where
  "printer_asset = \<lparr>a_key = pr_id, a_updated = is_printer_updated,
     a_valid = (\<lambda>p. pr_id p \<noteq> [] \<and> pr_name p \<noteq> [] \<and> pr_source p \<noteq> []),
     a_store = store_printer, a_keep = (\<lambda>old p. (store_printer p)\<lparr>pr_detected := pr_detected old\<rparr>)\<rparr>"

record extension =
  ex_id :: string
  ex_name :: string
  ex_version :: "string option"
  ex_enabled :: "bool option"
  ex_source :: string
  ex_permissions :: "string list"
  ex_hosts :: "string list"
  ex_manifest :: "nat option"
  ex_update_url :: "string option"
  ex_installed :: "string option"
  ex_detected :: string

definition same_list :: "string list \<Rightarrow> string list \<Rightarrow> bool" where
  "same_list a b \<longleftrightarrow> sort a = sort b"

definition is_extension_updated :: "extension \<Rightarrow> extension \<Rightarrow> bool" where
  "is_extension_updated prev cur \<longleftrightarrow>
     \<not> (ex_name prev = ex_name cur \<and> ex_version prev = ex_version cur \<and> ex_enabled prev = ex_enabled cur
      \<and> ex_source prev = ex_source cur \<and> ex_manifest prev = ex_manifest cur \<and> ex_update_url prev = ex_update_url cur
      \<and> same_list (ex_permissions prev) (ex_permissions cur) \<and> same_list (ex_hosts prev) (ex_hosts cur))"

definition extension_asset :: "extension asset" where
  "extension_asset = \<lparr>a_key = ex_id, a_updated = is_extension_updated,
     a_valid = (\<lambda>e. ex_id e \<noteq> [] \<and> ex_detected e \<noteq> []),
     a_store = (\<lambda>e. e), a_keep = (\<lambda>old e. e\<lparr>ex_detected := ex_detected old\<rparr>)\<rparr>"

section \<open>One collection cycle\<close>

text \<open>What travels: the whole list, or a delta, or only the count.\<close>

record 'a report =
  rp_count :: nat
  rp_items :: "'a list option"
  rp_delta :: "'a delta option"
  rp_changes :: bool

text \<open>The common part of the providers: first run, changes, no changes.\<close>

definition full_cycle :: "(string \<Rightarrow> string \<Rightarrow> bool) \<Rightarrow> 'a asset \<Rightarrow> 'a list \<Rightarrow> 'a baseline \<Rightarrow> 'a report \<times> 'a baseline" where
  "full_cycle collate A current b =
     (let previous = load_rows b in
      if previous = []
      then (\<lparr>rp_count = length current, rp_items = Some current, rp_delta = None, rp_changes = True\<rparr>, upsert_rows A current b)
      else let r = compute_delta collate A current previous in
        if \<not> dr_changes r then (\<lparr>rp_count = dr_count r, rp_items = None, rp_delta = None, rp_changes = False\<rparr>, b)
        else let (ups, dels) = to_baseline_ops A (dr_delta r)
             in (\<lparr>rp_count = dr_count r, rp_items = None, rp_delta = Some (dr_delta r), rp_changes = True\<rparr>,
                 delete_rows dels (upsert_rows A ups b)))"

text \<open>The extensions' own copies of the common code: each row of their table holds the extension as one JSON text.\<close>

definition compute_extension_delta :: "(string \<Rightarrow> string \<Rightarrow> bool) \<Rightarrow> extension list \<Rightarrow> extension list \<Rightarrow> extension delta_result" where
  "compute_extension_delta collate current previous = compute_delta collate extension_asset current previous"

definition to_extension_ops :: "extension delta \<Rightarrow> extension list \<times> string list" where
  "to_extension_ops d = to_baseline_ops extension_asset d"

definition load_extensions :: "extension baseline \<Rightarrow> extension list" where
  "load_extensions b = load_rows b"

definition upsert_extensions :: "extension list \<Rightarrow> extension baseline \<Rightarrow> extension baseline" where
  "upsert_extensions xs b = upsert_rows extension_asset xs b"

definition delete_extensions :: "string list \<Rightarrow> extension baseline \<Rightarrow> extension baseline" where
  "delete_extensions ks b = filter (\<lambda>(k, _). k = [] \<or> k \<notin> set ks) b"

text \<open>\<open>buildBrowserExtensionInventory\<close>: a scan that could not look leaves the baseline alone.\<close>

definition extension_cycle :: "(string \<Rightarrow> string \<Rightarrow> bool) \<Rightarrow> string \<Rightarrow> extension list \<Rightarrow> extension baseline \<Rightarrow> extension report \<times> extension baseline" where
  "extension_cycle collate scope current b =
     (if scope \<noteq> ''collected'' then (\<lparr>rp_count = 0, rp_items = None, rp_delta = None, rp_changes = False\<rparr>, b)
      else let previous = load_extensions b in
        if previous = []
        then (\<lparr>rp_count = length current, rp_items = Some current, rp_delta = None, rp_changes = True\<rparr>, upsert_extensions current b)
        else let r = compute_extension_delta collate current previous in
          if \<not> dr_changes r then (\<lparr>rp_count = dr_count r, rp_items = None, rp_delta = None, rp_changes = False\<rparr>, b)
          else let (ups, dels) = to_extension_ops (dr_delta r)
               in (\<lparr>rp_count = dr_count r, rp_items = None, rp_delta = Some (dr_delta r), rp_changes = True\<rparr>,
                   delete_extensions dels (upsert_extensions ups b)))"

text \<open>\<open>userSidOfKeyPath\<close>: the SID of \<open>HKU\<backslash>S-1-5-21-d-d-d-d\<backslash>...\<close> (or \<open>S-1-12-1\<close>), in capitals.\<close>

definition back_slash :: char where "back_slash = CHR 0x5C"

definition user_sid_of_key_path :: "string option \<Rightarrow> string option" where
  "user_sid_of_key_path kp =
     (case split_on back_slash (to_upper (case kp of None \<Rightarrow> [] | Some s \<Rightarrow> s)) of
        hive # sid # _ # _ \<Rightarrow>
          (case split_on CHR ''-'' sid of
             [a, b, c, d, e, f, g, h] \<Rightarrow>
               if hive = ''HKU'' \<and> a = ''S'' \<and> b = ''1'' \<and> (c = ''5'' \<and> d = ''21'' \<or> c = ''12'' \<and> d = ''1'')
                  \<and> all_digits e \<and> all_digits f \<and> all_digits g \<and> all_digits h then Some sid else None
           | _ \<Rightarrow> None)
      | _ \<Rightarrow> None)"

text \<open>\<open>carryOverUnreadUserApps\<close>\<close>

definition carry_over_unread_user_apps :: "software_app list \<Rightarrow> software_app list \<Rightarrow> string list option \<Rightarrow> software_app list \<times> nat" where
  "carry_over_unread_user_apps current previous sids =
     (case sids of
        None \<Rightarrow> (current, 0)
      | Some ss \<Rightarrow>
          if ss = [] then (current, 0)
          else let unread = map to_upper ss;
                   carried = filter (\<lambda>p. sw_id p \<noteq> [] \<and> sw_id p \<notin> set (map sw_id current)
                     \<and> (case user_sid_of_key_path (sw_key_path p) of None \<Rightarrow> False | Some sid \<Rightarrow> sid \<in> set unread)) previous
               in (current @ carried, length carried))"

text \<open>\<open>carryOverUnreadReceipts\<close>: \<open>gap\<close> is whether every receipt was unread, and which were.\<close>

definition carry_over_unread_receipts :: "software_app list \<Rightarrow> software_app list \<Rightarrow> bool \<Rightarrow> string list \<Rightarrow> software_app list \<times> nat" where
  "carry_over_unread_receipts current previous all ids =
     (if \<not> all \<and> ids = [] then (current, 0)
      else let carried = filter (\<lambda>p. sw_id p \<noteq> [] \<and> sw_id p \<notin> set (map sw_id current) \<and> to_lower (sw_source p) = ''pkgutil''
                 \<and> (all \<or> (case sw_package p of Some f \<Rightarrow> f | None \<Rightarrow> sw_name p) \<in> set ids)) previous
           in (current @ carried, length carried))"

text \<open>The software part of the Windows provider: an empty reading clears the baseline; otherwise carry over, sort, and the common cycle.\<close>

definition windows_software_cycle ::
  "(string \<Rightarrow> string \<Rightarrow> bool) \<Rightarrow> software_app list \<Rightarrow> string list option \<Rightarrow> software_app baseline \<Rightarrow> software_app report \<times> software_app baseline" where
  "windows_software_cycle collate apps sids b =
     (if apps = []
      then (\<lparr>rp_count = 0, rp_items = Some [], rp_delta = None, rp_changes = True\<rparr>,
            delete_rows (filter (\<lambda>k. k \<noteq> []) (map sw_id (load_rows b))) b)
      else full_cycle collate software_asset
             (sort_by (\<lambda>x y. collate (sw_id x) (sw_id y)) (fst (carry_over_unread_user_apps apps (load_rows b) sids))) b)"

section \<open>Printers\<close>

text \<open>\<open>printerNoiseKind\<close>: sessions and virtual queues stay on the device; \<open>virtual_port\<close> is the pattern \<open>VIRTUAL_PORT\<close>.\<close>

definition newline_free :: "string \<Rightarrow> bool" where
  "newline_free s \<longleftrightarrow> \<not> list_ex (\<lambda>c. char_code c = 10 \<or> char_code c = 13) s"

definition contains :: "string \<Rightarrow> string \<Rightarrow> bool" where
  "contains s w \<longleftrightarrow> sublist w s"

definition virtual_port :: "string \<Rightarrow> bool" where
  "virtual_port port =
     (let p = to_lower port; pre = starts_with p;
          pdf = dropWhile (\<lambda>c. 97 \<le> char_code c \<and> char_code c \<le> 122) (drop 3 p)
      in list_ex pre [''portprompt:'', ''shrfax:'', ''file:'', ''xpsport:'', ''onenote'', ''microsoft.office.onenote'', ''cups-pdf:'',
                      ''tsprintport:'', ''rustdesk'', ''teamviewer'', ''splashtop'', ''documents'' @ [back_slash]]
         \<or> p \<in> {''nul'', ''nul:'', ''ad_port''}
         \<or> (pre ''pdf'' \<and> starts_with pdf '':'')
         \<or> (pre ''nitro pdf'' \<and> newline_free (drop 9 p) \<and> (ends_with (drop 9 p) ''port'' \<or> ends_with (drop 9 p) ''port:''))
         \<or> (case p of a # b # c # _ \<Rightarrow> 97 \<le> char_code a \<and> char_code a \<le> 122 \<and> b = CHR '':'' \<and> c = back_slash | _ \<Rightarrow> False)
         \<or> (ends_with p ''fax_port'' \<and> newline_free p))"

text \<open>\<open>/\(redirected \d+\)\s*$/i\<close>\<close>

definition redirected_name :: "string \<Rightarrow> bool" where
  "redirected_name name =
     (let r = dropWhile is_space (rev (to_lower name)) in
      case r of
        c # t \<Rightarrow> c = CHR '')'' \<and> takeWhile is_digit t \<noteq> [] \<and> starts_with (dropWhile is_digit t) (rev ''(redirected '')
      | [] \<Rightarrow> False)"

definition printer_noise :: "printer \<Rightarrow> string option" where
  "printer_noise p =
     (let port = trim (case pr_port p of Some s \<Rightarrow> s | None \<Rightarrow> []); low = to_lower port;
          txt = (\<lambda>v. case v of Some s \<Rightarrow> s | None \<Rightarrow> [])
      in if contains (to_lower (txt (pr_driver p))) ''remote desktop easy print'' then Some ''session''
         else if redirected_name (pr_name p) then Some ''session''
         else if starts_with low ''ts'' \<and> length low = 5 \<and> list_all is_digit (drop 2 low) then Some ''session''
         else if txt (pr_host p) \<noteq> [] \<or> starts_with port [back_slash, back_slash] then None
         else if virtual_port port then Some ''virtual'' else None)"

text \<open>\<open>isNetworkPort\<close>\<close>

definition ipv4_start :: "string \<Rightarrow> bool" where
  "ipv4_start s =
     (let octet = (\<lambda>t. let d = takeWhile is_digit (take 3 t) in if d = [] then None else Some (drop (length d) t));
          dotted = (\<lambda>t. case t of c # t' \<Rightarrow> if c = CHR ''.'' then octet t' else None | [] \<Rightarrow> None)
      in (case octet s of None \<Rightarrow> False | Some t1 \<Rightarrow>
           (case dotted t1 of None \<Rightarrow> False | Some t2 \<Rightarrow> (case dotted t2 of None \<Rightarrow> False | Some t3 \<Rightarrow> dotted t3 \<noteq> None))))"

definition is_network_port :: "string option \<Rightarrow> bool" where
  "is_network_port port =
     (let p = normalize_value port in
      p \<noteq> [] \<and> (list_ex (starts_with p) [''socket://'', ''ipp://'', ''ipps://'', ''http://'', ''https://'', ''lpd://'', ''smb://'', ''dnssd://'',
                       [back_slash, back_slash], ''tcp/'', ''ip_'', ''wsd-'']
                 \<or> ipv4_start p))"

datatype read_kind = Complete | Partial | Blind

text \<open>\<open>classifyPrinterRead\<close>: the scopes of the machine and of the user, when the platform has them.\<close>

definition classify_printer_read :: "(string \<times> string) option \<Rightarrow> read_kind" where
  "classify_printer_read scopes = (case scopes of
     None \<Rightarrow> Complete
   | Some (machine, user) \<Rightarrow>
       (let m = (machine = ''collected''); u = (user = ''collected'') in
        if m \<and> (u \<or> user = ''no_user_hive'') then Complete else if m \<or> u then Partial else Blind))"

text \<open>The printers' own copies of the common code.\<close>

definition compute_printer_delta :: "(string \<Rightarrow> string \<Rightarrow> bool) \<Rightarrow> printer list \<Rightarrow> printer list \<Rightarrow> printer delta_result" where
  "compute_printer_delta collate current previous = compute_delta collate printer_asset current previous"

definition to_printer_ops :: "printer delta \<Rightarrow> printer list \<times> string list" where
  "to_printer_ops d = to_baseline_ops printer_asset d"

definition load_printers :: "printer baseline \<Rightarrow> printer list" where
  "load_printers b = load_rows b"

definition upsert_printers :: "printer list \<Rightarrow> printer baseline \<Rightarrow> printer baseline" where
  "upsert_printers ps b = upsert_rows printer_asset ps b"

definition delete_printers :: "string list \<Rightarrow> printer baseline \<Rightarrow> printer baseline" where
  "delete_printers ks b = filter (\<lambda>(k, _). k = [] \<or> k \<notin> set ks) b"

text \<open>\<open>applyPartialRead\<close>\<close>

definition apply_partial_read :: "(string \<Rightarrow> string \<Rightarrow> bool) \<Rightarrow> printer list \<Rightarrow> printer baseline \<Rightarrow> printer report \<times> printer baseline" where
  "apply_partial_read collate current b =
     (let previous = load_printers b; d = dr_delta (compute_printer_delta collate current previous);
          ups = added d @ updated d; count = length previous + length (added d)
      in if ups = [] then (\<lparr>rp_count = count, rp_items = None, rp_delta = None, rp_changes = False\<rparr>, b)
         else (\<lparr>rp_count = count, rp_items = None, rp_delta = Some (d\<lparr>removed := [], unchanged := count - length ups\<rparr>), rp_changes = True\<rparr>,
               upsert_printers ups b))"

text \<open>\<open>buildPrinterInventoryWithBaseline\<close>\<close>

definition printer_cycle :: "(string \<Rightarrow> string \<Rightarrow> bool) \<Rightarrow> printer list \<Rightarrow> (string \<times> string) option \<Rightarrow> printer baseline \<Rightarrow> printer report \<times> printer baseline" where
  "printer_cycle collate collected scopes b =
     (let current = filter (\<lambda>p. printer_noise p = None) collected in
      case classify_printer_read scopes of
        Blind \<Rightarrow> (\<lparr>rp_count = length (load_printers b), rp_items = None, rp_delta = None, rp_changes = False\<rparr>, b)
      | Partial \<Rightarrow> apply_partial_read collate current b
      | Complete \<Rightarrow>
          (let previous = load_printers b in
           if previous = []
           then (\<lparr>rp_count = length current, rp_items = Some current, rp_delta = None, rp_changes = True\<rparr>, upsert_printers current b)
           else let r = compute_printer_delta collate current previous in
             if \<not> dr_changes r then (\<lparr>rp_count = dr_count r, rp_items = None, rp_delta = None, rp_changes = False\<rparr>, b)
             else let (ups, dels) = to_printer_ops (dr_delta r)
                  in (\<lparr>rp_count = dr_count r, rp_items = None, rp_delta = Some (dr_delta r), rp_changes = True\<rparr>,
                      delete_printers dels (upsert_printers ups b))))"

text \<open>The two are the common cycle: they delete without empty identities, which a removed row never has.\<close>

lemma delete_nonempty: "[] \<notin> set ks \<Longrightarrow> filter (\<lambda>(k, _). k = [] \<or> k \<notin> set ks) b = delete_rows ks b"
  unfolding delete_rows_def by (rule filter_cong) auto

lemma ops_nonempty: "to_baseline_ops A d = (ups, dels) \<Longrightarrow> [] \<notin> set dels"
  by (auto simp: to_baseline_ops_def)

lemma extension_cycle_common:
  "extension_cycle collate scope current b =
     (if scope \<noteq> ''collected'' then (\<lparr>rp_count = 0, rp_items = None, rp_delta = None, rp_changes = False\<rparr>, b)
      else full_cycle collate extension_asset current b)"
  by (auto simp: extension_cycle_def full_cycle_def load_extensions_def compute_extension_delta_def to_extension_ops_def Let_def
      upsert_extensions_def delete_extensions_def delete_nonempty dest: ops_nonempty split: prod.split)

lemmas printer_table = load_printers_def compute_printer_delta_def to_printer_ops_def upsert_printers_def delete_printers_def

lemma printer_cycle_common:
  "printer_cycle collate collected scopes b =
     (let current = filter (\<lambda>p. printer_noise p = None) collected in
      case classify_printer_read scopes of
        Blind \<Rightarrow> (\<lparr>rp_count = length (load_rows b), rp_items = None, rp_delta = None, rp_changes = False\<rparr>, b)
      | Partial \<Rightarrow> apply_partial_read collate current b
      | Complete \<Rightarrow> full_cycle collate printer_asset current b)"
  by (auto simp: printer_cycle_def full_cycle_def printer_table Let_def delete_nonempty dest: ops_nonempty split: prod.split read_kind.split)

section \<open>The laws\<close>

text \<open>What the control plane keeps of a device: a table it replaces by a full list and changes by a delta.\<close>

definition apply_report :: "'a asset \<Rightarrow> 'a report \<Rightarrow> 'a baseline \<Rightarrow> 'a baseline" where
  "apply_report A rep v =
     (case rp_items rep of
        Some xs \<Rightarrow> index_rows (a_key A) xs
      | None \<Rightarrow> (case rp_delta rep of
          None \<Rightarrow> v
        | Some d \<Rightarrow> delete_rows (map (a_key A) (removed d)) (foldl (\<lambda>v x. map_set v (a_key A x) x) v (added d @ updated d))))"

definition baseline_ok :: "'a asset \<Rightarrow> 'a baseline \<Rightarrow> bool" where
  "baseline_ok A b \<longleftrightarrow> distinct (map fst b) \<and> (\<forall>(k, r) \<in> set b. a_key A r = k \<and> k \<noteq> [] \<and> a_valid A r)"

text \<open>Every row with an identity is one the upsert takes.\<close>

definition rows_ok :: "'a asset \<Rightarrow> 'a list \<Rightarrow> bool" where
  "rows_ok A xs \<longleftrightarrow> (\<forall>x \<in> set xs. a_key A x \<noteq> [] \<longrightarrow> a_valid A x)"

text \<open>Two tables agree up to what \<open>content\<close> sees of a row.\<close>

definition same_content :: "('a \<Rightarrow> 'c) \<Rightarrow> 'a baseline \<Rightarrow> 'a baseline \<Rightarrow> bool" where
  "same_content content v b \<longleftrightarrow> (\<forall>k. map_option content (map_of v k) = map_option content (map_of b k))"

lemma index_snoc: "index_rows key (xs @ [x]) = (if key x = [] then index_rows key xs else map_set (index_rows key xs) (key x) x)"
  by (simp add: index_rows_def)

lemma index_ok: "distinct (map fst (index_rows key xs)) \<and> (\<forall>(k, r) \<in> set (index_rows key xs). key r = k \<and> k \<noteq> [] \<and> r \<in> set xs)"
proof (induction xs rule: rev_induct)
  case (snoc x xs)
  show ?case
  proof (cases "key x = []")
    case False
    have "set (map_set m k v) \<subseteq> insert (k, v) (set m)" for m :: "(string \<times> 'a) list" and k v
      by (induction m) auto
    then have "set (map_set (index_rows key xs) (key x) x) \<subseteq> insert (key x, x) (set (index_rows key xs))" .
    then show ?thesis using snoc False distinct_map_set [of "index_rows key xs" "key x" x] by (auto simp: index_snoc)
  qed (use snoc in \<open>auto simp: index_snoc\<close>)
qed (simp add: index_rows_def)

lemma index_lookup: "map_of (index_rows key xs) k = (if k = [] then None else map_of (rev (map (\<lambda>x. (key x, x)) xs)) k)"
proof (induction xs rule: rev_induct)
  case (snoc x xs)
  then show ?case by (cases "k = []") (auto simp: index_snoc map_of_map_set)
qed (simp add: index_rows_def)

lemma index_none: "map_of (index_rows key xs) k = None \<longleftrightarrow> k = [] \<or> (\<forall>x \<in> set xs. key x \<noteq> k)"
  by (auto simp: index_lookup map_of_eq_None_iff image_image)

lemma index_Nil: "index_rows key [] = []"
  by (simp add: index_rows_def)

lemma index_eq_Nil: "index_rows key xs = [] \<longleftrightarrow> (\<forall>x \<in> set xs. key x = [])"
  by (induction xs rule: rev_induct) (auto simp: index_rows_def AList.update_nonempty)

lemma in_index: "x \<in> snd ` set (index_rows key xs) \<longleftrightarrow> map_of (index_rows key xs) (key x) = Some x"
proof
  assume "x \<in> snd ` set (index_rows key xs)"
  then obtain k where "(k, x) \<in> set (index_rows key xs)" by auto
  then show "map_of (index_rows key xs) (key x) = Some x" using index_ok [of key xs] by auto
next
  assume "map_of (index_rows key xs) (key x) = Some x"
  then show "x \<in> snd ` set (index_rows key xs)" by (force dest: map_of_SomeD)
qed

lemma index_lookup_key: "map_of (index_rows key xs) k = Some x \<Longrightarrow> key x = k \<and> k \<noteq> [] \<and> x \<in> set xs"
  using index_ok [of key xs] by (auto dest!: map_of_SomeD)

text \<open>The index of rows whose identities are distinct.\<close>

lemma index_distinct:
  assumes "distinct (map key xs)" and "\<forall>x \<in> set xs. key x \<noteq> []"
  shows "map_of (index_rows key xs) k = Some x \<longleftrightarrow> x \<in> set xs \<and> key x = k"
proof -
  have "distinct (map fst (rev (map (\<lambda>x. (key x, x)) xs)))" using assms(1) by (simp add: comp_def rev_map [symmetric])
  then have "map_of (rev (map (\<lambda>x. (key x, x)) xs)) k = Some x \<longleftrightarrow> x \<in> set xs \<and> key x = k"
    by (auto simp: map_of_eq_Some_iff)
  then show ?thesis using assms(2) by (auto simp: index_lookup)
qed

lemma load_rows_facts:
  assumes "baseline_ok A b"
  shows "set (load_rows b) = snd ` set b" and "map_of (index_rows (a_key A) (load_rows b)) = map_of b"
    and "load_rows b = [] \<longleftrightarrow> b = []"
proof -
  show s: "set (load_rows b) = snd ` set b" by (simp add: load_rows_def)
  show "load_rows b = [] \<longleftrightarrow> b = []" by (simp add: load_rows_def flip: length_0_conv)
  have d: "distinct (map fst b)" and k: "\<forall>(k, r) \<in> set b. a_key A r = k \<and> k \<noteq> []" using assms by (auto simp: baseline_ok_def)
  have "map (a_key A) (load_rows b) = map fst (sort_key fst b)"
    unfolding load_rows_def map_map comp_def by (rule map_cong [OF refl]) (use k in auto)
  then have "distinct (map (a_key A) (load_rows b))" using d by (metis distinct_map distinct_sort set_sort)
  moreover have "\<forall>x \<in> set (load_rows b). a_key A x \<noteq> []" using k unfolding s by auto
  ultimately have "map_of (index_rows (a_key A) (load_rows b)) q = Some x \<longleftrightarrow> x \<in> set (load_rows b) \<and> a_key A x = q" for q x
    by (rule index_distinct)
  moreover have "x \<in> set (load_rows b) \<and> a_key A x = q \<longleftrightarrow> map_of b q = Some x" for q x
    using k d unfolding s by (force simp: map_of_eq_Some_iff)
  ultimately show "map_of (index_rows (a_key A) (load_rows b)) = map_of b"
    by (intro ext) (metis not_None_eq)
qed

lemma delete_lookup: "map_of (delete_rows ks b) k = (if k \<in> set ks then None else map_of b k)"
  by (induction b) (auto simp: delete_rows_def)

lemma baseline_ok_delete: "baseline_ok A b \<Longrightarrow> baseline_ok A (delete_rows ks b)"
  by (auto simp: baseline_ok_def delete_rows_def distinct_map_filter)

text \<open>The members of a delta, in terms of the two tables.\<close>

lemma delta_members:
  fixes current previous :: "'a list" and A :: "'a asset"
  defines "C \<equiv> map_of (index_rows (a_key A) current)" and "P \<equiv> map_of (index_rows (a_key A) previous)"
  shows "x \<in> set (added (dr_delta (compute_delta collate A current previous))) \<longleftrightarrow> C (a_key A x) = Some x \<and> P (a_key A x) = None"
    and "x \<in> set (updated (dr_delta (compute_delta collate A current previous))) \<longleftrightarrow>
           C (a_key A x) = Some x \<and> (\<exists>p. P (a_key A x) = Some p \<and> a_updated A p x)"
    and "x \<in> set (removed (dr_delta (compute_delta collate A current previous))) \<longleftrightarrow> P (a_key A x) = Some x \<and> C (a_key A x) = None"
    and "dr_changes (compute_delta collate A current previous) \<longleftrightarrow>
           (let d = dr_delta (compute_delta collate A current previous) in added d \<noteq> [] \<or> removed d \<noteq> [] \<or> updated d \<noteq> [])"
  using in_index [of x "a_key A" current] in_index [of x "a_key A" previous]
  by (auto simp: compute_delta_def C_def P_def Let_def split: option.splits)

text \<open>The counts of a delta add up: \<open>Math.max(0, ...)\<close> never cuts.\<close>

lemma delta_counts:
  "length (added d) + length (updated d) \<le> length (index_rows (a_key A) current)" if "d = dr_delta (compute_delta collate A current previous)"
proof -
  let ?cs = "map snd (index_rows (a_key A) current)" let ?P = "map_of (index_rows (a_key A) previous)"
  let ?add = "\<lambda>x. ?P (a_key A x) = None" let ?upd = "\<lambda>x. case ?P (a_key A x) of None \<Rightarrow> False | Some p \<Rightarrow> a_updated A p x"
  have "length (filter ?add xs) + length (filter ?upd xs) \<le> length xs" for xs
    by (induction xs) (auto split: option.splits)
  from this [of ?cs] show ?thesis by (simp add: that compute_delta_def Let_def)
qed

text \<open>
  The contract of an asset: stored rows keep the identity and the \<open>content\<close>, the test for "updated" looks at the
  content of the old row only, and a row is never an update of itself.
\<close>

locale asset_laws =
  fixes A :: "'a asset" and content :: "'a \<Rightarrow> 'c"
  assumes key_store: "a_key A (a_store A x) = a_key A x"
    and key_keep: "a_key A (a_keep A old x) = a_key A x"
    and content_store: "content (a_store A x) = content x"
    and content_keep: "content (a_keep A old x) = content x"
    and updated_content: "content a = content b \<Longrightarrow> a_updated A a x = a_updated A b x"
    and updated_refl: "\<not> a_updated A x x"
    and valid_key: "a_valid A x \<Longrightarrow> a_key A x \<noteq> []"
    and valid_store: "a_valid A x \<Longrightarrow> a_valid A (a_store A x)"
    and valid_keep: "a_valid A old \<Longrightarrow> a_valid A x \<Longrightarrow> a_valid A (a_keep A old x)"
begin

lemma upsert_facts:
  assumes "baseline_ok A b" and "rows_ok A xs"
  shows "baseline_ok A (upsert_rows A xs b)"
    and "map_option content (map_of (upsert_rows A xs b) k) =
      (case map_of (index_rows (a_key A) xs) k of Some x \<Rightarrow> Some (content x) | None \<Rightarrow> map_option content (map_of b k))"
proof -
  have set: "set (map_set m k v) \<subseteq> insert (k, v) (set m)" for m :: "'a baseline" and k v by (induction m) auto
  have "baseline_ok A (upsert_rows A xs b) \<and> map_option content (map_of (upsert_rows A xs b) k) =
      (case map_of (index_rows (a_key A) xs) k of Some x \<Rightarrow> Some (content x) | None \<Rightarrow> map_option content (map_of b k))"
    using assms(2)
  proof (induction xs rule: rev_induct)
    case Nil
    then show ?case using assms(1) by (simp add: upsert_rows_def index_rows_def)
  next
    case (snoc x xs)
    let ?b = "upsert_rows A xs b"
    have IH: "baseline_ok A ?b" "map_option content (map_of ?b k) =
      (case map_of (index_rows (a_key A) xs) k of Some x \<Rightarrow> Some (content x) | None \<Rightarrow> map_option content (map_of b k))"
      using snoc by (simp_all add: rows_ok_def)
    have u: "upsert_rows A (xs @ [x]) b = upsert_row A ?b x" by (simp add: upsert_rows_def)
    show ?case
    proof (cases "a_key A x = []")
      case True
      then have "\<not> a_valid A x" using valid_key by blast
      then show ?thesis using IH True by (simp add: u upsert_row_def index_snoc)
    next
      case False
      then have v: "a_valid A x" using snoc.prems by (simp add: rows_ok_def)
      let ?row = "case map_of ?b (a_key A x) of None \<Rightarrow> a_store A x | Some old \<Rightarrow> a_keep A old x"
      have row: "a_key A ?row = a_key A x" "content ?row = content x"
        by (simp_all add: key_store key_keep content_store content_keep split: option.split)
      have rv: "a_valid A ?row"
        using v IH(1) by (auto simp: baseline_ok_def valid_store valid_keep dest!: map_of_SomeD split: option.split)
      have b': "upsert_row A ?b x = map_set ?b (a_key A x) ?row" using v by (simp add: upsert_row_def)
      have "baseline_ok A (map_set ?b (a_key A x) ?row)"
        unfolding baseline_ok_def
      proof
        show "distinct (map fst (map_set ?b (a_key A x) ?row))" using IH(1) by (simp add: baseline_ok_def distinct_map_set)
        have "\<forall>(k, r) \<in> insert (a_key A x, ?row) (set ?b). a_key A r = k \<and> k \<noteq> [] \<and> a_valid A r"
          using IH(1) row(1) rv False by (simp add: baseline_ok_def)
        then show "\<forall>(k, r) \<in> set (map_set ?b (a_key A x) ?row). a_key A r = k \<and> k \<noteq> [] \<and> a_valid A r" using set [where m = ?b and k = "a_key A x" and v = ?row] by blast
      qed
      moreover have "map_option content (map_of (map_set ?b (a_key A x) ?row) k)
          = (if k = a_key A x then Some (content x) else map_option content (map_of ?b k))"
        using row(2) by (simp add: map_of_map_set)
      ultimately show ?thesis unfolding u b' using IH(2) False by (simp add: index_snoc map_of_map_set)
    qed
  qed
  then show "baseline_ok A (upsert_rows A xs b)" and "map_option content (map_of (upsert_rows A xs b) k) =
      (case map_of (index_rows (a_key A) xs) k of Some x \<Rightarrow> Some (content x) | None \<Rightarrow> map_option content (map_of b k))" by simp_all
qed

lemma view_upsert:
  "\<forall>x \<in> set xs. a_key A x \<noteq> [] \<Longrightarrow> map_of (foldl (\<lambda>v x. map_set v (a_key A x) x) v xs) k =
     (case map_of (index_rows (a_key A) xs) k of Some x \<Rightarrow> Some x | None \<Rightarrow> map_of v k)"
proof (induction xs rule: rev_induct)
  case (snoc x xs)
  then show ?case by (simp add: index_snoc map_of_map_set)
qed (simp add: index_rows_def)

text \<open>A cycle, in terms of the tables: every identity of the collection is in the new baseline with a row it is not an update of.\<close>

lemma cycle_facts:
  assumes ok: "baseline_ok A b" and rows: "rows_ok A current" and cyc: "full_cycle collate A current b = (rep, b')"
  shows "baseline_ok A b'"
    and "map_of b' k = None \<longleftrightarrow> map_of (index_rows (a_key A) current) k = None"
    and "map_of (index_rows (a_key A) current) k = Some x \<Longrightarrow> \<exists>r. map_of b' k = Some r \<and> \<not> a_updated A r x"
    and "same_content content v b \<Longrightarrow> same_content content (apply_report A rep v) b'"
proof -
  let ?C = "map_of (index_rows (a_key A) current)"
  let ?P = "map_of b"
  have P: "map_of (index_rows (a_key A) (load_rows b)) = ?P" by (rule load_rows_facts(2) [OF ok])
  let ?d = "dr_delta (compute_delta collate A current (load_rows b))"
  note members = delta_members [where A = A and current = current and previous = "load_rows b" and collate = collate, unfolded P]
  have key: "?C k = Some x \<Longrightarrow> a_key A x = k \<and> k \<noteq> [] \<and> x \<in> set current" for k x by (rule index_lookup_key)
  have "baseline_ok A b' \<and> (\<forall>k. map_option content (map_of b' k) =
         (case ?C k of None \<Rightarrow> None | Some x \<Rightarrow> (case ?P k of Some p \<Rightarrow> Some (content (if a_updated A p x then x else p)) | None \<Rightarrow> Some (content x))))
      \<and> (same_content content v b \<longrightarrow> same_content content (apply_report A rep v) b')"
  proof (cases "b = []")
    case True
    then have "load_rows b = []" using load_rows_facts(3) [OF ok] by blast
    then have r: "rep = \<lparr>rp_count = length current, rp_items = Some current, rp_delta = None, rp_changes = True\<rparr>" "b' = upsert_rows A current b"
      using cyc by (simp_all add: full_cycle_def Let_def)
    have c: "map_option content (map_of b' k) = map_option content (?C k)" for k
      unfolding r(2) upsert_facts(2) [OF ok rows] by (simp add: True split: option.split)
    then have "same_content content (apply_report A rep v) b'" by (simp add: same_content_def apply_report_def r(1))
    moreover have "baseline_ok A b'" unfolding r(2) by (rule upsert_facts(1) [OF ok rows])
    ultimately show ?thesis using c True by (auto split: option.split)
  next
    case False
    then have ne: "load_rows b \<noteq> []" using load_rows_facts(3) [OF ok] by blast
    show ?thesis
    proof (cases "dr_changes (compute_delta collate A current (load_rows b))")
      case no: False
      then have r: "rep = \<lparr>rp_count = dr_count (compute_delta collate A current (load_rows b)), rp_items = None, rp_delta = None, rp_changes = False\<rparr>"
        "b' = b" using cyc ne by (auto simp: full_cycle_def Let_def)
      have none: "x \<notin> set (added ?d)" "x \<notin> set (updated ?d)" "x \<notin> set (removed ?d)" for x
        using no members(4) by (auto simp: Let_def)
      have "map_option content (?P k) = (case ?C k of None \<Rightarrow> None | Some x \<Rightarrow>
          (case ?P k of Some p \<Rightarrow> Some (content (if a_updated A p x then x else p)) | None \<Rightarrow> Some (content x)))" for k
      proof (cases "?C k")
        case None
        show ?thesis
        proof (cases "?P k")
          case (Some p)
          then have "a_key A p = k" using ok by (auto simp: baseline_ok_def dest!: map_of_SomeD)
          then have "p \<in> set (removed ?d)" using members(3) [where x = p] Some None by simp
          then show ?thesis using none(3) by blast
        qed (simp add: None)
      next
        case (Some x)
        then have k: "a_key A x = k" using key by blast
        show ?thesis
        proof (cases "?P k")
          case None
          then have "x \<in> set (added ?d)" using members(1) [where x = x] Some k by simp
          then show ?thesis using none(1) by blast
        next
          case p: (Some p)
          then have "\<not> a_updated A p x" using members(2) [where x = x] none(2) Some k by auto
          then show ?thesis using Some p by simp
        qed
      qed
      then show ?thesis using ok r by (simp add: apply_report_def)
    next
      case yes: True
      let ?ups = "added ?d @ updated ?d" let ?dels = "filter (\<lambda>k. k \<noteq> []) (map (a_key A) (removed ?d))"
      have r: "rep = \<lparr>rp_count = dr_count (compute_delta collate A current (load_rows b)), rp_items = None, rp_delta = Some ?d, rp_changes = True\<rparr>"
        "b' = delete_rows ?dels (upsert_rows A ?ups b)"
        using cyc ne yes by (simp_all add: full_cycle_def to_baseline_ops_def Let_def)
      have in_ups: "x \<in> set ?ups \<longleftrightarrow> ?C (a_key A x) = Some x \<and> (case ?P (a_key A x) of None \<Rightarrow> True | Some p \<Rightarrow> a_updated A p x)" for x
        using members(1,2) [where x = x] by (auto split: option.splits)
      have ups_key: "\<forall>x \<in> set ?ups. a_key A x \<noteq> [] \<and> x \<in> set current" using in_ups key by blast
      then have ups_ok: "rows_ok A ?ups" using rows by (auto simp: rows_ok_def)
      have U: "map_of (index_rows (a_key A) ?ups) k = (case ?C k of None \<Rightarrow> None | Some x \<Rightarrow>
          (case ?P k of None \<Rightarrow> Some x | Some p \<Rightarrow> if a_updated A p x then Some x else None))" for k
      proof (cases "map_of (index_rows (a_key A) ?ups) k")
        case (Some x)
        from index_lookup_key [OF Some] have k: "a_key A x = k" and "x \<in> set ?ups" by blast+
        then have "?C k = Some x \<and> (case ?P k of None \<Rightarrow> True | Some p \<Rightarrow> a_updated A p x)" using in_ups [of x] by simp
        then show ?thesis unfolding Some by (cases "?P k") simp_all
      next
        case None
        have "x \<notin> set ?ups" if "a_key A x = k" for x
        proof
          assume "x \<in> set ?ups"
          then show False using None ups_key that unfolding index_none by blast
        qed
        then have out: "\<not> (case ?P k of None \<Rightarrow> True | Some p \<Rightarrow> a_updated A p x)" if "?C k = Some x" for x
          using in_ups [of x] key [OF that] that by blast
        show ?thesis unfolding None
        proof (cases "?C k")
          case (Some x)
          then show "None = (case ?C k of None \<Rightarrow> None | Some x \<Rightarrow>
              (case ?P k of None \<Rightarrow> Some x | Some p \<Rightarrow> if a_updated A p x then Some x else None))"
            using out [OF Some] by (cases "?P k") simp_all
        qed simp
      qed
      have D: "k \<in> set ?dels \<longleftrightarrow> ?P k \<noteq> None \<and> ?C k = None" for k
      proof
        assume "k \<in> set ?dels"
        then show "?P k \<noteq> None \<and> ?C k = None" using members(3) by auto
      next
        assume a: "?P k \<noteq> None \<and> ?C k = None"
        then obtain p where p: "?P k = Some p" by auto
        then have "a_key A p = k" "k \<noteq> []" using ok by (auto simp: baseline_ok_def dest!: map_of_SomeD)
        then show "k \<in> set ?dels" using members(3) [where x = p] a p by force
      qed
      have c: "map_option content (map_of b' k) = (case ?C k of None \<Rightarrow> None | Some x \<Rightarrow>
          (case ?P k of Some p \<Rightarrow> Some (content (if a_updated A p x then x else p)) | None \<Rightarrow> Some (content x)))" for k
        unfolding r(2) delete_lookup using upsert_facts(2) [OF ok ups_ok, of k] D [of k] U [of k] by (auto split: option.splits)
      have "same_content content (apply_report A rep v) b'" if v: "same_content content v b"
        unfolding same_content_def
      proof
        fix k
        have dels: "k \<in> set (map (a_key A) (removed ?d)) \<longleftrightarrow> ?P k \<noteq> None \<and> ?C k = None"
        proof -
          have "[] \<notin> set (map (a_key A) (removed ?d))" using members(3) ok by (force simp: baseline_ok_def dest!: map_of_SomeD)
          then show ?thesis using D [of k] by auto
        qed
        have "map_of (foldl (\<lambda>v x. map_set v (a_key A x) x) v ?ups) k = (case map_of (index_rows (a_key A) ?ups) k of Some x \<Rightarrow> Some x | None \<Rightarrow> map_of v k)"
          by (rule view_upsert) (use ups_key in blast)
        moreover have "map_option content (map_of v k) = map_option content (?P k)" using v by (simp add: same_content_def)
        ultimately show "map_option content (map_of (apply_report A rep v) k) = map_option content (map_of b' k)"
          unfolding c apply_report_def r(1) using dels U [of k] by (auto simp: delete_lookup split: option.splits)
      qed
      moreover have "baseline_ok A b'" unfolding r(2) by (rule baseline_ok_delete [OF upsert_facts(1) [OF ok ups_ok]])
      ultimately show ?thesis using c by blast
    qed
  qed
  then have b': "baseline_ok A b'" and c: "\<And>k. map_option content (map_of b' k) = (case ?C k of None \<Rightarrow> None | Some x \<Rightarrow>
      (case ?P k of Some p \<Rightarrow> Some (content (if a_updated A p x then x else p)) | None \<Rightarrow> Some (content x)))"
    and sc: "same_content content v b \<longrightarrow> same_content content (apply_report A rep v) b'" by blast+
  show "baseline_ok A b'" by (rule b')
  show "same_content content v b \<Longrightarrow> same_content content (apply_report A rep v) b'" using sc by blast
  show "map_of b' k = None \<longleftrightarrow> ?C k = None" using c [of k] by (auto split: option.splits)
  show "\<exists>r. map_of b' k = Some r \<and> \<not> a_updated A r x" if cx: "?C k = Some x"
  proof -
    have "map_option content (map_of b' k) \<noteq> None" using c [of k] cx by (auto split: option.splits)
    then obtain r where r: "map_of b' k = Some r" by auto
    consider p where "?P k = Some p" "\<not> a_updated A p x" "content r = content p" | "content r = content x"
      using c [of k] cx r by (auto split: option.splits if_splits)
    then have "\<not> a_updated A r x"
    proof cases
      case (1 p)
      then show ?thesis using updated_content [of r p x] by simp
    next
      case 2
      then show ?thesis using updated_content [of r x x] updated_refl by simp
    qed
    with r show ?thesis by blast
  qed
qed

text \<open>So the next cycle over the same collection finds nothing to say.\<close>

lemma cycle_converges:
  assumes ok: "baseline_ok A b" and rows: "rows_ok A current" and cyc: "full_cycle collate A current b = (rep, b')"
    and some: "\<exists>x \<in> set current. a_key A x \<noteq> []"
  shows "full_cycle collate A current b' = (\<lparr>rp_count = length (index_rows (a_key A) current), rp_items = None, rp_delta = None, rp_changes = False\<rparr>, b')"
proof -
  note facts = cycle_facts [OF ok rows cyc]
  let ?C = "map_of (index_rows (a_key A) current)"
  have P: "map_of (index_rows (a_key A) (load_rows b')) = map_of b'" by (rule load_rows_facts(2) [OF facts(1)])
  note members = delta_members [where A = A and current = current and previous = "load_rows b'" and collate = collate, unfolded P]
  have "index_rows (a_key A) current \<noteq> []" using some by (auto simp: index_eq_Nil)
  then obtain k y where "?C k = Some y" by (cases "index_rows (a_key A) current") force+
  then have "b' \<noteq> []" using facts(2) [of k] by auto
  then have ne: "load_rows b' \<noteq> []" by (simp add: load_rows_facts(3) [OF facts(1)])
  let ?d = "dr_delta (compute_delta collate A current (load_rows b'))"
  have "added ?d = []"
  proof (rule ccontr)
    assume "added ?d \<noteq> []"
    then obtain x where "x \<in> set (added ?d)" using hd_in_set by blast
    then have "?C (a_key A x) = Some x" "map_of b' (a_key A x) = None" using members(1) by blast+
    then show False using facts(2) [of "a_key A x"] by simp
  qed
  moreover have "updated ?d = []"
  proof (rule ccontr)
    assume "updated ?d \<noteq> []"
    then obtain x where "x \<in> set (updated ?d)" using hd_in_set by blast
    then obtain p where "?C (a_key A x) = Some x" "map_of b' (a_key A x) = Some p" "a_updated A p x" using members(2) by blast
    then show False using facts(3) [of "a_key A x" x] by auto
  qed
  moreover have "removed ?d = []"
  proof (rule ccontr)
    assume "removed ?d \<noteq> []"
    then obtain x where "x \<in> set (removed ?d)" using hd_in_set by blast
    then have "?C (a_key A x) = None" "map_of b' (a_key A x) = Some x" using members(3) by blast+
    then show False using facts(2) [of "a_key A x"] by simp
  qed
  ultimately have "\<not> dr_changes (compute_delta collate A current (load_rows b'))" using members(4) by (simp add: Let_def)
  moreover have "dr_count (compute_delta collate A current (load_rows b')) = length (index_rows (a_key A) current)"
    by (simp add: compute_delta_def Let_def)
  ultimately show ?thesis using ne by (simp add: full_cycle_def Let_def)
qed

end

section \<open>The three interpretations\<close>

definition software_content :: "software_app \<Rightarrow> software_app" where
  "software_content a = a\<lparr>sw_detected := []\<rparr>"

definition printer_content :: "printer \<Rightarrow> printer" where
  "printer_content p = (store_printer p)\<lparr>pr_detected := []\<rparr>"

definition extension_content :: "extension \<Rightarrow> extension" where
  "extension_content e = e\<lparr>ex_detected := []\<rparr>"

lemma software_updated_content: "software_content a = software_content b \<Longrightarrow> is_app_updated a x = is_app_updated b x"
proof -
  assume h: "software_content a = software_content b"
  have f: "f (software_content a) = f (software_content b)" for f :: "software_app \<Rightarrow> string option" using h by simp
  show ?thesis
    using f [of sw_version] f [of sw_publisher] f [of sw_location] f [of sw_package] f [of sw_product] f [of sw_uninstall]
      f [of sw_quiet] f [of sw_key_path] f [of sw_installed_on]
    by (simp add: software_content_def is_app_updated_def app_identity_def)
qed

lemma printer_updated_content: "printer_content a = printer_content b \<Longrightarrow> is_printer_updated a x = is_printer_updated b x"
proof -
  assume h: "printer_content a = printer_content b"
  have f: "f (printer_content a) = f (printer_content b)" for f :: "printer \<Rightarrow> string option" using h by simp
  have g: "g (printer_content a) = g (printer_content b)" for g :: "printer \<Rightarrow> bool option" using h by simp
  show ?thesis
    using f [of pr_driver] f [of pr_port] f [of pr_location] f [of pr_comments] f [of pr_share_name] f [of pr_host]
      g [of pr_default] g [of pr_shared] g [of pr_network]
    by (simp add: printer_content_def store_printer_def is_printer_updated_def)
qed

lemma extension_updated_content: "extension_content a = extension_content b \<Longrightarrow> is_extension_updated a x = is_extension_updated b x"
proof -
  assume h: "extension_content a = extension_content b"
  have f: "f (extension_content a) = f (extension_content b)" for f :: "extension \<Rightarrow> string option" using h by simp
  have g: "g (extension_content a) = g (extension_content b)" for g :: "extension \<Rightarrow> string" using h by simp
  have l: "l (extension_content a) = l (extension_content b)" for l :: "extension \<Rightarrow> string list" using h by simp
  have "ex_enabled (extension_content a) = ex_enabled (extension_content b)" "ex_manifest (extension_content a) = ex_manifest (extension_content b)"
    using h by simp_all
  then show ?thesis
    using f [of ex_version] f [of ex_update_url] g [of ex_name] g [of ex_source] l [of ex_permissions] l [of ex_hosts]
    by (simp add: extension_content_def is_extension_updated_def)
qed

interpretation sw: asset_laws software_asset software_content
proof unfold_locales
  show "a_updated software_asset a x = a_updated software_asset b x" if "software_content a = software_content b" for a b x
    using software_updated_content [OF that] by (simp add: software_asset_def)
qed (simp_all add: software_asset_def software_content_def is_app_updated_def Let_def)

lemma store_printer_keeps [simp]:
  "pr_id (store_printer p) = pr_id p" "pr_name (store_printer p) = pr_name p" "pr_source (store_printer p) = pr_source p"
  "pr_id (p\<lparr>pr_detected := t\<rparr>) = pr_id p"
  "printer_content (store_printer p) = printer_content p" "printer_content (p\<lparr>pr_detected := t\<rparr>) = printer_content p"
  by (simp_all add: printer_content_def store_printer_def flag_def)

interpretation pr: asset_laws printer_asset printer_content
proof unfold_locales
  show "a_updated printer_asset a x = a_updated printer_asset b x" if "printer_content a = printer_content b" for a b x
    using printer_updated_content [OF that] by (simp add: printer_asset_def)
qed (simp_all add: printer_asset_def is_printer_updated_def)

interpretation ex: asset_laws extension_asset extension_content
proof unfold_locales
  show "a_updated extension_asset a x = a_updated extension_asset b x" if "extension_content a = extension_content b" for a b x
    using extension_updated_content [OF that] by (simp add: extension_asset_def)
qed (simp_all add: extension_asset_def extension_content_def is_extension_updated_def same_list_def)

section \<open>Properties\<close>

lemma windows_rows_ok:
  assumes "baseline_ok software_asset b" and "rows_ok software_asset apps"
  shows "rows_ok software_asset (sort_by le (fst (carry_over_unread_user_apps apps (load_rows b) sids)))"
proof -
  have "rows_ok software_asset (load_rows b)"
    using assms(1) load_rows_facts(1) [OF assms(1)] by (auto simp: rows_ok_def baseline_ok_def)
  moreover have "set (fst (carry_over_unread_user_apps apps (load_rows b) sids)) \<subseteq> set apps \<union> set (load_rows b)"
    by (auto simp: carry_over_unread_user_apps_def Let_def split: option.split)
  ultimately show ?thesis using assms(2) unfolding rows_ok_def set_sort_by by blast
qed


definition two_apps :: "software_app list" where
  "two_apps = (let a = \<lparr>sw_id = ''a'', sw_name = ''A'', sw_source = ''win32-registry'', sw_version = Some ''1'', sw_publisher = None, sw_location = None,
      sw_package = None, sw_uninstall = None, sw_quiet = None, sw_product = None, sw_key_path = None, sw_installed_on = None, sw_detected = ''t0''\<rparr>
    in [a, a\<lparr>sw_id := ''b''\<rparr>])"


text \<open>A report that is lost is lost for good. Whatever a cycle over a collection had to say, the next cycle over the same collection says
  nothing: neither list nor delta, no change. So when the first report does not arrive (the baseline has already moved), the control
  plane's copy stays as it was, cycle after cycle. A reset of the baseline repairs it: the cycle after it sends the whole list, and
  whatever the control plane had, its copy agrees with the baseline again.\<close>

theorem lost_report_is_not_repeated:
  assumes "baseline_ok software_asset b" and "rows_ok software_asset apps" and "\<exists>a \<in> set apps. sw_id a \<noteq> []"
    and "full_cycle collate software_asset apps b = (rep, b')"
  shows "(\<exists>rep'. full_cycle collate software_asset apps b' = (rep', b') \<and> \<not> rp_changes rep' \<and> apply_report software_asset rep' v = v)
    \<and> (\<exists>rep'' b''. full_cycle collate software_asset apps (clear_rows b') = (rep'', b'') \<and> rp_items rep'' = Some apps
         \<and> same_content software_content (apply_report software_asset rep'' v) b'')"
proof -
  obtain rep'' b'' where r: "full_cycle collate software_asset apps (clear_rows b') = (rep'', b'')" by fastforce
  then have cyc: "full_cycle collate software_asset apps [] = (rep'', b'')" by (simp add: clear_rows_def)
  then have items: "rp_items rep'' = Some apps" by (auto simp: full_cycle_def load_rows_def)
  have "same_content software_content (apply_report software_asset rep'' []) b''"
    by (rule sw.cycle_facts(4) [OF _ assms(2) cyc]) (simp_all add: baseline_ok_def same_content_def)
  then have reset: "same_content software_content (apply_report software_asset rep'' v) b''" by (simp add: apply_report_def items)
  have "\<exists>a \<in> set apps. a_key software_asset a \<noteq> []" using assms(3) by (simp add: software_asset_def)
  from sw.cycle_converges [OF assms(1,2,4) this]
  have "\<exists>rep'. full_cycle collate software_asset apps b' = (rep', b') \<and> \<not> rp_changes rep' \<and> apply_report software_asset rep' v = v"
    by (simp add: apply_report_def)
  then show ?thesis using r items reset by blast
qed

lemma lost_report_is_not_repeated_witness:
  "\<exists>rep b' rep'. full_cycle (\<lambda>x y. x \<le> y) software_asset two_apps [] = (rep, b') \<and> rp_changes rep
     \<and> full_cycle (\<lambda>x y. x \<le> y) software_asset two_apps b' = (rep', b') \<and> \<not> rp_changes rep'
     \<and> map_of (apply_report software_asset rep' []) ''a'' = None \<and> map_of b' ''a'' \<noteq> None"
proof -
  have "baseline_ok software_asset []" "rows_ok software_asset two_apps" "\<exists>a \<in> set two_apps. sw_id a \<noteq> []"
    by (simp_all add: baseline_ok_def rows_ok_def two_apps_def software_asset_def)
  moreover obtain rep b' where r: "full_cycle (\<lambda>x y. x \<le> y) software_asset two_apps [] = (rep, b')"
    by (cases "full_cycle (\<lambda>x y. x \<le> y) software_asset two_apps []")
  ultimately obtain rep' where "full_cycle (\<lambda>x y. x \<le> y) software_asset two_apps b' = (rep', b')" "\<not> rp_changes rep'"
      "apply_report software_asset rep' [] = []"
    using lost_report_is_not_repeated [where v = "[]"] by blast
  moreover have "rp_changes rep" "map_of b' ''a'' \<noteq> None"
    using r by (auto simp: full_cycle_def load_rows_def two_apps_def upsert_rows_def upsert_row_def software_asset_def Let_def)
  ultimately show ?thesis using r by (intro exI [of _ rep] exI [of _ b'] exI [of _ rep']) simp
qed

text \<open>A half-blind reading of the printers takes nothing away. When only one of the two scopes could be read, every queue of the baseline
  stays, the report carries no removal and no full list, and the control plane's copy keeps agreeing with the baseline; when neither
  could be read nothing changes at all, and the reported count is that of the baseline.\<close>

theorem unread_printers_are_kept:
  assumes "baseline_ok printer_asset b" and "rows_ok printer_asset collected" and "machine = ''collected'' \<Longrightarrow> user \<noteq> ''collected'' \<and> user \<noteq> ''no_user_hive''"
    and "printer_cycle collate collected (Some (machine, user)) b = (rep, b')"
  shows "fst ` set b \<subseteq> fst ` set b' \<and> rp_items rep = None \<and> (\<forall>d. rp_delta rep = Some d \<longrightarrow> removed d = [])
    \<and> (machine \<noteq> ''collected'' \<and> user \<noteq> ''collected'' \<longrightarrow> b' = b \<and> \<not> rp_changes rep \<and> rp_count rep = length b)
    \<and> (same_content printer_content v b \<longrightarrow> same_content printer_content (apply_report printer_asset rep v) b')"
proof (cases "classify_printer_read (Some (machine, user))")
  case Complete
  then show ?thesis using assms(3) by (auto simp: classify_printer_read_def Let_def split: if_splits)
next
  case Blind
  then have "rep = \<lparr>rp_count = length (load_rows b), rp_items = None, rp_delta = None, rp_changes = False\<rparr>" "b' = b"
    using assms(4) by (auto simp: printer_cycle_common)
  then show ?thesis by (simp add: load_rows_def apply_report_def)
next
  case Partial
  then have scope: "machine = ''collected'' \<or> user = ''collected''" by (auto simp: classify_printer_read_def Let_def split: if_splits)
  let ?cur = "filter (\<lambda>p. printer_noise p = None) collected"
  let ?d = "dr_delta (compute_delta collate printer_asset ?cur (load_rows b))" let ?ups = "added ?d @ updated ?d"
  have apr: "apply_partial_read collate ?cur b = (rep, b')" using assms(4) Partial by (simp add: printer_cycle_common)
  note members = delta_members [where A = printer_asset and current = ?cur and previous = "load_rows b" and collate = collate]
  have ups: "a_key printer_asset x \<noteq> [] \<and> x \<in> set ?cur" if "x \<in> set ?ups" for x
  proof -
    have "map_of (index_rows (a_key printer_asset) ?cur) (a_key printer_asset x) = Some x"
      using that unfolding set_append Un_iff members(1,2) by blast
    from index_lookup_key [OF this] show ?thesis by blast
  qed
  have "set ?cur \<subseteq> set collected" by (rule filter_is_subset)
  then have ok: "rows_ok printer_asset ?ups" using assms(2) ups unfolding rows_ok_def by blast
  note facts = pr.upsert_facts [OF assms(1) ok]
  show ?thesis
  proof (cases "?ups = []")
    case True
    then have "b' = b" "rp_items rep = None" "rp_delta rep = None" using apr by (auto simp: apply_partial_read_def printer_table Let_def)
    then show ?thesis using scope by (auto simp: apply_report_def)
  next
    case False
    then have "b' = upsert_rows printer_asset ?ups b \<and> rp_items rep = None
        \<and> rp_delta rep = Some (?d\<lparr>removed := [], unchanged := length (load_rows b) + length (added ?d) - length ?ups\<rparr>)"
      using apr by (auto simp: apply_partial_read_def printer_table Let_def)
    then have r: "b' = upsert_rows printer_asset ?ups b" "rp_items rep = None" "\<exists>n. rp_delta rep = Some (?d\<lparr>removed := [], unchanged := n\<rparr>)"
      by blast+
    have "map_of b' k \<noteq> None" if "map_of b k \<noteq> None" for k
    proof -
      have "map_option printer_content (map_of b' k) \<noteq> None"
        unfolding r(1) facts(2) using that by (simp split: option.split)
      then show ?thesis by simp
    qed
    then have sub: "fst ` set b \<subseteq> fst ` set b'" by (auto simp: map_of_eq_None_iff)
    have "same_content printer_content (apply_report printer_asset rep v) b'" if v: "same_content printer_content v b"
      unfolding same_content_def
    proof
      fix k
      obtain n where n: "rp_delta rep = Some (?d\<lparr>removed := [], unchanged := n\<rparr>)" using r(3) by blast
      have "map_of (foldl (\<lambda>v x. map_set v (a_key printer_asset x) x) v ?ups) k
          = (case map_of (index_rows (a_key printer_asset) ?ups) k of Some x \<Rightarrow> Some x | None \<Rightarrow> map_of v k)"
        by (rule pr.view_upsert) (use ups in blast)
      then show "map_option printer_content (map_of (apply_report printer_asset rep v) k) = map_option printer_content (map_of b' k)"
        unfolding r(1) facts(2) using v by (simp add: apply_report_def r(2) n delete_lookup same_content_def split: option.split)
    qed
    then show ?thesis using sub r scope by auto
  qed
qed

lemma unread_printers_are_kept_witness:
  "\<exists>rep b'. printer_cycle (\<lambda>x y. x \<le> y) [] (Some (''timeout'', ''collected''))
       [(''q'', \<lparr>pr_id = ''q'', pr_name = ''Q'', pr_source = ''cups'', pr_driver = None, pr_port = None, pr_default = None, pr_network = None,
          pr_shared = None, pr_location = None, pr_comments = None, pr_share_name = None, pr_host = None, pr_status = None, pr_detected = ''t''\<rparr>)]
      = (rep, b') \<and> ''q'' \<in> fst ` set b'"
proof -
  let ?b = "[(''q'', \<lparr>pr_id = ''q'', pr_name = ''Q'', pr_source = ''cups'', pr_driver = None, pr_port = None, pr_default = None, pr_network = None,
          pr_shared = None, pr_location = None, pr_comments = None, pr_share_name = None, pr_host = None, pr_status = None, pr_detected = ''t''\<rparr>)]"
  obtain rep b' where r: "printer_cycle (\<lambda>x y. x \<le> y) [] (Some (''timeout'', ''collected'')) ?b = (rep, b')"
    by (cases "printer_cycle (\<lambda>x y. x \<le> y) [] (Some (''timeout'', ''collected'')) ?b")
  have h: "baseline_ok printer_asset ?b" "rows_ok printer_asset []"
    by (simp_all add: baseline_ok_def rows_ok_def printer_asset_def)
  from unread_printers_are_kept [OF h _ r] have "fst ` set ?b \<subseteq> fst ` set b'" by blast
  then show ?thesis using r by auto
qed

text \<open>Having none is not remembered. A complete reading that finds no printer leaves the empty baseline empty, so the next one is a first
  run again: the report of a device without printers says that something changed in every cycle, and each cycle's inventory is sent.\<close>

theorem no_printers_change_every_cycle:
  assumes "classify_printer_read scopes = Complete" and "\<forall>p \<in> set collected. printer_noise p \<noteq> None"
  shows "printer_cycle collate collected scopes []
    = (\<lparr>rp_count = 0, rp_items = Some [], rp_delta = None, rp_changes = True\<rparr>, [])"
proof -
  have "filter (\<lambda>p. printer_noise p = None) collected = []" using assms(2) by (simp add: filter_empty_conv)
  then show ?thesis using assms(1) by (simp add: printer_cycle_common full_cycle_def load_rows_def upsert_rows_def)
qed

lemma no_printers_change_every_cycle_witness:
  "printer_cycle (\<lambda>x y. True) [] (Some (''collected'', ''no_user_hive'')) [] = (\<lparr>rp_count = 0, rp_items = Some [], rp_delta = None, rp_changes = True\<rparr>, [])"
  by (rule no_printers_change_every_cycle) (simp_all add: classify_printer_read_def)

end
