(* ===== verification/Der.thy ===== *)
theory Der
  imports Jsval "HOL-Library.Word"
begin

unbundle bit_operations_syntax

text \<open>
  The DER reader of certificate discovery (\<open>plugins/cdp/der.ts\<close>): bounded reading of tag-length-value triples from untrusted bytes, object
  identifiers, and what is read out of a certificate. \<open>null\<close> is \<open>None\<close>; a buffer is a list of bytes and offsets are naturals (no caller
  passes a negative one). The second half states what a DER encoding is and proves that the reader reads it back.
\<close>

section \<open>readTlv and children\<close>

type_synonym bytes = "8 word list"

definition TAG_SEQUENCE :: "8 word" where "TAG_SEQUENCE = 0x30"
definition TAG_OID :: "8 word" where "TAG_OID = 0x06"
definition TAG_CONTEXT_0 :: "8 word" where "TAG_CONTEXT_0 = 0xa0"
definition MAX_SIBLINGS :: nat where "MAX_SIBLINGS = 64"
definition MAX_OID_BYTES :: nat where "MAX_OID_BYTES = 64"

record tlv =
  tag :: "8 word"
  header_start :: nat
  start :: nat
  tend :: nat
  nxt :: nat

text \<open>\<open>length = length * 256 + byte\<close> over the bytes of a long length\<close>

definition be_value :: "bytes \<Rightarrow> nat" where
  "be_value bs = foldl (\<lambda>l b. l * 256 + unat b) 0 bs"

definition read_tlv :: "bytes \<Rightarrow> nat \<Rightarrow> tlv option" where
  "read_tlv buf offset =
     (if offset + 2 > length buf then None
      else
        (let t = buf ! offset; lb = buf ! (offset + 1);
             header =
               (if unat lb < 0x80 then Some (unat lb, 2)
                else if lb = 0x80 then None
                else let n = unat (lb AND 0x7f) in
                  if n > 4 \<or> offset + 2 + n > length buf then None
                  else Some (be_value (take n (drop (offset + 2) buf)), 2 + n))
         in case header of None \<Rightarrow> None
          | Some (len, hl) \<Rightarrow>
              (let s = offset + hl; e = s + len in
               if e > length buf then None
               else Some \<lparr>tag = t, header_start = offset, start = s, tend = e, nxt = e\<rparr>)))"

text \<open>The loop of \<open>children\<close>; the first argument is how many siblings it may still take.\<close>

fun children_loop :: "nat \<Rightarrow> bytes \<Rightarrow> nat \<Rightarrow> nat \<Rightarrow> tlv list" where
  "children_loop 0 buf parent_end offset = []"
| "children_loop (Suc room) buf parent_end offset =
     (if offset < parent_end
      then case read_tlv buf offset of
             None \<Rightarrow> []
           | Some t \<Rightarrow> if nxt t > parent_end \<or> nxt t \<le> offset then [] else t # children_loop room buf parent_end (nxt t)
      else [])"

definition children :: "bytes \<Rightarrow> tlv \<Rightarrow> tlv list" where
  "children buf parent = children_loop MAX_SIBLINGS buf (tend parent) (start parent)"

text \<open>\<open>xs[i]\<close>, \<open>undefined\<close> out of range\<close>

definition elem :: "'a list \<Rightarrow> nat \<Rightarrow> 'a option" where
  "elem xs i = (if i < length xs then Some (xs ! i) else None)"

definition slice :: "bytes \<Rightarrow> nat \<Rightarrow> nat \<Rightarrow> bytes" where
  "slice buf a b = take (b - a) (drop a buf)"

definition has_tag :: "8 word \<Rightarrow> tlv option \<Rightarrow> bool" where
  "has_tag g t \<longleftrightarrow> (case t of None \<Rightarrow> False | Some x \<Rightarrow> tag x = g)"

section \<open>Object identifiers\<close>

text \<open>The arcs after the first byte, and whether a continuation byte is pending at the end. A value past the integers that numbers
  represent exactly gives up.\<close>

definition MAX_SAFE_INTEGER :: nat where "MAX_SAFE_INTEGER = 9007199254740991"

fun oid_loop :: "bytes \<Rightarrow> nat \<Rightarrow> bool \<Rightarrow> nat list \<Rightarrow> (nat list \<times> bool) option" where
  "oid_loop [] val pending parts = Some (parts, pending)"
| "oid_loop (b # bs) val pending parts =
     (if MAX_SAFE_INTEGER < val * 128 then None
      else let v = val * 128 + unat (b AND 0x7f) in
        if b AND 0x80 = 0 then oid_loop bs 0 False (parts @ [v]) else oid_loop bs v True parts)"

definition oid_parts :: "bytes \<Rightarrow> nat list option" where
  "oid_parts c = (case c of [] \<Rightarrow> None | b # bs \<Rightarrow>
     (case oid_loop bs 0 False [unat b div 40, unat b mod 40] of
        None \<Rightarrow> None
      | Some (parts, pending) \<Rightarrow> if pending then None else Some parts))"

definition decode_oid :: "bytes \<Rightarrow> tlv option \<Rightarrow> string option" where
  "decode_oid buf t = (case t of None \<Rightarrow> None | Some x \<Rightarrow>
     (let len = tend x - start x in
      if tag x \<noteq> TAG_OID \<or> len = 0 \<or> len > MAX_OID_BYTES then None
      else map_option (\<lambda>ps. join_with ''.'' (map show_nat ps)) (oid_parts (slice buf (start x) (tend x)))))"

section \<open>What is read from a certificate\<close>

text \<open>The first steps all the readers share: the certificate, its tbsCertificate.\<close>

definition tbs_of :: "bytes \<Rightarrow> tlv option" where
  "tbs_of der =
     (if length der < 8 then None
      else case read_tlv der 0 of
        None \<Rightarrow> None
      | Some cert \<Rightarrow>
          if tag cert \<noteq> TAG_SEQUENCE then None
          else let tbs = elem (children der cert) 0 in if has_tag TAG_SEQUENCE tbs then tbs else None)"

definition version_base :: "tlv list \<Rightarrow> nat" where
  "version_base cs = (if has_tag TAG_CONTEXT_0 (elem cs 0) then 1 else 0)"

definition extract_spki_der :: "bytes \<Rightarrow> bytes option" where
  "extract_spki_der der = (case tbs_of der of None \<Rightarrow> None | Some tbs \<Rightarrow>
     (let cs = children der tbs; spki = elem cs (version_base cs + 5) in
      case spki of
        None \<Rightarrow> None
      | Some s \<Rightarrow> if tag s \<noteq> TAG_SEQUENCE then None else Some (slice der (header_start s) (tend s))))"

record cert_algorithm_oids =
  public_key_oid :: "string option"
  public_key_param_oid :: "string option"
  signature_oid :: "string option"

definition no_oids :: cert_algorithm_oids where
  "no_oids = \<lparr>public_key_oid = None, public_key_param_oid = None, signature_oid = None\<rparr>"

definition extract_algorithm_oids :: "bytes \<Rightarrow> cert_algorithm_oids" where
  "extract_algorithm_oids der = (case tbs_of der of None \<Rightarrow> no_oids | Some tbs \<Rightarrow>
     (let cs = children der tbs; base = version_base cs;
          sig = elem cs (base + 1); spki = elem cs (base + 5);
          r = (case sig of None \<Rightarrow> no_oids | Some s \<Rightarrow>
                 if tag s \<noteq> TAG_SEQUENCE then no_oids
                 else no_oids\<lparr>signature_oid := decode_oid der (elem (children der s) 0)\<rparr>)
      in case spki of None \<Rightarrow> r | Some s \<Rightarrow>
           if tag s \<noteq> TAG_SEQUENCE then r
           else case elem (children der s) 0 of None \<Rightarrow> r | Some a \<Rightarrow>
             if tag a \<noteq> TAG_SEQUENCE then r
             else (let ac = children der a in
               r\<lparr>public_key_oid := decode_oid der (elem ac 0),
                 public_key_param_oid := (if has_tag TAG_OID (elem ac 1) then decode_oid der (elem ac 1) else None)\<rparr>)))"

section \<open>Extensions\<close>

definition TAG_CONTEXT_3 :: "8 word" where "TAG_CONTEXT_3 = 0xa3"
definition TAG_OCTET_STRING :: "8 word" where "TAG_OCTET_STRING = 0x04"
definition TAG_IA5_STRING :: "8 word" where "TAG_IA5_STRING = 0x16"
definition TAG_CONTEXT_6 :: "8 word" where "TAG_CONTEXT_6 = 0x86"
definition EXT_CRL_DISTRIBUTION_POINTS :: string where "EXT_CRL_DISTRIBUTION_POINTS = ''2.5.29.31''"
definition EXT_AUTHORITY_INFO_ACCESS :: string where "EXT_AUTHORITY_INFO_ACCESS = ''1.3.6.1.5.5.7.1.1''"
definition EXT_SUBJECT_ALT_PUBLIC_KEY_INFO :: string where "EXT_SUBJECT_ALT_PUBLIC_KEY_INFO = ''2.5.29.72''"
definition EXT_ALT_SIGNATURE_ALGORITHM :: string where "EXT_ALT_SIGNATURE_ALGORITHM = ''2.5.29.73''"
definition EXT_ALT_SIGNATURE_VALUE :: string where "EXT_ALT_SIGNATURE_VALUE = ''2.5.29.74''"
definition EXT_EXTENDED_KEY_USAGE :: string where "EXT_EXTENDED_KEY_USAGE = ''2.5.29.37''"
definition ACCESS_METHOD_OCSP :: string where "ACCESS_METHOD_OCSP = ''1.3.6.1.5.5.7.48.1''"
definition ACCESS_METHOD_CA_ISSUERS :: string where "ACCESS_METHOD_CA_ISSUERS = ''1.3.6.1.5.5.7.48.2''"
definition MAX_URLS :: nat where "MAX_URLS = 8"
definition MAX_URL_LEN :: nat where "MAX_URL_LEN = 512"
definition MAX_EKU :: nat where "MAX_EKU = 16"

fun find_extension :: "bytes \<Rightarrow> string \<Rightarrow> tlv list \<Rightarrow> tlv option" where
  "find_extension der oid [] = None"
| "find_extension der oid (ext # es) =
     (if tag ext \<noteq> TAG_SEQUENCE then find_extension der oid es
      else let parts = children der ext in
        if decode_oid der (elem parts 0) \<noteq> Some oid then find_extension der oid es
        else let v = (if parts = [] then None else Some (last parts)) in
          if has_tag TAG_OCTET_STRING v then v else None)"

definition extract_extension :: "bytes \<Rightarrow> string \<Rightarrow> tlv option" where
  "extract_extension der oid = (case tbs_of der of None \<Rightarrow> None | Some tbs \<Rightarrow>
     (case find (\<lambda>c. tag c = TAG_CONTEXT_3) (children der tbs) of None \<Rightarrow> None | Some w \<Rightarrow>
        (case elem (children der w) 0 of None \<Rightarrow> None | Some es \<Rightarrow>
           if tag es \<noteq> TAG_SEQUENCE then None else find_extension der oid (children der es))))"

record hybrid_oids =
  alt_signature_oid :: "string option"
  alt_public_key_oid :: "string option"
  has_alt_signature_value :: bool

definition extract_hybrid_oids :: "bytes \<Rightarrow> hybrid_oids" where
  "extract_hybrid_oids der =
     (if length der < 8 then \<lparr>alt_signature_oid = None, alt_public_key_oid = None, has_alt_signature_value = False\<rparr>
      else
        \<lparr>alt_signature_oid =
           (case extract_extension der EXT_ALT_SIGNATURE_ALGORITHM of None \<Rightarrow> None | Some v \<Rightarrow>
              (case elem (children der v) 0 of None \<Rightarrow> None | Some s \<Rightarrow>
                 if tag s \<noteq> TAG_SEQUENCE then None else decode_oid der (elem (children der s) 0))),
         alt_public_key_oid =
           (case extract_extension der EXT_SUBJECT_ALT_PUBLIC_KEY_INFO of None \<Rightarrow> None | Some v \<Rightarrow>
              (case elem (children der v) 0 of None \<Rightarrow> None | Some s \<Rightarrow>
                 if tag s \<noteq> TAG_SEQUENCE then None
                 else (case elem (children der s) 0 of None \<Rightarrow> None | Some a \<Rightarrow>
                   if tag a \<noteq> TAG_SEQUENCE then None else decode_oid der (elem (children der a) 0)))),
         has_alt_signature_value = (extract_extension der EXT_ALT_SIGNATURE_VALUE \<noteq> None)\<rparr>)"

definition latin1 :: "bytes \<Rightarrow> string" where
  "latin1 bs = map (\<lambda>b. char_of (unat b)) bs"

definition is_http_url :: "string \<Rightarrow> bool" where
  "is_http_url s \<longleftrightarrow> starts_with (to_lower s) ''http://'' \<or> starts_with (to_lower s) ''https://''"

text \<open>\<open>collectUris\<close>: the first argument is how many levels are left (the source starts at depth 0 and stops below depth 6).\<close>

fun collect_uris :: "nat \<Rightarrow> bytes \<Rightarrow> tlv \<Rightarrow> string list \<Rightarrow> string list" where
  "collect_uris 0 der parent out = out"
| "collect_uris (Suc levels) der parent out =
     (if length out \<ge> MAX_URLS then out
      else foldl (\<lambda>out child.
        if length out \<ge> MAX_URLS then out
        else if tag child = TAG_IA5_STRING \<or> tag child = TAG_CONTEXT_6
        then (let v = trim (latin1 (slice der (start child) (tend child))) in
              if length v > 0 \<and> length v \<le> MAX_URL_LEN \<and> is_http_url v \<and> v \<notin> set out then out @ [v] else out)
        else if tag child AND 0x20 \<noteq> 0 then collect_uris levels der child out
        else out) out (children der parent))"

definition URI_LEVELS :: nat where "URI_LEVELS = 7"

definition extract_crl_urls :: "bytes \<Rightarrow> string list" where
  "extract_crl_urls der = (case extract_extension der EXT_CRL_DISTRIBUTION_POINTS of None \<Rightarrow> [] | Some ext \<Rightarrow>
     (case read_tlv der (start ext) of None \<Rightarrow> [] | Some inner \<Rightarrow> collect_uris URI_LEVELS der inner []))"

text \<open>The loop over the access descriptions, shared by the OCSP and the issuer addresses.\<close>

definition access_urls :: "bytes \<Rightarrow> string \<Rightarrow> string list" where
  "access_urls der method = (case extract_extension der EXT_AUTHORITY_INFO_ACCESS of None \<Rightarrow> [] | Some ext \<Rightarrow>
     (case read_tlv der (start ext) of None \<Rightarrow> [] | Some inner \<Rightarrow>
        if tag inner \<noteq> TAG_SEQUENCE then []
        else foldl (\<lambda>urls a.
               if tag a \<noteq> TAG_SEQUENCE then urls
               else if decode_oid der (elem (children der a) 0) \<noteq> Some method then urls
               else collect_uris URI_LEVELS der a urls) [] (children der inner)))"

definition extract_ocsp_urls :: "bytes \<Rightarrow> string list" where
  "extract_ocsp_urls der = access_urls der ACCESS_METHOD_OCSP"

definition extract_ca_issuer_urls :: "bytes \<Rightarrow> string list" where
  "extract_ca_issuer_urls der = filter (\<lambda>u. starts_with (to_lower u) ''http://'') (access_urls der ACCESS_METHOD_CA_ISSUERS)"

fun eku_loop :: "bytes \<Rightarrow> tlv list \<Rightarrow> string list \<Rightarrow> string list" where
  "eku_loop der [] out = out"
| "eku_loop der (c # cs) out =
     (if tag c \<noteq> TAG_OID then eku_loop der cs out
      else let out' = (case decode_oid der (Some c) of None \<Rightarrow> out | Some o1 \<Rightarrow>
                 if o1 \<noteq> [] \<and> o1 \<notin> set out then out @ [o1] else out)
           in if length out' \<ge> MAX_EKU then out' else eku_loop der cs out')"

definition extract_extended_key_usage :: "bytes \<Rightarrow> string list" where
  "extract_extended_key_usage der = (case extract_extension der EXT_EXTENDED_KEY_USAGE of None \<Rightarrow> [] | Some ext \<Rightarrow>
     (let s = elem (children der ext) 0 in
      case s of None \<Rightarrow> [] | Some x \<Rightarrow> if tag x \<noteq> TAG_SEQUENCE then [] else eku_loop der (children der x) []))"

section \<open>Bounds\<close>

lemma read_tlv_bounds:
  assumes "read_tlv buf k = Some t"
  shows "header_start t = k \<and> k + 2 \<le> start t \<and> start t \<le> tend t \<and> tend t \<le> length buf \<and> nxt t = tend t"
  using assms by (auto simp: read_tlv_def Let_def split: if_splits)

lemma children_loop_cases:
  "children_loop (Suc room) buf pe k = [] \<or> (\<exists>u. read_tlv buf k = Some u \<and> nxt u \<le> pe \<and> k < nxt u
     \<and> children_loop (Suc room) buf pe k = u # children_loop room buf pe (nxt u))"
proof (cases "read_tlv buf k")
  case (Some u)
  then show ?thesis by (cases "nxt u \<le> pe \<and> k < nxt u \<and> k < pe") auto
qed simp

declare children_loop.simps(2) [simp del]

lemma children_loop_bounds:
  "t \<in> set (children_loop room buf pe k) \<Longrightarrow>
     k \<le> header_start t \<and> header_start t + 2 \<le> start t \<and> start t \<le> tend t \<and> tend t \<le> pe \<and> tend t \<le> length buf \<and> nxt t = tend t"
proof (induction room buf pe k rule: children_loop.induct)
  case (2 room buf pe k)
  have "children_loop (Suc room) buf pe k \<noteq> []" using 2(2) by auto
  then obtain u where u: "read_tlv buf k = Some u" "nxt u \<le> pe" "k < nxt u"
    and e: "children_loop (Suc room) buf pe k = u # children_loop room buf pe (nxt u)" using children_loop_cases [of room buf pe k] by auto
  have t: "t = u \<or> t \<in> set (children_loop room buf pe (nxt u))" using 2(2) unfolding e by simp
  note b = read_tlv_bounds [OF u(1)]
  from t show ?case
  proof
    assume "t = u"
    then show ?thesis using b u by simp
  next
    assume h: "t \<in> set (children_loop room buf pe (nxt u))"
    have "k < pe" using u by linarith
    from 2(1) [OF this u(1) _ h] u have "nxt u \<le> header_start t \<and> header_start t + 2 \<le> start t \<and> start t \<le> tend t
      \<and> tend t \<le> pe \<and> tend t \<le> length buf \<and> nxt t = tend t" by linarith
    then show ?thesis using u by linarith
  qed
qed simp

lemma children_loop_length: "length (children_loop room buf pe k) \<le> room"
  by (induction room buf pe k rule: children_loop.induct) (auto simp: children_loop.simps(2) split: option.splits)

lemma children_loop_chain:
  "children_loop room buf pe k = cs \<Longrightarrow> (cs \<noteq> [] \<longrightarrow> header_start (hd cs) = k) \<and> (\<forall>i. Suc i < length cs \<longrightarrow> header_start (cs ! Suc i) = tend (cs ! i))"
proof (induction room buf pe k arbitrary: cs rule: children_loop.induct)
  case (2 room buf pe k)
  show ?case
  proof (cases "cs = []")
    case False
    then obtain u where u: "read_tlv buf k = Some u" "nxt u \<le> pe" "k < nxt u" and cs: "cs = u # children_loop room buf pe (nxt u)"
      using 2(2) children_loop_cases [of room buf pe k] by auto
    let ?ds = "children_loop room buf pe (nxt u)"
    have "k < pe" using u by linarith
    from 2(1) [OF this u(1) _ refl] u
    have IH: "?ds \<noteq> [] \<longrightarrow> header_start (hd ?ds) = nxt u" "\<forall>i. Suc i < length ?ds \<longrightarrow> header_start (?ds ! Suc i) = tend (?ds ! i)" by simp_all
    have "header_start (cs ! Suc i) = tend (cs ! i)" if "Suc i < length cs" for i
      using that IH read_tlv_bounds [OF u(1)] by (cases i; cases ?ds) (auto simp: cs)
    then show ?thesis using read_tlv_bounds [OF u(1)] by (simp add: cs)
  qed simp
qed simp

text \<open>C34. Whatever the bytes are, reading stays inside them. The children of a node are at most 64, each lies inside its parent and inside the
  buffer with room for its own header, and they follow one another without gap or overlap from the first byte of the parent's content;
  so no sequence of reads leaves the buffer or visits a byte of one level twice.\<close>

theorem children_partition_parent:
  "let cs = children buf parent in
     length cs \<le> 64
     \<and> list_all (\<lambda>t. start parent \<le> header_start t \<and> header_start t + 2 \<le> start t \<and> start t \<le> tend t \<and> tend t \<le> tend parent \<and> tend t \<le> length buf) cs
     \<and> (cs = [] \<or> header_start (hd cs) = start parent)
     \<and> map header_start (drop 1 cs) = map tend (butlast cs)"
proof -
  let ?cs = "children buf parent"
  have c: "?cs \<noteq> [] \<longrightarrow> header_start (hd ?cs) = start parent" "\<forall>i. Suc i < length ?cs \<longrightarrow> header_start (?cs ! Suc i) = tend (?cs ! i)"
    using children_loop_chain [of MAX_SIBLINGS buf "tend parent" "start parent", OF refl] by (simp_all add: children_def)
  have "map header_start (drop 1 ?cs) = map tend (butlast ?cs)"
    using c(2) by (intro nth_equalityI) (auto simp: nth_butlast)
  then show ?thesis
    using c(1) children_loop_length [of MAX_SIBLINGS buf "tend parent" "start parent"]
    by (auto simp: Let_def children_def MAX_SIBLINGS_def list_all_iff dest: children_loop_bounds)
qed

section \<open>Encodings\<close>

text \<open>A DER value: a primitive with its content, or a constructed one with its parts. Lengths take the short form below 128 and otherwise
  the least number of bytes.\<close>

datatype node = Prim "8 word" bytes | Con "8 word" "node list"

fun be_bytes :: "nat \<Rightarrow> bytes" where
  "be_bytes n = (if n = 0 then [] else be_bytes (n div 256) @ [of_nat (n mod 256)])"

declare be_bytes.simps [simp del]

definition len_field :: "nat \<Rightarrow> bytes" where
  "len_field n = (if n < 128 then [of_nat n] else of_nat (128 + length (be_bytes n)) # be_bytes n)"

fun node_tag :: "node \<Rightarrow> 8 word" where
  "node_tag (Prim g c) = g"
| "node_tag (Con g xs) = g"

fun enc :: "node \<Rightarrow> bytes" where
  "enc (Prim g c) = g # len_field (length c) @ c"
| "enc (Con g xs) = (let c = concat (map enc xs) in g # len_field (length c) @ c)"

fun content :: "node \<Rightarrow> bytes" where
  "content (Prim g c) = c"
| "content (Con g xs) = concat (map enc xs)"

lemma enc_split: "enc x = node_tag x # len_field (length (content x)) @ content x"
  by (cases x) (simp_all add: Let_def)

section \<open>Reading an encoding back\<close>

lemma unat_low7: "unat ((b :: 8 word) AND 0x7f) = unat b mod 128"
proof -
  have "(0x7f :: 8 word) = mask 7" by (simp add: mask_eq_exp_minus_1)
  then have "b AND 0x7f = take_bit 7 b" by (simp add: take_bit_eq_mask)
  then have "unat (b AND 0x7f) = take_bit 7 (unat b)" by (simp only: unsigned_take_bit_eq)
  then show ?thesis by (simp add: take_bit_eq_mod)
qed

lemma high_bit: "(b :: 8 word) AND 0x80 = 0 \<longleftrightarrow> unat b < 128"
proof -
  have "(0x80 :: 8 word) = 2 ^ 7" by simp
  then have "b AND 0x80 = 0 \<longleftrightarrow> \<not> bit b 7" by (simp only: and_exp_eq_0_iff_not_bit)
  also have "\<dots> \<longleftrightarrow> \<not> bit (unat b) 7" by (simp add: bit_unsigned_iff)
  also have "\<dots> \<longleftrightarrow> \<not> odd (unat b div 128)" by (simp add: bit_iff_odd)
  also have "\<dots> \<longleftrightarrow> unat b < 128"
  proof -
    have "unat b < 256" using unsigned_less [of b] by simp
    then have "unat b div 128 < 2" by (simp add: div_less_iff_less_mult)
    then have "unat b div 128 = 0 \<or> unat b div 128 = 1" by linarith
    then show ?thesis by (auto simp: div_eq_0_iff)
  qed
  finally show ?thesis .
qed

lemma unat_byte: "n < 256 \<Longrightarrow> unat (of_nat n :: 8 word) = n"
  by (simp add: unat_of_nat)

lemma be_value_snoc: "be_value (bs @ [b]) = be_value bs * 256 + unat b"
  by (simp add: be_value_def)

lemma be_value_be_bytes: "be_value (be_bytes n) = n"
proof (induction n rule: be_bytes.induct)
  case (1 n)
  show ?case
  proof (cases "n = 0")
    case True
    then show ?thesis by (simp add: be_bytes.simps [of 0] be_value_def)
  next
    case False
    then show ?thesis using 1 by (simp add: be_bytes.simps [of n] be_value_snoc unat_byte)
  qed
qed

lemma be_bytes_length: "n < 256 ^ k \<Longrightarrow> length (be_bytes n) \<le> k"
proof (induction k arbitrary: n)
  case 0
  then show ?case by (simp add: be_bytes.simps)
next
  case (Suc k)
  then have "n div 256 < 256 ^ k" by (simp add: div_less_iff_less_mult mult.commute)
  from Suc.IH [OF this] show ?case by (simp add: be_bytes.simps [of n])
qed

lemma be_bytes_nonempty: "n > 0 \<Longrightarrow> be_bytes n \<noteq> []"
  by (simp add: be_bytes.simps [of n])

lemma read_encoded:
  assumes "length c < 4294967296"
  shows "read_tlv (pre @ g # len_field (length c) @ c @ post) (length pre) =
    Some \<lparr>tag = g, header_start = length pre, start = length pre + 1 + length (len_field (length c)),
      tend = length pre + 1 + length (len_field (length c)) + length c, nxt = length pre + 1 + length (len_field (length c)) + length c\<rparr>"
proof (cases "length c < 128")
  case True
  then show ?thesis by (simp add: read_tlv_def len_field_def Let_def nth_append unat_byte)
next
  case False
  let ?bs = "be_bytes (length c)"
  have l: "length ?bs \<le> 4" using be_bytes_length [of "length c" 4] assms by simp
  have "0 < length c" using False by linarith
  then have pos: "0 < length ?bs" unfolding length_greater_0_conv by (intro be_bytes_nonempty) simp
  obtain w :: "8 word" where w: "w = of_nat (128 + length ?bs)" by blast
  have u: "unat w = 128 + length ?bs" unfolding w by (rule unat_byte) (use l in simp)
  then have "w \<noteq> 0x80" using pos by auto
  moreover have "len_field (length c) = w # ?bs" using False by (simp add: len_field_def w)
  ultimately show ?thesis using u l pos
    by (simp add: read_tlv_def Let_def nth_append unat_low7 be_value_be_bytes)
qed

text \<open>Where a node is in a buffer: the triple spans its encoding, and its content.\<close>

definition holds_node :: "bytes \<Rightarrow> tlv \<Rightarrow> node \<Rightarrow> bool" where
  "holds_node buf t x \<longleftrightarrow> tag t = node_tag x \<and> header_start t \<le> start t \<and> start t \<le> tend t \<and> tend t \<le> length buf \<and> nxt t = tend t
     \<and> slice buf (header_start t) (tend t) = enc x \<and> slice buf (start t) (tend t) = content x"

lemma slice_middle [simp]: "slice (pre @ ys @ post) (length pre) (length pre + length ys) = ys"
  by (simp add: slice_def)

lemma slice_length: "b \<le> length buf \<Longrightarrow> length (slice buf a b) = b - a"
  by (simp add: slice_def)

lemma slice_parts:
  assumes "slice buf a b = ys" and "a \<le> b" and "b \<le> length buf"
  obtains pre post where "buf = pre @ ys @ post" and "a = length pre" and "b = length pre + length ys"
proof
  show "buf = take a buf @ ys @ drop b buf"
    using assms by (metis add_diff_inverse_nat append_take_drop_id drop_drop leD slice_def take_drop add.commute le_add_diff_inverse)
  show "a = length (take a buf)" using assms by simp
  show "b = length (take a buf) + length ys" using assms by (auto simp: slice_def)
qed

lemma read_node:
  assumes "length (content x) < 4294967296"
  shows "\<exists>t. read_tlv (pre @ enc x @ post) (length pre) = Some t \<and> holds_node (pre @ enc x @ post) t x
    \<and> header_start t = length pre \<and> tend t = length pre + length (enc x)"
proof -
  let ?h = "node_tag x # len_field (length (content x))"
  have e: "enc x = ?h @ content x" by (simp add: enc_split)
  have "slice ((pre @ ?h) @ content x @ post) (length (pre @ ?h)) (length (pre @ ?h) + length (content x)) = content x" by (rule slice_middle)
  moreover have "slice (pre @ enc x @ post) (length pre) (length pre + length (enc x)) = enc x" by (rule slice_middle)
  ultimately show ?thesis
    using read_encoded [OF assms, of pre "node_tag x" post] by (simp add: e holds_node_def add.assoc)
qed

lemma enc_length: "length (content x) < length (enc x)"
  by (simp add: enc_split)

lemma part_length: "x \<in> set xs \<Longrightarrow> length (enc x) \<le> length (concat (map enc xs))"
  by (induction xs) auto

lemma children_loop_nodes:
  assumes "\<forall>x \<in> set xs. length (content x) < 4294967296" and "buf = pre @ concat (map enc xs) @ post"
  shows "list_all2 (holds_node buf) (children_loop room buf (length pre + length (concat (map enc xs))) (length pre)) (take room xs)"
  using assms
proof (induction room arbitrary: pre xs)
  case 0
  then show ?case by simp
next
  case (Suc room)
  show ?case
  proof (cases xs)
    case Nil
    then show ?thesis by (simp add: children_loop.simps(2))
  next
    case (Cons x ys)
    let ?pe = "length pre + length (concat (map enc xs))"
    obtain t where t: "read_tlv buf (length pre) = Some t" "holds_node buf t x" "tend t = length pre + length (enc x)"
      using read_node [of x pre "concat (map enc ys) @ post"] Suc.prems Cons by auto
    have "list_all2 (holds_node buf) (children_loop room buf (length (pre @ enc x) + length (concat (map enc ys))) (length (pre @ enc x))) (take room ys)"
      by (rule Suc.IH) (use Suc.prems Cons in auto)
    then have "list_all2 (holds_node buf) (children_loop room buf ?pe (nxt t)) (take room ys)"
      using t by (simp add: Cons holds_node_def add.assoc)
    moreover have "length pre < tend t" "tend t \<le> ?pe" using t(3) enc_length [of x] by (auto simp: Cons)
    moreover have "nxt t = tend t" "enc x \<noteq> []" using t(2) by (simp_all add: holds_node_def enc_split)
    ultimately show ?thesis using t(1,2) by (simp add: children_loop.simps(2) Cons)
  qed
qed

lemma children_of_content:
  assumes "slice buf (start t) (tend t) = concat (map enc xs)" and "start t \<le> tend t" and "tend t \<le> length buf"
    and "length (concat (map enc xs)) < 4294967296"
  shows "list_all2 (holds_node buf) (children buf t) (take 64 xs)"
proof -
  obtain pre post where b: "buf = pre @ concat (map enc xs) @ post" "start t = length pre" "tend t = length pre + length (concat (map enc xs))"
    using slice_parts [OF assms(1-3)] .
  have "\<forall>x \<in> set xs. length (content x) < 4294967296"
    using assms(4) part_length enc_length by (meson le_trans less_le_trans linorder_not_le order.strict_trans)
  from children_loop_nodes [OF this b(1), of MAX_SIBLINGS] show ?thesis by (simp add: children_def b(2,3) MAX_SIBLINGS_def)
qed

lemma children_of_node:
  assumes "holds_node buf t x" and "content x = concat (map enc xs)" and "length buf < 4294967296"
  shows "list_all2 (holds_node buf) (children buf t) (take 64 xs)"
proof (rule children_of_content)
  show "slice buf (start t) (tend t) = concat (map enc xs)" "start t \<le> tend t" "tend t \<le> length buf"
    using assms(1,2) by (auto simp: holds_node_def)
  then have "length (concat (map enc xs)) \<le> length buf" by (metis diff_le_self le_trans length_drop length_take min.cobounded1 slice_def take_drop)
  then show "length (concat (map enc xs)) < 4294967296" using assms(3) by linarith
qed

lemma elem_node:
  assumes "list_all2 P ts xs"
  shows "i < length xs \<Longrightarrow> \<exists>t. elem ts i = Some t \<and> P t (xs ! i)" and "length xs \<le> i \<Longrightarrow> elem ts i = None"
  using assms by (auto simp: elem_def list_all2_lengthD list_all2_nthD2)

lemma elem_tag:
  assumes "list_all2 (holds_node buf) ts xs"
  shows "has_tag g (elem ts i) \<longleftrightarrow> i < length xs \<and> node_tag (xs ! i) = g"
  using elem_node [OF assms, of i] by (cases "i < length xs") (auto simp: has_tag_def holds_node_def)

lemma node_tags: "list_all2 (holds_node buf) ts xs \<Longrightarrow> map tag ts = map node_tag xs"
  by (induction ts xs rule: list_all2_induct) (simp_all add: holds_node_def)

lemma root_node:
  assumes "length (enc x) < 4294967296"
  shows "\<exists>t. read_tlv (enc x) 0 = Some t \<and> holds_node (enc x) t x"
  using read_node [of x "[]" "[]"] assms enc_length [of x] by auto

text \<open>What the reader makes of the content of an identifier.\<close>

definition oid_text :: "node \<Rightarrow> string option" where
  "oid_text x = (if node_tag x \<noteq> TAG_OID \<or> content x = [] \<or> length (content x) > MAX_OID_BYTES then None
     else map_option (\<lambda>ps. join_with ''.'' (map show_nat ps)) (oid_parts (content x)))"

lemma decode_oid_node: "holds_node buf t x \<Longrightarrow> decode_oid buf (Some t) = oid_text x"
proof -
  assume h: "holds_node buf t x"
  then have "length (slice buf (start t) (tend t)) = tend t - start t" by (intro slice_length) (simp add: holds_node_def)
  then have "length (content x) = tend t - start t" using h by (simp add: holds_node_def)
  then show ?thesis using h by (auto simp: decode_oid_def oid_text_def holds_node_def Let_def)
qed

lemma tbs_of_node:
  assumes "der = enc (Con TAG_SEQUENCE (Con TAG_SEQUENCE parts # after))" and "length der < 4294967296" and "8 \<le> length der"
  shows "\<exists>t. tbs_of der = Some t \<and> holds_node der t (Con TAG_SEQUENCE parts)"
proof -
  obtain c where c: "read_tlv der 0 = Some c" "holds_node der c (Con TAG_SEQUENCE (Con TAG_SEQUENCE parts # after))"
    using root_node assms(1,2) by blast
  have l: "list_all2 (holds_node der) (children der c) (take 64 (Con TAG_SEQUENCE parts # after))"
    by (rule children_of_node [OF c(2)]) (simp_all add: assms(2))
  from elem_node(1) [OF l, of 0] obtain t where t: "elem (children der c) 0 = Some t" "holds_node der t (Con TAG_SEQUENCE parts)" by auto
  have "tag c = TAG_SEQUENCE" "tag t = TAG_SEQUENCE" using c(2) t(2) by (auto simp: holds_node_def)
  then have "tbs_of der = Some t" using c(1) t(1) assms(3) by (simp add: tbs_of_def has_tag_def)
  then show ?thesis using t(2) by blast
qed

text \<open>The fields of a tbsCertificate: an optional version, then serial number, signature algorithm, issuer, validity, subject, public key.\<close>

definition tbs_fields :: "node list \<Rightarrow> node \<Rightarrow> node \<Rightarrow> node list \<Rightarrow> node \<Rightarrow> node list \<Rightarrow> node list" where
  "tbs_fields version serial sig others spki rest = version @ [serial, sig] @ others @ [spki] @ rest"

definition version_ok :: "node list \<Rightarrow> node \<Rightarrow> bool" where
  "version_ok version serial \<longleftrightarrow>
     version = [] \<and> node_tag serial \<noteq> TAG_CONTEXT_0 \<or> (\<exists>v. version = [v] \<and> node_tag v = TAG_CONTEXT_0)"

lemma tbs_field_positions:
  assumes "version_ok version serial" and "length others = 3"
    and "list_all2 (holds_node der) cs (take 64 (tbs_fields version serial sig others spki rest))"
  shows "\<exists>s p. elem cs (version_base cs + 1) = Some s \<and> holds_node der s sig
     \<and> elem cs (version_base cs + 5) = Some p \<and> holds_node der p spki"
proof -
  let ?xs = "take 64 (tbs_fields version serial sig others spki rest)"
  obtain a b c where o: "others = [a, b, c]" using assms(2) by (auto simp: numeral_3_eq_3 length_Suc_conv)
  have base: "version_base cs = length version"
    unfolding version_base_def elem_tag [OF assms(3)] using assms(1) by (auto simp: tbs_fields_def version_ok_def)
  have len: "length version \<le> 1" using assms(1) by (auto simp: version_ok_def)
  have "length version + 5 < length ?xs" using len by (simp add: tbs_fields_def o)
  moreover have "?xs ! (length version + 1) = sig" "?xs ! (length version + 5) = spki"
    using len by (simp_all add: tbs_fields_def nth_append o)
  ultimately show ?thesis
    using elem_node(1) [OF assms(3), of "length version + 1"] elem_node(1) [OF assms(3), of "length version + 5"] unfolding base by force
qed

text \<open>C33. The algorithms of a certificate are read from the right places. For every certificate that is a DER encoding of the X.509 shape, with
  or without the optional version and whatever its other fields hold, the reader returns the encoding of its public key byte for byte
  and the three identifiers as the identifier decoder prints them, the curve only when the parameters are an identifier.\<close>

theorem certificate_read_back:
  assumes der_def: "der = enc (Con TAG_SEQUENCE (Con TAG_SEQUENCE (tbs_fields version serial sig others spki rest) # after))"
    and sig_def: "sig = Con TAG_SEQUENCE (alg # sps)" and spki_def: "spki = Con TAG_SEQUENCE (Con TAG_SEQUENCE (key # kps) # bits)"
    and ok: "version_ok version serial" "length others = 3" "length der < 4294967296"
  shows "extract_spki_der der = Some (enc spki)
    \<and> extract_algorithm_oids der =
        \<lparr>public_key_oid = oid_text key,
         public_key_param_oid = (case kps of [] \<Rightarrow> None | p # _ \<Rightarrow> if node_tag p = TAG_OID then oid_text p else None),
         signature_oid = oid_text alg\<rparr>"
proof -
  let ?fs = "tbs_fields version serial sig others spki rest"
  obtain a b c where o: "others = [a, b, c]" using ok(2) by (auto simp: numeral_3_eq_3 length_Suc_conv)
  have "8 \<le> length der" by (simp add: der_def tbs_fields_def o enc_split Let_def)
  then obtain t where t: "tbs_of der = Some t" "holds_node der t (Con TAG_SEQUENCE ?fs)"
    using tbs_of_node [OF der_def ok(3)] by blast
  note kids = children_of_node [OF _ _ ok(3)]
  have cs: "list_all2 (holds_node der) (children der t) (take 64 ?fs)" by (rule kids [OF t(2)]) simp
  obtain s p where s: "elem (children der t) (version_base (children der t) + 1) = Some s" "holds_node der s sig"
    and p: "elem (children der t) (version_base (children der t) + 5) = Some p" "holds_node der p spki"
    using tbs_field_positions [OF ok(1,2) cs] by blast
  have sk: "list_all2 (holds_node der) (children der s) (take 64 (alg # sps))" by (rule kids [OF s(2)]) (simp add: sig_def)
  obtain s0 where s0: "elem (children der s) 0 = Some s0" "holds_node der s0 alg" using elem_node(1) [OF sk, of 0] by auto
  have pk: "list_all2 (holds_node der) (children der p) (take 64 (Con TAG_SEQUENCE (key # kps) # bits))" by (rule kids [OF p(2)]) (simp add: spki_def)
  obtain i where i: "elem (children der p) 0 = Some i" "holds_node der i (Con TAG_SEQUENCE (key # kps))" using elem_node(1) [OF pk, of 0] by auto
  have ik: "list_all2 (holds_node der) (children der i) (take 64 (key # kps))" by (rule kids [OF i(2)]) simp
  obtain k where k: "elem (children der i) 0 = Some k" "holds_node der k key" using elem_node(1) [OF ik, of 0] by auto
  have par: "(if has_tag TAG_OID (elem (children der i) 1) then decode_oid der (elem (children der i) 1) else None)
      = (case kps of [] \<Rightarrow> None | p # _ \<Rightarrow> if node_tag p = TAG_OID then oid_text p else None)"
  proof (cases kps)
    case Nil
    then show ?thesis using elem_node(2) [OF ik, of 1] by (simp add: has_tag_def)
  next
    case (Cons q qs)
    obtain u where "elem (children der i) 1 = Some u" "holds_node der u q" using elem_node(1) [OF ik, of 1] by (auto simp: Cons)
    then show ?thesis by (auto simp: has_tag_def holds_node_def Cons decode_oid_node)
  qed
  have tags: "tag s = TAG_SEQUENCE" "tag p = TAG_SEQUENCE" "tag i = TAG_SEQUENCE" "slice der (header_start p) (tend p) = enc spki"
    using s(2) p(2) i(2) by (auto simp: holds_node_def sig_def spki_def)
  have "extract_spki_der der = Some (enc spki)" using t(1) p(1) tags by (simp add: extract_spki_der_def Let_def)
  moreover have "extract_algorithm_oids der =
        \<lparr>public_key_oid = oid_text key,
         public_key_param_oid = (case kps of [] \<Rightarrow> None | p # _ \<Rightarrow> if node_tag p = TAG_OID then oid_text p else None),
         signature_oid = oid_text alg\<rparr>"
    using t(1) s(1) p(1) tags s0 i(1) k par
    by (simp add: extract_algorithm_oids_def Let_def no_oids_def decode_oid_node)
  ultimately show ?thesis by blast
qed

section \<open>Extensions read back\<close>

definition ext_node :: "node \<times> node list \<times> bytes \<Rightarrow> node" where
  "ext_node e = (case e of (i, critical, v) \<Rightarrow> Con TAG_SEQUENCE (i # critical @ [Prim TAG_OCTET_STRING v]))"

definition ext_matches :: "string \<Rightarrow> node \<times> node list \<times> bytes \<Rightarrow> bool" where
  "ext_matches oid e \<longleftrightarrow> oid_text (fst e) = Some oid"

lemma ext_parts:
  assumes "holds_node der t (ext_node (i, critical, v))" and "length critical \<le> 62" and "length der < 4294967296"
  shows "decode_oid der (elem (children der t) 0) = oid_text i"
    and "children der t \<noteq> [] \<and> tag (last (children der t)) = TAG_OCTET_STRING
      \<and> slice der (start (last (children der t))) (tend (last (children der t))) = v
      \<and> holds_node der (last (children der t)) (Prim TAG_OCTET_STRING v)"
proof -
  let ?xs = "i # critical @ [Prim TAG_OCTET_STRING v]"
  have l: "list_all2 (holds_node der) (children der t) ?xs"
    using children_of_node [OF assms(1) _ assms(3), of ?xs] assms(2) by (simp add: ext_node_def)
  obtain k where "elem (children der t) 0 = Some k" "holds_node der k i" using elem_node(1) [OF l, of 0] by auto
  then show "decode_oid der (elem (children der t) 0) = oid_text i" by (simp add: decode_oid_node)
  have "list_all2 (holds_node der) (children der t) ((i # critical) @ [Prim TAG_OCTET_STRING v])" using l by simp
  then obtain us u where u: "children der t = us @ [u]" "holds_node der u (Prim TAG_OCTET_STRING v)"
    unfolding list_all2_append2 by (auto simp: list_all2_Cons2)
  then show "children der t \<noteq> [] \<and> tag (last (children der t)) = TAG_OCTET_STRING
      \<and> slice der (start (last (children der t))) (tend (last (children der t))) = v
      \<and> holds_node der (last (children der t)) (Prim TAG_OCTET_STRING v)" by (simp add: holds_node_def)
qed

lemma find_extension_nodes:
  assumes "list_all2 (holds_node der) ts (map ext_node es)" and "\<forall>e \<in> set es. length (fst (snd e)) \<le> 62" and "length der < 4294967296"
  shows "case find (ext_matches oid) es of
      None \<Rightarrow> find_extension der oid ts = None
    | Some e \<Rightarrow> (\<exists>t. find_extension der oid ts = Some t \<and> holds_node der t (Prim TAG_OCTET_STRING (snd (snd e))))"
  using assms(1,2)
proof (induction es arbitrary: ts)
  case (Cons e es)
  obtain i critical v where e: "e = (i, critical, v)" by (cases e)
  obtain t us where ts: "ts = t # us" "holds_node der t (ext_node e)" "list_all2 (holds_node der) us (map ext_node es)"
    using Cons.prems(1) by (auto simp: list_all2_Cons2)
  note parts = ext_parts [of der t i critical v, folded e, OF ts(2) _ assms(3)]
  have "tag t = TAG_SEQUENCE" using ts(2) by (simp add: holds_node_def ext_node_def e)
  moreover have "length critical \<le> 62" using Cons.prems(2) by (simp add: e)
  moreover have "ext_matches oid e \<longleftrightarrow> oid_text i = Some oid" by (simp add: ext_matches_def e)
  moreover have "\<forall>e \<in> set es. length (fst (snd e)) \<le> 62" using Cons.prems(2) by simp
  ultimately have eq: "find_extension der oid ts = (if ext_matches oid e then Some (last (children der t)) else find_extension der oid us)"
    using parts by (simp add: ts(1) has_tag_def Let_def)
  show ?case
  proof (cases "ext_matches oid e")
    case True
    then show ?thesis using parts(2) \<open>length critical \<le> 62\<close> unfolding eq by (simp add: e)
  next
    case False
    then show ?thesis using Cons.IH [OF ts(3)] Cons.prems(2) unfolding eq by simp
  qed
qed simp

lemma extension_node:
  assumes der: "der = enc (Con TAG_SEQUENCE (Con TAG_SEQUENCE (before @ Con TAG_CONTEXT_3 [Con TAG_SEQUENCE (map ext_node es)] # rest) # after))"
    and "\<forall>x \<in> set before. node_tag x \<noteq> TAG_CONTEXT_3" and "length before < 64" and "length es \<le> 64"
    and "\<forall>e \<in> set es. length (fst (snd e)) \<le> 62" and "8 \<le> length der" and "length der < 4294967296"
  shows "case find (ext_matches oid) es of
      None \<Rightarrow> extract_extension der oid = None
    | Some e \<Rightarrow> (\<exists>t. extract_extension der oid = Some t \<and> holds_node der t (Prim TAG_OCTET_STRING (snd (snd e))))"
proof -
  let ?w = "Con TAG_CONTEXT_3 [Con TAG_SEQUENCE (map ext_node es)]"
  note kids = children_of_node [OF _ _ assms(7)]
  obtain t where t: "tbs_of der = Some t" "holds_node der t (Con TAG_SEQUENCE (before @ ?w # rest))"
    using tbs_of_node [OF der assms(7,6)] by blast
  have "list_all2 (holds_node der) (children der t) (take 64 (before @ ?w # rest))" by (rule kids [OF t(2)]) simp
  then have "list_all2 (holds_node der) (children der t) (before @ ?w # take (63 - length before) rest)" using assms(3) by (simp add: take_Cons')
  then obtain us w vs where us: "children der t = us @ w # vs" "list_all2 (holds_node der) us before" "holds_node der w ?w"
    by (auto simp: list_all2_append2 list_all2_Cons2)
  have "\<forall>u \<in> set us. tag u \<noteq> TAG_CONTEXT_3"
    using node_tags [OF us(2)] assms(2) by (metis (no_types, lifting) image_iff list.set_map)
  then have f: "find (\<lambda>c. tag c = TAG_CONTEXT_3) (children der t) = Some w"
    using us(3) unfolding us(1) by (induction us) (auto simp: holds_node_def)
  have wk: "list_all2 (holds_node der) (children der w) (take 64 [Con TAG_SEQUENCE (map ext_node es)])" by (rule kids [OF us(3)]) simp
  obtain s where s: "elem (children der w) 0 = Some s" "holds_node der s (Con TAG_SEQUENCE (map ext_node es))" using elem_node(1) [OF wk, of 0] by auto
  have "list_all2 (holds_node der) (children der s) (map ext_node es)"
    using kids [OF s(2), of "map ext_node es"] assms(4) by simp
  note found = find_extension_nodes [OF this assms(5,7), of oid]
  have "extract_extension der oid = find_extension der oid (children der s)"
    using t(1) f s by (simp add: extract_extension_def holds_node_def)
  from found [folded this]
  show ?thesis .
qed

text \<open>The extensions of a certificate are found. In a certificate of the X.509 shape with at most 64 fields and extensions the reader
  returns, for every identifier, the content of the first extension that has it, whether or not it carries the criticality flag, and
  nothing exactly when no extension has it.\<close>

theorem extension_read_back:
  assumes der: "der = enc (Con TAG_SEQUENCE (Con TAG_SEQUENCE (before @ Con TAG_CONTEXT_3 [Con TAG_SEQUENCE (map ext_node es)] # rest) # after))"
    and "\<forall>x \<in> set before. node_tag x \<noteq> TAG_CONTEXT_3" and "length before < 64" and "length es \<le> 64"
    and "\<forall>e \<in> set es. length (fst (snd e)) \<le> 62" and "8 \<le> length der" and "length der < 4294967296"
  shows "case find (ext_matches oid) es of
      None \<Rightarrow> extract_extension der oid = None
    | Some (i, critical, v) \<Rightarrow> (\<exists>t. extract_extension der oid = Some t \<and> slice der (start t) (tend t) = v)"
  using extension_node [OF assms, of oid] by (auto simp: holds_node_def split: option.splits)

section \<open>Identifiers read back\<close>

text \<open>The encoding of X.690: the first two arcs are one number, every number is written to base 128 with a continuation bit.\<close>

fun arc_front :: "nat \<Rightarrow> bytes" where
  "arc_front n = (if n = 0 then [] else arc_front (n div 128) @ [of_nat (128 + n mod 128)])"

declare arc_front.simps [simp del]

definition arc_bytes :: "nat \<Rightarrow> bytes" where
  "arc_bytes n = arc_front (n div 128) @ [of_nat (n mod 128)]"

definition oid_content :: "nat \<Rightarrow> nat \<Rightarrow> nat list \<Rightarrow> bytes" where
  "oid_content a b arcs = concat (map arc_bytes ((40 * a + b) # arcs))"

definition dotted :: "nat list \<Rightarrow> string" where
  "dotted ns = join_with ''.'' (map show_nat ns)"

lemma unat_continued: "d < 128 \<Longrightarrow> unat (of_nat (128 + d) :: 8 word) = 128 + d"
  by (rule unat_byte) simp

lemma oid_loop_step:
  assumes "val * 128 \<le> MAX_SAFE_INTEGER" and "d < 128"
  shows "oid_loop (of_nat (128 + d) # bs) val p parts = oid_loop bs (val * 128 + d) True parts"
    and "oid_loop (of_nat d # bs) val p parts = oid_loop bs 0 False (parts @ [val * 128 + d])"
proof -
  have "unat (of_nat d :: 8 word) = d" using assms(2) by (intro unat_byte) simp
  then show "oid_loop (of_nat d # bs) val p parts = oid_loop bs 0 False (parts @ [val * 128 + d])"
    using assms by (simp add: Let_def high_bit unat_low7)
  obtain w :: "8 word" where w: "w = of_nat (128 + d)" by blast
  have "unat w = 128 + d" unfolding w by (rule unat_continued [OF assms(2)])
  then have "oid_loop (w # bs) val p parts = oid_loop bs (val * 128 + d) True parts"
    using assms by (simp add: Let_def high_bit unat_low7)
  then show "oid_loop (of_nat (128 + d) # bs) val p parts = oid_loop bs (val * 128 + d) True parts" by (simp only: w)
qed

lemma oid_loop_front:
  "n \<le> MAX_SAFE_INTEGER \<Longrightarrow> oid_loop (arc_front n @ bs) 0 p parts = oid_loop bs n (p \<or> n > 0) parts"
proof (induction n arbitrary: bs rule: arc_front.induct)
  case (1 n)
  show ?case
  proof (cases "n = 0")
    case True
    then show ?thesis by (simp add: arc_front.simps [of 0])
  next
    case False
    have le: "n div 128 * 128 \<le> n" by simp
    have small: "n div 128 \<le> MAX_SAFE_INTEGER" using 1(2) by (meson div_le_dividend le_trans)
    have "oid_loop (arc_front n @ bs) 0 p parts = oid_loop (arc_front (n div 128) @ of_nat (128 + n mod 128) # bs) 0 p parts"
      using False by (simp add: arc_front.simps [of n])
    also have "\<dots> = oid_loop (of_nat (128 + n mod 128) # bs) (n div 128) (p \<or> n div 128 > 0) parts" by (rule 1(1) [OF False small])
    also have "\<dots> = oid_loop bs (n div 128 * 128 + n mod 128) True parts" by (rule oid_loop_step(1)) (use 1(2) le in linarith, simp)
    finally show ?thesis using False by simp
  qed
qed

lemma oid_loop_arc:
  assumes "n \<le> MAX_SAFE_INTEGER"
  shows "oid_loop (arc_bytes n @ bs) 0 False parts = oid_loop bs 0 False (parts @ [n])"
proof -
  have le: "n div 128 * 128 \<le> n" by simp
  have small: "n div 128 \<le> MAX_SAFE_INTEGER" using assms by (meson div_le_dividend le_trans)
  have "oid_loop (arc_bytes n @ bs) 0 False parts = oid_loop (of_nat (n mod 128) # bs) (n div 128) (False \<or> n div 128 > 0) parts"
    using oid_loop_front [OF small] by (simp add: arc_bytes_def)
  also have "\<dots> = oid_loop bs 0 False (parts @ [n div 128 * 128 + n mod 128])" by (rule oid_loop_step(2)) (use assms le in linarith, simp)
  finally show ?thesis by simp
qed

lemma oid_loop_arcs:
  "\<forall>n \<in> set ns. n \<le> MAX_SAFE_INTEGER \<Longrightarrow> oid_loop (concat (map arc_bytes ns)) 0 False parts = Some (parts @ ns, False)"
  by (induction ns arbitrary: parts) (simp_all add: oid_loop_arc)

lemma small_arc: "n < 128 \<Longrightarrow> arc_bytes n = [of_nat n]"
  by (simp add: arc_bytes_def arc_front.simps [of 0])

lemma oid_parts_content:
  assumes "a \<le> 2" and "b < 40" and "\<forall>n \<in> set arcs. n \<le> MAX_SAFE_INTEGER"
  shows "oid_parts (oid_content a b arcs) = Some (a # b # arcs)"
proof -
  have "40 * a + b < 128" using assms(1,2) by linarith
  then have c: "oid_content a b arcs = of_nat (40 * a + b) # concat (map arc_bytes arcs)" by (simp add: oid_content_def small_arc)
  have "unat (of_nat (40 * a + b) :: 8 word) = 40 * a + b" using assms(1,2) by (intro unat_byte) linarith
  moreover have "(40 * a + b) div 40 = a" "(40 * a + b) mod 40 = b" using assms(2) by simp_all
  ultimately show ?thesis using oid_loop_arcs [of arcs "[a, b]"] assms(3) by (simp add: c oid_parts_def)
qed

text \<open>Identifiers are printed as they were written. Every identifier whose first arcs are the usual ones (the second below 40), whose
  arcs numbers represent exactly, and whose encoding has at most 64 bytes is read back as its dotted text.\<close>

theorem oid_read_back:
  assumes "a \<le> 2" and "b < 40" and "\<forall>n \<in> set arcs. n \<le> 9007199254740991" and "length (oid_content a b arcs) \<le> 64"
  shows "oid_text (Prim TAG_OID (oid_content a b arcs)) = Some (dotted (a # b # arcs))"
proof -
  have p: "oid_parts (oid_content a b arcs) = Some (a # b # arcs)"
    by (rule oid_parts_content) (use assms in \<open>simp_all add: MAX_SAFE_INTEGER_def\<close>)
  then have "oid_content a b arcs \<noteq> []" by (auto simp: oid_parts_def)
  then show ?thesis using assms(4) p by (simp add: oid_text_def MAX_OID_BYTES_def dotted_def)
qed

lemma oid_read_back_witness:
  "oid_text (Prim TAG_OID (oid_content 1 2 [840, 10045])) = Some ''1.2.840.10045''"
proof -
  have z: "arc_front 0 = []" by (simp add: arc_front.simps [of 0])
  have l: "length (arc_bytes 840) = 2" "length (arc_bytes 10045) = 2"
    by (simp_all add: arc_bytes_def arc_front.simps [of 6] arc_front.simps [of 78] z)
  have "oid_text (Prim TAG_OID (oid_content 1 2 [840, 10045])) = Some (dotted [1, 2, 840, 10045])"
  proof (rule oid_read_back)
    show "length (oid_content 1 2 [840, 10045]) \<le> 64" by (simp add: oid_content_def l small_arc)
  qed simp_all
  moreover have "dotted [1, 2, 840, 10045] = ''1.2.840.10045''" by (simp add: dotted_def show_nat_eval)
  ultimately show ?thesis by simp
qed

lemma oid_loop_prefix: "oid_loop bs val p parts = Some (ps, q) \<Longrightarrow> prefix parts ps"
proof (induction bs val p parts rule: oid_loop.induct)
  case (2 b bs val p parts)
  then show ?case by (auto simp: Let_def split: if_splits dest: append_prefixD)
qed simp

lemma arc_front_head: "n > 0 \<Longrightarrow> arc_front n \<noteq> [] \<and> 128 \<le> unat (hd (arc_front n))"
proof (induction n rule: arc_front.induct)
  case (1 n)
  have e: "arc_front n = arc_front (n div 128) @ [of_nat (128 + n mod 128)]" using 1(2) by (simp add: arc_front.simps [of n])
  show ?case
  proof (cases "n div 128 = 0")
    case True
    then have "arc_front n = [of_nat (128 + n mod 128)]" unfolding e by (simp add: arc_front.simps [of 0])
    moreover have "unat (of_nat (128 + n mod 128) :: 8 word) = 128 + n mod 128" by (rule unat_continued) simp
    ultimately show ?thesis by (simp only: list.sel list.simps) simp
  next
    case False
    then show ?thesis using 1 unfolding e by (simp add: hd_append)
  qed
qed

lemma dotted_head: "takeWhile is_digit (dotted (q # r # ns)) = show_nat q"
proof -
  have "dotted (q # r # ns) = show_nat q @ CHR ''.'' # dotted (r # ns)" by (simp add: dotted_def)
  moreover have "\<forall>c \<in> set (show_nat q). is_digit c" using show_nat_digits [of q] by (simp add: list_all_iff)
  moreover have "\<not> is_digit CHR ''.''" by (simp add: is_digit_def char_code_def)
  ultimately show ?thesis by (simp add: takeWhile_append2)
qed

text \<open>The other identifiers are printed wrongly. The reader splits the first byte into two arcs as if the second were below 40, which under
  the third root (2.x) it need not be: from 2.40 on no identifier is printed as it is; 2.999, for example, comes out as 3.16.55.\<close>

theorem joint_arcs_misread:
  assumes "40 \<le> b"
  shows "oid_text (Prim TAG_OID (oid_content 2 b arcs)) \<noteq> Some (dotted (2 # b # arcs))"
proof
  assume eq: "oid_text (Prim TAG_OID (oid_content 2 b arcs)) = Some (dotted (2 # b # arcs))"
  then obtain ps where ps: "oid_parts (oid_content 2 b arcs) = Some ps" "dotted ps = dotted (2 # b # arcs)"
    by (auto simp: oid_text_def dotted_def split: if_splits)
  have "oid_content 2 b arcs \<noteq> [] \<and> 120 \<le> unat (hd (oid_content 2 b arcs))"
  proof (cases "80 + b < 128")
    case True
    then have "unat (of_nat (80 + b) :: 8 word) = 80 + b" by (intro unat_byte) simp
    then show ?thesis using True assms by (simp only: oid_content_def) (simp add: small_arc)
  next
    case False
    then have "0 < (80 + b) div 128" by (simp add: div_greater_zero_iff)
    from arc_front_head [OF this] show ?thesis by (simp add: oid_content_def arc_bytes_def)
  qed
  then obtain c cs where c: "oid_content 2 b arcs = c # cs" "120 \<le> unat c" by (cases "oid_content 2 b arcs") auto
  then obtain pend where "oid_loop cs 0 False [unat c div 40, unat c mod 40] = Some (ps, pend)"
    using ps(1) by (auto simp: oid_parts_def split: option.splits if_splits)
  from oid_loop_prefix [OF this] obtain ns where "ps = unat c div 40 # unat c mod 40 # ns" by (auto simp: prefix_def)
  then have "show_nat (unat c div 40) = show_nat 2"
    using arg_cong [OF ps(2), of "takeWhile is_digit"] by (simp add: dotted_head)
  then have "unat c div 40 = 2" by (metis digits_value_show_nat)
  moreover have "3 \<le> unat c div 40" using c(2) by (simp add: le_div_geq div_le_mono [of 120 "unat c" 40, simplified])
  ultimately show False by simp
qed

lemma joint_arcs_misread_witness:
  "oid_text (Prim TAG_OID (oid_content 2 999 [])) \<noteq> Some (dotted [2, 999])"
  by (rule joint_arcs_misread) simp

section \<open>What is read is bounded\<close>

definition urls_ok :: "string list \<Rightarrow> bool" where
  "urls_ok us \<longleftrightarrow> length us \<le> MAX_URLS \<and> distinct us \<and> (\<forall>u \<in> set us. length u \<le> MAX_URL_LEN \<and> is_http_url u)"

lemma urls_ok_uris: "urls_ok out \<Longrightarrow> urls_ok (collect_uris levels der parent out)"
proof (induction levels arbitrary: parent out)
  case (Suc levels)
  have one: "urls_ok (if length out \<ge> MAX_URLS then out
        else if tag child = TAG_IA5_STRING \<or> tag child = TAG_CONTEXT_6
        then (let v = trim (latin1 (slice der (start child) (tend child))) in
              if length v > 0 \<and> length v \<le> MAX_URL_LEN \<and> is_http_url v \<and> v \<notin> set out then out @ [v] else out)
        else if tag child AND 0x20 \<noteq> 0 then collect_uris levels der child out else out)" if "urls_ok out" for out child
    using that Suc.IH [OF that, of child] by (simp add: urls_ok_def Let_def)
  show ?case
  proof (cases "length out \<ge> MAX_URLS")
    case False
    show ?thesis unfolding collect_uris.simps(2) if_not_P [OF False]
    proof (rule foldl_keeps [where I = urls_ok])
      show "urls_ok out" by (rule Suc.prems)
    next
      fix s x assume "urls_ok s"
      then show "urls_ok (if length s \<ge> MAX_URLS then s
        else if tag x = TAG_IA5_STRING \<or> tag x = TAG_CONTEXT_6
        then (let v = trim (latin1 (slice der (start x) (tend x))) in
              if length v > 0 \<and> length v \<le> MAX_URL_LEN \<and> is_http_url v \<and> v \<notin> set s then s @ [v] else s)
        else if tag x AND 0x20 \<noteq> 0 then collect_uris levels der x s else s)" by (rule one)
    qed
  qed (simp add: Suc.prems)
qed simp

lemma urls_ok_Nil: "urls_ok []"
  by (simp add: urls_ok_def)

lemma urls_ok_access: "urls_ok (access_urls der method)"
proof -
  have "urls_ok (foldl (\<lambda>urls a.
               if tag a \<noteq> TAG_SEQUENCE then urls
               else if decode_oid der (elem (children der a) 0) \<noteq> Some method then urls
               else collect_uris URI_LEVELS der a urls) us cs)" if "urls_ok us" for us cs
    using that by (rule foldl_keeps) (simp add: urls_ok_uris)
  then show ?thesis using urls_ok_Nil by (auto simp: access_urls_def split: option.split)
qed

text \<open>No certificate, however malformed, makes the reader report more than 8 addresses of a kind, an address longer than 512 characters, one
  that is not http or https (only http for issuers), or the same one twice; nor more than 16 purposes.\<close>

theorem addresses_bounded:
  "urls_ok (extract_crl_urls der) \<and> urls_ok (extract_ocsp_urls der)
   \<and> urls_ok (extract_ca_issuer_urls der) \<and> list_all (\<lambda>u. starts_with (to_lower u) ''http://'') (extract_ca_issuer_urls der)
   \<and> length (extract_extended_key_usage der) \<le> MAX_EKU \<and> distinct (extract_extended_key_usage der)"
proof (intro conjI ballI)
  show "urls_ok (extract_crl_urls der)"
    using urls_ok_uris [OF urls_ok_Nil] urls_ok_Nil by (auto simp: extract_crl_urls_def split: option.split)
  show "urls_ok (extract_ocsp_urls der)" by (simp add: extract_ocsp_urls_def urls_ok_access)
  have "urls_ok (filter p us)" if "urls_ok us" for p us
    using that le_trans [OF length_filter_le [of p us]] by (simp add: urls_ok_def)
  then show "urls_ok (extract_ca_issuer_urls der)" by (simp add: extract_ca_issuer_urls_def urls_ok_access)
  show "list_all (\<lambda>u. starts_with (to_lower u) ''http://'') (extract_ca_issuer_urls der)"
    by (simp add: extract_ca_issuer_urls_def list_all_iff)
  have eku: "length (eku_loop der cs out) \<le> MAX_EKU \<and> distinct (eku_loop der cs out)" if "length out < MAX_EKU" "distinct out" for cs out
    using that
  proof (induction cs arbitrary: out)
    case (Cons c cs)
    let ?out = "case decode_oid der (Some c) of None \<Rightarrow> out | Some o1 \<Rightarrow> if o1 \<noteq> [] \<and> o1 \<notin> set out then out @ [o1] else out"
    have "length ?out \<le> MAX_EKU \<and> distinct ?out" using Cons.prems by (auto split: option.split)
    then show ?case using Cons.IH [of out] Cons.IH [of ?out] Cons.prems by (simp add: Let_def)
  qed simp
  have "length ([] :: string list) < MAX_EKU" by (simp add: MAX_EKU_def)
  then show "length (extract_extended_key_usage der) \<le> MAX_EKU" "distinct (extract_extended_key_usage der)"
    using eku [of "[]"] by (auto simp: extract_extended_key_usage_def Let_def split: option.split)
qed

section \<open>A certificate\<close>

definition ed25519 :: node where
  "ed25519 = Prim TAG_OID (oid_content 1 3 [101, 112])"

definition sample_exts :: "(node \<times> node list \<times> bytes) list" where
  "sample_exts = [(Prim TAG_OID (oid_content 2 5 [29, 15]), [Prim 1 [0xff]], [3, 2, 5, 0xa0]),
     (Prim TAG_OID (oid_content 2 5 [29, 37]), [], enc (Con TAG_SEQUENCE [Prim TAG_OID (oid_content 1 3 [6, 1]), Prim TAG_OID (oid_content 1 3 [6, 1])]))]"

definition sample_certificate :: bytes where
  "sample_certificate = enc (Con TAG_SEQUENCE (Con TAG_SEQUENCE (tbs_fields [Con TAG_CONTEXT_0 [Prim 2 [2]]] (Prim 2 [1])
     (Con TAG_SEQUENCE [ed25519]) [Con TAG_SEQUENCE [], Con TAG_SEQUENCE [], Con TAG_SEQUENCE []]
     (Con TAG_SEQUENCE [Con TAG_SEQUENCE [ed25519], Prim 3 [0, 1, 2]])
     [Con TAG_CONTEXT_3 [Con TAG_SEQUENCE (map ext_node sample_exts)]]) # [Con TAG_SEQUENCE [ed25519], Prim 3 [0]]))"

lemma oid_lengths:
  assumes "a \<le> 2" and "b < 40" and "list_all (\<lambda>n. n < 128) arcs"
  shows "length (oid_content a b arcs) = Suc (length arcs)"
proof -
  have "40 * a + b < 128" using assms(1,2) by linarith
  moreover have "concat (map arc_bytes arcs) = map of_nat arcs" using assms(3) by (induction arcs) (simp_all add: small_arc)
  ultimately show ?thesis by (simp add: oid_content_def small_arc)
qed

lemma short_lengths:
  "length c < 128 \<Longrightarrow> length (enc (Prim g c)) = 2 + length c"
  "sum_list (map (\<lambda>x. length (enc x)) xs) < 128 \<Longrightarrow> length (enc (Con g xs)) = 2 + sum_list (map (\<lambda>x. length (enc x)) xs)"
  by (simp_all add: len_field_def Let_def length_concat comp_def)

lemma sample_length: "8 \<le> length sample_certificate" "length sample_certificate < 4294967296"
  by (simp_all del: enc.simps add: short_lengths sample_certificate_def ed25519_def sample_exts_def tbs_fields_def ext_node_def oid_lengths)

lemma sample_texts:
  "oid_text ed25519 = Some ''1.3.101.112''" "oid_text (Prim TAG_OID (oid_content 2 5 [29, 15])) = Some ''2.5.29.15''"
  "oid_text (Prim TAG_OID (oid_content 2 5 [29, 37])) = Some ''2.5.29.37''" "oid_text (Prim TAG_OID (oid_content 1 3 [6, 1])) = Some ''1.3.6.1''"
  by (simp_all add: ed25519_def oid_text_def MAX_OID_BYTES_def show_nat_eval oid_parts_content MAX_SAFE_INTEGER_def oid_lengths flip: length_0_conv)

lemma certificate_read_back_witness:
  "extract_algorithm_oids sample_certificate
    = \<lparr>public_key_oid = Some ''1.3.101.112'', public_key_param_oid = None, signature_oid = Some ''1.3.101.112''\<rparr>"
proof -
  have "version_ok [Con TAG_CONTEXT_0 [Prim 2 [2]]] (Prim 2 [1])" by (simp add: version_ok_def)
  from certificate_read_back [OF sample_certificate_def refl refl this _ sample_length(2)]
  show ?thesis by (simp add: sample_texts)
qed

lemma extension_read_back_witness:
  "\<exists>t. extract_extension sample_certificate ''2.5.29.15'' = Some t \<and> slice sample_certificate (start t) (tend t) = [3, 2, 5, 0xa0]"
proof -
  let ?before = "[Con TAG_CONTEXT_0 [Prim 2 [2]], Prim 2 [1], Con TAG_SEQUENCE [ed25519], Con TAG_SEQUENCE [], Con TAG_SEQUENCE [], Con TAG_SEQUENCE [],
     Con TAG_SEQUENCE [Con TAG_SEQUENCE [ed25519], Prim 3 [0, 1, 2]]]"
  have "sample_certificate = enc (Con TAG_SEQUENCE (Con TAG_SEQUENCE (?before @ Con TAG_CONTEXT_3 [Con TAG_SEQUENCE (map ext_node sample_exts)] # [])
      # [Con TAG_SEQUENCE [ed25519], Prim 3 [0]]))"
    by (simp only: sample_certificate_def tbs_fields_def append.simps)
  from extension_read_back [OF this _ _ _ _ sample_length, of "''2.5.29.15''"]
  show ?thesis by (simp add: sample_exts_def TAG_CONTEXT_3_def TAG_CONTEXT_0_def TAG_SEQUENCE_def ed25519_def ext_matches_def sample_texts)
qed

lemma eku_loop_nodes:
  "list_all2 (holds_node der) ts xs \<Longrightarrow> length out < MAX_EKU \<Longrightarrow>
     eku_loop der ts out = take MAX_EKU (foldl (\<lambda>out u. if u \<in> set out then out else out @ [u]) out (List.map_filter oid_text xs))"
proof (induction ts xs arbitrary: out rule: list_all2_induct)
  case Nil
  then show ?case by (simp add: map_filter_simps)
next
  case (Cons t ts x xs)
  have grows: "take (length out) (foldl (\<lambda>out u. if u \<in> set out then out else out @ [u]) out us) = out" for out us :: "string list"
  proof (induction us arbitrary: out)
    case (Cons u us)
    show ?case
    proof (cases "u \<in> set out")
      case False
      then show ?thesis using arg_cong [OF Cons [of "out @ [u]"], of "take (length out)"] by (simp add: take_take min_def)
    qed (simp add: Cons)
  qed simp
  have d: "decode_oid der (Some t) = oid_text x" by (rule decode_oid_node [OF Cons(1)])
  show ?case
  proof (cases "oid_text x")
    case None
    then show ?thesis using Cons d by (simp add: map_filter_simps Let_def)
  next
    case (Some u)
    then have tg: "tag t = TAG_OID" using Cons(1) by (auto simp: oid_text_def holds_node_def split: if_splits)
    have ne: "u \<noteq> []"
    proof -
      obtain p ps where "u = join_with ''.'' (show_nat p # map show_nat ps)"
        using Some by (auto simp: oid_text_def oid_parts_def split: if_splits list.splits option.splits dest!: oid_loop_prefix) (metis append_Cons list.simps(9) prefix_def)
      then show ?thesis using show_nat_digits [of p] by (cases ps) auto
    qed
    show ?thesis
    proof (cases "u \<in> set out \<or> Suc (length out) < MAX_EKU")
      case True
      then show ?thesis using Cons.IH [of out] Cons.IH [of "out @ [u]"] Cons.prems Some d tg ne by (auto simp: map_filter_simps Let_def)
    next
      case False
      then have "length (out @ [u]) = MAX_EKU" using Cons.prems by simp
      with grows [of "out @ [u]"] show ?thesis using False Cons.prems Some d tg ne by (simp add: map_filter_simps Let_def)
    qed
  qed
qed

lemma first_occurrences: "foldl (\<lambda>out u. if u \<in> set out then out else out @ [u]) [] us = rev (remdups (rev us))"
  by (induction us rule: rev_induct) auto

text \<open>The purposes of a certificate are read. When the first extension with the identifier of extended key usage holds a sequence of at most
  64 purposes, the reader reports them in their order, each once, without those it cannot decode, and at most the first 16.\<close>

theorem purposes_read_back:
  assumes der: "der = enc (Con TAG_SEQUENCE (Con TAG_SEQUENCE (before @ Con TAG_CONTEXT_3 [Con TAG_SEQUENCE (map ext_node es)] # rest) # after))"
    and "\<forall>x \<in> set before. node_tag x \<noteq> TAG_CONTEXT_3" and "length before < 64" and "length es \<le> 64"
    and "\<forall>e \<in> set es. length (fst (snd e)) \<le> 62" and "8 \<le> length der" and "length der < 4294967296"
    and eku: "find (ext_matches EXT_EXTENDED_KEY_USAGE) es = Some (i, critical, enc (Con TAG_SEQUENCE usages))" and "length usages \<le> 64"
  shows "extract_extended_key_usage der = take 16 (rev (remdups (rev (List.map_filter oid_text usages))))"
proof -
  obtain t where t: "extract_extension der EXT_EXTENDED_KEY_USAGE = Some t" "holds_node der t (Prim TAG_OCTET_STRING (enc (Con TAG_SEQUENCE usages)))"
    using extension_node [OF assms(1-7), of EXT_EXTENDED_KEY_USAGE] eku by auto
  have "list_all2 (holds_node der) (children der t) (take 64 [Con TAG_SEQUENCE usages])"
    by (rule children_of_node [OF t(2) _ assms(7)]) simp
  from elem_node(1) [OF this, of 0] obtain s where s: "elem (children der t) 0 = Some s" "holds_node der s (Con TAG_SEQUENCE usages)" by auto
  have "list_all2 (holds_node der) (children der s) usages"
    using children_of_node [OF s(2) _ assms(7), of usages] assms(9) by simp
  from eku_loop_nodes [OF this, of "[]"] show ?thesis
    using t(1) s by (simp add: extract_extended_key_usage_def MAX_EKU_def first_occurrences holds_node_def)
qed

lemma purposes_read_back_witness: "extract_extended_key_usage sample_certificate = [''1.3.6.1'']"
proof -
  let ?before = "[Con TAG_CONTEXT_0 [Prim 2 [2]], Prim 2 [1], Con TAG_SEQUENCE [ed25519], Con TAG_SEQUENCE [], Con TAG_SEQUENCE [], Con TAG_SEQUENCE [],
     Con TAG_SEQUENCE [Con TAG_SEQUENCE [ed25519], Prim 3 [0, 1, 2]]]"
  have c: "sample_certificate = enc (Con TAG_SEQUENCE (Con TAG_SEQUENCE (?before @ Con TAG_CONTEXT_3 [Con TAG_SEQUENCE (map ext_node sample_exts)] # [])
      # [Con TAG_SEQUENCE [ed25519], Prim 3 [0]]))"
    by (simp only: sample_certificate_def tbs_fields_def append.simps)
  have f: "find (ext_matches EXT_EXTENDED_KEY_USAGE) sample_exts = Some (Prim TAG_OID (oid_content 2 5 [29, 37]), [],
      enc (Con TAG_SEQUENCE [Prim TAG_OID (oid_content 1 3 [6, 1]), Prim TAG_OID (oid_content 1 3 [6, 1])]))"
    by (simp add: sample_exts_def ext_matches_def sample_texts EXT_EXTENDED_KEY_USAGE_def)
  have "extract_extended_key_usage sample_certificate
      = take 16 (rev (remdups (rev (List.map_filter oid_text [Prim TAG_OID (oid_content 1 3 [6, 1]), Prim TAG_OID (oid_content 1 3 [6, 1])]))))"
    by (rule purposes_read_back [OF c _ _ _ _ sample_length f])
      (simp_all add: sample_exts_def TAG_CONTEXT_3_def TAG_CONTEXT_0_def TAG_SEQUENCE_def ed25519_def)
  then show ?thesis by (simp add: map_filter_simps sample_texts(4) [unfolded One_nat_def])
qed

text \<open>The reader is not strict: a length that DER writes in one byte is accepted in the long form.\<close>

lemma long_form_accepted: "read_tlv [0x30, 0x81, 0x00] 0 = Some \<lparr>tag = 0x30, header_start = 0, start = 3, tend = 3, nxt = 3\<rparr>"
proof -
  have "unat ((0x81 :: 8 word) AND 0x7f) = 1" by (simp add: unat_low7)
  then show ?thesis by (simp add: read_tlv_def Let_def be_value_def)
qed

end
