(* ===== verification/Transcript.thy ===== *)
theory Transcript
  imports Jsval
begin

text \<open>
  The transcript of a remote terminal (\<open>plugins/rcp/transcript-buffer.ts\<close>): output is collected and handed on in chunks, every 5 seconds or
  8 KB. The state has a field per field of \<open>TranscriptBuffer\<close>; \<open>handed\<close> are the arguments of the calls of \<open>flushFn\<close>, whose exceptions are
  swallowed. Time is in milliseconds; a timer is the time it is due.
\<close>

section \<open>The buffer\<close>

definition FLUSH_INTERVAL_MS :: int where "FLUSH_INTERVAL_MS = 5000"
definition FLUSH_THRESHOLD_BYTES :: nat where "FLUSH_THRESHOLD_BYTES = 8 * 1024"
definition MAX_CHUNK_BYTES :: nat where "MAX_CHUNK_BYTES = 64 * 1024"

record chunk =
  ts_delta :: rat
  c_data :: string
  bytes_count :: nat

record transcript =
  buffer :: string
  buffer_bytes :: nat
  buffer_start :: "int option"
  flush_timer :: "int option"
  disposed :: bool
  session_started :: int
  handed :: "chunk list"

definition new_transcript :: "int \<Rightarrow> transcript" where
  "new_transcript t = \<lparr>buffer = [], buffer_bytes = 0, buffer_start = None, flush_timer = None, disposed = False, session_started = t, handed = []\<rparr>"

definition delta_seconds :: "transcript \<Rightarrow> int \<Rightarrow> rat" where
  "delta_seconds s t = of_int (max 0 (t - session_started s)) / 1000"

definition clear_timer :: "transcript \<Rightarrow> transcript" where
  "clear_timer s = s\<lparr>flush_timer := None\<rparr>"

definition arm_timer :: "int \<Rightarrow> transcript \<Rightarrow> transcript" where
  "arm_timer now s = (if flush_timer s \<noteq> None then s else s\<lparr>flush_timer := Some (now + FLUSH_INTERVAL_MS)\<rparr>)"

definition flush :: "transcript \<Rightarrow> transcript" where
  "flush s =
     (if disposed s then s
      else case buffer_start s of
        None \<Rightarrow> clear_timer s
      | Some t \<Rightarrow>
          if length (buffer s) = 0 then clear_timer s
          else clear_timer (s\<lparr>handed := handed s @ [\<lparr>ts_delta = delta_seconds s t, c_data = buffer s, bytes_count = buffer_bytes s\<rparr>],
                              buffer := [], buffer_bytes := 0, buffer_start := None\<rparr>))"

text \<open>The slices of an oversize write, each of \<open>MAX_CHUNK_BYTES\<close> characters.\<close>

function slices :: "string \<Rightarrow> string list" where
  "slices d = (if d = [] then [] else take MAX_CHUNK_BYTES d # slices (drop MAX_CHUNK_BYTES d))"
  by auto
termination
  by (relation "measure length") (auto simp: MAX_CHUNK_BYTES_def)

declare slices.simps [simp del]

definition slice_and_send_oversize :: "int \<Rightarrow> string \<Rightarrow> transcript \<Rightarrow> transcript" where
  "slice_and_send_oversize now d s =
     s\<lparr>handed := handed s @ map (\<lambda>x. \<lparr>ts_delta = delta_seconds s now, c_data = x, bytes_count = byte_length x\<rparr>) (slices d)\<rparr>"

definition append_output :: "int \<Rightarrow> string \<Rightarrow> transcript \<Rightarrow> transcript" where
  "append_output now d s =
     (if disposed s then s
      else if d = [] then s
      else
        let s1 = (if buffer_start s = None then arm_timer now (s\<lparr>buffer_start := Some now\<rparr>) else s);
            n = byte_length d
        in if n > MAX_CHUNK_BYTES then slice_and_send_oversize now d (flush s1)
           else (let s2 = s1\<lparr>buffer := buffer s1 @ d, buffer_bytes := buffer_bytes s1 + n\<rparr>
                 in if buffer_bytes s2 \<ge> FLUSH_THRESHOLD_BYTES then flush s2 else s2))"

definition timer_fires :: "transcript \<Rightarrow> transcript" where
  "timer_fires s = (if flush_timer s = None then s else flush (s\<lparr>flush_timer := None\<rparr>))"

definition dispose :: "transcript \<Rightarrow> transcript" where
  "dispose s = (if disposed s then s else clear_timer (flush s\<lparr>disposed := True\<rparr>))"

datatype event = Output int string | Timer | Flush | Dispose

fun step :: "transcript \<Rightarrow> event \<Rightarrow> transcript" where
  "step s (Output now d) = append_output now d s"
| "step s Timer = timer_fires s"
| "step s Flush = flush s"
| "step s Dispose = dispose s"

section \<open>Nothing is lost\<close>

definition handed_text :: "transcript \<Rightarrow> string" where
  "handed_text s = concat (map c_data (handed s))"

text \<open>The specification: a log of characters that ends with the first \<open>Dispose\<close>.\<close>

fun log_step :: "string \<times> bool \<Rightarrow> event \<Rightarrow> string \<times> bool" where
  "log_step (l, shut) (Output now d) = (if shut then (l, shut) else (l @ d, shut))"
| "log_step (l, shut) Dispose = (l, True)"
| "log_step lc e = lc"

definition abs_log :: "transcript \<Rightarrow> string \<times> bool" where
  "abs_log s = (handed_text s @ buffer s, disposed s)"

definition transcript_inv :: "transcript \<Rightarrow> bool" where
  "transcript_inv s \<longleftrightarrow> buffer_bytes s = byte_length (buffer s) \<and> (buffer s \<noteq> [] \<longrightarrow> buffer_start s \<noteq> None)
     \<and> buffer_bytes s < FLUSH_THRESHOLD_BYTES
     \<and> (disposed s \<longrightarrow> buffer s = [] \<and> flush_timer s = None)
     \<and> (\<forall>c \<in> set (handed s). c_data c \<noteq> [] \<and> bytes_count c = byte_length (c_data c) \<and> 0 \<le> ts_delta c)"

lemma slices_concat: "concat (slices d) = d"
proof (induction d rule: slices.induct)
  case (1 d)
  show ?case
  proof (cases "d = []")
    case True
    then show ?thesis by (simp add: slices.simps [of "[]"])
  qed (use 1 in \<open>simp add: slices.simps [of d]\<close>)
qed

lemma slices_nonempty: "x \<in> set (slices d) \<Longrightarrow> x \<noteq> [] \<and> length x \<le> MAX_CHUNK_BYTES"
proof (induction d rule: slices.induct)
  case (1 d)
  show ?case
  proof (cases "d = []")
    case True
    then show ?thesis using 1(2) by (simp add: slices.simps)
  next
    case False
    then have "x = take MAX_CHUNK_BYTES d \<or> x \<in> set (slices (drop MAX_CHUNK_BYTES d))" using 1(2) by (simp add: slices.simps [of d])
    then show ?thesis using 1(1) [OF False] False by (auto simp: MAX_CHUNK_BYTES_def)
  qed
qed

lemma delta_nonneg [simp]: "0 \<le> delta_seconds s t"
  by (simp add: delta_seconds_def)

lemma byte_length_pos: "byte_length s = 0 \<longleftrightarrow> s = []"
  using length_le_byte_length [of s] by auto

lemma flush_abs: "abs_log (flush s) = abs_log s" if "transcript_inv s"
  using that by (auto simp: flush_def abs_log_def handed_text_def clear_timer_def transcript_inv_def split: option.split)

lemma flush_inv: "transcript_inv s \<Longrightarrow> transcript_inv (flush s)"
  by (auto simp: flush_def clear_timer_def transcript_inv_def FLUSH_THRESHOLD_BYTES_def split: option.split)

lemma flush_empties: "transcript_inv s \<Longrightarrow> buffer (flush s) = [] \<and> flush_timer (flush s) = None \<and> disposed (flush s) = disposed s"
  by (auto simp: flush_def clear_timer_def transcript_inv_def split: option.split)

lemma oversize_facts:
  assumes "transcript_inv s" and "\<not> disposed s" and "buffer s = []" and "d \<noteq> []"
  shows "transcript_inv (slice_and_send_oversize now d s)" and "abs_log (slice_and_send_oversize now d s) = (handed_text s @ d, False)"
  using assms slices_nonempty [of _ d]
  by (auto simp: transcript_inv_def slice_and_send_oversize_def abs_log_def handed_text_def comp_def slices_concat)

definition opened :: "int \<Rightarrow> transcript \<Rightarrow> transcript" where
  "opened now s = (if buffer_start s = None then arm_timer now (s\<lparr>buffer_start := Some now\<rparr>) else s)"

lemma opened_facts:
  "buffer (opened now s) = buffer s" "buffer_bytes (opened now s) = buffer_bytes s" "handed (opened now s) = handed s"
  "disposed (opened now s) = disposed s" "buffer_start (opened now s) \<noteq> None"
  "\<not> disposed s \<Longrightarrow> transcript_inv s \<Longrightarrow> transcript_inv (opened now s)"
  by (auto simp: opened_def arm_timer_def transcript_inv_def)

text \<open>Appending, case by case.\<close>

lemma append_output_cases:
  "append_output now d s =
     (if disposed s \<or> d = [] then s
      else if byte_length d > MAX_CHUNK_BYTES then slice_and_send_oversize now d (flush (opened now s))
      else let t = opened now s; u = t\<lparr>buffer := buffer s @ d, buffer_bytes := buffer_bytes s + byte_length d\<rparr>
        in if buffer_bytes s + byte_length d \<ge> FLUSH_THRESHOLD_BYTES then flush u else u)"
  by (simp add: append_output_def opened_def Let_def arm_timer_def)

lemma flush_big:
  assumes "buffer s \<noteq> []" and "buffer_start s = Some t" and "\<not> disposed s"
  shows "flush s = s\<lparr>handed := handed s @ [\<lparr>ts_delta = delta_seconds s t, c_data = buffer s, bytes_count = buffer_bytes s\<rparr>],
      buffer := [], buffer_bytes := 0, buffer_start := None, flush_timer := None\<rparr>"
  using assms by (simp add: flush_def clear_timer_def)

lemma append_output_facts:
  assumes "transcript_inv s"
  shows "transcript_inv (append_output now d s)" and "abs_log (append_output now d s) = (if disposed s then abs_log s else (handed_text s @ buffer s @ d, False))"
proof -
  have "transcript_inv (append_output now d s) \<and> abs_log (append_output now d s) = (if disposed s then abs_log s else (handed_text s @ buffer s @ d, False))"
  proof (cases "disposed s \<or> d = []")
    case True
    then show ?thesis using assms by (auto simp: append_output_cases abs_log_def)
  next
    case False
    then have nd: "\<not> disposed s" "d \<noteq> []" by auto
    let ?t = "opened now s"
    note o = opened_facts [where now = now and s = s]
    have ti: "transcript_inv ?t" using o(6) nd(1) assms by blast
    show ?thesis
    proof (cases "byte_length d > MAX_CHUNK_BYTES")
      case True
      have f: "transcript_inv (flush ?t)" "\<not> disposed (flush ?t)" "buffer (flush ?t) = []"
        using flush_inv [OF ti] flush_empties [OF ti] nd(1) o(4) by auto
      have "handed_text (flush ?t) = handed_text s @ buffer s"
        using flush_abs [OF ti] f(3) by (simp add: abs_log_def handed_text_def o)
      then show ?thesis using oversize_facts [OF f nd(2), of now] True nd by (simp add: append_output_cases)
    next
      case small: False
      let ?u = "?t\<lparr>buffer := buffer s @ d, buffer_bytes := buffer_bytes s + byte_length d\<rparr>"
      obtain t where t: "buffer_start ?t = Some t" using o(5) by auto
      show ?thesis
      proof (cases "buffer_bytes s + byte_length d \<ge> FLUSH_THRESHOLD_BYTES")
        case True
        have "flush ?u = ?u\<lparr>handed := handed s @ [\<lparr>ts_delta = delta_seconds ?u t, c_data = buffer s @ d, bytes_count = buffer_bytes s + byte_length d\<rparr>],
            buffer := [], buffer_bytes := 0, buffer_start := None, flush_timer := None\<rparr>"
          using flush_big [of ?u t] nd t o by simp
        then show ?thesis using True small nd ti o assms
          by (auto simp: append_output_cases Let_def transcript_inv_def abs_log_def handed_text_def FLUSH_THRESHOLD_BYTES_def)
      next
        case False
        then show ?thesis using small nd ti o t assms
          by (auto simp: append_output_cases Let_def transcript_inv_def abs_log_def handed_text_def)
      qed
    qed
  qed
  then show "transcript_inv (append_output now d s)" and "abs_log (append_output now d s) = (if disposed s then abs_log s else (handed_text s @ buffer s @ d, False))"
    by blast+
qed

lemma step_refines: "transcript_inv s \<Longrightarrow> abs_log (step s e) = log_step (abs_log s) e"
proof (cases e)
  case (Output now d)
  assume "transcript_inv s"
  then show ?thesis using append_output_facts(2) [of s now d] by (simp add: Output abs_log_def)
next
  case Timer
  assume i: "transcript_inv s"
  then have "transcript_inv (s\<lparr>flush_timer := None\<rparr>)" by (simp add: transcript_inv_def)
  from flush_abs [OF this] show ?thesis by (simp add: Timer timer_fires_def abs_log_def handed_text_def)
next
  case Flush
  assume "transcript_inv s"
  then show ?thesis using flush_abs [of s] by (simp add: Flush abs_log_def)
next
  case Dispose
  assume i: "transcript_inv s"
  show ?thesis using flush_abs [OF i] by (auto simp: Dispose dispose_def abs_log_def handed_text_def clear_timer_def)
qed

interpretation tb: inv_machine step transcript_inv
proof
  show "transcript_inv (step s e)" if i: "transcript_inv s" for s e
  proof (cases e)
    case (Output now d)
    then show ?thesis using append_output_facts(1) [OF i] by simp
  next
    case Timer
    have "transcript_inv (s\<lparr>flush_timer := None\<rparr>)" using i by (simp add: transcript_inv_def)
    from flush_inv [OF this] show ?thesis using i by (simp add: Timer timer_fires_def)
  next
    case Flush
    then show ?thesis using flush_inv [OF i] by simp
  next
    case Dispose
    then show ?thesis using flush_inv [OF i] flush_empties [OF i] i
      by (auto simp: dispose_def clear_timer_def transcript_inv_def)
  qed
qed

lemma new_transcript_inv: "transcript_inv (new_transcript t)"
  by (simp add: transcript_inv_def new_transcript_def FLUSH_THRESHOLD_BYTES_def)

text \<open>C35. The transcript is a log. Whatever is written, in whatever pieces and sizes, and however timers, flushes and the end of the session
  fall between, what has been handed on plus what is still in the buffer is exactly the output up to the end of the session, in order;
  after the end all of it has been handed on. Every chunk has text and carries its own length in bytes, and less than 8 KB ever wait.\<close>

theorem transcript_is_a_log:
  "let s = foldl step (new_transcript t0) es; l = foldl log_step ([], False) es in
     handed_text s @ buffer s = fst l \<and> (if snd l then buffer s = [] else byte_length (buffer s) < 8192)
     \<and> list_all (\<lambda>c. c_data c \<noteq> [] \<and> bytes_count c = byte_length (c_data c) \<and> 0 \<le> ts_delta c) (handed s)"
proof -
  let ?s = "foldl step (new_transcript t0) es"
  have i: "transcript_inv (foldl step s es)" if "transcript_inv s" for s by (rule tb.run_inv [OF that])
  have a: "abs_log (foldl step s es) = foldl log_step (abs_log s) es" if "transcript_inv s" for s
    using that by (induction es arbitrary: s) (simp_all add: step_refines tb.minv_step)
  have "abs_log (new_transcript t0) = ([], False)" by (simp add: abs_log_def new_transcript_def handed_text_def)
  then have log: "(handed_text ?s @ buffer ?s, disposed ?s) = foldl log_step ([], False) es"
    using a [OF new_transcript_inv [of t0]] by (simp add: abs_log_def)
  have "transcript_inv ?s" by (rule i [OF new_transcript_inv])
  then show ?thesis unfolding log [symmetric] Let_def by (simp add: transcript_inv_def FLUSH_THRESHOLD_BYTES_def list_all_iff)
qed

section \<open>How long output waits\<close>

text \<open>Without an oversize write, whatever is in the buffer has a timer that is due 5 seconds after its first character.\<close>

definition timed :: "transcript \<Rightarrow> bool" where
  "timed s \<longleftrightarrow> (buffer s = [] \<longrightarrow> buffer_start s = None) \<and> flush_timer s = map_option (\<lambda>t. t + FLUSH_INTERVAL_MS) (buffer_start s)"

fun no_oversize :: "event \<Rightarrow> bool" where
  "no_oversize (Output now d) \<longleftrightarrow> byte_length d \<le> MAX_CHUNK_BYTES"
| "no_oversize e \<longleftrightarrow> True"

lemma timed_flush: "timed s \<Longrightarrow> \<not> disposed s \<Longrightarrow> timed (flush s)"
  by (auto simp: timed_def flush_def clear_timer_def split: option.split)

lemma timed_step:
  assumes "timed s" and "transcript_inv s" and "no_oversize e" and "\<not> disposed s"
  shows "timed (step s e)"
proof (cases e)
  case (Output now d)
  show ?thesis
  proof (cases "d = []")
    case False
    let ?t = "opened now s"
    let ?u = "?t\<lparr>buffer := buffer s @ d, buffer_bytes := buffer_bytes s + byte_length d\<rparr>"
    have "flush_timer ?t = map_option (\<lambda>t. t + FLUSH_INTERVAL_MS) (buffer_start ?t)"
      using assms(1) by (auto simp: timed_def opened_def arm_timer_def)
    then have u: "timed ?u" using False by (simp add: timed_def)
    have "\<not> disposed ?u" using assms(4) by (simp add: opened_facts)
    from timed_flush [OF u this] u show ?thesis
      using False assms(3,4) by (simp add: Output append_output_cases Let_def)
  qed (use assms in \<open>simp add: Output append_output_cases\<close>)
next
  case Timer
  then show ?thesis using assms by (auto simp: timer_fires_def timed_def flush_def clear_timer_def split: option.split)
next
  case Flush
  then show ?thesis using timed_flush [OF assms(1,4)] by simp
next
  case Dispose
  then show ?thesis using timed_flush [OF assms(1,4)] assms(4) flush_empties [OF assms(2)]
    by (auto simp: dispose_def timed_def clear_timer_def)
qed

lemma disposed_stays: "disposed s \<Longrightarrow> step s e = s \<or> (e = Timer \<and> step s e = s\<lparr>flush_timer := None\<rparr>)"
  by (cases e) (auto simp: append_output_def timer_fires_def flush_def dispose_def)

text \<open>Output does not wait longer than 5 seconds. As long as no single write has more than 64 KB, a buffer that is not empty has its timer
  running, due exactly 5 seconds after the first character that waits in it, and when that timer fires everything is handed on.\<close>

theorem output_waits_at_most_five_seconds:
  assumes "list_all no_oversize es"
  shows "let s = foldl step (new_transcript t0) es in
     buffer s \<noteq> [] \<longrightarrow> (\<exists>t. buffer_start s = Some t \<and> flush_timer s = Some (t + 5000)) \<and> buffer (step s Timer) = []"
proof -
  have "(disposed (foldl step s es) \<or> timed (foldl step s es)) \<and> transcript_inv (foldl step s es)"
    if "disposed s \<or> timed s" "transcript_inv s" "list_all no_oversize es" for s
    using that
  proof (induction es arbitrary: s)
    case (Cons e es)
    have "transcript_inv (step s e)" by (rule tb.minv_step [OF Cons.prems(2)])
    moreover have "disposed (step s e) \<or> timed (step s e)"
      using Cons.prems timed_step [of s e] disposed_stays [of s e] by (cases "disposed s") auto
    ultimately show ?case using Cons.IH [of "step s e"] Cons.prems(3) by simp
  qed simp
  from this [of "new_transcript t0"] assms
  have s: "disposed (foldl step (new_transcript t0) es) \<or> timed (foldl step (new_transcript t0) es)" "transcript_inv (foldl step (new_transcript t0) es)"
    using new_transcript_inv [of t0] by (auto simp: timed_def new_transcript_def)
  let ?s = "foldl step (new_transcript t0) es"
  show ?thesis unfolding Let_def
  proof (intro impI conjI)
    assume b: "buffer ?s \<noteq> []"
    then have "\<not> disposed ?s" and st: "buffer_start ?s \<noteq> None" using s(2) by (auto simp: transcript_inv_def)
    then have "timed ?s" using s(1) by blast
    then show t: "\<exists>t. buffer_start ?s = Some t \<and> flush_timer ?s = Some (t + 5000)" using st by (auto simp: timed_def FLUSH_INTERVAL_MS_def)
    have "transcript_inv (?s\<lparr>flush_timer := None\<rparr>)" using s(2) by (simp add: transcript_inv_def)
    from flush_empties [OF this] t show "buffer (step ?s Timer) = []" by (auto simp: timer_fires_def)
  qed
qed

lemma output_waits_at_most_five_seconds_witness:
  "let s = foldl step (new_transcript 0) [Output 7 ''ls'', Flush, Output 9 ''ok''] in
     buffer s = ''ok'' \<and> flush_timer s = Some 5009 \<and> buffer (step s Timer) = []"
proof -
  let ?s = "foldl step (new_transcript 0) [Output 7 ''ls'', Flush, Output 9 ''ok'']"
  have "list_all no_oversize [Output 7 ''ls'', Flush, Output 9 ''ok'']" by (simp add: byte_length_def MAX_CHUNK_BYTES_def)
  from output_waits_at_most_five_seconds [OF this, of 0, unfolded Let_def]
  have "buffer ?s \<noteq> [] \<longrightarrow> buffer (step ?s Timer) = [] \<and> (\<exists>t. buffer_start ?s = Some t \<and> flush_timer ?s = Some (t + 5000))" by blast
  moreover have "buffer ?s = ''ok'' \<and> buffer_start ?s = Some 9"
    by (simp add: append_output_def new_transcript_def arm_timer_def flush_def clear_timer_def Let_def byte_length_def char_code_def
        FLUSH_THRESHOLD_BYTES_def MAX_CHUNK_BYTES_def)
  ultimately show ?thesis unfolding Let_def by auto
qed

text \<open>An oversize write switches the timer off. When a write of more than 64 KB comes first, it is handed on at once, but the buffer keeps the
  time of that write and no timer: the output after it (below 8 KB) is handed on only by more output or the end of the session, not after
  5 seconds however long the session lasts, and then carries the time of the oversize write instead of its own.\<close>

theorem oversize_write_disarms_timer:
  assumes "MAX_CHUNK_BYTES < byte_length big" and "d \<noteq> []" and "byte_length d < FLUSH_THRESHOLD_BYTES"
  shows "let s = foldl step (new_transcript t0) [Output t0 big, Output now d] in
     buffer s = d \<and> flush_timer s = None \<and> step s Timer = s
     \<and> last (handed (step s Dispose)) = \<lparr>ts_delta = 0, c_data = d, bytes_count = byte_length d\<rparr>"
proof -
  have "big \<noteq> []" using assms(1) by auto
  then have one: "step (new_transcript t0) (Output t0 big) =
      slice_and_send_oversize t0 big (new_transcript t0\<lparr>buffer_start := Some t0\<rparr>)"
    using assms(1) by (simp add: append_output_def new_transcript_def arm_timer_def flush_def clear_timer_def Let_def)
  have "byte_length d \<le> MAX_CHUNK_BYTES" using assms(3) by (simp add: FLUSH_THRESHOLD_BYTES_def MAX_CHUNK_BYTES_def)
  then have two: "step (step (new_transcript t0) (Output t0 big)) (Output now d) =
      (slice_and_send_oversize t0 big (new_transcript t0\<lparr>buffer_start := Some t0\<rparr>))\<lparr>buffer := d, buffer_bytes := byte_length d\<rparr>"
    using assms(2,3) unfolding one by (simp add: append_output_def new_transcript_def slice_and_send_oversize_def Let_def)
  show ?thesis using assms(2) unfolding foldl_Cons foldl_Nil two Let_def
    by (simp add: slice_and_send_oversize_def new_transcript_def timer_fires_def dispose_def flush_def clear_timer_def delta_seconds_def)
qed

lemma oversize_write_disarms_timer_witness:
  "\<exists>big. MAX_CHUNK_BYTES < byte_length big
     \<and> buffer (foldl step (new_transcript 0) [Output 0 big, Output 60000 ''$ '']) = ''$ ''
     \<and> flush_timer (foldl step (new_transcript 0) [Output 0 big, Output 60000 ''$ '']) = None"
proof -
  have l: "byte_length (replicate n CHR ''x'') = n" for n by (simp add: byte_length_def map_replicate sum_list_replicate char_code_def)
  obtain big where big: "MAX_CHUNK_BYTES < byte_length big" using l [of "Suc MAX_CHUNK_BYTES"] by (metis lessI)
  have "byte_length ''$ '' < FLUSH_THRESHOLD_BYTES" by (simp add: byte_length_def FLUSH_THRESHOLD_BYTES_def)
  from oversize_write_disarms_timer [OF big _ this, of 0 60000] show ?thesis using big unfolding Let_def by blast
qed

text \<open>The cap of 64 KB a chunk is not kept: what already waits is not counted, and the slices of an oversize write are cut by characters.\<close>

lemma chunk_above_cap:
  assumes "byte_length a = 8191" and "byte_length b = 65536"
  shows "map bytes_count (handed (foldl step (new_transcript t0) [Output t0 a, Output t0 b])) = [73727]"
proof -
  have "a \<noteq> []" "b \<noteq> []" using assms by auto
  then show ?thesis using assms
    by (simp add: append_output_def new_transcript_def arm_timer_def flush_def clear_timer_def Let_def FLUSH_THRESHOLD_BYTES_def MAX_CHUNK_BYTES_def)
qed

end
