(* ===== verification/Sdp_Decisions.thy ===== *)
theory Sdp_Decisions
  imports Jsval
begin

text \<open>
  The decisions of software delivery (\<open>plugins/sdp/\<close>): modes and uninstall identities (\<open>mode.ts\<close>), reboot semantics and expected exit codes
  (\<open>reboot.ts\<close>), the signature gate (\<open>signature-gate.ts\<close>), reasons (\<open>failure-detail.ts\<close>), detection rules (\<open>detection.ts\<close>) and the
  helpers of \<open>index.ts\<close>. The package snapshot and the answers of the privileged service arrive as untyped JSON and stay \<^typ>\<open>jsval\<close>.
\<close>

section \<open>Modes\<close>

datatype deployment_mode = Install | Reinstall | Uninstall

datatype install_outcome = Success | AlreadyInstalled | Failed | Rejected | RebootRequired | TimedOut | SignatureInvalid

definition parse_mode :: "jsval \<Rightarrow> deployment_mode" where
  "parse_mode raw = (if raw = JStr ''uninstall'' then Uninstall else if raw = JStr ''reinstall'' then Reinstall else Install)"

text \<open>What pre-detection decides: go on, or stop with an outcome and a reason.\<close>

definition skip_is_transient :: "string option \<Rightarrow> bool" where
  "skip_is_transient r = (case r of None \<Rightarrow> False | Some s \<Rightarrow> starts_with s ''privsvc_error:'' \<or> starts_with s ''privsvc_threw:'')"

definition pre_detect_decision :: "deployment_mode \<Rightarrow> bool \<Rightarrow> bool \<Rightarrow> string option \<Rightarrow> (install_outcome \<times> string) option" where
  "pre_detect_decision mode matched skipped skip_reason = (case mode of
     Reinstall \<Rightarrow> None
   | Uninstall \<Rightarrow>
       if skipped then (if skip_is_transient skip_reason then Some (Failed, ''pre_detect_unavailable'') else Some (Rejected, ''pre_detect_inconclusive''))
       else if matched then None else Some (AlreadyInstalled, ''pre_detect_absent'')
   | Install \<Rightarrow> if matched then Some (AlreadyInstalled, ''pre_detect_matched'') else None)"

definition args_for_mode :: "deployment_mode \<Rightarrow> jsval \<Rightarrow> jsval" where
  "args_for_mode mode snapshot =
     (let raw = jprop snapshot (if mode = Uninstall then ''silentUninstallArgs'' else ''silentInstallArgs'') in if nullish raw then JUndef else raw)"

definition post_detect_is_failure :: "deployment_mode \<Rightarrow> bool \<Rightarrow> bool" where
  "post_detect_is_failure mode matched = (if mode = Uninstall then matched else \<not> matched)"

definition post_detect_failure_reason :: "deployment_mode \<Rightarrow> string" where
  "post_detect_failure_reason mode = (if mode = Uninstall then ''post_detect_still_present'' else ''post_detect_mismatch'')"

record uninstall_identity =
  product_code :: "string option"
  display_name_like :: "string option"
  user_scope :: bool
  bundle_id :: "string option"
  pkg_id :: "string option"
  package_name :: "string option"

definition no_identity :: uninstall_identity where
  "no_identity = \<lparr>product_code = None, display_name_like = None, user_scope = False, bundle_id = None, pkg_id = None, package_name = None\<rparr>"

text \<open>\<open>typeof r.k === "string" && r.k.trim()\<close>\<close>

definition trimmed :: "jsval \<Rightarrow> string \<Rightarrow> string option" where
  "trimmed r k = (case jprop r k of JStr s \<Rightarrow> if trim s = [] then None else Some (trim s) | _ \<Rightarrow> None)"

definition identity_for_uninstall :: "jsval \<Rightarrow> uninstall_identity option" where
  "identity_for_uninstall r = (case jprop r ''type'' of
     JStr t \<Rightarrow>
       if t = ''registry_uninstall'' then
         (let i = no_identity\<lparr>product_code := trimmed r ''productCode'', display_name_like := trimmed r ''displayNameLike''\<rparr> in
          if product_code i = None \<and> display_name_like i = None then None
          else if jprop r ''scope'' = JStr ''user'' then (if display_name_like i \<noteq> None then Some (i\<lparr>user_scope := True\<rparr>) else None)
          else Some i)
       else if t = ''bundle_version'' then map_option (\<lambda>x. no_identity\<lparr>bundle_id := Some x\<rparr>) (trimmed r ''bundleId'')
       else if t = ''pkg_receipt'' then map_option (\<lambda>x. no_identity\<lparr>pkg_id := Some x\<rparr>) (trimmed r ''pkgId'')
       else if t = ''dpkg_installed'' \<or> t = ''rpm_installed'' then map_option (\<lambda>x. no_identity\<lparr>package_name := Some x\<rparr>) (trimmed r ''packageName'')
       else None
   | _ \<Rightarrow> None)"

definition PERMANENT_UNINSTALL_ERRORS :: "string list" where
  "PERMANENT_UNINSTALL_ERRORS = [''format_unsupported'', ''uninstall_no_identity'', ''identity_not_found'', ''would_remove_dependents'',
     ''uninstall_simulation_unreadable'', ''user_not_logged_on'', ''no_silent_uninstall'']"

definition PERMANENT_INSTALL_ERRORS :: "string list" where
  "PERMANENT_INSTALL_ERRORS = [''os_too_old'']"

definition is_permanent_uninstall_error :: "string \<Rightarrow> bool" where
  "is_permanent_uninstall_error code \<longleftrightarrow> code \<in> set PERMANENT_UNINSTALL_ERRORS"

definition is_permanent_install_error :: "string \<Rightarrow> bool" where
  "is_permanent_install_error code \<longleftrightarrow> code \<in> set PERMANENT_INSTALL_ERRORS"

section \<open>Reboots and exit codes\<close>

definition EXIT_REBOOT_REQUIRED :: jsval where "EXIT_REBOOT_REQUIRED = JNum (Fin 3010)"
definition EXIT_REBOOT_INITIATED :: jsval where "EXIT_REBOOT_INITIATED = JNum (Fin 1641)"
definition EXIT_RESTART_REQUIRED :: jsval where "EXIT_RESTART_REQUIRED = JNum (Fin 3011)"
definition EXIT_WU_ALREADY_INSTALLED :: jsval where "EXIT_WU_ALREADY_INSTALLED = JNum (Fin 2359302)"
definition EXIT_WU_REBOOT_REQUIRED :: jsval where "EXIT_WU_REBOOT_REQUIRED = JNum (Fin 2359301)"

definition reboot_exit_codes_for :: "platform \<Rightarrow> jsval list" where
  "reboot_exit_codes_for p =
     (if p = Windows then [EXIT_REBOOT_REQUIRED, EXIT_REBOOT_INITIATED, EXIT_RESTART_REQUIRED, EXIT_WU_REBOOT_REQUIRED] else [])"

definition with_reboot_exit_codes :: "jsval list \<Rightarrow> platform \<Rightarrow> jsval list" where
  "with_reboot_exit_codes expected p =
     (let extra = filter (\<lambda>c. \<not> js_includes expected c) (reboot_exit_codes_for p) in if length extra = 0 then expected else expected @ extra)"

definition format_success_exit_codes :: "jsval \<Rightarrow> jsval list" where
  "format_success_exit_codes fmt = (if fmt = JStr ''msu'' then [EXIT_WU_ALREADY_INSTALLED] else [])"

definition with_success_exit_codes :: "jsval list \<Rightarrow> jsval \<Rightarrow> jsval list" where
  "with_success_exit_codes expected fmt =
     (let extra = filter (\<lambda>c. \<not> js_includes expected c) (format_success_exit_codes fmt) in if length extra = 0 then expected else expected @ extra)"

record reboot_decision =
  reboot_required :: bool
  reboot_reason :: "string option"
  reboot_in_progress :: bool

definition decide_reboot :: "platform \<Rightarrow> jsnum \<Rightarrow> jsval \<Rightarrow> deployment_mode \<Rightarrow> reboot_decision" where
  "decide_reboot p code package_requires mode =
     (if is_finite code \<and> js_includes (reboot_exit_codes_for p) (JNum code)
      then (if strict_eq (JNum code) EXIT_REBOOT_INITIATED
            then \<lparr>reboot_required = True, reboot_reason = Some ''exit_reboot_initiated'', reboot_in_progress = True\<rparr>
            else \<lparr>reboot_required = True, reboot_reason = Some ''exit_reboot_required'', reboot_in_progress = False\<rparr>)
      else if package_requires = JBool True \<and> mode \<noteq> Uninstall
      then \<lparr>reboot_required = True, reboot_reason = Some ''package_requires_reboot'', reboot_in_progress = False\<rparr>
      else \<lparr>reboot_required = False, reboot_reason = None, reboot_in_progress = False\<rparr>)"

definition should_skip_post_detect :: "reboot_decision \<Rightarrow> bool" where
  "should_skip_post_detect d = reboot_in_progress d"

section \<open>The signature gate\<close>

record signature_verify_result =
  sv_ok :: bool
  sv_trusted :: bool
  sv_reason :: jsval

definition normalize_verify_response :: "jsval \<Rightarrow> signature_verify_result" where
  "normalize_verify_response resp =
     (if truthy resp \<and> truthy (jprop resp ''ok'')
      then \<lparr>sv_ok = True, sv_trusted = (jprop (jprop resp ''result'') ''trusted'' = JBool True),
             sv_reason = (let r = jprop (jprop resp ''result'') ''reason'' in if nullish r then JNull else r)\<rparr>
      else \<lparr>sv_ok = False, sv_trusted = False,
             sv_reason = (let c = jprop (jprop resp ''error'') ''code'' in if nullish c then JStr ''verify_failed'' else c)\<rparr>)"

text \<open>\<open>None\<close> proceeds; \<open>Some r\<close> blocks with \<open>signature_invalid\<close> and a reason.\<close>

definition evaluate_signature_gate :: "bool \<Rightarrow> signature_verify_result \<Rightarrow> jsval option" where
  "evaluate_signature_gate required v =
     (if \<not> required then None
      else if sv_ok v \<and> sv_trusted v then None
      else Some (if truthy (sv_reason v) then sv_reason v else JStr ''signature_untrusted''))"

section \<open>Reasons and acknowledgements\<close>

definition ack_breaker :: "char \<Rightarrow> bool" where
  "ack_breaker c \<longleftrightarrow> c = CHR '';'' \<or> char_code c = 13 \<or> char_code c = 10 \<or> char_code c = 9"

definition flatten :: "string \<Rightarrow> string" where
  "flatten t = trim (replace_runs is_space 2 (replace_runs ack_breaker 1 t))"

definition MAX_REASON :: nat where "MAX_REASON = 180"

definition failure_reason :: "(jsval \<Rightarrow> string) \<Rightarrow> jsval \<Rightarrow> jsval \<Rightarrow> string \<Rightarrow> string" where
  "failure_reason text_of err_code err_message fallback =
     (let c0 = flatten (text_or_empty text_of err_code); code = (if c0 = [] then fallback else c0);
          message = flatten (text_or_empty text_of err_message)
      in if message = [] \<or> message = code then take MAX_REASON code
         else let combined = code @ '': '' @ message in
           if length combined \<le> MAX_REASON then combined
           else if MAX_REASON \<le> length code + 2 then take MAX_REASON code
           else code @ '': '' @ take (MAX_REASON - length code - 2) message)"

definition outcome_text :: "install_outcome \<Rightarrow> string" where
  "outcome_text r = (case r of Success \<Rightarrow> ''success'' | AlreadyInstalled \<Rightarrow> ''already_installed'' | Failed \<Rightarrow> ''failed'' | Rejected \<Rightarrow> ''rejected''
     | RebootRequired \<Rightarrow> ''reboot_required'' | TimedOut \<Rightarrow> ''timed_out'' | SignatureInvalid \<Rightarrow> ''signature_invalid'')"

text \<open>\<open>encodeAckMessage\<close>: \<open>extras\<close> are already text, \<open>None\<close> where the value is undefined.\<close>

definition clean_extra :: "string \<Rightarrow> string" where
  "clean_extra v = take 200 (map (\<lambda>c. if c = CHR '';'' \<or> char_code c = 10 then CHR '' '' else c) v)"

definition encode_ack_message :: "install_outcome \<Rightarrow> string \<Rightarrow> (string \<times> string option) list \<Rightarrow> (string \<times> string) list \<Rightarrow> string" where
  "encode_ack_message r deployment extras forensics = join_with '';''
     ([''software_install:'' @ outcome_text r, ''deploymentId='' @ deployment]
      @ List.map_filter (\<lambda>(k, v). map_option (\<lambda>x. k @ ''='' @ clean_extra x) v) extras
      @ map (\<lambda>(k, v). k @ ''='' @ v) forensics)"

definition FORENSICS_B64_MAX_LEN :: nat where "FORENSICS_B64_MAX_LEN = 20000"

text \<open>\<open>encodeForensicsB64\<close>; \<open>b64\<close> is base64url of the JSON text, \<open>None\<close> if it has none.\<close>

definition encode_forensics_b64 :: "(jsval \<Rightarrow> string option) \<Rightarrow> jsval \<Rightarrow> string option" where
  "encode_forensics_b64 b64 v =
     (if nullish v then None else case b64 v of None \<Rightarrow> None | Some s \<Rightarrow> if length s > FORENSICS_B64_MAX_LEN then None else Some s)"

definition trim_stderr :: "jsval \<Rightarrow> string option" where
  "trim_stderr v = (case v of
     JStr s \<Rightarrow> if s = [] then None else Some (take 1024 (filter (\<lambda>c. char_code c \<noteq> 13 \<and> char_code c \<noteq> 0) s))
   | _ \<Rightarrow> None)"

definition contains :: "string \<Rightarrow> string \<Rightarrow> bool" where
  "contains s w \<longleftrightarrow> sublist w s"

definition is_self_package :: "(jsval \<Rightarrow> string) \<Rightarrow> jsval \<Rightarrow> bool" where
  "is_self_package text_of snapshot =
     (let name = to_lower (trim (text_or_empty text_of (jprop snapshot ''name''))) in
      if name = [] then False
      else let vendor = to_lower (trim (text_or_empty text_of (jprop snapshot ''vendor'')))
           in (name = ''tracenium agent'' \<or> starts_with name ''tracenium agent'') \<and> (vendor = [] \<or> contains vendor ''certus''))"

definition normalize_sources :: "jsval \<Rightarrow> (string \<times> string) list" where
  "normalize_sources raw = (case raw of
     JArr xs \<Rightarrow> List.map_filter (\<lambda>s.
       (case jprop s ''url'' of
          JStr url \<Rightarrow>
            if starts_with (to_lower url) ''https://''
            then Some ((case jprop s ''tier'' of JStr t \<Rightarrow> if t = [] then ''origin'' else t | _ \<Rightarrow> ''origin''), url)
            else None
        | _ \<Rightarrow> None)) xs
   | _ \<Rightarrow> [])"

section \<open>Detection rules\<close>

datatype detection_rule =
    RegistryUninstall string "string option" bool
  | BundleVersion string "string option"
  | PkgReceipt string "string option"
  | DpkgInstalled string "string option"
  | RpmInstalled string "string option"
  | FileExists string
  | CommandExit string "string list option" "string option"

definition normalize_rule :: "(jsval \<Rightarrow> string) \<Rightarrow> jsval \<Rightarrow> detection_rule option" where
  "normalize_rule text_of raw =
     (let t = jprop raw ''type''; type = (if truthy t then string_of text_of t else []); minv = trimmed raw ''minVersion'' in
      if \<not> is_object raw then None
      else if type = ''registry_uninstall'' then
        (case jprop raw ''displayNameLike'' of JStr s \<Rightarrow> Some (RegistryUninstall s minv (jprop raw ''scope'' = JStr ''user'')) | _ \<Rightarrow> None)
      else if type = ''bundle_version'' then (case jprop raw ''bundleId'' of JStr s \<Rightarrow> Some (BundleVersion s minv) | _ \<Rightarrow> None)
      else if type = ''pkg_receipt'' then (case jprop raw ''pkgId'' of JStr s \<Rightarrow> Some (PkgReceipt s minv) | _ \<Rightarrow> None)
      else if type = ''dpkg_installed'' then map_option (\<lambda>s. DpkgInstalled s minv) (trimmed raw ''packageName'')
      else if type = ''rpm_installed'' then map_option (\<lambda>s. RpmInstalled s minv) (trimmed raw ''packageName'')
      else if type = ''file_exists'' then (case jprop raw ''path'' of JStr s \<Rightarrow> Some (FileExists s) | _ \<Rightarrow> None)
      else if type = ''command_exit'' then
        (case jprop raw ''cmd'' of
           JStr s \<Rightarrow> Some (CommandExit s (case jprop raw ''args'' of JArr xs \<Rightarrow> Some (map (string_of text_of) xs) | _ \<Rightarrow> None)
                       (case jprop raw ''stdoutMatches'' of JStr m \<Rightarrow> if m = [] then None else Some m | _ \<Rightarrow> None))
         | _ \<Rightarrow> None)
      else None)"

definition rule_applies :: "detection_rule \<Rightarrow> platform \<Rightarrow> bool" where
  "rule_applies r p = (case r of
     RegistryUninstall _ _ _ \<Rightarrow> p = Windows
   | BundleVersion _ _ \<Rightarrow> p = Macos
   | PkgReceipt _ _ \<Rightarrow> p = Macos
   | DpkgInstalled _ _ \<Rightarrow> p = Linux
   | RpmInstalled _ _ \<Rightarrow> p = Linux
   | FileExists _ \<Rightarrow> True
   | CommandExit _ _ _ \<Rightarrow> True)"

record evaluation =
  ev_matched :: bool
  ev_snapshot :: jsval
  ev_skipped :: bool
  ev_skip_reason :: "string option"

definition skipped_because :: "string \<Rightarrow> evaluation" where
  "skipped_because r = \<lparr>ev_matched = False, ev_snapshot = JUndef, ev_skipped = True, ev_skip_reason = Some r\<rparr>"

definition platform_text :: "platform \<Rightarrow> string" where
  "platform_text p = (case p of Windows \<Rightarrow> ''win32'' | Macos \<Rightarrow> ''darwin'' | Linux \<Rightarrow> ''linux'')"

text \<open>What \<open>evaluate\<close> makes of the answer of the privileged service (\<open>Inl\<close>: the call threw).\<close>

definition read_evaluation :: "(jsval \<Rightarrow> string) \<Rightarrow> string + jsval \<Rightarrow> evaluation" where
  "read_evaluation text_of reply = (case reply of
     Inl m \<Rightarrow> skipped_because (''privsvc_threw:'' @ (if m = [] then ''unknown'' else m))
   | Inr resp \<Rightarrow>
       if \<not> truthy (jprop resp ''ok'')
       then (let c = jprop (jprop resp ''error'') ''code'' in
             skipped_because (''privsvc_error:'' @ (if truthy c then string_of text_of c else ''unknown'')))
       else \<lparr>ev_matched = (jprop (jprop resp ''result'') ''matched'' = JBool True), ev_snapshot = jprop (jprop resp ''result'') ''snapshot'',
             ev_skipped = False, ev_skip_reason = None\<rparr>)"

end
