(* ===== verification/Sdp_Install.thy ===== *)
theory Sdp_Install
  imports Sdp_Decisions
begin

text \<open>
  A software job from its arrival to its acknowledgement (\<open>plugins/sdp/index.ts\<close>, \<open>state.ts\<close>). The privileged service is the argument
  \<open>priv\<close>: what it answers to a call, given everything that was done before (\<open>Inl m\<close>: the call throws). The effects of a job are the list of
  its calls and early acknowledgements, in order; the parameters that only name or size a call (timeouts, ids, byte counts, the enrolment) are left out, and so
  are the clock stamps of the last installation.
\<close>

section \<open>The environment\<close>

datatype priv_call =
    Detect detection_rule
  | Download jsval jsval jsval "(string \<times> string) list" "jsnum option"
  | VerifySignature string jsval
  | InstallPkg string jsval jsval deployment_mode "jsval list"
  | UninstallPkg jsval uninstall_identity jsval "jsval list"

datatype effect = Call priv_call | EarlyAck string

record env =
  priv :: "effect list \<Rightarrow> priv_call \<Rightarrow> string + jsval"
  text_of :: "jsval \<Rightarrow> string"
  b64 :: "jsval \<Rightarrow> string option"
  local_platform :: "platform option"
  sdp_enabled :: bool
  early_acks :: bool
  elapsed :: jsval

record ack =
  ack_status :: nat
  ack_message :: string
  ack_outcome :: install_outcome
  ack_exit :: "jsnum option"

datatype 'a phase = Stop ack | Raise string | Go 'a

definition platform_name :: "platform \<Rightarrow> string" where
  "platform_name p = (case p of Windows \<Rightarrow> ''windows'' | Macos \<Rightarrow> ''macos'' | Linux \<Rightarrow> ''linux'')"

text \<open>An acknowledgement whose only extra is a reason.\<close>

definition plain_ack :: "nat \<Rightarrow> install_outcome \<Rightarrow> string \<Rightarrow> string \<Rightarrow> ack" where
  "plain_ack st r dep reason = \<lparr>ack_status = st, ack_message = encode_ack_message r dep [(''reason'', Some reason)] [], ack_outcome = r, ack_exit = None\<rparr>"

definition evaluate :: "env \<Rightarrow> platform \<Rightarrow> detection_rule option \<Rightarrow> effect list \<Rightarrow> evaluation \<times> effect list" where
  "evaluate e p rule es = (case rule of
     None \<Rightarrow> (skipped_because ''no_rule'', es)
   | Some r \<Rightarrow>
       if \<not> rule_applies r p then (skipped_because (''rule_type_not_applicable_on_'' @ platform_text p), es)
       else (read_evaluation (text_of e) (priv e es (Detect r)), es @ [Call (Detect r)]))"

text \<open>The snapshots of the two detections, when there are any and they fit.\<close>

definition forensics :: "env \<Rightarrow> evaluation option \<Rightarrow> evaluation option \<Rightarrow> (string \<times> string) list" where
  "forensics e before after =
     (let enc = (\<lambda>k ev. case ev of None \<Rightarrow> [] | Some v \<Rightarrow> (case encode_forensics_b64 (b64 e) (ev_snapshot v) of None \<Rightarrow> [] | Some s \<Rightarrow> [(k, s)]))
      in enc ''detectBefore'' before @ enc ''detectAfter'' after)"

definition expected_codes :: "platform \<Rightarrow> jsval \<Rightarrow> jsval list" where
  "expected_codes p snapshot =
     with_success_exit_codes
       (with_reboot_exit_codes
          (case jprop snapshot ''expectedExitCodes'' of JArr (x # xs) \<Rightarrow> x # xs | _ \<Rightarrow> [JNum (Fin 0), JNum (Fin 3010)]) p)
       (jprop snapshot ''format'')"

text \<open>\<open>(resp as any)?.error?.code || fallback\<close>\<close>

definition error_code :: "jsval \<Rightarrow> string \<Rightarrow> jsval" where
  "error_code resp fallback = (let c = jprop (jprop resp ''error'') ''code'' in if truthy c then c else JStr fallback)"

definition reason_of :: "env \<Rightarrow> jsval \<Rightarrow> string \<Rightarrow> string" where
  "reason_of e resp fallback = failure_reason (text_of e) (jprop (jprop resp ''error'') ''code'') (jprop (jprop resp ''error'') ''message'') fallback"

section \<open>The phases\<close>

text \<open>The uninstall branch: by identity, no download.\<close>

definition uninstall_phase :: "env \<Rightarrow> string \<Rightarrow> jsval \<Rightarrow> jsval list \<Rightarrow> effect list \<Rightarrow> jsval phase \<times> effect list" where
  "uninstall_phase e dep snapshot codes es =
     (case identity_for_uninstall (jprop snapshot ''detectionRule'') of
        None \<Rightarrow> (Stop (plain_ack 2 Rejected dep ''uninstall_no_identity''), es)
      | Some i \<Rightarrow>
          (let c = UninstallPkg (jprop snapshot ''format'') i (args_for_mode Uninstall snapshot) codes; es' = es @ [Call c] in
           case priv e es c of
             Inl m \<Rightarrow> (Raise m, es')
           | Inr resp \<Rightarrow>
               if \<not> truthy (jprop resp ''ok'')
               then (let code = error_code resp ''uninstall_failed''; permanent = is_permanent_uninstall_error (string_of (text_of e) code);
                         r = (if code = JStr ''install_timeout'' \<or> code = JStr ''uninstall_timeout'' then TimedOut else if permanent then Rejected else Failed)
                     in (Stop (plain_ack (if r = TimedOut then 1 else 2) r dep (reason_of e resp ''uninstall_failed'')), es'))
               else (Go resp, es')))"

text \<open>Download: the staging path and the source that served it.\<close>

definition download_phase :: "env \<Rightarrow> string \<Rightarrow> jsval \<Rightarrow> jsval \<Rightarrow> effect list \<Rightarrow> (string \<times> string option) phase \<times> effect list" where
  "download_phase e dep payload snapshot es =
     (let limit = number_of_value (text_of e) (jprop payload ''bandwidthLimitKbps'');
          c = Download (jprop snapshot ''downloadPath'') (jprop snapshot ''sha256'') (jprop snapshot ''format'')
                (normalize_sources (jprop payload ''sources'')) (if num_lt (Fin 0) limit then Some limit else None);
          es' = es @ [Call c]
      in case priv e es c of
           Inl m \<Rightarrow> (Raise m, es')
         | Inr resp \<Rightarrow>
             if \<not> truthy (jprop resp ''ok'')
             then (let code = error_code resp ''download_failed'';
                       permanent = code \<in> {JStr ''sha256_mismatch'', JStr ''signature_invalid'', JStr ''format_unsupported'', JStr ''url_invalid''}
                   in (Stop (plain_ack (if permanent then 2 else 1) (if permanent then Rejected else Failed) dep (string_of (text_of e) code)), es'))
             else (let result = jprop resp ''result'';
                       served = (case jprop result ''servedBy'' of JStr s \<Rightarrow> if s = [] then None else Some s | _ \<Rightarrow> None);
                       sp = jprop result ''stagingPath''; path = (if truthy sp then string_of (text_of e) sp else [])
                   in if path = [] then (Stop (plain_ack 2 Failed dep ''download_no_staging_path''), es')
                      else (Go (path, served), es')))"

definition signature_phase :: "env \<Rightarrow> string \<Rightarrow> jsval \<Rightarrow> string \<Rightarrow> effect list \<Rightarrow> unit phase \<times> effect list" where
  "signature_phase e dep snapshot path es =
     (if \<not> truthy (jprop snapshot ''signingRequired'') then (Go (), es)
      else
        (let c = VerifySignature path (jprop snapshot ''format''); es' = es @ [Call c] in
         case priv e es c of
           Inl m \<Rightarrow> (Raise m, es')
         | Inr resp \<Rightarrow>
             (case evaluate_signature_gate True (normalize_verify_response resp) of
                Some why \<Rightarrow> (Stop (plain_ack 2 SignatureInvalid dep (string_of (text_of e) why)), es')
              | None \<Rightarrow> (Go (), es'))))"

definition self_install_ack :: "env \<Rightarrow> string \<Rightarrow> jsval \<Rightarrow> string option \<Rightarrow> effect list" where
  "self_install_ack e dep snapshot served =
     (if early_acks e \<and> is_self_package (text_of e) snapshot
      then [EarlyAck (encode_ack_message Success dep
              ((''reason'', Some ''self_install_launched'') # (case served of None \<Rightarrow> [] | Some s \<Rightarrow> [(''src'', Some s)])) [])]
      else [])"

definition install_phase :: "env \<Rightarrow> string \<Rightarrow> jsval \<Rightarrow> deployment_mode \<Rightarrow> string \<Rightarrow> jsval list \<Rightarrow> effect list \<Rightarrow> jsval phase \<times> effect list" where
  "install_phase e dep snapshot mode path codes es =
     (let c = InstallPkg path (jprop snapshot ''format'') (args_for_mode mode snapshot) mode codes; es' = es @ [Call c] in
      case priv e es c of
        Inl m \<Rightarrow> (Raise m, es')
      | Inr resp \<Rightarrow>
          if \<not> truthy (jprop resp ''ok'')
          then (let code = error_code resp ''install_failed'';
                    r = (if code = JStr ''install_timeout'' then TimedOut
                         else if is_permanent_install_error (string_of (text_of e) code) then Rejected else Failed)
                in (Stop (plain_ack (if r = TimedOut then 1 else 2) r dep (reason_of e resp ''install_failed'')), es'))
          else (Go resp, es'))"

text \<open>What is made of a run that came back: exit code, post-detection, reboot.\<close>

definition grade ::
  "env \<Rightarrow> platform \<Rightarrow> string \<Rightarrow> jsval \<Rightarrow> deployment_mode \<Rightarrow> detection_rule option \<Rightarrow> evaluation option \<Rightarrow> string option \<Rightarrow> jsval list
   \<Rightarrow> jsval \<Rightarrow> effect list \<Rightarrow> ack \<times> effect list" where
  "grade e p dep snapshot mode rule before served codes resp es =
     (let result = jprop resp ''result'';
          exit = number_of_value (text_of e) (jprop result ''exitCode'');
          dur = (let d = jprop result ''durationMs'' in number_of_value (text_of e) (if nullish d then elapsed e else d));
          reboot = decide_reboot p exit (jprop snapshot ''requiresReboot'') mode;
          extras = (\<lambda>reason. [(''exit'', Some (text_of e (JNum exit))), (''duration'', Some (text_of e (JNum dur))), (''reason'', reason), (''src'', served)])
      in if \<not> (is_finite exit \<and> js_includes codes (JNum exit))
         then (let shown = text_of e (JNum exit);
                   why = (case trim_stderr (jprop result ''installerDiagnosis'') of
                            Some (d # ds) \<Rightarrow> ''unexpected_exit_'' @ shown @ '':'' @ take 120 (d # ds)
                          | _ \<Rightarrow> (case trim_stderr (jprop result ''stderrExcerpt'') of
                              Some (x # xs) \<Rightarrow> ''unexpected_exit_'' @ shown @ '':'' @ take 80 (x # xs)
                            | _ \<Rightarrow> ''unexpected_exit_'' @ shown))
               in (\<lparr>ack_status = 2, ack_message = encode_ack_message Failed dep (extras (Some why)) [], ack_outcome = Failed, ack_exit = Some exit\<rparr>, es))
         else
           (let (post, es') = (if rule = None \<or> should_skip_post_detect reboot then (None, es)
                               else let (ev, es') = evaluate e p rule es in (Some ev, es'));
                bag = forensics e before post
            in if (case post of None \<Rightarrow> False | Some ev \<Rightarrow> \<not> ev_skipped ev \<and> post_detect_is_failure mode (ev_matched ev))
               then (\<lparr>ack_status = 2, ack_message = encode_ack_message Failed dep (extras (Some (post_detect_failure_reason mode))) bag,
                      ack_outcome = Failed, ack_exit = Some exit\<rparr>, es')
               else (let r = (if reboot_required reboot then RebootRequired else Success) in
                     (\<lparr>ack_status = 0, ack_message = encode_ack_message r dep
                          [(''exit'', Some (text_of e (JNum exit))), (''duration'', Some (text_of e (JNum dur))), (''src'', served), (''reason'', reboot_reason reboot)] bag,
                       ack_outcome = r, ack_exit = Some exit\<rparr>, es'))))"

text \<open>The body of the \<open>try\<close>: pre-detection, the run of the mode, the grade.\<close>

definition run_mode ::
  "env \<Rightarrow> string \<Rightarrow> jsval \<Rightarrow> jsval \<Rightarrow> deployment_mode \<Rightarrow> jsval list \<Rightarrow> effect list \<Rightarrow> (jsval \<times> string option) phase \<times> effect list" where
  "run_mode e dep payload snapshot mode codes es =
     (if mode = Uninstall then
        (case uninstall_phase e dep snapshot codes es of
           (Stop a, es1) \<Rightarrow> (Stop a, es1) | (Raise m, es1) \<Rightarrow> (Raise m, es1) | (Go resp, es1) \<Rightarrow> (Go (resp, None), es1))
      else
        (case download_phase e dep payload snapshot es of
           (Stop a, es1) \<Rightarrow> (Stop a, es1) | (Raise m, es1) \<Rightarrow> (Raise m, es1)
         | (Go (path, served), es1) \<Rightarrow>
             (case signature_phase e dep snapshot path es1 of
                (Stop a, es2) \<Rightarrow> (Stop a, es2) | (Raise m, es2) \<Rightarrow> (Raise m, es2)
              | (Go _, es2) \<Rightarrow>
                  (case install_phase e dep snapshot mode path codes (es2 @ self_install_ack e dep snapshot served) of
                     (Stop a, es3) \<Rightarrow> (Stop a, es3) | (Raise m, es3) \<Rightarrow> (Raise m, es3) | (Go resp, es3) \<Rightarrow> (Go (resp, served), es3)))))"

definition pipeline :: "env \<Rightarrow> platform \<Rightarrow> string \<Rightarrow> jsval \<Rightarrow> jsval \<Rightarrow> deployment_mode \<Rightarrow> ack \<times> effect list" where
  "pipeline e p dep payload snapshot mode =
     (let rule = normalize_rule (text_of e) (jprop snapshot ''detectionRule'');
          (before, es) = (if rule = None then (None, []) else let (ev, es) = evaluate e p rule [] in (Some ev, es));
          decision = (case before of None \<Rightarrow> None | Some ev \<Rightarrow> pre_detect_decision mode (ev_matched ev) (ev_skipped ev) (ev_skip_reason ev))
      in case decision of
           Some (r, reason) \<Rightarrow>
             (\<lparr>ack_status = (if r = Rejected then 2 else if r = Failed then 1 else 0),
               ack_message = encode_ack_message r dep [(''reason'', Some reason)] (forensics e before None), ack_outcome = r, ack_exit = None\<rparr>, es)
         | None \<Rightarrow>
             (let codes = expected_codes p snapshot in
              case run_mode e dep payload snapshot mode codes es of
                (Stop a, es1) \<Rightarrow> (a, es1)
              | (Raise m, es1) \<Rightarrow> (plain_ack 1 Failed dep (''exception:'' @ take 120 (if m = [] then ''unknown'' else m)), es1)
              | (Go (resp, served), es1) \<Rightarrow> grade e p dep snapshot mode rule before served codes resp es1))"

section \<open>The job and its lock\<close>

record last_install =
  li_package :: "jsval \<times> jsval \<times> jsval"
  li_outcome :: "install_outcome option"
  li_exit :: "jsnum option"

record sdp_state =
  install_in_progress :: bool
  last_install :: "last_install option"

definition try_start_install :: "jsval \<times> jsval \<times> jsval \<Rightarrow> sdp_state \<Rightarrow> bool \<times> sdp_state" where
  "try_start_install pkg s =
     (if install_in_progress s then (False, s)
      else (True, s\<lparr>install_in_progress := True, last_install := Some \<lparr>li_package = pkg, li_outcome = None, li_exit = None\<rparr>\<rparr>))"

definition finish_install :: "install_outcome \<Rightarrow> jsnum option \<Rightarrow> sdp_state \<Rightarrow> sdp_state" where
  "finish_install r exit s =
     s\<lparr>install_in_progress := False,
       last_install := map_option (\<lambda>l. l\<lparr>li_outcome := Some r, li_exit := (if exit = None then li_exit l else exit)\<rparr>) (last_install s)\<rparr>"

text \<open>Everything before the \<open>try\<close>: either an acknowledgement, or the lock is taken.\<close>

definition begin_job :: "env \<Rightarrow> jsval \<Rightarrow> sdp_state \<Rightarrow> ack option \<times> sdp_state" where
  "begin_job e payload s =
     (let d = number_of_value (text_of e) (jprop payload ''deploymentId''); snapshot = jprop payload ''packageSnapshot'';
          dep = text_of e (JNum d)
      in if \<not> is_integer d \<or> \<not> num_lt (Fin 0) d \<or> \<not> truthy snapshot
         then (Some (plain_ack 2 Failed (text_of e (if truthy (JNum d) then JNum d else JNum (Fin 0))) ''invalid_payload''), s)
         else if (case local_platform e of None \<Rightarrow> True | Some p \<Rightarrow> jprop snapshot ''platform'' \<noteq> JStr (platform_name p))
         then (Some (plain_ack 2 Rejected dep
                (''platform_mismatch_'' @ (case local_platform e of None \<Rightarrow> ''null'' | Some p \<Rightarrow> platform_name p) @ ''_vs_''
                  @ string_of (text_of e) (jprop snapshot ''platform''))), s)
         else if \<not> sdp_enabled e then (Some (plain_ack 2 Rejected dep ''sdp_plugin_disabled_by_policy''), s)
         else (let (ok, s') = try_start_install (jprop snapshot ''id'', jprop snapshot ''name'', jprop snapshot ''version'') s in
               if \<not> ok then (Some (plain_ack 1 Failed dep ''another_install_in_progress''), s') else (None, s')))"

text \<open>\<open>runSoftwareInstall\<close>, when nothing else happens in between.\<close>

definition run_software_install :: "env \<Rightarrow> jsval \<Rightarrow> sdp_state \<Rightarrow> ack \<times> effect list \<times> sdp_state" where
  "run_software_install e payload s =
     (case begin_job e payload s of
        (Some a, s') \<Rightarrow> (a, [], s')
      | (None, s') \<Rightarrow>
          (let (a, es) = pipeline e (the (local_platform e)) (text_of e (JNum (number_of_value (text_of e) (jprop payload ''deploymentId'')))) payload
                 (jprop payload ''packageSnapshot'') (parse_mode (jprop payload ''mode''))
           in (a, es, finish_install (ack_outcome a) (ack_exit a) s')))"

section \<open>What a job may do\<close>

text \<open>A call of the history \<open>es\<close> that the privileged service answered with \<open>resp\<close>.\<close>

definition answered :: "env \<Rightarrow> effect list \<Rightarrow> priv_call \<Rightarrow> jsval \<Rightarrow> bool" where
  "answered e es c resp \<longleftrightarrow> (\<exists>xs ys. es = xs @ Call c # ys \<and> priv e xs c = Inr resp)"

lemma answered_last: "priv e es c = Inr resp \<Longrightarrow> answered e (es @ [Call c]) c resp"
  by (auto simp: answered_def)

lemma answered_more: "answered e es c resp \<Longrightarrow> answered e (es @ fs) c resp"
  by (force simp: answered_def)

text \<open>The installer at \<open>path\<close> may run: its bytes were downloaded against the hash of the snapshot, and where a signature is required the
  system vouched for the same file afterwards.\<close>

definition cleared :: "env \<Rightarrow> jsval \<Rightarrow> string \<Rightarrow> effect list \<Rightarrow> bool" where
  "cleared e snapshot path es \<longleftrightarrow>
     (\<exists>url sources limit resp. answered e es (Download url (jprop snapshot ''sha256'') (jprop snapshot ''format'') sources limit) resp
        \<and> truthy (jprop resp ''ok'') \<and> path = string_of (text_of e) (jprop (jprop resp ''result'') ''stagingPath'') \<and> path \<noteq> [])
     \<and> (truthy (jprop snapshot ''signingRequired'') \<longrightarrow>
          (\<exists>resp. answered e es (VerifySignature path (jprop snapshot ''format'')) resp
             \<and> truthy (jprop resp ''ok'') \<and> jprop (jprop resp ''result'') ''trusted'' = JBool True))"

definition guarded :: "env \<Rightarrow> jsval \<Rightarrow> deployment_mode \<Rightarrow> effect list \<Rightarrow> bool" where
  "guarded e snapshot mode es \<longleftrightarrow>
     (\<forall>xs path fmt args m codes ys. es = xs @ Call (InstallPkg path fmt args m codes) # ys \<longrightarrow> mode \<noteq> Uninstall \<and> cleared e snapshot path xs)"

fun is_installation :: "effect \<Rightarrow> bool" where
  "is_installation (Call (InstallPkg _ _ _ _ _)) \<longleftrightarrow> True"
| "is_installation _ \<longleftrightarrow> False"

lemma guarded_Nil [simp]: "guarded e snapshot mode []"
  by (simp add: guarded_def)

lemma guarded_other: "guarded e snapshot mode es \<Longrightarrow> \<not> is_installation x \<Longrightarrow> guarded e snapshot mode (es @ [x])"
  unfolding guarded_def
proof (intro allI impI)
  fix xs path fmt args m codes ys
  assume g: "\<forall>xs path fmt args m codes ys. es = xs @ Call (InstallPkg path fmt args m codes) # ys \<longrightarrow> mode \<noteq> Uninstall \<and> cleared e snapshot path xs"
    and x: "\<not> is_installation x" and eq: "es @ [x] = xs @ Call (InstallPkg path fmt args m codes) # ys"
  show "mode \<noteq> Uninstall \<and> cleared e snapshot path xs"
  proof (cases ys rule: rev_cases)
    case (snoc zs z)
    then have "es = xs @ Call (InstallPkg path fmt args m codes) # zs" using eq by simp
    then show ?thesis using g by blast
  qed (use x eq in auto)
qed

lemma guarded_installation:
  assumes "guarded e snapshot mode es" and "cleared e snapshot path es" and "mode \<noteq> Uninstall"
  shows "guarded e snapshot mode (es @ [Call (InstallPkg path fmt args m codes)])"
  unfolding guarded_def
proof (intro allI impI)
  fix xs path' fmt' args' m' codes' ys
  assume eq: "es @ [Call (InstallPkg path fmt args m codes)] = xs @ Call (InstallPkg path' fmt' args' m' codes') # ys"
  show "mode \<noteq> Uninstall \<and> cleared e snapshot path' xs"
    using assms eq unfolding guarded_def by (cases ys rule: rev_cases) auto
qed

section \<open>The effects of each phase\<close>

lemma evaluate_effects:
  "evaluate e p rule es = (ev, es') \<Longrightarrow> es' = es \<or> (\<exists>r. rule = Some r \<and> rule_applies r p \<and> es' = es @ [Call (Detect r)] \<and> ev = read_evaluation (text_of e) (priv e es (Detect r)))"
  by (auto simp: evaluate_def split: option.splits if_splits)

lemma evaluate_guarded: "evaluate e p rule es = (ev, es') \<Longrightarrow> guarded e snapshot mode es \<Longrightarrow> guarded e snapshot mode es'"
  by (drule evaluate_effects) (auto intro: guarded_other)

lemma uninstall_effects:
  assumes "uninstall_phase e dep snapshot codes es = (ph, es')"
  shows "es' = es \<and> (\<exists>a. ph = Stop a) \<or> (\<exists>fmt i args. es' = es @ [Call (UninstallPkg fmt i args codes)]
     \<and> (\<forall>resp. ph = Go resp \<longrightarrow> priv e es (UninstallPkg fmt i args codes) = Inr resp \<and> truthy (jprop resp ''ok'')))"
  using assms by (auto simp: uninstall_phase_def Let_def split: option.splits sum.splits if_splits)

lemma download_effects:
  assumes "download_phase e dep payload snapshot es = (ph, es')"
  shows "\<exists>url sources limit. es' = es @ [Call (Download url (jprop snapshot ''sha256'') (jprop snapshot ''format'') sources limit)]
     \<and> (\<forall>path served. ph = Go (path, served) \<longrightarrow> (\<exists>resp. answered e es' (Download url (jprop snapshot ''sha256'') (jprop snapshot ''format'') sources limit) resp
          \<and> truthy (jprop resp ''ok'') \<and> path = string_of (text_of e) (jprop (jprop resp ''result'') ''stagingPath'') \<and> path \<noteq> []))"
  using assms
  by (fastforce simp: download_phase_def Let_def intro: answered_last split: sum.splits if_splits)

lemma signature_effects:
  assumes "signature_phase e dep snapshot path es = (ph, es')"
  shows "(es' = es \<and> \<not> truthy (jprop snapshot ''signingRequired'') \<and> ph = Go ())
     \<or> (es' = es @ [Call (VerifySignature path (jprop snapshot ''format''))]
        \<and> (ph = Go () \<longrightarrow> (\<exists>resp. answered e es' (VerifySignature path (jprop snapshot ''format'')) resp
             \<and> truthy (jprop resp ''ok'') \<and> jprop (jprop resp ''result'') ''trusted'' = JBool True)))"
  using assms
  by (fastforce simp: signature_phase_def Let_def evaluate_signature_gate_def normalize_verify_response_def
      intro: answered_last split: sum.splits if_splits option.splits)

lemma install_effects:
  assumes "install_phase e dep snapshot mode path codes es = (ph, es')"
  shows "\<exists>fmt args. es' = es @ [Call (InstallPkg path fmt args mode codes)]
     \<and> (\<forall>resp. ph = Go resp \<longrightarrow> priv e es (InstallPkg path fmt args mode codes) = Inr resp \<and> truthy (jprop resp ''ok''))"
  using assms by (auto simp: install_phase_def Let_def split: sum.splits if_splits)

lemma early_effects: "\<exists>ms. self_install_ack e dep snapshot served = map EarlyAck ms \<and> length ms \<le> 1"
proof (cases "early_acks e \<and> is_self_package (text_of e) snapshot")
  case True
  then have "\<exists>m. self_install_ack e dep snapshot served = map EarlyAck [m]" by (simp add: self_install_ack_def)
  then show ?thesis by (metis One_nat_def le_refl length_Cons list.size(3))
qed (auto simp: self_install_ack_def)

lemma run_mode_guarded:
  assumes "run_mode e dep payload snapshot mode codes es = (ph, es')" and "guarded e snapshot mode es"
  shows "guarded e snapshot mode es'"
proof (cases "mode = Uninstall")
  case True
  obtain q es1 where u: "uninstall_phase e dep snapshot codes es = (q, es1)" by fastforce
  then have "es' = es1" using assms(1) True by (cases q) (auto simp: run_mode_def)
  then show ?thesis using uninstall_effects [OF u] assms(2) by (auto intro: guarded_other)
next
  case mode: False
  obtain q es1 where d: "download_phase e dep payload snapshot es = (q, es1)" by fastforce
  obtain url sources limit where es1: "es1 = es @ [Call (Download url (jprop snapshot ''sha256'') (jprop snapshot ''format'') sources limit)]"
    and got: "\<And>path served. q = Go (path, served) \<Longrightarrow>
      \<exists>resp. answered e es1 (Download url (jprop snapshot ''sha256'') (jprop snapshot ''format'') sources limit) resp
        \<and> truthy (jprop resp ''ok'') \<and> path = string_of (text_of e) (jprop (jprop resp ''result'') ''stagingPath'') \<and> path \<noteq> []"
    using download_effects [OF d] by blast
  have g1: "guarded e snapshot mode es1" using assms(2) unfolding es1 by (auto intro: guarded_other)
  show ?thesis
  proof (cases q)
    case (Go x)
    obtain path served where x: "x = (path, served)" by fastforce
    obtain r es2 where v: "signature_phase e dep snapshot path es1 = (r, es2)" by fastforce
    note vs = signature_effects [OF v]
    have g2: "guarded e snapshot mode es2" using vs g1 by (auto intro: guarded_other)
    show ?thesis
    proof (cases r)
      case (Go w)
      have c: "cleared e snapshot path es2"
      proof -
        obtain fs where fs: "es2 = es1 @ fs" using vs by auto
        obtain resp where "answered e es1 (Download url (jprop snapshot ''sha256'') (jprop snapshot ''format'') sources limit) resp"
            "truthy (jprop resp ''ok'')" "path = string_of (text_of e) (jprop (jprop resp ''result'') ''stagingPath'')" "path \<noteq> []"
          using got [of path served] \<open>q = Go x\<close> x by blast
        then have "\<exists>url sources limit resp. answered e es2 (Download url (jprop snapshot ''sha256'') (jprop snapshot ''format'') sources limit) resp
            \<and> truthy (jprop resp ''ok'') \<and> path = string_of (text_of e) (jprop (jprop resp ''result'') ''stagingPath'') \<and> path \<noteq> []"
          unfolding fs by (blast intro: answered_more)
        moreover have "r = Go ()" using Go by simp
        ultimately show ?thesis using vs unfolding cleared_def by blast
      qed
      obtain ms where ms: "self_install_ack e dep snapshot served = map EarlyAck ms" using early_effects by blast
      have c': "cleared e snapshot path (es2 @ map EarlyAck ks)" for ks
        using c unfolding cleared_def by (blast intro: answered_more)
      have g3: "guarded e snapshot mode (es2 @ map EarlyAck ks)" for ks
      proof (induction ks rule: rev_induct)
        case (snoc k ks)
        from guarded_other [OF this, of "EarlyAck k"] show ?case by simp
      qed (simp add: g2)
      obtain t es3 where i: "install_phase e dep snapshot mode path codes (es2 @ map EarlyAck ms) = (t, es3)" by fastforce
      have "guarded e snapshot mode es3"
        using install_effects [OF i] guarded_installation [OF g3 c' mode] by blast
      moreover have "es' = es3" using assms(1) mode d v i x \<open>q = Go x\<close> Go ms by (cases t) (auto simp: run_mode_def)
      ultimately show ?thesis by simp
    qed (use assms(1) mode d v x \<open>q = Go x\<close> g2 in \<open>auto simp: run_mode_def\<close>)
  qed (use assms(1) mode d g1 in \<open>auto simp: run_mode_def\<close>)
qed

lemma grade_effects:
  assumes "grade e p dep snapshot mode rule before served codes resp es = (a, es')"
  shows "es' = es \<or> (\<exists>ev. evaluate e p rule es = (ev, es'))"
  using assms unfolding grade_def Let_def by (auto split: if_splits prod.splits)

text \<open>The job up to the run, and what comes out of it.\<close>

definition pre_detection :: "env \<Rightarrow> platform \<Rightarrow> jsval \<Rightarrow> evaluation option \<times> effect list" where
  "pre_detection e p snapshot = (let rule = normalize_rule (text_of e) (jprop snapshot ''detectionRule'') in
     if rule = None then (None, []) else let (ev, es) = evaluate e p rule [] in (Some ev, es))"

lemma pipeline_cases:
  assumes "pipeline e p dep payload snapshot mode = (a, es')" and "pre_detection e p snapshot = (before, es)"
  obtains (stopped) ev r reason where "before = Some ev" "pre_detect_decision mode (ev_matched ev) (ev_skipped ev) (ev_skip_reason ev) = Some (r, reason)"
      "a = \<lparr>ack_status = (if r = Rejected then 2 else if r = Failed then 1 else 0),
          ack_message = encode_ack_message r dep [(''reason'', Some reason)] (forensics e before None), ack_outcome = r, ack_exit = None\<rparr>" "es' = es"
    | (halted) "run_mode e dep payload snapshot mode (expected_codes p snapshot) es = (Stop a, es')"
    | (raised) m where "run_mode e dep payload snapshot mode (expected_codes p snapshot) es = (Raise m, es')"
        "a = plain_ack 1 Failed dep (''exception:'' @ take 120 (if m = [] then ''unknown'' else m))"
    | (graded) resp served es1 where "run_mode e dep payload snapshot mode (expected_codes p snapshot) es = (Go (resp, served), es1)"
        "grade e p dep snapshot mode (normalize_rule (text_of e) (jprop snapshot ''detectionRule'')) before served (expected_codes p snapshot) resp es1 = (a, es')"
proof -
  let ?d = "case before of None \<Rightarrow> None | Some ev \<Rightarrow> pre_detect_decision mode (ev_matched ev) (ev_skipped ev) (ev_skip_reason ev)"
  have eq: "pipeline e p dep payload snapshot mode = (case ?d of
           Some (r, reason) \<Rightarrow>
             (\<lparr>ack_status = (if r = Rejected then 2 else if r = Failed then 1 else 0),
               ack_message = encode_ack_message r dep [(''reason'', Some reason)] (forensics e before None), ack_outcome = r, ack_exit = None\<rparr>, es)
         | None \<Rightarrow>
              (case run_mode e dep payload snapshot mode (expected_codes p snapshot) es of
                (Stop a, es1) \<Rightarrow> (a, es1)
              | (Raise m, es1) \<Rightarrow> (plain_ack 1 Failed dep (''exception:'' @ take 120 (if m = [] then ''unknown'' else m)), es1)
              | (Go (resp, served), es1) \<Rightarrow> grade e p dep snapshot mode (normalize_rule (text_of e) (jprop snapshot ''detectionRule'')) before served (expected_codes p snapshot) resp es1))"
    using assms(2) unfolding pipeline_def pre_detection_def Let_def by simp
  show thesis
  proof (cases ?d)
    case None
    obtain ph es1 where "run_mode e dep payload snapshot mode (expected_codes p snapshot) es = (ph, es1)" by fastforce
    then show thesis using assms(1) None that(2-4) unfolding eq None by (cases ph) (auto split: prod.splits)
  next
    case (Some x)
    obtain r reason where x: "x = (r, reason)" by fastforce
    obtain ev where ev: "before = Some ev" "pre_detect_decision mode (ev_matched ev) (ev_skipped ev) (ev_skip_reason ev) = Some (r, reason)"
      using Some x by (cases before) auto
    show thesis using assms(1) unfolding eq Some x by (intro that(1) [OF ev]) auto
  qed
qed

lemma pre_detection_guarded: "pre_detection e p snapshot = (before, es) \<Longrightarrow> guarded e s mode es"
  by (auto simp: pre_detection_def Let_def split: if_splits prod.splits dest: evaluate_guarded)

lemma pipeline_guarded:
  assumes "pipeline e p dep payload snapshot mode = (a, es')"
  shows "guarded e snapshot mode es'"
proof -
  obtain before es where pd: "pre_detection e p snapshot = (before, es)" by fastforce
  note g = pre_detection_guarded [OF pd, of snapshot mode]
  from assms pd show ?thesis
  proof (cases rule: pipeline_cases)
    case (graded resp served es1)
    from grade_effects [OF graded(2)] run_mode_guarded [OF graded(1) g] show ?thesis by (auto intro: evaluate_guarded)
  qed (use g run_mode_guarded [OF _ g] in auto)
qed

lemma run_software_install_cases:
  assumes "run_software_install e payload s = (a, es, s')"
  obtains (refused) "begin_job e payload s = (Some a, s')" "es = []"
    | (ran) s1 p where "begin_job e payload s = (None, s1)" "local_platform e = Some p"
        "pipeline e p (text_of e (JNum (number_of_value (text_of e) (jprop payload ''deploymentId'')))) payload
          (jprop payload ''packageSnapshot'') (parse_mode (jprop payload ''mode'')) = (a, es)"
        "s' = finish_install (ack_outcome a) (ack_exit a) s1"
proof -
  obtain o1 s1 where b: "begin_job e payload s = (o1, s1)" by fastforce
  show thesis
  proof (cases o1)
    case None
    have "local_platform e \<noteq> None"
      using b None by (cases "local_platform e") (auto simp: begin_job_def Let_def split: if_splits)
    then obtain p where "local_platform e = Some p" by auto
    then show thesis using assms b None that(2) by (auto simp: run_software_install_def split: prod.splits)
  qed (use assms b that(1) in \<open>auto simp: run_software_install_def\<close>)
qed

text \<open>C15. No installer runs unverified. Whatever the privileged service answers, whatever the payload says: when a job runs an installer, it is not an
  uninstallation, the file was downloaded before against the hash of the package, and if the package requires a signature the system had
  answered for this very file that it trusts it.\<close>

theorem no_unverified_installer:
  assumes "run_software_install e payload s = (a, xs @ Call (InstallPkg path fmt args m codes) # ys, s')"
    and "snapshot = jprop payload ''packageSnapshot''"
  shows "parse_mode (jprop payload ''mode'') \<noteq> Uninstall
    \<and> (\<exists>url sources limit resp. answered e xs (Download url (jprop snapshot ''sha256'') (jprop snapshot ''format'') sources limit) resp
        \<and> truthy (jprop resp ''ok'') \<and> path = string_of (text_of e) (jprop (jprop resp ''result'') ''stagingPath'') \<and> path \<noteq> [])
    \<and> (truthy (jprop snapshot ''signingRequired'') \<longrightarrow>
        (\<exists>resp. answered e xs (VerifySignature path (jprop snapshot ''format'')) resp
           \<and> truthy (jprop resp ''ok'') \<and> jprop (jprop resp ''result'') ''trusted'' = JBool True))"
proof -
  from assms(1) have "guarded e snapshot (parse_mode (jprop payload ''mode'')) (xs @ Call (InstallPkg path fmt args m codes) # ys)"
  proof (cases rule: run_software_install_cases)
    case (ran s1 p)
    show ?thesis unfolding assms(2) by (rule pipeline_guarded [OF ran(3)])
  qed simp
  then show ?thesis unfolding guarded_def cleared_def by blast
qed

text \<open>A service that answers as for a fresh installation of a signed package.\<close>

definition ok_reply :: "(string \<times> jsval) list \<Rightarrow> string + jsval" where
  "ok_reply kvs = Inr (JObj [(''ok'', JBool True), (''result'', JObj kvs)])"

definition sample_priv :: "effect list \<Rightarrow> priv_call \<Rightarrow> string + jsval" where
  "sample_priv es c = (case c of
     Detect _ \<Rightarrow> ok_reply [(''matched'', JBool (length es > 2))]
   | Download _ _ _ _ _ \<Rightarrow> ok_reply [(''stagingPath'', JStr ''/s/a.msi'')]
   | VerifySignature _ _ \<Rightarrow> ok_reply [(''trusted'', JBool True)]
   | InstallPkg _ _ _ _ _ \<Rightarrow> ok_reply [(''exitCode'', JNum (Fin 0)), (''durationMs'', JNum (Fin 9))]
   | UninstallPkg _ _ _ _ \<Rightarrow> ok_reply [(''exitCode'', JNum (Fin 0)), (''durationMs'', JNum (Fin 9))])"

definition sample_env :: env where
  "sample_env = \<lparr>priv = sample_priv, text_of = (\<lambda>_. ''7''), b64 = (\<lambda>_. None), local_platform = Some Windows, sdp_enabled = True, early_acks = False,
     elapsed = JNum (Fin 9)\<rparr>"

definition sample_payload :: "string \<Rightarrow> jsval \<Rightarrow> jsval" where
  "sample_payload mode rule = JObj [(''deploymentId'', JNum (Fin 7)), (''mode'', JStr mode),
     (''packageSnapshot'', JObj [(''platform'', JStr ''windows''), (''sha256'', JStr ''ab''), (''format'', JStr ''msi''),
        (''signingRequired'', JBool True), (''detectionRule'', rule)])]"

definition idle_state :: sdp_state where
  "idle_state = \<lparr>install_in_progress = False, last_install = None\<rparr>"

definition app_rule :: jsval where
  "app_rule = JObj [(''type'', JStr ''registry_uninstall''), (''displayNameLike'', JStr ''App'')]"

lemmas sample_defs = sample_env_def sample_priv_def ok_reply_def sample_payload_def idle_state_def

definition sample_snapshot :: jsval where
  "sample_snapshot = JObj [(''platform'', JStr ''windows''), (''sha256'', JStr ''ab''), (''format'', JStr ''msi''),
     (''signingRequired'', JBool True), (''detectionRule'', app_rule)]"

lemma sample_snapshot_props [simp]:
  "truthy sample_snapshot" "jprop sample_snapshot ''platform'' = JStr ''windows''" "jprop sample_snapshot ''sha256'' = JStr ''ab''"
  "jprop sample_snapshot ''format'' = JStr ''msi''" "jprop sample_snapshot ''signingRequired'' = JBool True"
  "jprop sample_snapshot ''downloadPath'' = JUndef" "jprop sample_snapshot ''silentInstallArgs'' = JUndef"
  "jprop sample_snapshot ''expectedExitCodes'' = JUndef" "jprop sample_snapshot ''requiresReboot'' = JUndef"
  "normalize_rule t (jprop sample_snapshot ''detectionRule'') = Some (RegistryUninstall ''App'' None False)"
  by (simp_all add: sample_snapshot_def app_rule_def normalize_rule_def trimmed_def string_of_def)

lemma sample_phases:
  "download_phase sample_env dep pl sample_snapshot es = (Go (''/s/a.msi'', None), es @ [Call (Download JUndef (JStr ''ab'') (JStr ''msi'') (normalize_sources (jprop pl ''sources'')) None)])"
  if "jprop pl ''bandwidthLimitKbps'' = JUndef"
  using that by (simp add: download_phase_def sample_defs number_of_value_def num_lt_def string_of_def)

lemma sample_signature:
  "signature_phase sample_env dep sample_snapshot path es = (Go (), es @ [Call (VerifySignature path (JStr ''msi''))])"
  by (simp add: signature_phase_def sample_defs evaluate_signature_gate_def normalize_verify_response_def)

lemma sample_install:
  "install_phase sample_env dep sample_snapshot Install path codes es =
     (Go (JObj [(''ok'', JBool True), (''result'', JObj [(''exitCode'', JNum (Fin 0)), (''durationMs'', JNum (Fin 9))])]), 
      es @ [Call (InstallPkg path (JStr ''msi'') JUndef Install codes)])"
  by (simp add: install_phase_def sample_defs args_for_mode_def nullish_def)

lemma sample_expected: "js_includes (expected_codes Windows sample_snapshot) (JNum (Fin 0))"
  by (simp add: expected_codes_def with_success_exit_codes_def with_reboot_exit_codes_def js_includes_def Let_def same_value_zero_def num_eq_def)

lemma sample_begins: "\<exists>s1. begin_job (sample_env\<lparr>priv := q\<rparr>) (sample_payload mode rule) idle_state = (None, s1)"
  by (simp add: begin_job_def sample_payload_def sample_env_def number_of_value_def is_integer_def num_lt_def platform_name_def
      try_start_install_def idle_state_def num_eq_def Let_def)

lemma sample_run:
  assumes "pl = sample_payload ''install'' app_rule"
  shows "\<exists>a s'. run_software_install sample_env pl idle_state =
     (a, [Call (Detect (RegistryUninstall ''App'' None False)), Call (Download JUndef (JStr ''ab'') (JStr ''msi'') [] None),
          Call (VerifySignature ''/s/a.msi'' (JStr ''msi''))] @
          Call (InstallPkg ''/s/a.msi'' (JStr ''msi'') JUndef Install (expected_codes Windows sample_snapshot))
          # [Call (Detect (RegistryUninstall ''App'' None False))], s')
     \<and> ack_outcome a = Success \<and> ack_status a = 0"
proof -
  have pl: "jprop pl ''deploymentId'' = JNum (Fin 7)" "parse_mode (jprop pl ''mode'') = Install" "jprop pl ''packageSnapshot'' = sample_snapshot"
      "jprop pl ''bandwidthLimitKbps'' = JUndef" "normalize_sources (jprop pl ''sources'') = []"
    by (simp_all add: assms sample_payload_def sample_snapshot_def parse_mode_def normalize_sources_def)
  have env: "local_platform sample_env = Some Windows" "sdp_enabled sample_env" "\<not> early_acks sample_env" "text_of sample_env v = ''7''" for v
    by (simp_all add: sample_env_def)
  have start: "\<exists>s1. begin_job sample_env pl idle_state = (None, s1)" unfolding assms using sample_begins [of sample_priv] by (simp add: sample_env_def)
  have ev: "evaluate sample_env Windows (Some (RegistryUninstall ''App'' None False)) es =
      (\<lparr>ev_matched = length es > 2, ev_snapshot = JUndef, ev_skipped = False, ev_skip_reason = None\<rparr>, es @ [Call (Detect (RegistryUninstall ''App'' None False))])" for es
    by (simp add: evaluate_def rule_applies_def sample_defs read_evaluation_def)
  have run: "run_mode sample_env dep pl sample_snapshot Install codes es =
      (Go (JObj [(''ok'', JBool True), (''result'', JObj [(''exitCode'', JNum (Fin 0)), (''durationMs'', JNum (Fin 9))])], None),
       es @ [Call (Download JUndef (JStr ''ab'') (JStr ''msi'') [] None), Call (VerifySignature ''/s/a.msi'' (JStr ''msi'')),
         Call (InstallPkg ''/s/a.msi'' (JStr ''msi'') JUndef Install codes)])" for dep codes es
    by (simp add: run_mode_def sample_phases [OF pl(4)] sample_signature sample_install self_install_ack_def env pl(5))
  have reboot: "decide_reboot Windows (Fin 0) JUndef Install = \<lparr>reboot_required = False, reboot_reason = None, reboot_in_progress = False\<rparr>"
    by (simp add: decide_reboot_def js_includes_def reboot_exit_codes_for_def EXIT_REBOOT_REQUIRED_def EXIT_REBOOT_INITIATED_def
        EXIT_RESTART_REQUIRED_def EXIT_WU_REBOOT_REQUIRED_def same_value_zero_def num_eq_def)
  show ?thesis
    using start sample_expected
    by (auto simp: run_software_install_def pl env pipeline_def ev pre_detect_decision_def run grade_def number_of_value_def nullish_def reboot
        is_finite_def should_skip_post_detect_def post_detect_is_failure_def Let_def)
qed

lemma no_unverified_installer_witness:
  "\<exists>a xs ys m codes s' resp. run_software_install sample_env (sample_payload ''install'' app_rule) idle_state
       = (a, xs @ Call (InstallPkg ''/s/a.msi'' (JStr ''msi'') JUndef m codes) # ys, s')
     \<and> answered sample_env xs (VerifySignature ''/s/a.msi'' (JStr ''msi'')) resp \<and> jprop (jprop resp ''result'') ''trusted'' = JBool True"
proof -
  let ?pl = "sample_payload ''install'' app_rule"
  obtain a s' xs ys codes where run: "run_software_install sample_env ?pl idle_state
      = (a, xs @ Call (InstallPkg ''/s/a.msi'' (JStr ''msi'') JUndef Install codes) # ys, s')"
    using sample_run [OF refl] by blast
  have "truthy (jprop sample_snapshot ''signingRequired'')" "jprop ?pl ''packageSnapshot'' = sample_snapshot"
    by (simp_all add: sample_payload_def sample_snapshot_def)
  with no_unverified_installer [OF run refl] obtain resp where
    "answered sample_env xs (VerifySignature ''/s/a.msi'' (JStr ''msi'')) resp" "jprop (jprop resp ''result'') ''trusted'' = JBool True"
    by auto
  with run show ?thesis by blast
qed

section \<open>What is reported\<close>

fun is_runner :: "deployment_mode \<Rightarrow> priv_call \<Rightarrow> bool" where
  "is_runner mode (InstallPkg path fmt args m codes) \<longleftrightarrow> mode \<noteq> Uninstall \<and> m = mode"
| "is_runner mode (UninstallPkg fmt i args codes) \<longleftrightarrow> mode = Uninstall"
| "is_runner mode c \<longleftrightarrow> False"

lemma run_mode_ran:
  assumes "run_mode e dep payload snapshot mode codes es = (Go (resp, served), es')"
  shows "\<exists>xs c. es' = xs @ [Call c] \<and> is_runner mode c \<and> priv e xs c = Inr resp \<and> truthy (jprop resp ''ok'')"
proof (cases "mode = Uninstall")
  case True
  obtain q es1 where u: "uninstall_phase e dep snapshot codes es = (q, es1)" by fastforce
  then have "q = Go resp" "es' = es1" using assms True by (cases q; auto simp: run_mode_def)+
  with uninstall_effects [OF u] True show ?thesis by fastforce
next
  case False
  obtain q es1 where d: "download_phase e dep payload snapshot es = (q, es1)" by fastforce
  then obtain path served' where q: "q = Go (path, served')" using assms False by (cases q) (auto simp: run_mode_def)
  obtain r es2 where v: "signature_phase e dep snapshot path es1 = (r, es2)" by fastforce
  then obtain w where r: "r = Go w" using assms False d q by (cases r) (auto simp: run_mode_def)
  obtain t es3 where i: "install_phase e dep snapshot mode path codes (es2 @ self_install_ack e dep snapshot served') = (t, es3)" by fastforce
  then have "t = Go resp" "es' = es3" using assms False d q v r by (cases t; auto simp: run_mode_def)+
  with install_effects [OF i] False show ?thesis by fastforce
qed

text \<open>The acknowledgements a phase stops with.\<close>

definition stop_ack :: "string \<Rightarrow> ack \<Rightarrow> bool" where
  "stop_ack dep a \<longleftrightarrow> (\<exists>st r reason. a = plain_ack st r dep reason \<and> (st, r) \<in> {(2, Rejected), (2, Failed), (1, Failed), (1, TimedOut), (2, SignatureInvalid)})"

lemma stop_ackI: "(st, r) \<in> {(2, Rejected), (2, Failed), (1, Failed), (1, TimedOut), (2, SignatureInvalid)} \<Longrightarrow> stop_ack dep (plain_ack st r dep reason)"
  unfolding stop_ack_def by blast

lemma uninstall_stop: "uninstall_phase e dep snapshot codes es = (Stop a, es') \<Longrightarrow> stop_ack dep a"
  by (auto simp: uninstall_phase_def Let_def intro!: stop_ackI split: option.splits sum.splits if_splits)

lemma download_stop: "download_phase e dep payload snapshot es = (Stop a, es') \<Longrightarrow> stop_ack dep a"
  by (auto simp: download_phase_def Let_def intro!: stop_ackI split: sum.splits if_splits)

lemma signature_stop: "signature_phase e dep snapshot path es = (Stop a, es') \<Longrightarrow> stop_ack dep a"
  by (auto simp: signature_phase_def Let_def intro!: stop_ackI split: option.splits sum.splits if_splits)

lemma install_stop: "install_phase e dep snapshot mode path codes es = (Stop a, es') \<Longrightarrow> stop_ack dep a"
  by (auto simp: install_phase_def Let_def intro!: stop_ackI split: sum.splits if_splits)

lemma run_mode_stop:
  assumes "run_mode e dep payload snapshot mode codes es = (Stop a, es')"
  shows "stop_ack dep a"
  using assms unfolding run_mode_def
  by (auto dest: uninstall_stop download_stop signature_stop install_stop split: if_splits phase.splits prod.splits)

text \<open>What the software must look like after the run, as far as the agent can look.\<close>

definition looks_done :: "env \<Rightarrow> deployment_mode \<Rightarrow> effect list \<Rightarrow> detection_rule \<Rightarrow> bool" where
  "looks_done e mode es r \<longleftrightarrow> (case priv e es (Detect r) of
     Inl m \<Rightarrow> True
   | Inr resp \<Rightarrow> truthy (jprop resp ''ok'') \<longrightarrow> (jprop (jprop resp ''result'') ''matched'' = JBool True) = (mode \<noteq> Uninstall))"

lemma looks_done_evaluation:
  "looks_done e mode es r \<longleftrightarrow> (let ev = read_evaluation (text_of e) (priv e es (Detect r)) in ev_skipped ev \<or> \<not> post_detect_is_failure mode (ev_matched ev))"
  by (auto simp: looks_done_def read_evaluation_def skipped_because_def post_detect_is_failure_def Let_def split: sum.split)

lemma evaluate_skips: "\<not> rule_applies r p \<Longrightarrow> evaluate e p (Some r) es = (skipped_because (''rule_type_not_applicable_on_'' @ platform_text p), es)"
  by (simp add: evaluate_def)

lemma evaluate_asks: "rule_applies r p \<Longrightarrow> evaluate e p (Some r) es = (read_evaluation (text_of e) (priv e es (Detect r)), es @ [Call (Detect r)])"
  by (simp add: evaluate_def)

lemma grade_outcome:
  assumes "grade e p dep snapshot mode rule before served codes resp es = (a, es')"
    and "exit = number_of_value (text_of e) (jprop (jprop resp ''result'') ''exitCode'')"
    and "reboot = decide_reboot p exit (jprop snapshot ''requiresReboot'') mode"
  shows "(ack_outcome a = Failed \<and> ack_status a = 2 \<and> ack_exit a = Some exit)
    \<or> (ack_outcome a = (if reboot_required reboot then RebootRequired else Success) \<and> ack_status a = 0 \<and> ack_exit a = Some exit
       \<and> is_finite exit \<and> js_includes codes (JNum exit)
       \<and> (case rule of
            None \<Rightarrow> es' = es
          | Some r \<Rightarrow> if reboot_in_progress reboot \<or> \<not> rule_applies r p then es' = es
                      else es' = es @ [Call (Detect r)] \<and> looks_done e mode es r))"
proof (cases "is_finite exit \<and> js_includes codes (JNum exit)")
  case False
  then show ?thesis using assms(1) unfolding grade_def Let_def assms(2) [symmetric] by auto
next
  case expected: True
  show ?thesis
  proof (cases "rule = None \<or> reboot_in_progress reboot")
    case True
    then show ?thesis using assms(1) expected unfolding grade_def Let_def should_skip_post_detect_def assms(2) [symmetric] assms(3) [symmetric]
      by (auto split: option.split)
  next
    case False
    then obtain r where r: "rule = Some r" "\<not> reboot_in_progress reboot" by auto
    show ?thesis
    proof (cases "rule_applies r p")
      case True
      note ev = evaluate_asks [OF True, of e es]
      from assms(1) expected r show ?thesis
        unfolding grade_def Let_def should_skip_post_detect_def assms(2) [symmetric] assms(3) [symmetric] r ev
        by (auto simp: looks_done_evaluation True split: if_splits)
    next
      case no: False
      note ev = evaluate_skips [OF no, of e es]
      from assms(1) expected r show ?thesis
        unfolding grade_def Let_def should_skip_post_detect_def assms(2) [symmetric] assms(3) [symmetric] r ev
        by (auto simp: skipped_because_def no)
    qed
  qed
qed

lemma begin_job_refusal:
  assumes "begin_job e payload s = (Some a, s')"
  shows "s' = s \<and> (\<exists>st r dep reason. a = plain_ack st r dep reason \<and> (st, r) \<in> {(2, Failed), (2, Rejected), (1, Failed)})"
  using assms by (auto simp: begin_job_def try_start_install_def Let_def split: if_splits)



text \<open>What needed no work was looked at. When a job is acknowledged as already done, nothing was run or downloaded: the one call was the detection
  rule of the package, it applies to this system, the service answered it, and the answer is what the mode wants: found for an installation,
  not found for an uninstallation. A reinstallation never ends so.\<close>

theorem already_done_was_seen:
  assumes "run_software_install e payload s = (a, es, s')" and "ack_outcome a = AlreadyInstalled"
    and "mode = parse_mode (jprop payload ''mode'')"
  shows "\<exists>p r resp. local_platform e = Some p \<and> normalize_rule (text_of e) (jprop (jprop payload ''packageSnapshot'') ''detectionRule'') = Some r
    \<and> rule_applies r p \<and> es = [Call (Detect r)] \<and> priv e [] (Detect r) = Inr resp \<and> truthy (jprop resp ''ok'')
    \<and> (jprop (jprop resp ''result'') ''matched'' = JBool True) = (mode = Install) \<and> mode \<noteq> Reinstall"
  using assms(1)
proof (cases rule: run_software_install_cases)
  case refused
  then show ?thesis using begin_job_refusal [OF refused(1)] assms(2) by (auto simp: plain_ack_def)
next
  case (ran s1 p)
  let ?snap = "jprop payload ''packageSnapshot''"
  obtain before es0 where pd: "pre_detection e p ?snap = (before, es0)" by fastforce
  from ran(3) [folded assms(3)] pd show ?thesis
  proof (cases rule: pipeline_cases)
    case (stopped ev r reason)
    then have "r = AlreadyInstalled" using assms(2) by simp
    with stopped(2) have m: "mode = Install \<and> ev_matched ev \<or> mode = Uninstall \<and> \<not> ev_skipped ev \<and> \<not> ev_matched ev"
      by (auto simp: pre_detect_decision_def split: deployment_mode.splits if_splits)
    obtain ru where ru: "normalize_rule (text_of e) (jprop ?snap ''detectionRule'') = Some ru" "evaluate e p (Some ru) [] = (ev, es0)"
      using pd stopped(1) by (auto simp: pre_detection_def Let_def split: if_splits prod.splits)
    have app: "rule_applies ru p"
      using m ru(2) by (rule_tac ccontr) (auto simp: evaluate_skips skipped_because_def)
    then have ev: "ev = read_evaluation (text_of e) (priv e [] (Detect ru))" "es0 = [Call (Detect ru)]" using ru(2) by (simp_all add: evaluate_asks)
    obtain resp where resp: "priv e [] (Detect ru) = Inr resp" "truthy (jprop resp ''ok'')" "ev_matched ev = (jprop (jprop resp ''result'') ''matched'' = JBool True)"
      using m unfolding ev(1) read_evaluation_def skipped_because_def
      by (cases "priv e [] (Detect ru)") (auto simp: Let_def split: if_splits)
    have fin: "(jprop (jprop resp ''result'') ''matched'' = JBool True) = (mode = Install) \<and> mode \<noteq> Reinstall" using m unfolding resp(3) by auto
    show ?thesis unfolding stopped(4) ev(2) using ran(2) ru(1) app resp(1,2) fin by blast
  next
    case halted
    then show ?thesis using run_mode_stop [OF halted] assms(2) by (auto simp: stop_ack_def plain_ack_def)
  next
    case (raised m)
    then show ?thesis using assms(2) by (simp add: plain_ack_def)
  next
    case (graded resp served es1)
    have "ack_outcome a = Failed \<or> ack_outcome a = Success \<or> ack_outcome a = RebootRequired"
      using grade_outcome [OF graded(2) refl refl] by (auto split: if_splits)
    with assms(2) show ?thesis by auto
  qed
qed

lemma already_done_was_seen_witness:
  "\<exists>e a es s' r. run_software_install e (sample_payload ''uninstall'' app_rule) idle_state = (a, es, s') \<and> ack_outcome a = AlreadyInstalled \<and> es = [Call (Detect r)]"
proof -
  let ?pl = "sample_payload ''uninstall'' app_rule"
  have pl: "jprop ?pl ''deploymentId'' = JNum (Fin 7)" "parse_mode (jprop ?pl ''mode'') = Uninstall" "jprop ?pl ''packageSnapshot'' = sample_snapshot"
    by (simp_all add: sample_payload_def sample_snapshot_def parse_mode_def)
  have env: "local_platform sample_env = Some Windows" "sdp_enabled sample_env" "text_of sample_env v = ''7''" for v
    by (simp_all add: sample_env_def)
  have start: "\<exists>s1. begin_job sample_env ?pl idle_state = (None, s1)" using sample_begins [of sample_priv] by (simp add: sample_env_def)
  have ev: "evaluate sample_env Windows (Some (RegistryUninstall ''App'' None False)) [] =
      (\<lparr>ev_matched = False, ev_snapshot = JUndef, ev_skipped = False, ev_skip_reason = None\<rparr>, [Call (Detect (RegistryUninstall ''App'' None False))])"
    by (simp add: evaluate_def rule_applies_def sample_defs read_evaluation_def)
  have "\<exists>a es s'. run_software_install sample_env ?pl idle_state = (a, es, s') \<and> ack_outcome a = AlreadyInstalled"
    using start by (auto simp: run_software_install_def pl env pipeline_def ev pre_detect_decision_def Let_def)
  then obtain a es s' where run: "run_software_install sample_env ?pl idle_state = (a, es, s')" "ack_outcome a = AlreadyInstalled" by blast
  from already_done_was_seen [OF run refl] run show ?thesis by blast
qed

section \<open>Acknowledgements\<close>

text \<open>An acknowledgement does not contradict itself: its status is one of three, 0 exactly when the job is done (or needed nothing, or only a restart is
  missing), 1 (asking for another attempt) only for a failure or a timeout, never for a refusal or a bad signature, and a timeout always asks
  for another attempt. The lock is free again whenever it was free before.\<close>

theorem ack_status_means:
  "case run_software_install e payload s of (a, es, s') \<Rightarrow>
     (ack_outcome a, ack_status a) \<in> {(Success, 0), (AlreadyInstalled, 0), (RebootRequired, 0), (Failed, 1), (Failed, 2), (TimedOut, 1), (Rejected, 2),
       (SignatureInvalid, 2)}
     \<and> install_in_progress s' = install_in_progress s"
proof -
  obtain a es s' where run: "run_software_install e payload s = (a, es, s')" by (metis prod_cases3)
  let ?ok = "\<lambda>a. (ack_outcome a, ack_status a) \<in> {(Success, 0), (AlreadyInstalled, 0), (RebootRequired, 0), (Failed, 1), (Failed, 2), (TimedOut, 1), (Rejected, 2),
       (SignatureInvalid, 2)}"
  from run have "?ok a \<and> install_in_progress s' = install_in_progress s"
  proof (cases rule: run_software_install_cases)
    case refused
    from begin_job_refusal [OF refused(1)] obtain st r dep reason where "s' = s" "a = plain_ack st r dep reason"
      and r: "(st, r) \<in> {(2, Failed), (2, Rejected), (1, Failed)}" by blast
    moreover from this have "ack_outcome a = r" "ack_status a = st" by (simp_all add: plain_ack_def)
    ultimately show ?thesis using r by auto
  next
    case (ran s1 p)
    have "\<not> install_in_progress s \<and> \<not> install_in_progress s'"
      using ran(1,4) by (auto simp: begin_job_def try_start_install_def finish_install_def Let_def split: if_splits)
    moreover obtain before es0 where pd: "pre_detection e p (jprop payload ''packageSnapshot'') = (before, es0)" by fastforce
    from ran(3) pd have "?ok a"
    proof (cases rule: pipeline_cases)
      case (stopped ev r reason)
      then have "r \<in> {Failed, Rejected, AlreadyInstalled}"
        by (auto simp: pre_detect_decision_def split: deployment_mode.splits if_splits)
      then show ?thesis unfolding stopped(3) by auto
    next
      case halted
      from run_mode_stop [OF halted] obtain st r dep reason where "a = plain_ack st r dep reason"
        and r: "(st, r) \<in> {(2, Rejected), (2, Failed), (1, Failed), (1, TimedOut), (2, SignatureInvalid)}" unfolding stop_ack_def by blast
      then have "ack_outcome a = r" "ack_status a = st" by (simp_all add: plain_ack_def)
      then show ?thesis using r by auto
    next
      case (raised m)
      then show ?thesis by (simp add: plain_ack_def)
    next
      case (graded resp served es1)
      from grade_outcome [OF graded(2) refl refl] show ?thesis
        by (elim disjE conjE) (simp_all split: if_split)
    qed
    ultimately show ?thesis by simp
  qed
  then show ?thesis unfolding run by simp
qed

text \<open>The fields a message consists of.\<close>

definition framed :: "env \<Rightarrow> ack \<Rightarrow> bool" where
  "framed e a \<longleftrightarrow> (\<exists>n extras forensics. ack_message a = encode_ack_message (ack_outcome a) (text_of e (JNum n)) extras forensics
     \<and> fst ` set extras \<subseteq> {''exit'', ''duration'', ''reason'', ''src''} \<and> distinct (map fst extras)
     \<and> (\<exists>before after. forensics = Sdp_Install.forensics e before after))"

lemma framedI:
  "ack_message a = encode_ack_message (ack_outcome a) (text_of e (JNum n)) extras (forensics e before after)
     \<Longrightarrow> fst ` set extras \<subseteq> {''exit'', ''duration'', ''reason'', ''src''} \<Longrightarrow> distinct (map fst extras) \<Longrightarrow> framed e a"
  unfolding framed_def by blast

lemma no_forensics [simp]: "forensics e None None = []"
  by (simp add: forensics_def)

lemma framed_plain: "framed e (plain_ack st r (text_of e (JNum n)) reason)"
  by (rule framedI [of _ _ n "[(''reason'', Some reason)]" None None]) (simp_all add: plain_ack_def)

lemma framed_grade:
  assumes "grade e p (text_of e (JNum n)) snapshot mode rule before served codes resp es = (a, es')"
  shows "framed e a"
proof -
  let ?exit = "number_of_value (text_of e) (jprop (jprop resp ''result'') ''exitCode'')"
  obtain ex du re sr post m where a: "ack_message a = encode_ack_message (ack_outcome a) (text_of e (JNum n))
       [(''exit'', ex), (''duration'', du), (''reason'', re), (''src'', sr)] (forensics e m post)
     \<or> ack_message a = encode_ack_message (ack_outcome a) (text_of e (JNum n))
       [(''exit'', ex), (''duration'', du), (''src'', sr), (''reason'', re)] (forensics e m post)"
    using assms unfolding grade_def Let_def
    by (cases "is_finite ?exit \<and> js_includes codes (JNum ?exit)"; cases "rule = None \<or> should_skip_post_detect (decide_reboot p ?exit (jprop snapshot ''requiresReboot'') mode)")
      (force simp: no_forensics [of e, symmetric] simp del: no_forensics split: if_splits prod.splits)+
  then show ?thesis by (elim disjE) (rule framedI, assumption, simp, simp)+
qed

lemma framed_run:
  assumes "run_software_install e payload s = (a, es, s')"
  shows "framed e a"
  using assms
proof (cases rule: run_software_install_cases)
  case refused
  then obtain n reason st r where "a = plain_ack st r (text_of e (JNum n)) reason"
    by (auto simp: begin_job_def try_start_install_def Let_def split: if_splits)
  then show ?thesis by (simp add: framed_plain)
next
  case (ran s1 p)
  let ?n = "number_of_value (text_of e) (jprop payload ''deploymentId'')"
  obtain before es0 where pd: "pre_detection e p (jprop payload ''packageSnapshot'') = (before, es0)" by fastforce
  from ran(3) pd show ?thesis
  proof (cases rule: pipeline_cases)
    case (stopped ev r reason)
    then show ?thesis by (intro framedI [of _ _ ?n "[(''reason'', Some reason)]" before None]) simp_all
  next
    case halted
    then show ?thesis using run_mode_stop [OF halted] framed_plain unfolding stop_ack_def by auto
  next
    case (raised m)
    then show ?thesis using framed_plain by simp
  next
    case (graded resp served es1)
    then show ?thesis using framed_grade by blast
  qed
qed

lemma clean_extra_no_sep: "CHR '';'' \<notin> set (clean_extra v)"
  by (auto simp: clean_extra_def dest!: in_set_takeD split: if_splits)

lemma outcome_text_no_sep: "CHR '';'' \<notin> set (outcome_text r)"
  by (cases r) (simp_all add: outcome_text_def)

lemma map_filter_fields:
  "List.map_filter (\<lambda>(k, v). map_option (\<lambda>x. k @ ''='' @ clean_extra x) v) extras
     = map (\<lambda>(k, v). k @ ''='' @ v) (List.map_filter (\<lambda>(k, v). map_option (\<lambda>x. (k, clean_extra x)) v) extras)"
  by (induction extras) (auto simp: List.map_filter_simps split: option.split)

lemma forensics_keys:
  "fst ` set (forensics e before after) \<subseteq> {''detectBefore'', ''detectAfter''} \<and> distinct (map fst (forensics e before after))"
  by (auto simp: forensics_def Let_def split: option.splits)

lemma forensics_values:
  assumes "(k, v) \<in> set (forensics e before after)"
  obtains w where "b64 e w = Some v"
  using assms by (auto simp: forensics_def Let_def encode_forensics_b64_def split: option.splits if_splits)

lemma fields_no_sep:
  assumes "w \<in> set (map (\<lambda>(k, v). k @ ''='' @ v) kvs)" and "\<And>k v. (k, v) \<in> set kvs \<Longrightarrow> CHR '';'' \<notin> set k \<and> CHR '';'' \<notin> set v"
  shows "CHR '';'' \<notin> set w"
  using assms by auto

text \<open>C18. No value forges a field of an acknowledgement. When the message is split at its separators, it is the outcome, the deployment and named fields, each
  name from a fixed set and at most once, whatever text the service, the installer or the payload put into an error, a reason or a source: nothing in a
  value can add a field or end one early. (Printed numbers and base64url have no semicolon.)\<close>

theorem no_field_is_forged:
  assumes "run_software_install e payload s = (a, es, s')"
    and "\<And>n. CHR '';'' \<notin> set (text_of e (JNum n))" and "\<And>v w. b64 e v = Some w \<Longrightarrow> CHR '';'' \<notin> set w"
  shows "\<exists>n kvs. split_on (CHR '';'') (ack_message a)
      = (''software_install:'' @ outcome_text (ack_outcome a)) # (''deploymentId='' @ text_of e (JNum n)) # map (\<lambda>(k, v). k @ ''='' @ v) kvs
    \<and> set (map fst kvs) \<subseteq> {''exit'', ''duration'', ''reason'', ''src'', ''detectBefore'', ''detectAfter''} \<and> distinct (map fst kvs)"
proof -
  obtain n extras before after where m: "ack_message a = encode_ack_message (ack_outcome a) (text_of e (JNum n)) extras (forensics e before after)"
    and k: "fst ` set extras \<subseteq> {''exit'', ''duration'', ''reason'', ''src''}" "distinct (map fst extras)"
    using framed_run [OF assms(1)] unfolding framed_def by blast
  let ?xs = "List.map_filter (\<lambda>(k, v). map_option (\<lambda>x. (k, clean_extra x)) v) extras"
  let ?kvs = "?xs @ forensics e before after"
  let ?parts = "(''software_install:'' @ outcome_text (ack_outcome a)) # (''deploymentId='' @ text_of e (JNum n)) # map (\<lambda>(k, v). k @ ''='' @ v) ?kvs"
  have sub: "fst ` set ?xs \<subseteq> fst ` set extras"
    by (induction extras) (auto simp: List.map_filter_simps split: option.splits)
  have dis: "distinct (map fst ?xs)"
    using k(2)
  proof (induction extras)
    case (Cons x extras)
    have "fst ` set (List.map_filter (\<lambda>(k, v). map_option (\<lambda>x. (k, clean_extra x)) v) extras) \<subseteq> fst ` set extras"
      by (induction extras) (auto simp: List.map_filter_simps split: option.splits)
    moreover obtain k v where "x = (k, v)" by fastforce
    ultimately show ?case using Cons by (cases v) (auto simp: List.map_filter_simps subset_iff)
  qed (simp add: List.map_filter_simps)
  have keys: "set (map fst ?kvs) \<subseteq> {''exit'', ''duration'', ''reason'', ''src'', ''detectBefore'', ''detectAfter''}"
    using sub k(1) forensics_keys [of e before after] by auto
  have "fst ` set ?xs \<inter> fst ` set (forensics e before after) = {}"
    using sub k(1) forensics_keys [of e before after] by (auto 4 3)
  then have "distinct (map fst ?kvs)" using dis forensics_keys [of e before after] by simp
  have parts: "CHR '';'' \<notin> set w" if "w \<in> set ?parts" for w
  proof -
    have "CHR '';'' \<notin> set v" if "(k, v) \<in> set ?kvs" for k v
    proof (cases "(k, v) \<in> set ?xs")
      case True
      then show ?thesis using clean_extra_no_sep by (induction extras) (auto simp: List.map_filter_simps split: option.splits)
    next
      case False
      with that have "(k, v) \<in> set (forensics e before after)" by simp
      then show ?thesis using assms(3) by (elim forensics_values)
    qed
    moreover have "CHR '';'' \<notin> set k" if "(k, v) \<in> set ?kvs" for k v
    proof -
      from that have "k \<in> set (map fst ?kvs)" unfolding set_map by (rule image_eqI [rotated]) simp
      with keys have "k \<in> {''exit'', ''duration'', ''reason'', ''src'', ''detectBefore'', ''detectAfter''}" by (rule subsetD)
      then show ?thesis by auto
    qed
    ultimately have kv: "CHR '';'' \<notin> set k \<and> CHR '';'' \<notin> set v" if "(k, v) \<in> set ?kvs" for k v using that by blast
    have "w = ''software_install:'' @ outcome_text (ack_outcome a) \<or> w = ''deploymentId='' @ text_of e (JNum n) \<or> w \<in> set (map (\<lambda>(k, v). k @ ''='' @ v) ?kvs)"
      using that unfolding list.set by blast
    then show ?thesis
    proof (elim disjE)
      assume "w \<in> set (map (\<lambda>(k, v). k @ ''='' @ v) ?kvs)"
      then show ?thesis by (rule fields_no_sep) (rule kv)
    qed (use outcome_text_no_sep assms(2) in simp_all)
  qed
  have "ack_message a = join_with [CHR '';''] ?parts"
    unfolding m encode_ack_message_def map_filter_fields by simp
  moreover have "split_on (CHR '';'') (join_with [CHR '';''] ?parts) = ?parts" by (rule split_join) (simp, rule ballI, rule parts)
  ultimately have "split_on (CHR '';'') (ack_message a) = ?parts" by (simp only:)
  with \<open>distinct (map fst ?kvs)\<close> keys show ?thesis by blast
qed

lemma no_field_is_forged_witness:
  "\<exists>(a :: ack) n kvs. split_on (CHR '';'') (ack_message a) = (''software_install:'' @ outcome_text (ack_outcome a)) # (''deploymentId='' @ text_of sample_env (JNum n))
       # map (\<lambda>(k, v). k @ ''='' @ v) kvs \<and> ack_outcome a = Success"
proof -
  obtain a es s' where run: "run_software_install sample_env (sample_payload ''install'' app_rule) idle_state = (a, es, s')" and a: "ack_outcome a = Success"
    using sample_run [OF refl] by blast
  have "\<exists>n kvs. split_on (CHR '';'') (ack_message a)
      = (''software_install:'' @ outcome_text (ack_outcome a)) # (''deploymentId='' @ text_of sample_env (JNum n)) # map (\<lambda>(k, v). k @ ''='' @ v) kvs
    \<and> set (map fst kvs) \<subseteq> {''exit'', ''duration'', ''reason'', ''src'', ''detectBefore'', ''detectAfter''} \<and> distinct (map fst kvs)"
    by (rule no_field_is_forged [OF run]) (simp_all add: sample_env_def)
  with a show ?thesis by blast
qed

end
