(* ===== verification/Sdp_Jobs.thy ===== *)
theory Sdp_Jobs
  imports Sdp_Install
begin

text \<open>
  Software jobs that arrive while others run, and what an uninstallation can know (\<open>plugins/sdp/index.ts\<close>, \<open>state.ts\<close>). A job is between
  \<open>tryStartInstall\<close> and the \<open>finally\<close> of \<open>runSoftwareInstall\<close> while it waits for the privileged service; other jobs arrive meanwhile.
\<close>

section \<open>Jobs side by side\<close>

datatype job_event =
    Arrive env jsval
  | Leave nat install_outcome "jsnum option"

fun without :: "nat \<Rightarrow> 'a list \<Rightarrow> 'a list" where
  "without n [] = []"
| "without 0 (x # xs) = xs"
| "without (Suc n) (x # xs) = x # without n xs"

text \<open>The lock and the payloads of the jobs inside the \<open>try\<close>; \<open>Leave i\<close> is the \<open>finally\<close> of the \<open>i\<close>-th of them, whatever its outcome.\<close>

fun job_step :: "sdp_state \<times> jsval list \<Rightarrow> job_event \<Rightarrow> sdp_state \<times> jsval list" where
  "job_step (s, running) (Arrive e payload) =
     (case begin_job e payload s of (Some a, s') \<Rightarrow> (s', running) | (None, s') \<Rightarrow> (s', running @ [payload]))"
| "job_step (s, running) (Leave i r exit) =
     (if i < length running then (finish_install r exit s, without i running) else (s, running))"

definition one_job :: "sdp_state \<times> jsval list \<Rightarrow> bool" where
  "one_job x \<longleftrightarrow> install_in_progress (fst x) = (snd x \<noteq> []) \<and> length (snd x) \<le> 1"

lemma begin_job_starts: "begin_job e payload s = (None, s') \<Longrightarrow> \<not> install_in_progress s \<and> install_in_progress s'"
  by (auto simp: begin_job_def try_start_install_def Let_def split: if_splits)

interpretation jobs: inv_machine job_step one_job
proof
  show "one_job (job_step x ev)" if "one_job x" for x ev
  proof -
    obtain s running where x: "x = (s, running)" by fastforce
    show ?thesis
    proof (cases ev)
      case (Arrive e payload)
      obtain o1 s' where b: "begin_job e payload s = (o1, s')" by fastforce
      show ?thesis
      proof (cases o1)
        case None
        then show ?thesis using that begin_job_starts [of e payload s s'] b by (simp add: one_job_def Arrive x)
      next
        case (Some a)
        then show ?thesis using that begin_job_refusal [of e payload s a s'] b by (simp add: one_job_def Arrive x)
      qed
    next
      case (Leave i r exit)
      then show ?thesis using that
        by (cases running) (auto simp: one_job_def x finish_install_def less_Suc_eq_le)
    qed
  qed
qed

text \<open>C17. One installer at a time. However jobs arrive and end, in whatever order and with whatever outcome, at most one is between its start and its
  end, the lock is taken exactly while one is, and a job that could start is turned away, with a request to try again, exactly when
  another one is running.\<close>

theorem one_installer_at_a_time:
  "let (s, running) = foldl job_step (idle_state, []) evs; (o1, s1) = begin_job e payload s; (o2, s2) = begin_job e payload idle_state in
     length running \<le> 1 \<and> install_in_progress s = (running \<noteq> [])
     \<and> (o1 = None) = (o2 = None \<and> running = [])
     \<and> (if o2 = None \<and> running \<noteq> []
        then o1 = Some (plain_ack 1 Failed (text_of e (JNum (number_of_value (text_of e) (jprop payload ''deploymentId'')))) ''another_install_in_progress'')
        else o1 = o2)"
proof -
  obtain s running where x: "foldl job_step (idle_state, []) evs = (s, running)" by fastforce
  have "one_job (idle_state, [])" by (simp add: one_job_def idle_state_def)
  from jobs.run_inv [OF this, of evs] have i: "install_in_progress s = (running \<noteq> [])" "length running \<le> 1" by (simp_all add: x one_job_def)
  then show ?thesis unfolding x
    by (cases "running = []") (auto simp: begin_job_def try_start_install_def idle_state_def Let_def)
qed

section \<open>An uninstallation that nobody checks\<close>

text \<open>\<open>uninstallIdentity\<close> takes a product code alone, \<open>normalizeRule\<close> does not: then there is neither a pre- nor a post-detection.\<close>

lemma product_code_rule:
  assumes "jprop r ''type'' = JStr ''registry_uninstall''" and "trimmed r ''productCode'' = Some code"
    and "jprop r ''displayNameLike'' = JUndef" and "jprop r ''scope'' \<noteq> JStr ''user''"
  shows "normalize_rule t r = None" and "identity_for_uninstall r = Some (no_identity\<lparr>product_code := Some code\<rparr>)"
  using assms by (simp_all add: normalize_rule_def identity_for_uninstall_def trimmed_def no_identity_def Let_def string_of_def)

text \<open>An uninstallation by product code is believed blindly. For a registry rule that names only a product code, the job makes one call, the
  uninstallation, and reports success for every expected exit code, without ever looking whether the software was there before or is there
  after: the check that an uninstaller which exits with 0 has done its work does not happen for the rules that name the product best.\<close>

theorem product_code_uninstall_unchecked:
  assumes "begin_job e payload s = (None, s1)" and "snapshot = jprop payload ''packageSnapshot''" and "rule = jprop snapshot ''detectionRule''"
    and "parse_mode (jprop payload ''mode'') = Uninstall"
    and "jprop rule ''type'' = JStr ''registry_uninstall''" and "trimmed rule ''productCode'' = Some code"
    and "jprop rule ''displayNameLike'' = JUndef" and "jprop rule ''scope'' \<noteq> JStr ''user''"
    and "call = UninstallPkg (jprop snapshot ''format'') (no_identity\<lparr>product_code := Some code\<rparr>) (args_for_mode Uninstall snapshot) (expected_codes Windows snapshot)"
    and "local_platform e = Some Windows" and "priv e [] call = ok_reply [(''exitCode'', JNum (Fin 0))]"
    and "js_includes (expected_codes Windows snapshot) (JNum (Fin 0))"
  shows "\<exists>a s'. run_software_install e payload s = (a, [Call call], s') \<and> ack_outcome a = Success \<and> ack_status a = 0"
proof -
  note r = product_code_rule [OF assms(5-8)]
  let ?resp = "JObj [(''ok'', JBool True), (''result'', JObj [(''exitCode'', JNum (Fin 0))])]"
  let ?dep = "text_of e (JNum (number_of_value (text_of e) (jprop payload ''deploymentId'')))"
  have "uninstall_phase e ?dep snapshot (expected_codes Windows snapshot) [] = (Go ?resp, [Call call])"
    unfolding uninstall_phase_def assms(3) [symmetric] r Let_def option.case assms(9) [symmetric] assms(11) ok_reply_def by simp
  then have run: "run_mode e ?dep payload snapshot Uninstall (expected_codes Windows snapshot) [] = (Go (?resp, None), [Call call])"
    by (simp add: run_mode_def)
  have reboot: "decide_reboot Windows (Fin 0) x Uninstall = \<lparr>reboot_required = False, reboot_reason = None, reboot_in_progress = False\<rparr>" for x
    by (simp add: decide_reboot_def js_includes_def reboot_exit_codes_for_def EXIT_REBOOT_REQUIRED_def EXIT_REBOOT_INITIATED_def
        EXIT_RESTART_REQUIRED_def EXIT_WU_REBOOT_REQUIRED_def same_value_zero_def num_eq_def)
  have "\<exists>a. grade e Windows ?dep snapshot Uninstall None None None (expected_codes Windows snapshot) ?resp [Call call] = (a, [Call call])
      \<and> ack_outcome a = Success \<and> ack_status a = 0"
    by (simp add: grade_def number_of_value_def is_finite_def assms(12) reboot Let_def)
  then obtain a where g: "grade e Windows ?dep snapshot Uninstall None None None (expected_codes Windows snapshot) ?resp [Call call] = (a, [Call call])"
      "ack_outcome a = Success \<and> ack_status a = 0" by blast
  have "pipeline e Windows ?dep payload snapshot Uninstall = (a, [Call call])"
    unfolding pipeline_def assms(3) [symmetric] r(1) by (simp add: run g(1))
  then show ?thesis using g(2) assms(1,10)
    unfolding run_software_install_def assms(2) [symmetric] assms(4) by simp
qed

definition code_rule :: jsval where
  "code_rule = JObj [(''type'', JStr ''registry_uninstall''), (''productCode'', JStr ''{1}'')]"

lemma product_code_uninstall_unchecked_witness:
  "\<exists>a c s'. run_software_install (sample_env\<lparr>priv := \<lambda>es c. ok_reply [(''exitCode'', JNum (Fin 0))]\<rparr>) (sample_payload ''uninstall'' code_rule) idle_state
     = (a, [Call c], s') \<and> ack_outcome a = Success"
proof -
  let ?e = "sample_env\<lparr>priv := \<lambda>es c. ok_reply [(''exitCode'', JNum (Fin 0))]\<rparr>" and ?pl = "sample_payload ''uninstall'' code_rule"
  obtain s1 where start: "begin_job ?e ?pl idle_state = (None, s1)"
    using sample_begins [of _ "''uninstall''" code_rule] by blast
  have p: "parse_mode (jprop ?pl ''mode'') = Uninstall" "jprop (jprop ?pl ''packageSnapshot'') ''detectionRule'' = code_rule"
    by (simp_all add: sample_payload_def parse_mode_def)
  have x: "js_includes (expected_codes Windows (jprop ?pl ''packageSnapshot'')) (JNum (Fin 0))"
    by (simp add: sample_payload_def expected_codes_def with_success_exit_codes_def with_reboot_exit_codes_def js_includes_def Let_def
        same_value_zero_def num_eq_def)
  have r: "jprop code_rule ''type'' = JStr ''registry_uninstall''" "trimmed code_rule ''productCode'' = Some ''{1}''"
      "jprop code_rule ''displayNameLike'' = JUndef" "jprop code_rule ''scope'' \<noteq> JStr ''user''"
    by (simp_all add: code_rule_def trimmed_def trim_def is_space_def char_code_def)
  from product_code_uninstall_unchecked [OF start refl p(2) [symmetric] p(1) r refl _ _ x] show ?thesis
    by (fastforce simp: sample_env_def)
qed

end
