(* ===== verification/Pmp_State.thy ===== *)
theory Pmp_State
  imports Jsval
begin

text \<open>
  What a patch installation keeps and decides (\<open>plugins/pmp/state.ts\<close>, \<open>patch-selection.ts\<close>, \<open>reboot.ts\<close>): the saved state with its
  merge rules, the reconciliation at start, the replies to a job that is dispatched again, which patches a job selects, and when the machine
  restarts. The state file is replaced by a rename, so it is the record itself; clock stamps are left out.
\<close>

section \<open>The saved state\<close>

datatype pmp_status = Idle | InProgress | Success | Partial | Failed

text \<open>One entry of \<open>results\<close>, as \<open>normalizePmpResults\<close> leaves it; \<open>None\<close> is undefined.\<close>

record pmp_result =
  update_id :: "string option"
  kb :: "string option"
  title :: "string option"
  result_kind :: string
  hresult :: "string option"
  message :: "string option"

record pmp_state =
  status :: "pmp_status option"
  mode :: "string option"
  reboot_required :: "bool option"
  installed_count :: "jsnum option"
  failed_count :: "jsnum option"
  selected_count :: "jsnum option"
  last_error :: "string option"
  results :: "pmp_result list option"
  job_id :: "string option"
  success_ack :: "(string \<times> string) option"

definition empty_state :: pmp_state where
  "empty_state = \<lparr>status = None, mode = None, reboot_required = None, installed_count = None, failed_count = None, selected_count = None,
     last_error = None, results = None, job_id = None, success_ack = None\<rparr>"

text \<open>A patch is the list of the keys it has. A number that is not finite is saved as null.\<close>

datatype change =
    Status pmp_status
  | Mode string
  | RebootRequired bool
  | InstalledCount jsnum
  | FailedCount jsnum
  | SelectedCount "jsnum option"
  | LastError "string option"
  | Results "pmp_result list"
  | JobId "string option"
  | SuccessAck string string

definition json_num :: "jsnum \<Rightarrow> jsnum option" where
  "json_num n = (if is_finite n then Some n else None)"

fun apply_change :: "pmp_state \<Rightarrow> change \<Rightarrow> pmp_state" where
  "apply_change s (Status x) = s\<lparr>status := Some x\<rparr>"
| "apply_change s (Mode x) = s\<lparr>mode := Some x\<rparr>"
| "apply_change s (RebootRequired x) = s\<lparr>reboot_required := Some x\<rparr>"
| "apply_change s (InstalledCount x) = s\<lparr>installed_count := json_num x\<rparr>"
| "apply_change s (FailedCount x) = s\<lparr>failed_count := json_num x\<rparr>"
| "apply_change s (SelectedCount x) = s\<lparr>selected_count := (case x of None \<Rightarrow> None | Some n \<Rightarrow> json_num n)\<rparr>"
| "apply_change s (LastError x) = s\<lparr>last_error := x\<rparr>"
| "apply_change s (Results x) = s\<lparr>results := Some x\<rparr>"
| "apply_change s (JobId x) = s\<lparr>job_id := x\<rparr>"
| "apply_change s (SuccessAck j m) = s\<lparr>success_ack := Some (j, m)\<rparr>"

definition sets_error :: "change \<Rightarrow> bool" where
  "sets_error c \<longleftrightarrow> (case c of LastError (Some m) \<Rightarrow> m \<noteq> [] | _ \<Rightarrow> False)"

definition update_pmp_state :: "change list \<Rightarrow> pmp_state \<Rightarrow> pmp_state" where
  "update_pmp_state patch current =
     (let next1 = foldl apply_change current patch;
          next2 = (if Status InProgress \<in> set patch then next1\<lparr>last_error := None\<rparr> else next1)
      in if list_ex sets_error patch then next2\<lparr>status := Some Failed\<rparr> else next2)"

definition AGENT_RESTARTED_ERROR :: string where
  "AGENT_RESTARTED_ERROR = ''agent_restarted''"

definition reconcile_stale_pmp_state :: "pmp_state \<Rightarrow> pmp_state" where
  "reconcile_stale_pmp_state current =
     (if status current \<noteq> Some InProgress then current
      else update_pmp_state [Status Failed, LastError (Some AGENT_RESTARTED_ERROR)] current)"

section \<open>A job that comes again\<close>

definition INTERRUPTED_BY_RESTART_MESSAGE :: string where
  "INTERRUPTED_BY_RESTART_MESSAGE = ''patch_install interrupted: agent_restarted during the install; the outcome is unknown until the next scan''"

text \<open>The reply, if there is one, and the patch that is saved with it.\<close>

definition replay_for_redispatch :: "string \<Rightarrow> pmp_state \<Rightarrow> ((nat \<times> string) \<times> change list) option" where
  "replay_for_redispatch job s =
     (if job = [] then None
      else case success_ack s of
        Some (j, m) \<Rightarrow>
          if j = job then Some ((0, m), [])
          else if job_id s = Some job \<and> last_error s = Some AGENT_RESTARTED_ERROR then Some ((2, INTERRUPTED_BY_RESTART_MESSAGE), [JobId None])
          else None
      | None \<Rightarrow>
          if job_id s = Some job \<and> last_error s = Some AGENT_RESTARTED_ERROR then Some ((2, INTERRUPTED_BY_RESTART_MESSAGE), [JobId None])
          else None)"

definition remember_success_ack :: "string \<Rightarrow> string \<Rightarrow> change list" where
  "remember_success_ack job m = (if job = [] then [] else [SuccessAck job m])"

section \<open>Which patches\<close>

definition selected_patch_ids :: "(jsval \<Rightarrow> string) \<Rightarrow> jsval \<Rightarrow> string list option" where
  "selected_patch_ids text_of payload = (case jprop payload ''kbArticleIds'' of
     JArr xs \<Rightarrow> (let ids = filter (\<lambda>s. s \<noteq> []) (map (\<lambda>x. trim (text_or_empty text_of x)) xs) in if length ids > 0 then Some ids else None)
   | _ \<Rightarrow> None)"

definition is_alnum :: "char \<Rightarrow> bool" where
  "is_alnum c \<longleftrightarrow> is_digit c \<or> (65 \<le> char_code c \<and> char_code c \<le> 90) \<or> (97 \<le> char_code c \<and> char_code c \<le> 122)"

definition is_hex :: "char \<Rightarrow> bool" where
  "is_hex c \<longleftrightarrow> is_digit c \<or> (65 \<le> char_code c \<and> char_code c \<le> 70) \<or> (97 \<le> char_code c \<and> char_code c \<le> 102)"

text \<open>\<open>[A-Za-z0-9 \u00A0._:+~(),-]\<close>\<close>

definition is_id_char :: "char \<Rightarrow> bool" where
  "is_id_char c \<longleftrightarrow> is_alnum c \<or> char_code c = 160 \<or> c \<in> set '' ._:+~(),-''"

definition patch_id_pattern :: "string \<Rightarrow> bool" where
  "patch_id_pattern s \<longleftrightarrow> (case s of [] \<Rightarrow> False | c # cs \<Rightarrow> is_alnum c \<and> list_all is_id_char cs \<and> length cs \<le> 199)"

text \<open>The shape of a GUID, groups of 8, 4, 4, 4 and 12 hexadecimal digits.\<close>

definition guid_pattern :: "string \<Rightarrow> bool" where
  "guid_pattern s \<longleftrightarrow> length s = 36 \<and> list_all is_hex (filter (\<lambda>c. c \<noteq> CHR ''-'') s)
     \<and> [i. i \<leftarrow> [0..<36], s ! i = CHR ''-''] = [8, 13, 18, 23]"

definition windows_kb_pattern :: "string \<Rightarrow> bool" where
  "windows_kb_pattern s \<longleftrightarrow>
     (to_lower (take 2 s) = ''kb'' \<and> list_all is_digit (drop 2 s) \<and> 1 \<le> length (drop 2 s) \<and> length (drop 2 s) \<le> 10)
     \<or> (to_lower (take 4 s) = ''uid:'' \<and> guid_pattern (drop 4 s))"

definition unsafe_patch_ids :: "string list \<Rightarrow> platform \<Rightarrow> string list" where
  "unsafe_patch_ids ids p = (let shape = (if p = Windows then windows_kb_pattern else patch_id_pattern) in filter (\<lambda>i. \<not> shape i) ids)"

definition covered_ids :: "pmp_result list \<Rightarrow> string set" where
  "covered_ids rs = set (concat (map (\<lambda>r.
     (case kb r of Some k \<Rightarrow> if k \<noteq> [] then [to_lower k] else [] | None \<Rightarrow> [])
     @ (case update_id r of Some u \<Rightarrow> if u \<noteq> [] then [to_lower u, ''uid:'' @ to_lower u] else [] | None \<Rightarrow> [])) rs))"

definition unmatched_requested :: "string list \<Rightarrow> pmp_result list \<Rightarrow> string list" where
  "unmatched_requested requested rs = filter (\<lambda>i. to_lower i \<notin> covered_ids rs) requested"

section \<open>Restarts\<close>

definition DEFAULT_REBOOT_GRACE_MS :: int where "DEFAULT_REBOOT_GRACE_MS = 60000"

datatype reboot_reason = NotRequested | NotRequired | NothingInstalled | RebootNeeded | RebootToInstall

record reboot_plan =
  rp_reboot :: bool
  rp_reason :: reboot_reason
  rp_grace :: int

definition plan_patch_reboot :: "bool \<Rightarrow> bool \<Rightarrow> jsnum \<Rightarrow> reboot_plan" where
  "plan_patch_reboot if_required required installed =
     (let no = (\<lambda>r. \<lparr>rp_reboot = False, rp_reason = r, rp_grace = DEFAULT_REBOOT_GRACE_MS\<rparr>)
      in if \<not> if_required then no NotRequested
         else if \<not> required then no NotRequired
         else if \<not> num_lt (Fin 0) installed then no NothingInstalled
         else \<lparr>rp_reboot = True, rp_reason = RebootNeeded, rp_grace = DEFAULT_REBOOT_GRACE_MS\<rparr>)"

definition plan_reboot_to_install :: "bool \<Rightarrow> reboot_plan" where
  "plan_reboot_to_install if_required =
     (if if_required then \<lparr>rp_reboot = True, rp_reason = RebootToInstall, rp_grace = DEFAULT_REBOOT_GRACE_MS\<rparr>
      else \<lparr>rp_reboot = False, rp_reason = NotRequested, rp_grace = DEFAULT_REBOOT_GRACE_MS\<rparr>)"

text \<open>\<open>Math.round(ms / 1000)\<close> of a time that is not negative\<close>

definition grace_seconds :: "int \<Rightarrow> nat" where
  "grace_seconds ms = nat ((ms + 500) div 1000)"

definition reboot_ack_suffix :: "reboot_plan \<Rightarrow> bool \<Rightarrow> string" where
  "reboot_ack_suffix d armed =
     (if \<not> rp_reboot d then []
      else if armed then ''; rebootScheduled=true; rebootInSec='' @ show_nat (grace_seconds (rp_grace d))
      else ''; rebootScheduled=false; rebootError=os_refused_restart'')"

definition reboot_command_for :: "platform \<Rightarrow> nat \<Rightarrow> string \<Rightarrow> string \<times> string list" where
  "reboot_command_for p secs comment = (case p of
     Windows \<Rightarrow> (''shutdown'', [''/r'', ''/t'', show_nat secs, ''/c'', comment, ''/d'', ''p:2:17''])
   | Macos \<Rightarrow> (''shutdown'', [''-r'', ''+'' @ show_nat ((secs + 59) div 60)])
   | Linux \<Rightarrow> (''shutdown'', [''-r'', ''+'' @ show_nat ((secs + 59) div 60), comment]))"

definition DEVICE_REBOOT_DEFAULT_DELAY_S :: int where "DEVICE_REBOOT_DEFAULT_DELAY_S = 60"

definition sanitize_reason :: "jsval \<Rightarrow> string" where
  "sanitize_reason raw = (case raw of
     JStr s \<Rightarrow> take 120 (trim (replace_runs is_space 1 (map (\<lambda>c. if char_code c < 32 \<or> c = CHR 0x22 then CHR '' '' else c) s)))
   | _ \<Rightarrow> [])"

definition plan_device_reboot :: "jsval \<Rightarrow> string + int \<times> string" where
  "plan_device_reboot p =
     (if \<not> is_object p then Inl ''invalid payload''
      else if jprop p ''when'' \<noteq> JStr ''maintenance_window'' \<and> jprop p ''when'' \<noteq> JStr ''now'' then Inl ''missing when''
      else
        let d = jprop p ''delaySeconds'';
            reason = sanitize_reason (jprop p ''reason'');
            comment = ''Tracenium: restart requested by your IT administrator'' @ (if reason \<noteq> [] then '' ('' @ reason @ '')'' else [])
        in if nullish d then Inr (DEVICE_REBOOT_DEFAULT_DELAY_S * 1000, comment)
           else (case d of
             JNum (Fin q) \<Rightarrow> if is_integer (Fin q) \<and> 30 \<le> q \<and> q \<le> 600 then Inr (floor q * 1000, comment) else Inl ''invalid delaySeconds''
           | _ \<Rightarrow> Inl ''invalid delaySeconds''))"

text \<open>\<open>wantsBaseline\<close> of \<open>change-baseline.ts\<close>.\<close>

definition DRY_RUN_MODES :: "string list" where
  "DRY_RUN_MODES = [''dry_run'', ''revert_dry_run'']"

definition mode_or :: "(jsval \<Rightarrow> string) \<Rightarrow> string \<Rightarrow> jsval \<Rightarrow> string" where
  "mode_or text_of d payload = (let m = jprop payload ''mode'' in if truthy m then string_of text_of m else d)"

definition wants_baseline :: "(jsval \<Rightarrow> string) \<Rightarrow> string \<Rightarrow> jsval \<Rightarrow> bool" where
  "wants_baseline text_of job_type payload =
     (if job_type = ''patch_install'' then to_lower (trim (mode_or text_of ''install'' payload)) = ''install''
      else if \<not> is_object (jprop payload ''verification'') then False
      else if job_type = ''software_install'' \<or> job_type = ''device_reboot'' then True
      else if job_type = ''patch_remediate''
      then (let modes = (case jprop payload ''items'' of JArr xs \<Rightarrow> map (mode_or text_of ''apply'') xs | _ \<Rightarrow> [mode_or text_of ''apply'' payload])
            in list_ex (\<lambda>m. m \<notin> set DRY_RUN_MODES) modes)
      else False)"

section \<open>Selected identifiers\<close>

lemma id_char_cases: "is_id_char c \<longleftrightarrow> is_alnum c \<or> char_code c = 160 \<or> c \<in> {CHR '' '', CHR ''.'', CHR ''_'', CHR '':'', CHR ''+'', CHR ''~'', CHR ''('', CHR '')'', CHR '','', CHR ''-''}"
  by (simp add: is_id_char_def)

lemma hex_alnum: "is_hex c \<Longrightarrow> is_alnum c"
  by (auto simp: is_hex_def is_alnum_def)

lemma digit_alnum: "is_digit c \<Longrightarrow> is_alnum c"
  by (simp add: is_alnum_def)

lemma alnum_id_char: "is_alnum c \<Longrightarrow> is_id_char c"
  by (simp add: is_id_char_def)

lemma lower_alpha_alnum:
  assumes "lower_char c = x" and "97 \<le> char_code x" and "char_code x \<le> 122"
  shows "is_alnum c"
  using assms by (cases "65 \<le> char_code c \<and> char_code c \<le> 90") (auto simp: is_alnum_def lower_char_def)

lemma lower_colon: "lower_char c = CHR '':'' \<Longrightarrow> is_id_char c"
  by (cases "65 \<le> char_code c \<and> char_code c \<le> 90") (auto simp: is_id_char_def is_alnum_def lower_char_def)

lemma windows_kb_is_patch_id:
  assumes "windows_kb_pattern s"
  shows "patch_id_pattern s"
proof -
  have low: "is_alnum c" if "lower_char c \<in> set ''kbuid''" for c
    by (rule lower_alpha_alnum [OF refl]) (use that in \<open>auto simp: char_code_def\<close>)
  consider (kb) "to_lower (take 2 s) = ''kb''" "list_all is_digit (drop 2 s)" "length (drop 2 s) \<le> 10"
    | (uid) "to_lower (take 4 s) = ''uid:''" "guid_pattern (drop 4 s)"
    using assms unfolding windows_kb_pattern_def by blast
  then show ?thesis
  proof cases
    case kb
    obtain a b where t: "take 2 s = [a, b]" "lower_char a = CHR ''k''" "lower_char b = CHR ''b''"
      using kb(1) by (auto simp: to_lower_def map_eq_Cons_conv)
    then have s: "s = a # b # drop 2 s" by (metis append_take_drop_id append_Cons append_Nil)
    have "list_all is_id_char (b # drop 2 s)" using kb(2) low [of b] t(3) by (auto simp: list_all_iff intro: alnum_id_char digit_alnum)
    moreover have "is_alnum a" using low [of a] t(2) by simp
    ultimately show ?thesis using kb(3) by (subst s) (simp add: patch_id_pattern_def)
  next
    case uid
    obtain a b c d where t: "take 4 s = [a, b, c, d]" "lower_char a = CHR ''u''" "lower_char b = CHR ''i''" "lower_char c = CHR ''d''" "lower_char d = CHR '':''"
      using uid(1) by (auto simp: to_lower_def map_eq_Cons_conv)
    then have s: "s = a # b # c # d # drop 4 s" by (metis append_take_drop_id append_Cons append_Nil)
    have g: "is_id_char x" if "x \<in> set (drop 4 s)" for x
    proof (cases "x = CHR ''-''")
      case False
      then have "is_hex x" using uid(2) that by (auto simp: guid_pattern_def list_all_iff)
      then show ?thesis by (intro alnum_id_char hex_alnum)
    qed (simp add: is_id_char_def)
    have "is_alnum a" "is_id_char b" "is_id_char c" "is_id_char d"
      using low [of a] low [of b] low [of c] lower_colon [of d] t by (auto intro: alnum_id_char)
    moreover have "length (drop 4 s) = 36" using uid(2) by (simp add: guid_pattern_def)
    ultimately show ?thesis using g by (subst s) (auto simp: patch_id_pattern_def list_all_iff)
  qed
qed

lemma safe_ids:
  assumes "length (unsafe_patch_ids ids p) = 0"
  shows "list_all patch_id_pattern ids"
  using assms windows_kb_is_patch_id
  by (cases "p = Windows") (auto simp: unsafe_patch_ids_def Let_def filter_empty_conv list_all_iff)

text \<open>What can end or expand a PowerShell string, or end a command: quotes, the backtick, and the characters below.\<close>

definition DANGEROUS :: string where
  "DANGEROUS = [CHR 0x22, CHR 0x27, CHR 0x60] @ ''$;|&<>{}''"

definition harmless :: "string \<Rightarrow> bool" where
  "harmless s \<longleftrightarrow> s \<noteq> [] \<and> length s \<le> 200 \<and> hd s \<noteq> CHR ''-'' \<and> list_all (\<lambda>c. 32 \<le> char_code c \<and> c \<notin> set DANGEROUS) s"

lemma id_char_harmless: "is_id_char c \<Longrightarrow> 32 \<le> char_code c \<and> c \<notin> set DANGEROUS"
proof -
  assume c: "is_id_char c"
  have "list_all (\<lambda>x. \<not> is_id_char x) DANGEROUS"
    by (simp add: DANGEROUS_def is_id_char_def is_alnum_def is_digit_def char_code_def)
  then have "c \<notin> set DANGEROUS" using c unfolding list_all_iff by blast
  moreover have "32 \<le> char_code c"
  proof (cases "c \<in> set '' ._:+~(),-''")
    case True
    have "list_all (\<lambda>x. 32 \<le> char_code x) '' ._:+~(),-''" by (simp add: char_code_def)
    with True show ?thesis unfolding list_all_iff by blast
  next
    case False
    then have "is_alnum c \<or> char_code c = 160" using c unfolding is_id_char_def by blast
    then show ?thesis unfolding is_alnum_def is_digit_def by linarith
  qed
  ultimately show ?thesis by blast
qed

lemma patch_id_harmless:
  assumes "patch_id_pattern s"
  shows "harmless s"
proof -
  obtain c cs where s: "s = c # cs" "is_alnum c" "list_all is_id_char cs" "length cs \<le> 199"
    using assms by (cases s) (auto simp: patch_id_pattern_def)
  have "c \<noteq> CHR ''-''" using s(2) by (auto simp: is_alnum_def is_digit_def char_code_def)
  then show ?thesis using s id_char_harmless alnum_id_char [OF s(2)] by (auto simp: harmless_def list_all_iff)
qed

end
