(* ===== verification/Pmp_Install.thy ===== *)
theory Pmp_Install
  imports Pmp_State
begin

text \<open>
  The jobs \<open>patch_install\<close> and \<open>device_reboot\<close> as the stream executes them (\<open>executeRunJob\<close> of \<open>transport/grpc-stream.ts\<close>, with the locks of
  \<open>plugins/pmp/state.ts\<close> and the arming of \<open>reboot-exec.ts\<close>), cut into the parts between which other things can happen: up to the call of the
  privileged service, its answer, and the end after the scan that follows; and the agent may restart at any time. Whether a write of the
  state file succeeds and whether the system accepts a restart are arguments. The inventory scan between the parts and logging are left out.
\<close>

section \<open>The device\<close>

record pmp_env =
  text_of :: "jsval \<Rightarrow> string"
  patch_enabled :: bool
  pmp_enabled :: bool
  os_platform :: platform
  ellipsis :: string
  dash :: string
  io_error :: string

record device =
  saved :: pmp_state
  installing :: bool
  remediating :: bool
  updating :: bool

text \<open>\<open>savePmpState (updatePmpState patch)\<close>: \<open>Inl\<close> when the write throws.\<close>

definition save :: "pmp_env \<Rightarrow> bool \<Rightarrow> change list \<Rightarrow> device \<Rightarrow> string + device" where
  "save e w patch d = (if w then Inr (d\<lparr>saved := update_pmp_state patch (saved d)\<rparr>) else Inl (io_error e))"

definition try_start_remediate :: "device \<Rightarrow> bool \<times> device" where
  "try_start_remediate d = (if remediating d then (False, d) else if installing d then (False, d) else (True, d\<lparr>remediating := True\<rparr>))"

definition finish_remediate :: "device \<Rightarrow> device" where
  "finish_remediate d = d\<lparr>remediating := False\<rparr>"

section \<open>patch\_install\<close>

record install_run =
  run_job :: string
  run_mode :: string
  run_ids :: "string list"
  run_reboot :: bool

datatype began = Reply nat string | Thrown string | Started install_run

definition begin_patch_install :: "pmp_env \<Rightarrow> string \<Rightarrow> jsval \<Rightarrow> bool \<Rightarrow> device \<Rightarrow> began \<times> device" where
  "begin_patch_install e job payload w d =
     (if \<not> patch_enabled e then (Reply 2 ''patch_install rejected: patch module disabled by policy'', d)
      else if \<not> pmp_enabled e then (Reply 2 ''patch_install rejected: pmp plugin disabled by policy'', d)
      else if installing d then (Reply 1 ''patch_install retry: patch install already in progress'', d)
      else if remediating d then (Reply 1 ''patch_install retry: patch_remediate in progress'', d)
      else if updating d then (Reply 1 ''patch_install retry: agent_update in progress'', d)
      else case replay_for_redispatch job (saved d) of
        Some ((st, m), patch) \<Rightarrow>
          if patch = [] then (Reply st m, d)
          else (case save e w patch d of Inl x \<Rightarrow> (Thrown x, d) | Inr d' \<Rightarrow> (Reply st m, d'))
      | None \<Rightarrow>
          let md = to_lower (trim (mode_or (text_of e) ''install'' payload)) in
          if md \<noteq> ''install'' \<and> md \<noteq> ''download'' then (Reply 2 ''patch_install rejected: invalid mode'', d)
          else (case selected_patch_ids (text_of e) payload of
            None \<Rightarrow> (Reply 2 ''patch_install rejected: no_patches_selected'', d)
          | Some ids \<Rightarrow>
              let bad = unsafe_patch_ids ids (os_platform e) in
              if length bad > 0
              then (Reply 2 (''patch_install rejected: invalid_patch_id ('' @ show_nat (length bad) @ '' of '' @ show_nat (length ids) @ '')''), d)
              else
                let d1 = d\<lparr>installing := True\<rparr> in
                case save e w [Status InProgress, JobId (Some job), Mode md, SelectedCount (Some (Fin (of_nat (length ids)))),
                    InstalledCount (Fin 0), FailedCount (Fin 0), RebootRequired False, Results [], LastError None] d1 of
                  Inl x \<Rightarrow> (Thrown x, d1)
                | Inr d2 \<Rightarrow>
                    (Started \<lparr>run_job = job, run_mode = md, run_ids = ids, run_reboot = (jprop payload ''rebootIfRequired'' = JBool True)\<rparr>, d2)))"

text \<open>\<open>normalizePmpResults\<close>\<close>

definition optional_text :: "(jsval \<Rightarrow> string) \<Rightarrow> jsval \<Rightarrow> string option" where
  "optional_text t v = (if truthy v then Some (string_of t v) else None)"

definition normalize_pmp_result :: "(jsval \<Rightarrow> string) \<Rightarrow> jsval \<Rightarrow> pmp_result" where
  "normalize_pmp_result t item =
     (let r = jprop item ''result''; raw = to_lower (trim (if truthy r then string_of t r else ''failed'')) in
      \<lparr>update_id = optional_text t (jprop item ''updateId''), kb = optional_text t (jprop item ''kb''), title = optional_text t (jprop item ''title''),
        result_kind = (if raw = ''installed'' \<or> raw = ''downloaded'' \<or> raw = ''skipped'' then raw else ''failed''),
        hresult = optional_text t (jprop item ''hresult''), message = optional_text t (jprop item ''message'')\<rparr>)"

definition normalize_pmp_results :: "(jsval \<Rightarrow> string) \<Rightarrow> jsval \<Rightarrow> pmp_result list" where
  "normalize_pmp_results t v = (case v of JArr xs \<Rightarrow> map (normalize_pmp_result t) xs | _ \<Rightarrow> [])"

text \<open>\<open>String(v || "")\<close>, in lower case and without spaces around\<close>

definition raw_status :: "(jsval \<Rightarrow> string) \<Rightarrow> jsval \<Rightarrow> string" where
  "raw_status t result = (let s = jprop result ''status'' in to_lower (trim (if truthy s then string_of t s else [])))"

definition count_of :: "(jsval \<Rightarrow> string) \<Rightarrow> jsval \<Rightarrow> string \<Rightarrow> jsnum" where
  "count_of t result k = (let v = jprop result k in if nullish v then Fin 0 else number_of_value t v)"

definition NOT_LISTED :: string where
  "NOT_LISTED = ''not in the device's live pending list (already installed, superseded or no longer offered)''"

definition unmatched_results :: "string list \<Rightarrow> pmp_result list" where
  "unmatched_results ids = map (\<lambda>i. \<lparr>update_id = None, kb = Some i, title = None, result_kind = ''skipped'', hresult = None, message = Some NOT_LISTED\<rparr>) ids"

definition is_empty_match :: "(jsval \<Rightarrow> string) \<Rightarrow> install_run \<Rightarrow> jsval \<Rightarrow> bool" where
  "is_empty_match t run result \<longleftrightarrow> raw_status t result = ''no_updates'' \<and> length (run_ids run) > 0 \<and> num_eq (count_of t result ''installedCount'') (Fin 0)"

definition result_status :: "(jsval \<Rightarrow> string) \<Rightarrow> install_run \<Rightarrow> jsval \<Rightarrow> string" where
  "result_status t run result = (if is_empty_match t run result then ''no_matching_patches'' else raw_status t result)"

text \<open>A thrown error, caught inside the job: the state says so and the \<open>finally\<close> releases the flag.\<close>

definition failed_run :: "pmp_env \<Rightarrow> install_run \<Rightarrow> string \<Rightarrow> bool \<Rightarrow> device \<Rightarrow> (nat \<times> string) \<times> device" where
  "failed_run e run m w d =
     (case save e w [Status Failed, Mode (run_mode run), LastError (Some m), RebootRequired False, Results []] d of
        Inr d' \<Rightarrow> ((2, m), d'\<lparr>installing := False\<rparr>)
      | Inl x \<Rightarrow> ((2, x), d\<lparr>installing := False\<rparr>))"

text \<open>The answer of the service: either the job ends, or its result is saved and the job goes on.\<close>

definition take_answer ::
  "pmp_env \<Rightarrow> install_run \<Rightarrow> string + jsval \<Rightarrow> bool \<Rightarrow> bool \<Rightarrow> device \<Rightarrow> (nat \<times> string) option \<times> device" where
  "take_answer e run ans w0 w1 d =
     (let t = text_of e; ended = (\<lambda>(r, d). (Some r, d)) in
      case ans of
        Inl m \<Rightarrow> ended (failed_run e run m w0 d)
      | Inr resp \<Rightarrow>
          if \<not> truthy (jprop resp ''ok'')
          then (let em = jprop (jprop resp ''error'') ''message''; m = (if truthy em then string_of t em else ''patch.install failed'') in
                case save e w0 [Status Failed, Mode (run_mode run), LastError (Some m), RebootRequired False, Results []] d of
                  Inl x \<Rightarrow> ended (failed_run e run x w1 d)
                | Inr d' \<Rightarrow> (Some (2, ''patch_install failed: '' @ m), d'\<lparr>installing := False\<rparr>))
          else
            let result = jprop resp ''result'' in
            if raw_status t result = ''busy''
            then (let bm = (case jprop result ''results'' of JArr (x # xs) \<Rightarrow> jprop x ''message'' | _ \<Rightarrow> JUndef);
                      who = take 120 (if truthy bm then string_of t bm else ''package manager busy'') in
                  case save e w0 [Status Idle, LastError None, Results []] d of
                    Inl x \<Rightarrow> ended (failed_run e run x w1 d)
                  | Inr d' \<Rightarrow> (Some (1, ''patch_install retry: '' @ who), d'\<lparr>installing := False\<rparr>))
            else
              let st = result_status t run result; back = normalize_pmp_results t (jprop result ''results'');
                  good = (st = ''success'' \<or> st = ''no_updates''); sel = jprop result ''selectedCount''
              in (case save e w0
                    [Status (if good then Success else if st = ''partial'' then Partial else Failed), Mode (run_mode run),
                     RebootRequired (jprop result ''rebootRequired'' = JBool True),
                     SelectedCount (Some (if nullish sel then Fin (of_nat (length (run_ids run))) else number_of_value t sel)),
                     InstalledCount (count_of t result ''installedCount''), FailedCount (count_of t result ''failedCount''),
                     Results (back @ unmatched_results (unmatched_requested (run_ids run) back)),
                     LastError (if good then None else Some (''patch_install '' @ (if st = [] then ''failed'' else st)))] d of
                   Inl x \<Rightarrow> ended (failed_run e run x w1 d)
                 | Inr d' \<Rightarrow> (None, d')))"

definition bool_text :: "bool \<Rightarrow> string" where
  "bool_text b = (if b then ''true'' else ''false'')"

definition fatal_suffix :: "pmp_env \<Rightarrow> jsval \<Rightarrow> string" where
  "fatal_suffix e result =
     (let t = text_of e; stage = jprop result ''fatalStage''; h = jprop result ''hresult''; er = jprop result ''error'' in
      if \<not> truthy stage then []
      else ''; stage='' @ string_of t stage @ ''; hresult='' @ (if nullish h then ''unknown'' else string_of t h)
        @ (if truthy er
           then '' '' @ dash e @ '' '' @ take 200 (replace_runs (\<lambda>c. c = CHR '';'' \<or> char_code c = 13 \<or> char_code c = 10) 1 (string_of t er))
           else []))"

definition unmatched_suffix :: "pmp_env \<Rightarrow> string list \<Rightarrow> string" where
  "unmatched_suffix e ids =
     (if length ids > 0
      then ''; notMatched='' @ show_nat (length ids) @ '' ('' @ join_with '', '' (take 5 ids) @ (if length ids > 5 then '', '' @ ellipsis e else []) @ '')''
      else [])"

definition reboot_pending :: "pmp_result list \<Rightarrow> bool" where
  "reboot_pending back \<longleftrightarrow> length back > 0 \<and> list_all (\<lambda>r. message r = Some ''reboot_pending_before_install'') back"

definition restart_plan :: "pmp_env \<Rightarrow> install_run \<Rightarrow> jsval \<Rightarrow> reboot_plan" where
  "restart_plan e run result =
     plan_patch_reboot (run_reboot run) (jprop result ''rebootRequired'' = JBool True) (count_of (text_of e) result ''installedCount'')"

definition count_fields :: "pmp_env \<Rightarrow> install_run \<Rightarrow> jsval \<Rightarrow> bool \<Rightarrow> string" where
  "count_fields e run result armed =
     (let t = text_of e in
      ''; installed='' @ t (JNum (count_of t result ''installedCount'')) @ ''; failed='' @ t (JNum (count_of t result ''failedCount''))
        @ ''; rebootRequired='' @ bool_text (jprop result ''rebootRequired'' = JBool True) @ reboot_ack_suffix (restart_plan e run result) armed)"

definition success_message :: "pmp_env \<Rightarrow> install_run \<Rightarrow> jsval \<Rightarrow> bool \<Rightarrow> string" where
  "success_message e run result armed =
     ''patch_install '' @ result_status (text_of e) run result @ count_fields e run result armed
       @ unmatched_suffix e (unmatched_requested (run_ids run) (normalize_pmp_results (text_of e) (jprop result ''results'')))"

text \<open>The end of the job: the restart, and the reply. \<open>a0\<close>, \<open>a1\<close> say whether the system accepts the restart before and after the
  installation; the second component is whether a restart is armed.\<close>

definition conclude ::
  "pmp_env \<Rightarrow> install_run \<Rightarrow> jsval \<Rightarrow> bool \<Rightarrow> bool \<Rightarrow> bool \<Rightarrow> bool \<Rightarrow> device \<Rightarrow> (nat \<times> string) \<times> bool \<times> device" where
  "conclude e run result a0 a1 w0 w1 d =
     (let t = text_of e; back = normalize_pmp_results t (jprop result ''results''); st = result_status t run result;
          pending = reboot_pending back; threw = (\<lambda>armed (r, d). (r, armed, d))
      in if pending \<and> run_reboot run \<and> a0
         then (case save e w0 [Status Idle, LastError None, Results []] d of
                 Inl x \<Rightarrow> threw True (failed_run e run x w1 d)
               | Inr d' \<Rightarrow> ((1, ''patch_install retry: reboot_pending_before_install'' @ reboot_ack_suffix (plan_reboot_to_install True) True), True,
                           d'\<lparr>installing := False\<rparr>))
         else
           let armed = (rp_reboot (restart_plan e run result) \<and> a1)
           in if st = ''success'' \<or> st = ''no_updates''
              then (let m = success_message e run result armed in
                    case remember_success_ack (run_job run) m of
                      [] \<Rightarrow> ((0, m), armed, d\<lparr>installing := False\<rparr>)
                    | patch \<Rightarrow> (case save e w0 patch d of
                                Inl x \<Rightarrow> threw armed (failed_run e run x w1 d)
                              | Inr d' \<Rightarrow> ((0, m), armed, d'\<lparr>installing := False\<rparr>)))
              else (let detail =
                      (if is_empty_match t run result
                       then ''; none of the '' @ show_nat (length (run_ids run)) @ '' requested patch(es) matched the device's live '' @
                            ''pending list '' @ dash e @ '' they may already be installed, or this list is stale; re-scan and check''
                       else if pending
                       then (if run_reboot run
                             then ''; reboot_pending_before_install '' @ dash e @ '' the restart that would unblock the install was refused '' @
                                  ''by the operating system; restart the device, then dispatch again''
                             else ''; reboot_pending_before_install '' @ dash e @ '' Windows needs the restart from an earlier change before it '' @
                                  ''installs anything: restart the device (or dispatch with restart enabled), then dispatch again'')
                       else [])
                    in ((2, ''patch_install '' @ (if st = [] then ''failed'' else st) @ count_fields e run result armed @ fatal_suffix e result
                            @ (if is_empty_match t run result then []
                               else unmatched_suffix e (unmatched_requested (run_ids run) back)) @ detail),
                        armed, d\<lparr>installing := False\<rparr>)))"

section \<open>device\_reboot\<close>

text \<open>The guards; after them the baseline is awaited if verification is asked for, then the restart is armed whatever happened meanwhile.\<close>

definition begin_device_reboot :: "jsval \<Rightarrow> device \<Rightarrow> (nat \<times> string) + int" where
  "begin_device_reboot payload d =
     (if installing d then Inl (1, ''device_reboot retry: patch install in progress'')
      else if remediating d then Inl (1, ''device_reboot retry: patch_remediate in progress'')
      else if updating d then Inl (1, ''device_reboot retry: agent_update in progress'')
      else case plan_device_reboot payload of
        Inl err \<Rightarrow> Inl (2, ''device_reboot rejected: '' @ err)
      | Inr (grace, comment) \<Rightarrow> Inr grace)"

definition arm_device_reboot :: "int \<Rightarrow> bool \<Rightarrow> nat \<times> string" where
  "arm_device_reboot grace a =
     (if \<not> a then (2, ''device_reboot failed: the operating system did not accept the restart'')
      else (0, ''device_reboot scheduled; rebootScheduled=true; rebootInSec='' @ show_nat (grace_seconds grace)))"

end
