(* ===== verification/Pmp_Jobs.thy ===== *)
theory Pmp_Jobs
  imports Pmp_Install
begin

text \<open>
  Patch jobs side by side: dispatches, answers, restarts of the agent, remediations, updates and restarts of the machine in any order, over
  the parts of the jobs in \<open>Pmp_Install\<close>. What is installed, when the machine restarts, and what a job that comes again is told.
\<close>

section \<open>The jobs side by side\<close>

text \<open>The device, the installations under way (with the result, once it is saved), the restarts that wait for their baseline, the number of
  remediations under way, and what happened: calls of the service, replies, and the installations whose restart was armed.\<close>

record machine =
  dev :: device
  runs :: "(install_run \<times> jsval option) list"
  reboots_waiting :: "int list"
  remediations :: nat
  calls :: "install_run list"
  replies :: "(string \<times> nat \<times> string) list"
  armed_runs :: "install_run list"
  armed_now :: "(int \<times> nat) list"

datatype event =
    Dispatch pmp_env string jsval bool
  | Answer pmp_env nat "string + jsval" bool bool
  | Conclude pmp_env nat bool bool bool bool
  | Restart
  | RemediateBegin
  | RemediateEnd
  | Updating bool
  | RebootBegin pmp_env jsval bool
  | RebootArm nat bool

definition remove_at :: "nat \<Rightarrow> 'a list \<Rightarrow> 'a list" where
  "remove_at i xs = take i xs @ drop (Suc i) xs"

text \<open>A restart on demand that is armed, with the number of installations under way at that moment.\<close>

definition arm_now :: "int \<Rightarrow> bool \<Rightarrow> machine \<Rightarrow> machine" where
  "arm_now grace a m = (if fst (arm_device_reboot grace a) = 0 then m\<lparr>armed_now := armed_now m @ [(grace, length (runs m))]\<rparr> else m)"

fun pmp_step :: "machine \<Rightarrow> event \<Rightarrow> machine" where
  "pmp_step m (Dispatch e job payload w) =
     (case begin_patch_install e job payload w (dev m) of
        (Reply st msg, d) \<Rightarrow> m\<lparr>dev := d, replies := replies m @ [(job, st, msg)]\<rparr>
      | (Thrown x, d) \<Rightarrow> m\<lparr>dev := d, replies := replies m @ [(job, 2, x)]\<rparr>
      | (Started run, d) \<Rightarrow> m\<lparr>dev := d, runs := runs m @ [(run, None)], calls := calls m @ [run]\<rparr>)"
| "pmp_step m (Answer e i ans w0 w1) =
     (if i < length (runs m) \<and> snd (runs m ! i) = None
      then (let run = fst (runs m ! i) in
        case take_answer e run ans w0 w1 (dev m) of
          (Some (st, msg), d) \<Rightarrow> m\<lparr>dev := d, runs := remove_at i (runs m), replies := replies m @ [(run_job run, st, msg)]\<rparr>
        | (None, d) \<Rightarrow> m\<lparr>dev := d, runs := (runs m)[i := (run, Some (case ans of Inl x \<Rightarrow> JUndef | Inr resp \<Rightarrow> jprop resp ''result''))]\<rparr>)
      else m)"
| "pmp_step m (Conclude e i a0 a1 w0 w1) =
     (if i < length (runs m)
      then (case runs m ! i of
        (run, None) \<Rightarrow> m
      | (run, Some result) \<Rightarrow>
          (case conclude e run result a0 a1 w0 w1 (dev m) of
             ((st, msg), armed, d) \<Rightarrow>
               m\<lparr>dev := d, runs := remove_at i (runs m), replies := replies m @ [(run_job run, st, msg)],
                 armed_runs := armed_runs m @ (if armed then [run] else [])\<rparr>))
      else m)"
| "pmp_step m Restart =
     m\<lparr>dev := \<lparr>saved = reconcile_stale_pmp_state (saved (dev m)), installing = False, remediating = False, updating = False\<rparr>,
       runs := [], reboots_waiting := [], remediations := 0\<rparr>"
| "pmp_step m RemediateBegin =
     (let (ok, d) = try_start_remediate (dev m) in if ok then m\<lparr>dev := d, remediations := Suc (remediations m)\<rparr> else m)"
| "pmp_step m RemediateEnd =
     (if remediations m > 0 then m\<lparr>dev := finish_remediate (dev m), remediations := remediations m - 1\<rparr> else m)"
| "pmp_step m (Updating b) = m\<lparr>dev := (dev m)\<lparr>updating := b\<rparr>\<rparr>"
| "pmp_step m (RebootBegin e payload a) =
     (case begin_device_reboot payload (dev m) of
        Inl r \<Rightarrow> m
      | Inr grace \<Rightarrow>
          if wants_baseline (text_of e) ''device_reboot'' payload then m\<lparr>reboots_waiting := reboots_waiting m @ [grace]\<rparr>
          else arm_now grace a m)"
| "pmp_step m (RebootArm i a) =
     (if i < length (reboots_waiting m)
      then arm_now (reboots_waiting m ! i) a (m\<lparr>reboots_waiting := remove_at i (reboots_waiting m)\<rparr>)
      else m)"

definition fresh_device :: machine where
  "fresh_device = \<lparr>dev = \<lparr>saved = empty_state, installing = False, remediating = False, updating = False\<rparr>, runs = [], reboots_waiting = [],
     remediations = 0, calls = [], replies = [], armed_runs = [], armed_now = []\<rparr>"

section \<open>What the parts keep\<close>

lemma update_status:
  "status (update_pmp_state patch s) = (if list_ex sets_error patch then Some Failed else status (foldl apply_change s patch))"
  by (simp add: update_pmp_state_def Let_def)

lemma sets_error_simps [simp]:
  "sets_error (LastError (Some (c # m)))" "\<not> sets_error (LastError None)" "\<not> sets_error (Status x)" "\<not> sets_error (Mode md)"
  "\<not> sets_error (RebootRequired b)" "\<not> sets_error (InstalledCount n)" "\<not> sets_error (FailedCount n)" "\<not> sets_error (SelectedCount o1)"
  "\<not> sets_error (Results rs)" "\<not> sets_error (JobId j)" "\<not> sets_error (SuccessAck k l)"
  by (simp_all add: sets_error_def)

lemma sets_error_some: "sets_error (LastError (Some m)) \<longleftrightarrow> m \<noteq> []"
  by (simp add: sets_error_def)

text \<open>A part of a job keeps the flags of the others and never saves the status \<open>partial\<close>.\<close>

definition tame :: "device \<Rightarrow> device \<Rightarrow> bool" where
  "tame d d' \<longleftrightarrow> remediating d' = remediating d \<and> updating d' = updating d
     \<and> (status (saved d) \<noteq> Some Partial \<longrightarrow> status (saved d') \<noteq> Some Partial)"

lemma tame_refl [simp]: "tame d d"
  by (simp add: tame_def)

lemma tame_save:
  assumes "save e w patch d = Inr d'" and "Status Partial \<notin> set patch \<or> list_ex sets_error patch"
  shows "tame d d' \<and> installing d' = installing d \<and> w"
proof -
  have s: "d' = d\<lparr>saved := update_pmp_state patch (saved d)\<rparr>" "w" using assms(1) by (auto simp: save_def split: if_splits)
  have k: "status (foldl apply_change st patch) \<noteq> Some Partial" if "status st \<noteq> Some Partial" "Status Partial \<notin> set patch" for st patch
    using that
  proof (induction patch arbitrary: st)
    case (Cons c patch)
    have "status (apply_change st c) \<noteq> Some Partial" using Cons.prems by (cases c) auto
    with Cons show ?case by simp
  qed simp
  have "status (update_pmp_state patch (saved d)) \<noteq> Some Partial" if "status (saved d) \<noteq> Some Partial"
    using assms(2) k [OF that] by (auto simp: update_status)
  then show ?thesis unfolding s(1) using s(2) by (simp add: tame_def)
qed

lemma failed_run_facts:
  assumes "failed_run e run m w d = (r, d')"
  shows "tame d d' \<and> \<not> installing d' \<and> fst r = 2"
proof (cases "save e w [Status Failed, Mode (run_mode run), LastError (Some m), RebootRequired False, Results []] d")
  case (Inl x)
  then show ?thesis using assms by (auto simp: failed_run_def tame_def)
next
  case (Inr d1)
  with assms have "d' = d1\<lparr>installing := False\<rparr>" "fst r = 2" by (auto simp: failed_run_def)
  with tame_save [OF Inr] show ?thesis by (auto simp: tame_def)
qed

lemma begin_cases:
  assumes "begin_patch_install e job payload w d = (r, d')"
  obtains (reply) st m where "r = Reply st m" "d' = d"
    | (asked_once) "r = Reply 2 INTERRUPTED_BY_RESTART_MESSAGE" "save e w [JobId None] d = Inr d'" "last_error (saved d) = Some AGENT_RESTARTED_ERROR"
    | (unsaved) x where "r = Thrown x" "d' = d"
    | (stuck) x where "r = Thrown x" "d' = d\<lparr>installing := True\<rparr>" "\<not> w" "\<not> installing d" "\<not> remediating d"
    | (started) ids md rb where "r = Started \<lparr>run_job = job, run_mode = md, run_ids = ids, run_reboot = rb\<rparr>"
        "save e w [Status InProgress, JobId (Some job), Mode md, SelectedCount (Some (Fin (of_nat (length ids)))),
                    InstalledCount (Fin 0), FailedCount (Fin 0), RebootRequired False, Results [], LastError None] (d\<lparr>installing := True\<rparr>) = Inr d'"
        "\<not> installing d" "\<not> remediating d" "\<not> updating d" "ids \<noteq> []" "list_all patch_id_pattern ids"
        "replay_for_redispatch job (saved d) = None"
proof -
  let ?md = "to_lower (trim (mode_or (text_of e) ''install'' payload))"
  let ?bad = "\<lambda>ids. length (unsafe_patch_ids ids (os_platform e))"
  consider (gate) st m where "r = Reply st m" "d' = d"
    | (open_gate) "\<not> installing d" "\<not> remediating d" "\<not> updating d" "patch_enabled e" "pmp_enabled e"
    using assms unfolding begin_patch_install_def by (cases "patch_enabled e"; cases "pmp_enabled e"; cases "installing d"; cases "remediating d"; cases "updating d") auto
  then show thesis
  proof cases
    case gate
    then show thesis by (rule reply)
  next
    case open_gate
    show thesis
    proof (cases "replay_for_redispatch job (saved d)")
      case (Some x)
      obtain st m patch where x: "x = ((st, m), patch)" by (cases x) auto
      show thesis
      proof (cases "patch = []")
        case True
        then show thesis using assms open_gate Some x by (intro reply) (auto simp: begin_patch_install_def)
      next
        case False
        then have p: "patch = [JobId None]" "st = 2" "m = INTERRUPTED_BY_RESTART_MESSAGE" "last_error (saved d) = Some AGENT_RESTARTED_ERROR"
          using Some x by (auto simp: replay_for_redispatch_def split: if_splits option.splits)
        show thesis
        proof (cases "save e w [JobId None] d")
          case (Inl y)
          then show thesis using assms open_gate Some x p by (intro unsaved) (auto simp: begin_patch_install_def)
        next
          case (Inr d1)
          then show thesis using assms open_gate Some x p by (intro asked_once) (auto simp: begin_patch_install_def)
        qed
      qed
    next
      case None
      show thesis
      proof (cases "(?md \<noteq> ''install'' \<and> ?md \<noteq> ''download'') \<or> selected_patch_ids (text_of e) payload = None")
        case True
        then obtain st m where "r = Reply st m" "d' = d"
          using assms open_gate None by (auto simp: begin_patch_install_def Let_def split: if_splits)
        then show thesis by (rule reply)
      next
        case False
        then obtain ids where md: "?md = ''install'' \<or> ?md = ''download''" and ids: "selected_patch_ids (text_of e) payload = Some ids" by auto
        have ne: "ids \<noteq> []" using ids by (auto simp: selected_patch_ids_def Let_def split: jsval.splits if_splits)
        show thesis
        proof (cases "?bad ids > 0")
          case True
          then obtain st m where "r = Reply st m" "d' = d"
            using assms open_gate None md ids by (auto simp: begin_patch_install_def Let_def)
          then show thesis by (rule reply)
        next
          case False
          then have sid: "list_all patch_id_pattern ids" by (intro safe_ids) simp
          let ?patch = "[Status InProgress, JobId (Some job), Mode ?md, SelectedCount (Some (Fin (of_nat (length ids)))),
                    InstalledCount (Fin 0), FailedCount (Fin 0), RebootRequired False, Results [], LastError None]"
          show thesis
          proof (cases "save e w ?patch (d\<lparr>installing := True\<rparr>)")
            case (Inl y)
            then have "\<not> w" by (auto simp: save_def split: if_splits)
            with Inl show thesis using assms open_gate None md ids False by (intro stuck) (auto simp: begin_patch_install_def Let_def)
          next
            case (Inr d1)
            then have "(r, d') = (Started \<lparr>run_job = job, run_mode = ?md, run_ids = ids, run_reboot = (jprop payload ''rebootIfRequired'' = JBool True)\<rparr>, d1)"
              using assms open_gate None md ids False unfolding begin_patch_install_def Let_def by auto
            then show thesis using started [OF _ _ open_gate(1-3) ne sid None] Inr by blast
          qed
        qed
      qed
    qed
  qed
qed

lemma tame_release: "tame d d' \<Longrightarrow> tame d (d'\<lparr>installing := b\<rparr>)"
  by (simp add: tame_def)

lemma result_patch_tame:
  "Status Partial \<notin> set [Status (if good then Success else if st = ''partial'' then Partial else Failed), Mode md, RebootRequired b, SelectedCount n,
      InstalledCount i, FailedCount f, Results rs, LastError (if good then None else Some (''patch_install '' @ x))]
   \<or> list_ex sets_error [Status (if good then Success else if st = ''partial'' then Partial else Failed), Mode md, RebootRequired b, SelectedCount n,
      InstalledCount i, FailedCount f, Results rs, LastError (if good then None else Some (''patch_install '' @ x))]"
  by simp

fun is_success_ack :: "change \<Rightarrow> bool" where
  "is_success_ack (SuccessAck j m) \<longleftrightarrow> True"
| "is_success_ack c \<longleftrightarrow> False"

lemma update_keeps_ack:
  assumes "\<not> list_ex is_success_ack patch"
  shows "success_ack (update_pmp_state patch s) = success_ack s"
proof -
  have "success_ack (foldl apply_change s patch) = success_ack s"
    using assms
  proof (induction patch arbitrary: s)
    case (Cons c patch)
    then show ?case by (cases c) simp_all
  qed simp
  then show ?thesis by (simp add: update_pmp_state_def Let_def)
qed

lemma save_keeps_ack: "save e w patch d = Inr d' \<Longrightarrow> \<not> list_ex is_success_ack patch \<Longrightarrow> success_ack (saved d') = success_ack (saved d)"
  by (auto simp: save_def update_keeps_ack split: if_splits)

lemma failed_run_keeps_ack: "success_ack (saved (snd (failed_run e run m w d))) = success_ack (saved d)"
  by (simp add: failed_run_def save_def update_keeps_ack)

lemma failed_run_keeps_ack': "failed_run e run m w d = (r, d') \<Longrightarrow> success_ack (saved d') = success_ack (saved d)"
  using failed_run_keeps_ack [of e run m w d] by simp

lemma take_answer_facts:
  assumes "take_answer e run ans w0 w1 d = (r, d')"
  shows "tame d d' \<and> (if r = None then installing d' = installing d else \<not> installing d') \<and> success_ack (saved d') = success_ack (saved d)"
proof -
  have caught: "tame d d' \<and> (if r = None then installing d' = installing d else \<not> installing d') \<and> success_ack (saved d') = success_ack (saved d)"
    if "(\<lambda>(r, d). (Some r, d)) (failed_run e run m w d) = (r, d')" for m w
  proof -
    obtain r0 d0 where f: "failed_run e run m w d = (r0, d0)" by fastforce
    then show ?thesis using that failed_run_facts [OF f] failed_run_keeps_ack' [OF f] by auto
  qed
  have saves: "tame d d' \<and> (if r = None then installing d' = installing d else \<not> installing d') \<and> success_ack (saved d') = success_ack (saved d)"
    if "(case save e w0 patch d of Inl x \<Rightarrow> (\<lambda>(r, d). (Some r, d)) (failed_run e run x w1 d) | Inr d1 \<Rightarrow> (Some rep, d1\<lparr>installing := False\<rparr>)) = (r, d')"
      and "Status Partial \<notin> set patch \<or> list_ex sets_error patch" and "\<not> list_ex is_success_ack patch" for patch rep
  proof (cases "save e w0 patch d")
    case (Inl x)
    then show ?thesis using that(1) caught [of x w1] by simp
  next
    case (Inr d1)
    then show ?thesis using that(1) tame_save [OF Inr that(2)] save_keeps_ack [OF Inr that(3)] by (auto intro: tame_release)
  qed
  have goes_on: "tame d d' \<and> (if r = None then installing d' = installing d else \<not> installing d') \<and> success_ack (saved d') = success_ack (saved d)"
    if "(case save e w0 patch d of Inl x \<Rightarrow> (\<lambda>(r, d). (Some r, d)) (failed_run e run x w1 d) | Inr d1 \<Rightarrow> (None, d1)) = (r, d')"
      and "Status Partial \<notin> set patch \<or> list_ex sets_error patch" and "\<not> list_ex is_success_ack patch" for patch
  proof (cases "save e w0 patch d")
    case (Inl x)
    then show ?thesis using that(1) caught [of x w1] by simp
  next
    case (Inr d1)
    then show ?thesis using that(1) tame_save [OF Inr that(2)] save_keeps_ack [OF Inr that(3)] by auto
  qed
  show ?thesis
  proof (cases ans)
    case (Inl m)
    then show ?thesis using assms by (intro caught [of m w0]) (simp add: take_answer_def)
  next
    case (Inr resp)
    show ?thesis
    proof (cases "truthy (jprop resp ''ok'')")
      case False
      let ?em = "jprop (jprop resp ''error'') ''message''"
      let ?m = "if truthy ?em then string_of (text_of e) ?em else ''patch.install failed''"
      have "(case save e w0 [Status Failed, Mode (run_mode run), LastError (Some ?m), RebootRequired False, Results []] d of
          Inl x \<Rightarrow> (\<lambda>(r, d). (Some r, d)) (failed_run e run x w1 d) | Inr d1 \<Rightarrow> (Some (2, ''patch_install failed: '' @ ?m), d1\<lparr>installing := False\<rparr>)) = (r, d')"
        using assms Inr False unfolding take_answer_def Let_def by simp
      then show ?thesis by (rule saves) simp_all
    next
      case True
      let ?result = "jprop resp ''result''"
      show ?thesis
      proof (cases "raw_status (text_of e) ?result = ''busy''")
        case busy: True
        obtain rep where "(case save e w0 [Status Idle, LastError None, Results []] d of
            Inl x \<Rightarrow> (\<lambda>(r, d). (Some r, d)) (failed_run e run x w1 d) | Inr d1 \<Rightarrow> (Some rep, d1\<lparr>installing := False\<rparr>)) = (r, d')"
          using assms Inr True busy unfolding take_answer_def Let_def by simp
        then show ?thesis by (rule saves) simp_all
      next
        case False
        show ?thesis
          using assms Inr True False result_patch_tame unfolding take_answer_def Let_def
          by (intro goes_on) (simp only: sum.case if_False if_True simp_thms, rule result_patch_tame, simp)
      qed
    qed
  qed
qed

lemma conclude_facts:
  assumes "conclude e run result a0 a1 w0 w1 d = (r, armed, d')"
  shows "tame d d' \<and> \<not> installing d' \<and> (armed \<longrightarrow> run_reboot run)"
proof -
  have saves: "tame d d' \<and> \<not> installing d' \<and> (armed \<longrightarrow> run_reboot run)"
    if "(case save e w0 patch d of Inl x \<Rightarrow> (\<lambda>b (r, d). (r, b, d)) b (failed_run e run x w1 d) | Inr d1 \<Rightarrow> (rep, b, d1\<lparr>installing := False\<rparr>)) = (r, armed, d')"
      and "Status Partial \<notin> set patch" and "b \<longrightarrow> run_reboot run" for patch rep b
  proof (cases "save e w0 patch d")
    case (Inl x)
    obtain r0 d0 where f: "failed_run e run x w1 d = (r0, d0)" by fastforce
    then show ?thesis using that Inl failed_run_facts [OF f] by auto
  next
    case (Inr d1)
    then show ?thesis using that tame_save [OF Inr] by (auto intro: tame_release)
  qed
  let ?pending = "reboot_pending (normalize_pmp_results (text_of e) (jprop result ''results''))"
  let ?armed = "rp_reboot (restart_plan e run result) \<and> a1"
  have asked: "?armed \<longrightarrow> run_reboot run" by (simp add: restart_plan_def plan_patch_reboot_def Let_def)
  show ?thesis
  proof (cases "?pending \<and> run_reboot run \<and> a0")
    case True
    obtain rep where "(case save e w0 [Status Idle, LastError None, Results []] d of
        Inl x \<Rightarrow> (\<lambda>b (r, d). (r, b, d)) True (failed_run e run x w1 d) | Inr d1 \<Rightarrow> (rep, True, d1\<lparr>installing := False\<rparr>)) = (r, armed, d')"
      using assms True unfolding conclude_def Let_def by simp
    then show ?thesis by (rule saves) (use True in simp_all)
  next
    case False
    show ?thesis
    proof (cases "result_status (text_of e) run result = ''success'' \<or> result_status (text_of e) run result = ''no_updates''")
      case good: True
      show ?thesis
      proof (cases "run_job run = []")
        case True
        then have "armed = ?armed" "d' = d\<lparr>installing := False\<rparr>"
          using assms False good unfolding conclude_def Let_def remember_success_ack_def by (simp_all split: if_splits)
        then show ?thesis using asked by (auto intro: tame_release)
      next
        case job: False
        have "(case save e w0 [SuccessAck (run_job run) (success_message e run result ?armed)] d of
            Inl x \<Rightarrow> (\<lambda>b (r, d). (r, b, d)) ?armed (failed_run e run x w1 d)
          | Inr d1 \<Rightarrow> ((0, success_message e run result ?armed), ?armed, d1\<lparr>installing := False\<rparr>)) = (r, armed, d')"
          using assms False good job unfolding conclude_def Let_def remember_success_ack_def by (simp split: if_splits)
        then show ?thesis by (rule saves) (use asked in simp_all)
      qed
    next
      case bad: False
      then have "armed = ?armed" "d' = d\<lparr>installing := False\<rparr>"
        using assms False unfolding conclude_def Let_def by (simp_all split: if_splits)
      then show ?thesis using asked by (auto intro: tame_release)
    qed
  qed
qed

section \<open>The invariant\<close>

definition pmp_inv :: "machine \<Rightarrow> bool" where
  "pmp_inv m \<longleftrightarrow> length (runs m) \<le> 1 \<and> (runs m \<noteq> [] \<longrightarrow> installing (dev m))
     \<and> remediating (dev m) = (remediations m > 0) \<and> remediations m \<le> 1 \<and> (installing (dev m) \<longrightarrow> remediations m = 0)
     \<and> status (saved (dev m)) \<noteq> Some Partial
     \<and> list_all (\<lambda>r. run_ids r \<noteq> [] \<and> list_all patch_id_pattern (run_ids r)) (calls m)
     \<and> list_all (\<lambda>x. fst x \<in> set (calls m)) (runs m)
     \<and> list_all (\<lambda>r. run_reboot r \<and> r \<in> set (calls m)) (armed_runs m)"

lemma fresh_pmp_inv: "pmp_inv fresh_device"
  by (simp add: pmp_inv_def fresh_device_def empty_state_def)

lemma remove_at_le1: "length xs \<le> 1 \<Longrightarrow> i < length xs \<Longrightarrow> remove_at i xs = []"
  by (cases xs) (auto simp: remove_at_def)

lemma dispatch_inv:
  assumes "pmp_inv m"
  shows "pmp_inv (pmp_step m (Dispatch e job payload w))"
proof -
  obtain r d where b: "begin_patch_install e job payload w (dev m) = (r, d)" by fastforce
  then show ?thesis
  proof (cases rule: begin_cases)
    case (reply st msg)
    then show ?thesis using assms b by (simp add: pmp_inv_def)
  next
    case asked_once
    from tame_save [OF asked_once(2)] show ?thesis using assms b asked_once(1) by (auto simp: pmp_inv_def tame_def)
  next
    case (unsaved x)
    then show ?thesis using assms b by (simp add: pmp_inv_def)
  next
    case (stuck x)
    then show ?thesis using assms b by (simp add: pmp_inv_def)
  next
    case (started ids md rb)
    let ?run = "\<lparr>run_job = job, run_mode = md, run_ids = ids, run_reboot = rb\<rparr>"
    have t: "tame (dev m\<lparr>installing := True\<rparr>) d" "installing d" using tame_save [OF started(2)] by auto
    have "runs m = []" using assms started(3) by (auto simp: pmp_inv_def)
    moreover have "pmp_step m (Dispatch e job payload w) = m\<lparr>dev := d, runs := runs m @ [(?run, None)], calls := calls m @ [?run]\<rparr>"
      using b started(1) by simp
    moreover have "list_all (\<lambda>r. run_reboot r \<and> r \<in> set (calls m @ [?run])) (armed_runs m)"
      using assms by (auto simp: pmp_inv_def list_all_iff)
    ultimately show ?thesis using assms t started(3-7) by (simp add: pmp_inv_def tame_def)
  qed
qed

lemma answer_inv:
  assumes "pmp_inv m"
  shows "pmp_inv (pmp_step m (Answer e i ans w0 w1))"
proof (cases "i < length (runs m) \<and> snd (runs m ! i) = None")
  case True
  let ?run = "fst (runs m ! i)"
  obtain r d where a: "take_answer e ?run ans w0 w1 (dev m) = (r, d)" by fastforce
  note f = take_answer_facts [OF a]
  have one: "length (runs m) = 1" "i = 0" using True assms by (auto simp: pmp_inv_def)
  then obtain x where x: "runs m = [x]" by (auto simp: length_Suc_conv)
  have inst: "installing (dev m)" "\<not> remediating (dev m)" using assms True by (auto simp: pmp_inv_def)
  show ?thesis
  proof (cases r)
    case None
    then have "pmp_step m (Answer e i ans w0 w1) =
        m\<lparr>dev := d, runs := [(fst x, Some (case ans of Inl x \<Rightarrow> JUndef | Inr resp \<Rightarrow> jprop resp ''result''))]\<rparr>"
      using True a one x by simp
    then show ?thesis using assms f None inst x by (auto simp: pmp_inv_def tame_def)
  next
    case (Some y)
    then have "pmp_step m (Answer e i ans w0 w1) = m\<lparr>dev := d, runs := [], replies := replies m @ [(run_job ?run, fst y, snd y)]\<rparr>"
      using True a one remove_at_le1 [of "runs m" i] by (cases y) simp
    then show ?thesis using assms f Some inst by (auto simp: pmp_inv_def tame_def)
  qed
next
  case False
  then have "pmp_step m (Answer e i ans w0 w1) = m" by auto
  then show ?thesis using assms by simp
qed

lemma conclude_step:
  assumes "i < length (runs m)" and "runs m ! i = (run, Some result)" and "conclude e run result a0 a1 w0 w1 (dev m) = (r, armed, d)"
  shows "pmp_step m (Conclude e i a0 a1 w0 w1) =
    m\<lparr>dev := d, runs := remove_at i (runs m), replies := replies m @ [(run_job run, fst r, snd r)], armed_runs := armed_runs m @ (if armed then [run] else [])\<rparr>"
  using assms by (cases r) simp

lemma conclude_inv:
  assumes "pmp_inv m"
  shows "pmp_inv (pmp_step m (Conclude e i a0 a1 w0 w1))"
proof (cases "i < length (runs m) \<and> snd (runs m ! i) \<noteq> None")
  case True
  then obtain run result where ri: "runs m ! i = (run, Some result)" by (cases "runs m ! i") auto
  obtain r armed d where c: "conclude e run result a0 a1 w0 w1 (dev m) = (r, armed, d)" by (metis prod_cases3)
  note f = conclude_facts [OF c]
  have "(run, Some result) \<in> set (runs m)" using True ri nth_mem by metis
  then have mem: "run \<in> set (calls m)" using assms by (auto simp: pmp_inv_def list_all_iff)
  have inst: "installing (dev m)" "\<not> remediating (dev m)" using assms True by (auto simp: pmp_inv_def)
  have "remove_at i (runs m) = []" using assms True by (intro remove_at_le1) (simp_all add: pmp_inv_def)
  then show ?thesis using assms f mem inst True unfolding conclude_step [OF conjunct1 [OF True] ri c]
    by (auto simp: pmp_inv_def tame_def)
next
  case False
  then have "pmp_step m (Conclude e i a0 a1 w0 w1) = m" by (auto split: prod.split option.split)
  then show ?thesis using assms by simp
qed

lemma arm_now_inv: "pmp_inv m \<Longrightarrow> pmp_inv (arm_now grace a m)"
  by (simp add: pmp_inv_def arm_now_def)

lemma reconcile_not_partial: "status s \<noteq> Some Partial \<Longrightarrow> status (reconcile_stale_pmp_state s) \<noteq> Some Partial"
  by (simp add: reconcile_stale_pmp_state_def update_status sets_error_some AGENT_RESTARTED_ERROR_def)

interpretation pmp: inv_machine pmp_step pmp_inv
proof
  fix m ev
  assume i: "pmp_inv m"
  show "pmp_inv (pmp_step m ev)"
  proof (cases ev)
    case (Dispatch e job payload w)
    then show ?thesis using dispatch_inv [OF i] by simp
  next
    case (Answer e i ans w0 w1)
    then show ?thesis using answer_inv [OF i] by simp
  next
    case (Conclude e i a0 a1 w0 w1)
    then show ?thesis using conclude_inv [OF i] by simp
  next
    case Restart
    then show ?thesis using i reconcile_not_partial [of "saved (dev m)"] by (simp add: pmp_inv_def)
  next
    case RemediateBegin
    then show ?thesis using i by (auto simp: try_start_remediate_def pmp_inv_def)
  next
    case RemediateEnd
    then show ?thesis using i by (auto simp: finish_remediate_def pmp_inv_def)
  next
    case (Updating b)
    then show ?thesis using i by (simp add: pmp_inv_def)
  next
    case (RebootBegin e payload a)
    have "pmp_inv (m\<lparr>reboots_waiting := ws\<rparr>)" for ws using i by (simp add: pmp_inv_def)
    then show ?thesis using i RebootBegin by (auto simp: arm_now_inv split: sum.split)
  next
    case (RebootArm k a)
    have "pmp_inv (m\<lparr>reboots_waiting := ws\<rparr>)" for ws using i by (simp add: pmp_inv_def)
    then show ?thesis using i RebootArm by (simp add: arm_now_inv)
  qed
qed

lemma reached: "pmp_inv (foldl pmp_step fresh_device evs)"
  by (rule pmp.run_inv [OF fresh_pmp_inv])




section \<open>A job that comes again\<close>

lemma begin_keeps_ack:
  assumes "begin_patch_install e job payload w d = (r, d')"
  shows "success_ack (saved d') = success_ack (saved d)"
  using assms
proof (cases rule: begin_cases)
  case asked_once
  from save_keeps_ack [OF asked_once(2)] show ?thesis by simp
next
  case (started ids md rb)
  from save_keeps_ack [OF started(2)] show ?thesis by simp
qed simp_all

fun is_conclude :: "event \<Rightarrow> bool" where
  "is_conclude (Conclude e i a0 a1 w0 w1) \<longleftrightarrow> True"
| "is_conclude ev \<longleftrightarrow> False"

lemma step_keeps_ack:
  assumes "\<not> is_conclude ev"
  shows "success_ack (saved (dev (pmp_step m ev))) = success_ack (saved (dev m))"
proof (cases ev)
  case (Dispatch e job payload w)
  obtain r d where b: "begin_patch_install e job payload w (dev m) = (r, d)" by fastforce
  then show ?thesis using begin_keeps_ack [OF b] Dispatch by (cases r) simp_all
next
  case (Answer e i ans w0 w1)
  obtain r d where b: "take_answer e (fst (runs m ! i)) ans w0 w1 (dev m) = (r, d)" by fastforce
  then show ?thesis using take_answer_facts [OF b] Answer by (cases r) auto
next
  case Restart
  then show ?thesis by (simp add: reconcile_stale_pmp_state_def update_keeps_ack)
next
  case RemediateBegin
  then show ?thesis by (auto simp: try_start_remediate_def)
next
  case RemediateEnd
  then show ?thesis by (simp add: finish_remediate_def)
next
  case (RebootBegin e payload a)
  then show ?thesis by (simp add: arm_now_def split: sum.split)
next
  case (RebootArm i a)
  then show ?thesis by (simp add: arm_now_def)
qed (use assms in auto)

lemma run_keeps_ack: "\<not> list_ex is_conclude es \<Longrightarrow> success_ack (saved (dev (foldl pmp_step m es))) = success_ack (saved (dev m))"
  by (induction es arbitrary: m) (auto simp: step_keeps_ack)

lemma conclude_success:
  assumes "conclude e run result a0 a1 w0 w1 d = ((0, msg), armed, d')" and "run_job run \<noteq> []"
  shows "success_ack (saved d') = Some (run_job run, msg)"
proof -
  have two: "fst (fst (failed_run e run x w d)) = 2" for x w
    by (simp add: failed_run_def split: sum.split)
  let ?pending = "reboot_pending (normalize_pmp_results (text_of e) (jprop result ''results''))"
  let ?armed = "rp_reboot (restart_plan e run result) \<and> a1"
  have not_failed: "(case failed_run e run x w d of (r, d1) \<Rightarrow> (r, b, d1)) \<noteq> ((0, msg), armed, d')" for x w b
  proof
    assume "(case failed_run e run x w d of (r, d1) \<Rightarrow> (r, b, d1)) = ((0, msg), armed, d')"
    then show False using two [of x w] by (cases "failed_run e run x w d") auto
  qed
  show ?thesis
  proof (cases "?pending \<and> run_reboot run \<and> a0")
    case True
    then show ?thesis using assms(1) not_failed unfolding conclude_def Let_def by (cases w0) (auto simp: save_def)
  next
    case False
    show ?thesis
    proof (cases "result_status (text_of e) run result = ''success'' \<or> result_status (text_of e) run result = ''no_updates''")
      case good: True
      have "(case save e w0 [SuccessAck (run_job run) (success_message e run result ?armed)] d of
            Inl x \<Rightarrow> (\<lambda>b (r, d). (r, b, d)) ?armed (failed_run e run x w1 d)
          | Inr d1 \<Rightarrow> ((0, success_message e run result ?armed), ?armed, d1\<lparr>installing := False\<rparr>)) = ((0, msg), armed, d')"
        using assms False good unfolding conclude_def Let_def remember_success_ack_def by (simp split: if_splits)
      then show ?thesis using not_failed by (cases w0) (auto simp: save_def update_pmp_state_def Let_def)
    next
      case bad: False
      then show ?thesis using assms(1) False unfolding conclude_def Let_def by (simp split: if_splits)
    qed
  qed
qed

text \<open>A success is repeated, not run again. Once an installation has been acknowledged as a success, the same job dispatched again is answered with
  the same words and changes nothing: no call of the service, no new state, no restart; also after restarts of the agent, failed jobs and remediations
  in between, as long as no other installation has ended and the guards let jobs through.\<close>

theorem success_is_repeated:
  assumes "replies (pmp_step m (Conclude e i a0 a1 w0 w1)) = replies m @ [(job, 0, msg)]" and "job \<noteq> []"
    and "\<not> list_ex is_conclude es" and "m2 = foldl pmp_step (pmp_step m (Conclude e i a0 a1 w0 w1)) es"
    and "patch_enabled e2" and "pmp_enabled e2"
    and "\<not> installing (dev m2)" and "\<not> remediating (dev m2)" and "\<not> updating (dev m2)"
  shows "pmp_step m2 (Dispatch e2 job payload w) = m2\<lparr>replies := replies m2 @ [(job, 0, msg)]\<rparr>"
proof -
  have nt: "pmp_step m (Conclude e i a0 a1 w0 w1) \<noteq> m" using assms(1) by (metis append_self_conv not_Cons_self2)
  then have i: "i < length (runs m)" by (auto split: if_splits)
  obtain run ro where ri: "runs m ! i = (run, ro)" by fastforce
  obtain result where ro: "ro = Some result" using nt i ri by (cases ro) simp_all
  obtain r armed d where c: "conclude e run result a0 a1 w0 w1 (dev m) = (r, armed, d)" by (metis prod_cases3)
  note st = conclude_step [OF i ri [unfolded ro] c]
  have "run_job run = job" "r = (0, msg)" using assms(1) unfolding st by (auto simp: prod_eq_iff)
  with conclude_success [OF c [unfolded \<open>r = (0, msg)\<close>]] assms(2) have "success_ack (saved d) = Some (job, msg)" by simp
  then have "success_ack (saved (dev m2)) = Some (job, msg)" unfolding assms(4) run_keeps_ack [OF assms(3)] st by simp
  then have "replay_for_redispatch job (saved (dev m2)) = Some ((0, msg), [])" using assms(2) by (simp add: replay_for_redispatch_def)
  then have "begin_patch_install e2 job payload w (dev m2) = (Reply 0 msg, dev m2)" using assms(5-9) by (simp add: begin_patch_install_def)
  then show ?thesis by simp
qed

section \<open>A sample\<close>

definition sample_pmp :: pmp_env where
  "sample_pmp = \<lparr>text_of = (\<lambda>_. ''1''), patch_enabled = True, pmp_enabled = True, os_platform = Windows, ellipsis = ''...'', dash = ''-'', io_error = ''ENOSPC''\<rparr>"

definition patch_job :: "bool \<Rightarrow> jsval" where
  "patch_job rb = JObj [(''kbArticleIds'', JArr [JStr ''KB5001'']), (''rebootIfRequired'', JBool rb)]"

definition sample_pmp_run :: "string \<Rightarrow> bool \<Rightarrow> install_run" where
  "sample_pmp_run job rb = \<lparr>run_job = job, run_mode = ''install'', run_ids = [''KB5001''], run_reboot = rb\<rparr>"

definition starting_patch :: "string \<Rightarrow> change list" where
  "starting_patch job = [Status InProgress, JobId (Some job), Mode ''install'', SelectedCount (Some (Fin 1)),
     InstalledCount (Fin 0), FailedCount (Fin 0), RebootRequired False, Results [], LastError None]"

lemma sample_selection:
  "selected_patch_ids t (patch_job rb) = Some [''KB5001'']" "to_lower (trim (mode_or t ''install'' (patch_job rb))) = ''install''"
  "jprop (patch_job rb) ''rebootIfRequired'' = JBool rb"
  by (simp_all add: selected_patch_ids_def patch_job_def text_or_empty_def nullish_def string_of_def js_defs is_space_def char_code_def Let_def
      lower_char_def mode_or_def)

lemma sample_ids_safe: "unsafe_patch_ids [''KB5001''] Windows = []"
  by code_simp

lemma sample_dispatch:
  assumes "\<not> installing d" and "\<not> remediating d" and "\<not> updating d" and "replay_for_redispatch job (saved d) = None"
  shows "begin_patch_install sample_pmp job (patch_job rb) True d =
      (Started (sample_pmp_run job rb), d\<lparr>installing := True, saved := update_pmp_state (starting_patch job) (saved d)\<rparr>)"
    and "begin_patch_install sample_pmp job (patch_job rb) False d = (Thrown ''ENOSPC'', d\<lparr>installing := True\<rparr>)"
proof -
  have e: "text_of sample_pmp = (\<lambda>_. ''1'')" "patch_enabled sample_pmp" "pmp_enabled sample_pmp" "os_platform sample_pmp = Windows" "io_error sample_pmp = ''ENOSPC''"
    by (simp_all add: sample_pmp_def)
  show "begin_patch_install sample_pmp job (patch_job rb) True d =
      (Started (sample_pmp_run job rb), d\<lparr>installing := True, saved := update_pmp_state (starting_patch job) (saved d)\<rparr>)"
    and "begin_patch_install sample_pmp job (patch_job rb) False d = (Thrown ''ENOSPC'', d\<lparr>installing := True\<rparr>)"
    using assms by (simp_all add: begin_patch_install_def e sample_selection sample_ids_safe save_def starting_patch_def sample_pmp_run_def Let_def)
qed

definition done_reply :: "string \<Rightarrow> string + jsval" where
  "done_reply st = Inr (JObj [(''ok'', JBool True), (''result'', JObj [(''status'', JStr st), (''installedCount'', JNum (Fin 1))])])"

definition done_result :: "string \<Rightarrow> jsval" where
  "done_result st = JObj [(''status'', JStr st), (''installedCount'', JNum (Fin 1))]"

lemma done_facts:
  "raw_status t (done_result st) = to_lower (trim (if st = [] then [] else st))" "jprop (done_result st) ''results'' = JUndef"
  "jprop (done_result st) ''rebootRequired'' = JUndef" "count_of t (done_result st) ''installedCount'' = Fin 1"
  by (simp_all add: done_result_def raw_status_def count_of_def string_of_def nullish_def number_of_value_def Let_def)

lemma lower_success [simp]: "to_lower (trim ''success'') = ''success''" "to_lower (trim ''partial'') = ''partial''"
  by (simp_all add: js_defs is_space_def char_code_def lower_char_def)

lemma sample_answer:
  assumes "st = ''success'' \<or> st = ''partial''"
  shows "\<exists>d'. take_answer sample_pmp (sample_pmp_run job rb) (done_reply st) True w1 d = (None, d')"
    and "take_answer sample_pmp (sample_pmp_run job rb) (done_reply ''success'') True w1 d = (None, d') \<Longrightarrow> status (saved d') = Some Success \<and> last_error (saved d') = None"
  using assms
  by (auto simp: take_answer_def done_reply_def done_result_def [symmetric] done_facts save_def Let_def update_pmp_state_def result_status_def is_empty_match_def num_eq_def
      sample_pmp_def split: if_splits)

lemma sample_conclude:
  "\<exists>msg d'. conclude sample_pmp (sample_pmp_run job False) (done_result ''success'') a0 a1 True w1 d = ((0, msg), False, d') \<and> remediating d' = remediating d \<and> updating d' = updating d
     \<and> \<not> installing d'"
  by (simp add: conclude_def done_facts save_def Let_def result_status_def is_empty_match_def num_eq_def restart_plan_def plan_patch_reboot_def sample_pmp_run_def
      remember_success_ack_def update_pmp_state_def normalize_pmp_results_def reboot_pending_def split: list.split)

theorem success_is_repeated_witness:
  "\<exists>msg d2. pmp_step \<lparr>dev = d2, runs = [], reboots_waiting = [], remediations = 0, calls = [], replies = [(''j'', 0, msg)], armed_runs = [], armed_now = []\<rparr>
       (Dispatch sample_pmp ''j'' JNull True)
     = \<lparr>dev = d2, runs = [], reboots_waiting = [], remediations = 0, calls = [], replies = [(''j'', 0, msg), (''j'', 0, msg)], armed_runs = [], armed_now = []\<rparr>
     \<and> \<not> installing d2"
proof -
  let ?m = "fresh_device\<lparr>runs := [(sample_pmp_run ''j'' False, Some (done_result ''success''))]\<rparr>"
  let ?c = "Conclude sample_pmp 0 True True True True"
  obtain msg d where c: "conclude sample_pmp (sample_pmp_run ''j'' False) (done_result ''success'') True True True True (dev ?m) = ((0, msg), False, d)"
    and f: "remediating d = remediating (dev ?m)" "updating d = updating (dev ?m)" "\<not> installing d"
    using sample_conclude by blast
  have st: "pmp_step ?m ?c = fresh_device\<lparr>dev := d, replies := [(''j'', 0, msg)]\<rparr>"
    using conclude_step [OF _ _ c, where i = 0] by (simp add: fresh_device_def remove_at_def sample_pmp_run_def)
  let ?d2 = "\<lparr>saved = reconcile_stale_pmp_state (saved d), installing = False, remediating = False, updating = False\<rparr>"
  let ?m2 = "\<lparr>dev = ?d2, runs = [], reboots_waiting = [], remediations = 0, calls = [], replies = [(''j'', 0, msg)], armed_runs = [], armed_now = []\<rparr>"
  have r: "replies (pmp_step ?m ?c) = replies ?m @ [(''j'', 0, msg)]" unfolding st by (simp add: fresh_device_def)
  have m2: "?m2 = foldl pmp_step (pmp_step ?m ?c) [Restart]" unfolding st by (simp add: fresh_device_def)
  have "pmp_step ?m2 (Dispatch sample_pmp ''j'' JNull True) = ?m2\<lparr>replies := replies ?m2 @ [(''j'', 0, msg)]\<rparr>"
    by (rule success_is_repeated [OF r _ _ m2]) (simp_all add: sample_pmp_def)
  also have "?m2\<lparr>replies := replies ?m2 @ [(''j'', 0, msg)]\<rparr> = \<lparr>dev = ?d2, runs = [], reboots_waiting = [], remediations = 0, calls = [],
      replies = [(''j'', 0, msg), (''j'', 0, msg)], armed_runs = [], armed_now = []\<rparr>" by simp
  finally have "pmp_step ?m2 (Dispatch sample_pmp ''j'' JNull True) = \<lparr>dev = ?d2, runs = [], reboots_waiting = [], remediations = 0, calls = [],
      replies = [(''j'', 0, msg), (''j'', 0, msg)], armed_runs = [], armed_now = []\<rparr>" .
  moreover have "\<not> installing ?d2" by simp
  ultimately show ?thesis by (intro exI conjI)
qed

section \<open>When a write fails or the agent stops\<close>

lemma status_stays: "status (saved (dev (foldl pmp_step fresh_device evs))) \<noteq> Some Partial"
  using reached [of evs] by (simp add: pmp_inv_def)

text \<open>The status \<open>partial\<close> is never saved. Whatever happens, the saved state of the patching never says \<open>partial\<close>: the answer of the service that
  says so is saved together with an error, and an error always makes the status \<open>failed\<close>.\<close>

theorem partial_never_saved:
  "status (saved (dev (foldl pmp_step fresh_device evs))) \<noteq> Some Partial
     \<and> (let (r, d') = take_answer sample_pmp (sample_pmp_run job rb) (done_reply ''partial'') True w1 d in
          r = None \<and> status (saved d') = Some Failed \<and> last_error (saved d') = Some ''patch_install partial'')"
proof -
  have ok: "text_of sample_pmp = (\<lambda>_. ''1'')" "jprop (JObj [(''ok'', JBool True), (''result'', v)]) ''result'' = v"
    "jprop (JObj [(''ok'', JBool True), (''result'', v)]) ''ok'' = JBool True" for v by (simp_all add: sample_pmp_def)
  show ?thesis using status_stays [of evs]
    by (simp add: take_answer_def done_reply_def done_result_def [symmetric] done_facts save_def Let_def update_status result_status_def
        is_empty_match_def update_pmp_state_def ok)
qed

lemma unknown_outcome:
  assumes "status s = Some InProgress" and "job_id s = Some job" and "job \<noteq> []" and "\<forall>m. success_ack s \<noteq> Some (job, m)"
  shows "replay_for_redispatch job (reconcile_stale_pmp_state s) = Some ((2, INTERRUPTED_BY_RESTART_MESSAGE), [JobId None])"
    and "replay_for_redispatch job (update_pmp_state [JobId None] (reconcile_stale_pmp_state s)) = None"
  using assms by (auto simp: reconcile_stale_pmp_state_def update_pmp_state_def replay_for_redispatch_def AGENT_RESTARTED_ERROR_def Let_def split: option.split)

text \<open>C22. An interrupted job is told so, once. If the agent restarts while the job is being installed and the job comes again, it is answered that the
  outcome is unknown, and nothing is installed; when it comes a third time, it is installed again.\<close>

theorem interrupted_job_is_told_once:
  assumes "status (saved (dev m)) = Some InProgress" and "job_id (saved (dev m)) = Some job" and "job \<noteq> []"
    and "\<forall>msg. success_ack (saved (dev m)) \<noteq> Some (job, msg)"
    and "patch_enabled e" and "pmp_enabled e" and "m2 = pmp_step (pmp_step m Restart) (Dispatch e job payload True)"
  shows "replies m2 = replies m @ [(job, 2, INTERRUPTED_BY_RESTART_MESSAGE)] \<and> calls m2 = calls m \<and> runs m2 = []
    \<and> calls (pmp_step m2 (Dispatch sample_pmp job (patch_job rb) True)) = calls m @ [sample_pmp_run job rb]"
proof -
  note u = unknown_outcome [OF assms(1-4)]
  let ?s = "update_pmp_state [JobId None] (reconcile_stale_pmp_state (saved (dev m)))"
  let ?d = "\<lparr>saved = reconcile_stale_pmp_state (saved (dev m)), installing = False, remediating = False, updating = False\<rparr>"
  have "begin_patch_install e job payload True ?d = (Reply 2 INTERRUPTED_BY_RESTART_MESSAGE, ?d\<lparr>saved := ?s\<rparr>)"
    using assms(5,6) by (simp add: begin_patch_install_def u save_def)
  then have m2: "m2 = m\<lparr>dev := ?d\<lparr>saved := ?s\<rparr>, runs := [], reboots_waiting := [], remediations := 0,
      replies := replies m @ [(job, 2, INTERRUPTED_BY_RESTART_MESSAGE)]\<rparr>" unfolding assms(7) by simp
  have d: "begin_patch_install sample_pmp job (patch_job rb) True (dev m2)
      = (Started (sample_pmp_run job rb), dev m2\<lparr>installing := True, saved := update_pmp_state (starting_patch job) (saved (dev m2))\<rparr>)"
    by (rule sample_dispatch) (simp_all add: m2 u)
  have "replies m2 = replies m @ [(job, 2, INTERRUPTED_BY_RESTART_MESSAGE)]" "calls m2 = calls m" "runs m2 = []" unfolding m2 by simp_all
  then show ?thesis by (simp add: d)
qed

lemma first_dispatch:
  "pmp_step fresh_device (Dispatch sample_pmp job (patch_job rb) True)
     = fresh_device\<lparr>dev := (dev fresh_device)\<lparr>installing := True, saved := update_pmp_state (starting_patch job) empty_state\<rparr>,
         runs := [(sample_pmp_run job rb, None)], calls := [sample_pmp_run job rb]\<rparr>"
proof -
  have "begin_patch_install sample_pmp job (patch_job rb) True (dev fresh_device)
      = (Started (sample_pmp_run job rb), (dev fresh_device)\<lparr>installing := True, saved := update_pmp_state (starting_patch job) (saved (dev fresh_device))\<rparr>)"
    by (rule sample_dispatch) (simp_all add: fresh_device_def replay_for_redispatch_def empty_state_def)
  then show ?thesis by (simp add: fresh_device_def)
qed

lemma starting_facts:
  "status (update_pmp_state (starting_patch job) s) = Some InProgress" "job_id (update_pmp_state (starting_patch job) s) = Some job"
  "success_ack (update_pmp_state (starting_patch job) s) = success_ack s"
  by (simp_all add: update_pmp_state_def starting_patch_def Let_def)

theorem interrupted_job_is_told_once_witness:
  "let m2 = foldl pmp_step fresh_device [Dispatch sample_pmp ''j'' (patch_job True) True, Restart, Dispatch sample_pmp ''j'' (patch_job True) True] in
     replies m2 = [(''j'', 2, INTERRUPTED_BY_RESTART_MESSAGE)] \<and> calls m2 = [sample_pmp_run ''j'' True] \<and> runs m2 = []
     \<and> calls (pmp_step m2 (Dispatch sample_pmp ''j'' (patch_job True) True)) = [sample_pmp_run ''j'' True, sample_pmp_run ''j'' True]"
proof -
  let ?m = "pmp_step fresh_device (Dispatch sample_pmp ''j'' (patch_job True) True)"
  have h: "status (saved (dev ?m)) = Some InProgress" "job_id (saved (dev ?m)) = Some ''j''" "''j'' \<noteq> []"
    "\<forall>msg. success_ack (saved (dev ?m)) \<noteq> Some (''j'', msg)"
    unfolding first_dispatch by (simp_all add: starting_facts empty_state_def)
  have r: "replies ?m = []" "calls ?m = [sample_pmp_run ''j'' True]" unfolding first_dispatch by (simp_all add: fresh_device_def)
  note t = interrupted_job_is_told_once [OF h _ _ refl, of sample_pmp "patch_job True" True, unfolded r]
  have f: "foldl pmp_step fresh_device [Dispatch sample_pmp ''j'' (patch_job True) True, Restart, Dispatch sample_pmp ''j'' (patch_job True) True]
      = pmp_step (pmp_step ?m Restart) (Dispatch sample_pmp ''j'' (patch_job True) True)" by (simp only: foldl.simps)
  show ?thesis unfolding f Let_def using t by (simp only: append.simps simp_thms) (simp add: sample_pmp_def)
qed

text \<open>Once the flag is set and no installation is under way, only a restart of the agent clears it.\<close>

lemma stuck_step:
  assumes "installing (dev m)" and "runs m = []" and "ev \<noteq> Restart"
  shows "installing (dev (pmp_step m ev)) \<and> runs (pmp_step m ev) = [] \<and> calls (pmp_step m ev) = calls m \<and> remediations (pmp_step m ev) \<le> remediations m"
proof (cases ev)
  case (Dispatch e job payload w)
  obtain st msg where "begin_patch_install e job payload w (dev m) = (Reply st msg, dev m)" using assms(1)
    by (cases "patch_enabled e"; cases "pmp_enabled e") (auto simp: begin_patch_install_def)
  then show ?thesis using assms Dispatch by simp
next
  case RemediateBegin
  then show ?thesis using assms by (simp add: try_start_remediate_def)
next
  case RemediateEnd
  then show ?thesis using assms by (simp add: finish_remediate_def)
next
  case (RebootBegin e payload a)
  then show ?thesis using assms by (simp add: arm_now_def split: sum.split)
next
  case (RebootArm i a)
  then show ?thesis using assms by (simp add: arm_now_def)
qed (use assms in simp_all)

lemma stuck_run:
  assumes "installing (dev m)" and "runs m = []" and "Restart \<notin> set evs"
  shows "calls (foldl pmp_step m evs) = calls m \<and> remediations (foldl pmp_step m evs) \<le> remediations m"
  using assms
proof (induction evs arbitrary: m)
  case (Cons ev evs)
  then have n: "ev \<noteq> Restart" "Restart \<notin> set evs" by auto
  note s = stuck_step [OF Cons.prems(1,2) n(1)]
  then show ?case using Cons.IH [of "pmp_step m ev"] n(2) by auto
qed simp

text \<open>C23. A failed write stops the patching for good. If the state file cannot be written at the moment a job begins (a full disk), the job that would have
  started is reported as failed, but its flag stays set: whatever comes afterwards, no patch is installed and no remediation begins until the
  agent restarts, also when the disk has room again.\<close>

theorem failed_write_blocks_patching:
  assumes "runs m = []" and "begin_patch_install e job payload True (dev m) = (Started run, d)" and "Restart \<notin> set evs"
    and "m2 = foldl pmp_step (pmp_step m (Dispatch e job payload False)) evs"
  shows "calls m2 = calls m \<and> remediations m2 \<le> remediations m"
proof -
  have "\<exists>x. begin_patch_install e job payload False (dev m) = (Thrown x, (dev m)\<lparr>installing := True\<rparr>)"
    using assms(2) by (auto simp: begin_patch_install_def save_def Let_def split: if_splits option.splits prod.splits)
  then obtain x where b: "begin_patch_install e job payload False (dev m) = (Thrown x, (dev m)\<lparr>installing := True\<rparr>)" by blast
  have st: "pmp_step m (Dispatch e job payload False) = m\<lparr>dev := (dev m)\<lparr>installing := True\<rparr>, replies := replies m @ [(job, 2, x)]\<rparr>" by (simp add: b)
  have "calls m2 = calls (pmp_step m (Dispatch e job payload False)) \<and> remediations m2 \<le> remediations (pmp_step m (Dispatch e job payload False))"
    unfolding assms(4) by (rule stuck_run) (use assms(1,3) in \<open>simp_all add: b\<close>)
  then show ?thesis unfolding st by simp
qed

theorem failed_write_blocks_patching_witness:
  "let m2 = foldl pmp_step (pmp_step fresh_device (Dispatch sample_pmp ''j'' (patch_job False) False))
     [Dispatch sample_pmp ''j'' (patch_job False) True, RemediateBegin, Dispatch sample_pmp ''k'' (patch_job False) True] in
     calls m2 = [] \<and> remediations m2 = 0"
proof -
  have b: "begin_patch_install sample_pmp ''j'' (patch_job False) True (dev fresh_device) = (Started (sample_pmp_run ''j'' False),
      (dev fresh_device)\<lparr>installing := True, saved := update_pmp_state (starting_patch ''j'') (saved (dev fresh_device))\<rparr>)"
    by (rule sample_dispatch) (simp_all add: fresh_device_def replay_for_redispatch_def empty_state_def)
  have r: "runs fresh_device = []" "calls fresh_device = []" "remediations fresh_device = 0" by (simp_all add: fresh_device_def)
  show ?thesis unfolding Let_def
    using failed_write_blocks_patching [OF r(1) b _ refl, of "[Dispatch sample_pmp ''j'' (patch_job False) True, RemediateBegin,
        Dispatch sample_pmp ''k'' (patch_job False) True]"] unfolding r
    by (simp del: pmp_step.simps foldl.simps)
qed

lemma answer_step:
  assumes "runs m = [(run, None)]" and "take_answer e run (Inr resp) w0 w1 (dev m) = (None, d)"
  shows "pmp_step m (Answer e 0 (Inr resp) w0 w1) = m\<lparr>dev := d, runs := [(run, Some (jprop resp ''result''))]\<rparr>"
  using assms by simp

lemma answered_success:
  "\<exists>d. pmp_step (pmp_step fresh_device (Dispatch sample_pmp job (patch_job rb) True)) (Answer sample_pmp 0 (done_reply ''success'') True True)
     = fresh_device\<lparr>dev := d, runs := [(sample_pmp_run job rb, Some (done_result ''success''))], calls := [sample_pmp_run job rb]\<rparr>
     \<and> status (saved d) = Some Success \<and> last_error (saved d) = None \<and> success_ack (saved d) = None"
proof -
  let ?m = "pmp_step fresh_device (Dispatch sample_pmp job (patch_job rb) True)"
  let ?resp = "JObj [(''ok'', JBool True), (''result'', done_result ''success'')]"
  have dr: "done_reply ''success'' = Inr ?resp" by (simp add: done_reply_def done_result_def)
  obtain d where a: "take_answer sample_pmp (sample_pmp_run job rb) (Inr ?resp) True True (dev ?m) = (None, d)"
    using sample_answer(1) [of "''success''"] unfolding dr by blast
  have "jprop ?resp ''result'' = done_result ''success''" by simp
  moreover have "runs ?m = [(sample_pmp_run job rb, None)]" unfolding first_dispatch by simp
  ultimately have "pmp_step ?m (Answer sample_pmp 0 (Inr ?resp) True True) = ?m\<lparr>dev := d, runs := [(sample_pmp_run job rb, Some (done_result ''success''))]\<rparr>"
    using answer_step [OF _ a] by metis
  moreover have "success_ack (saved d) = None" using take_answer_facts [OF a] unfolding first_dispatch by (simp add: starting_facts empty_state_def)
  moreover have "status (saved d) = Some Success" "last_error (saved d) = None" using sample_answer(2) [of "''success''", OF _ a [folded dr]] by simp_all
  ultimately show ?thesis unfolding dr first_dispatch by (intro exI [of _ d]) simp
qed

text \<open>A success that was not yet acknowledged is installed again. If the agent restarts after the result of an installation was saved as a success
  and before the scan that precedes the reply has ended, the same job dispatched again installs the same patches again.\<close>

theorem crash_before_ack_reinstalls:
  "let m = foldl pmp_step fresh_device [Dispatch sample_pmp job (patch_job rb) True, Answer sample_pmp 0 (done_reply ''success'') True True] in
     status (saved (dev m)) = Some Success
     \<and> calls (foldl pmp_step m [Restart, Dispatch sample_pmp job (patch_job rb) True]) = [sample_pmp_run job rb, sample_pmp_run job rb]"
proof -
  obtain d where d: "foldl pmp_step fresh_device [Dispatch sample_pmp job (patch_job rb) True, Answer sample_pmp 0 (done_reply ''success'') True True]
      = fresh_device\<lparr>dev := d, runs := [(sample_pmp_run job rb, Some (done_result ''success''))], calls := [sample_pmp_run job rb]\<rparr>"
    and s: "status (saved d) = Some Success" "last_error (saved d) = None" "success_ack (saved d) = None"
    using answered_success [of job rb] unfolding foldl.simps by blast
  let ?d = "\<lparr>saved = saved d, installing = False, remediating = False, updating = False\<rparr>"
  have "reconcile_stale_pmp_state (saved d) = saved d" using s by (simp add: reconcile_stale_pmp_state_def)
  moreover have "begin_patch_install sample_pmp job (patch_job rb) True ?d
      = (Started (sample_pmp_run job rb), ?d\<lparr>installing := True, saved := update_pmp_state (starting_patch job) (saved ?d)\<rparr>)"
    by (rule sample_dispatch) (simp_all add: replay_for_redispatch_def s)
  ultimately show ?thesis using s unfolding d Let_def by simp
qed

definition reboot_job :: jsval where
  "reboot_job = JObj [(''when'', JStr ''now''), (''verification'', JObj [])]"

lemma reboot_job_facts:
  "wants_baseline t ''device_reboot'' reboot_job" "plan_device_reboot reboot_job = Inr (60000, ''Tracenium: restart requested by your IT administrator'')"
  by (simp_all add: wants_baseline_def plan_device_reboot_def reboot_job_def sanitize_reason_def nullish_def DEVICE_REBOOT_DEFAULT_DELAY_S_def)

text \<open>The machine can restart in the middle of an installation. A restart on demand that asks for verification waits for its baseline; if a patch job
  begins in the meantime, the restart is armed all the same, with the installation under way.\<close>

theorem restart_in_mid_install:
  "let m = foldl pmp_step fresh_device [RebootBegin sample_pmp reboot_job True, Dispatch sample_pmp job (patch_job rb) True, RebootArm 0 True] in
     armed_now m = [(60000, 1)] \<and> runs m = [(sample_pmp_run job rb, None)] \<and> installing (dev m)"
proof -
  let ?m = "fresh_device\<lparr>reboots_waiting := [60000]\<rparr>"
  have b: "pmp_step fresh_device (RebootBegin sample_pmp reboot_job True) = ?m"
    by (simp add: begin_device_reboot_def reboot_job_facts fresh_device_def)
  have "begin_patch_install sample_pmp job (patch_job rb) True (dev ?m)
      = (Started (sample_pmp_run job rb), (dev ?m)\<lparr>installing := True, saved := update_pmp_state (starting_patch job) (saved (dev ?m))\<rparr>)"
    by (rule sample_dispatch) (simp_all add: fresh_device_def replay_for_redispatch_def empty_state_def)
  then show ?thesis unfolding foldl.simps b by (simp add: fresh_device_def arm_now_def arm_device_reboot_def remove_at_def)
qed

section \<open>Every patch asked for is answered\<close>

lemma covered_append: "covered_ids (xs @ ys) = covered_ids xs \<union> covered_ids ys"
  by (simp add: covered_ids_def)

lemma covered_unmatched: "i \<in> set ids \<Longrightarrow> i \<noteq> [] \<Longrightarrow> to_lower i \<in> covered_ids (unmatched_results ids)"
  by (auto simp: covered_ids_def unmatched_results_def)

lemma all_named: "unmatched_requested (filter (\<lambda>i. i \<noteq> []) ids) (back @ unmatched_results (unmatched_requested ids back)) = []"
  using covered_unmatched [of _ "unmatched_requested ids back"] by (auto simp: unmatched_requested_def filter_empty_conv covered_append)

text \<open>Every patch asked for is answered. When the answer of the service lets a job go on, each identifier of the dispatch is
  named in the saved results, by the service or as not listed; when the answer ends the job, its lock is free.\<close>

theorem every_request_is_named:
  "case take_answer e run ans w0 w1 d of
     (None, d') \<Rightarrow> (case results (saved d') of Some rs \<Rightarrow> unmatched_requested (filter (\<lambda>i. i \<noteq> []) (run_ids run)) rs = [] | None \<Rightarrow> False)
   | (Some r, d') \<Rightarrow> \<not> installing d'"
proof -
  obtain r d' where t: "take_answer e run ans w0 w1 d = (r, d')" by fastforce
  show ?thesis
  proof (cases r)
    case None
    have failed: "(case failed_run e run m w d of (r, d) \<Rightarrow> (Some r, d)) \<noteq> (None, d')" for m w by (auto split: prod.split)
    show ?thesis using t unfolding None
      by (auto simp: take_answer_def Let_def failed all_named save_def update_pmp_state_def split: sum.splits if_splits)
  next
    case (Some x)
    then show ?thesis using t take_answer_facts [OF t] by simp
  qed
qed

end
