(* ===== verification/Json_Wire.thy ===== *)
theory Json_Wire
  imports Canonical
begin

text \<open>
  Values on the wire inside an acknowledgement: the text of \<open>JSON.stringify\<close>, its UTF-8 bytes and their base64url form
  (\<open>Buffer.from(JSON.stringify(v), "utf8").toString("base64url")\<close>), with the reading of the last two and what the whole keeps.
\<close>

section \<open>JSON.stringify\<close>

text \<open>The entries of an object in their order, those that are undefined left out; \<open>undefined\<close> in a list prints as \<open>null\<close>.\<close>

function json_text :: "(rat \<Rightarrow> string) \<Rightarrow> jsval \<Rightarrow> string" where
  "json_text pr JUndef = ''null''"
| "json_text pr JNull = ''null''"
| "json_text pr (JBool b) = json_bool b"
| "json_text pr (JNum n) = json_number pr n"
| "json_text pr (JStr s) = json_string s"
| "json_text pr (JArr vs) = ''['' @ join_with '','' (map (json_text pr) vs) @ '']''"
| "json_text pr (JObj kvs) =
     ''{'' @ join_with '','' (map (\<lambda>(k, v). json_string k @ '':'' @ json_text pr v) (filter (\<lambda>(k, v). v \<noteq> JUndef) kvs)) @ ''}''"
  by pat_completeness auto
termination
  by (relation "measure (\<lambda>(pr, v). size v)") (auto simp: size_elem size_entry)

section \<open>UTF-8\<close>

definition utf8_char :: "char \<Rightarrow> nat list" where
  "utf8_char c = (let n = char_code c in if n < 128 then [n] else [192 + n div 64, 128 + n mod 64])"

definition utf8 :: "string \<Rightarrow> nat list" where
  "utf8 s = concat (map utf8_char s)"

fun read_utf8 :: "nat list \<Rightarrow> string" where
  "read_utf8 [] = []"
| "read_utf8 [a] = [char_of a]"
| "read_utf8 (a # b # r) = (if a < 128 then char_of a # read_utf8 (b # r) else char_of ((a - 192) * 64 + (b - 128)) # read_utf8 r)"

lemma read_utf8_Cons: "a < 128 \<Longrightarrow> read_utf8 (a # r) = char_of a # read_utf8 r"
  by (cases r) simp_all

lemma read_utf8: "read_utf8 (utf8 s) = s"
proof (induction s)
  case (Cons c s)
  show ?case
  proof (cases "char_code c < 128")
    case True
    then show ?thesis using Cons.IH by (simp add: utf8_def utf8_char_def Let_def read_utf8_Cons)
  next
    case False
    have "char_code c div 64 * 64 + char_code c mod 64 = char_code c" by simp
    then show ?thesis using False Cons.IH by (simp add: utf8_def utf8_char_def Let_def)
  qed
qed (simp add: utf8_def)

lemma utf8_bytes: "list_all (\<lambda>b. b < 256) (utf8 s)"
proof -
  have "b < 256" if "b \<in> set (utf8_char c)" for b c
  proof -
    have "char_code c div 64 < 4" using char_code_less [of c] by (simp add: div_less_iff_less_mult)
    then show ?thesis using that by (auto simp: utf8_char_def Let_def split: if_splits)
  qed
  then show ?thesis by (auto simp: utf8_def list_all_iff)
qed

section \<open>base64url\<close>

definition b64_digit :: "nat \<Rightarrow> char" where
  "b64_digit n = char_of (if n < 26 then 65 + n else if n < 52 then 71 + n else if n < 62 then n - 4 else if n = 62 then 45 else 95)"

definition b64_value :: "char \<Rightarrow> nat" where
  "b64_value c = (let n = char_code c in
     if 97 \<le> n then n - 71 else if n = 95 then 63 else if 65 \<le> n then n - 65 else if n = 45 then 62 else n + 4)"

fun base64url :: "nat list \<Rightarrow> string" where
  "base64url [] = []"
| "base64url [a] = [b64_digit (a div 4), b64_digit (a mod 4 * 16)]"
| "base64url [a, b] = [b64_digit (a div 4), b64_digit (a mod 4 * 16 + b div 16), b64_digit (b mod 16 * 4)]"
| "base64url (a # b # c # r) =
     b64_digit (a div 4) # b64_digit (a mod 4 * 16 + b div 16) # b64_digit (b mod 16 * 4 + c div 64) # b64_digit (c mod 64) # base64url r"

fun read_sextets :: "nat list \<Rightarrow> nat list" where
  "read_sextets (a # b # c # d # r) = (a * 4 + b div 16) # (b mod 16 * 16 + c div 4) # (c mod 4 * 64 + d) # read_sextets r"
| "read_sextets [a, b, c] = [a * 4 + b div 16, b mod 16 * 16 + c div 4]"
| "read_sextets [a, b] = [a * 4 + b div 16]"
| "read_sextets _ = []"

definition read_base64url :: "string \<Rightarrow> nat list" where
  "read_base64url s = read_sextets (map b64_value s)"

lemma b64_value_digit [simp]: "n < 64 \<Longrightarrow> b64_value (b64_digit n) = n"
  by (auto simp: b64_value_def b64_digit_def Let_def)

lemma pack:
  assumes "(y :: nat) < n"
  shows "(x * n + y) div n = x" and "(x * n + y) mod n = y" and "x < m \<Longrightarrow> x * n + y < m * n"
proof -
  show "(x * n + y) div n = x" "(x * n + y) mod n = y" using assms by simp_all
  assume "x < m"
  then have "Suc x * n \<le> m * n" by (intro mult_le_mono1) simp
  with assms show "x * n + y < m * n" by simp
qed

lemma byte_parts: "(a :: nat) < 256 \<Longrightarrow> a div 4 < 64" "(a :: nat) < 256 \<Longrightarrow> a div 16 < 16" "(a :: nat) < 256 \<Longrightarrow> a div 64 < 4"
  by (simp_all add: div_less_iff_less_mult)

lemma sextets:
  assumes "(b :: nat) < 256" and "c < 256"
  shows "a mod 4 * 16 + b div 16 < 64" "(a mod 4 * 16 + b div 16) div 16 = a mod 4" "(a mod 4 * 16 + b div 16) mod 16 = b div 16"
    "b mod 16 * 4 + c div 64 < 64" "(b mod 16 * 4 + c div 64) div 4 = b mod 16" "(b mod 16 * 4 + c div 64) mod 4 = c div 64"
    "a mod 4 * 16 < 64" "b mod 16 * 4 < 64" "a mod 4 * 16 div 16 = a mod 4" "b mod 16 * 4 div 4 = b mod 16"
  using pack [OF byte_parts(2) [OF assms(1)], of "a mod 4"] pack [OF byte_parts(3) [OF assms(2)], of "b mod 16"]
    pack(3) [OF byte_parts(2) [OF assms(1)], of "a mod 4" 4] pack(3) [OF byte_parts(3) [OF assms(2)], of "b mod 16" 16] by simp_all

lemma read_base64url: "list_all (\<lambda>b. b < 256) bs \<Longrightarrow> read_base64url (base64url bs) = bs"
proof (induction bs rule: base64url.induct)
  case (2 a)
  then have "a < 256" by simp
  note f = byte_parts(1) [OF this] sextets [OF this this]
  then show ?case by (simp add: read_base64url_def)
next
  case (3 a b)
  then have "a < 256" "b < 256" by simp_all
  note f = byte_parts(1) [OF this(1)] sextets [OF this(2) this(2)]
  show ?case by (simp add: read_base64url_def f byte_parts(2) [OF \<open>b < 256\<close>])
next
  case (4 a b c r)
  then have "a < 256" "b < 256" "c < 256" by simp_all
  note f = byte_parts(1) [OF this(1)] sextets [OF this(2,3)]
  moreover have "read_sextets (map b64_value (base64url r)) = r" using 4 by (simp add: read_base64url_def)
  ultimately show ?case by (simp add: read_base64url_def)
qed (simp add: read_base64url_def)

text \<open>\<open>Buffer.from(JSON.stringify(v), "utf8").toString("base64url")\<close>\<close>

definition json_b64 :: "(rat \<Rightarrow> string) \<Rightarrow> jsval \<Rightarrow> string" where
  "json_b64 pr v = base64url (utf8 (json_text pr v))"

lemma read_json_b64: "read_utf8 (read_base64url (json_b64 pr v)) = json_text pr v"
  by (simp add: json_b64_def read_base64url utf8_bytes read_utf8)

definition b64_char :: "char \<Rightarrow> bool" where
  "b64_char c \<longleftrightarrow> is_digit c \<or> (65 \<le> char_code c \<and> char_code c \<le> 90) \<or> (97 \<le> char_code c \<and> char_code c \<le> 122) \<or> char_code c = 45 \<or> char_code c = 95"

lemma b64_digit_char: "n < 64 \<Longrightarrow> b64_char (b64_digit n)"
  by (auto simp: b64_char_def b64_digit_def is_digit_def)

lemma base64url_chars: "list_all (\<lambda>b. b < 256) bs \<Longrightarrow> list_all b64_char (base64url bs)"
proof (induction bs rule: base64url.induct)
  case (4 a b c r)
  then have "a < 256" "b < 256" "c < 256" by simp_all
  note f = byte_parts(1) [OF this(1)] sextets [OF this(2,3)]
  show ?case using 4 by (simp add: b64_digit_char f)
next
  case (3 a b)
  then have "a < 256" "b < 256" by simp_all
  note f = byte_parts(1) [OF this(1)] sextets [OF this(2) this(2)]
  show ?case by (simp add: b64_digit_char f)
qed (simp_all add: b64_digit_char byte_parts)

lemma json_b64_chars: "list_all b64_char (json_b64 pr v)"
  by (simp add: json_b64_def base64url_chars utf8_bytes)

lemma json_b64_no_sep: "CHR '';'' \<notin> set (json_b64 pr v)"
proof
  assume "CHR '';'' \<in> set (json_b64 pr v)"
  with json_b64_chars [of pr v] have "b64_char (CHR '';'')" by (simp add: list_all_iff)
  then show False by (simp add: b64_char_def is_digit_def char_code_def)
qed

text \<open>Lists of texts keep everything.\<close>

lemma json_texts_readable: "json_text pr (JArr (map JStr xs)) = json_text pr (JArr (map JStr ys)) \<Longrightarrow> xs = ys"
proof -
  assume eq: "json_text pr (JArr (map JStr xs)) = json_text pr (JArr (map JStr ys))"
  then have e: "join_with '','' (map json_string xs) @ CHR '']'' # [] = join_with '','' (map json_string ys) @ CHR '']'' # []" by (simp add: comp_def)
  have h: "json_string c \<noteq> [] \<and> hd (json_string c) \<noteq> CHR '']''" for c by (simp add: json_string_def dquote_def)
  have "xs = ys \<and> ([] :: string) = []"
  proof (rule join_readable [where Q = "\<lambda>_. True" and f = json_string, OF _ _ _ _ e])
    show "a = b \<and> x = y" if "json_string a @ x = json_string b @ y" for a b x y using that by (rule json_string_readable)
    show "json_string c \<noteq> [] \<and> hd (json_string c) \<noteq> CHR '']''" for c by (rule h)
  qed simp_all
  then show ?thesis by simp
qed

end
