(* ===== verification/Pmp_Remediation.thy ===== *)
theory Pmp_Remediation
  imports Pmp_Install Json_Wire "HOL-Library.Multiset"
begin

text \<open>
  The job \<open>patch_remediate\<close> (\<open>plugins/pmp/remediation.ts\<close>, \<open>remediation-checks.ts\<close>): one fix or several, applied, rehearsed or reverted through
  the privileged service, and what is answered. The service is the argument \<open>rem_priv\<close>: what it answers to a call, given the calls that
  were made before (\<open>Inl m\<close>: the call throws). Of a call, the check and the parameters are kept; ids, timeouts and the enrolment are left out, and
  so is logging. The time a call took is the argument \<open>rem_elapsed\<close>.
\<close>

section \<open>The checks this agent knows\<close>

definition ENTRIES :: "(string \<times> platform) list" where
  "ENTRIES =
     [(''windows.cryptography.legacy_tls_disabled'', Windows), (''windows.cryptography.weak_ciphers_disabled'', Windows),
      (''windows.network_sharing.smbv1_disabled'', Windows), (''windows.firewall.profiles_enabled'', Windows),
      (''windows.shares.no_everyone_full_control'', Windows), (''windows.registry.set_value'', Windows),
      (''windows.secedit.set_value'', Windows), (''windows.auditpol.set_value'', Windows),
      (''linux.ssh.root_login_disabled'', Linux), (''linux.ssh.password_auth_disabled'', Linux),
      (''linux.cryptography.weak_ssh_kex_disabled'', Linux), (''macos.config.set_value'', Macos),
      (''linux.config.set_value'', Linux), (''linux.firewall.enabled'', Linux), (''macos.firewall.enabled'', Macos),
      (''macos.gatekeeper.enabled'', Macos), (''macos.remote_login.disabled'', Macos), (''macos.sip.enabled'', Macos),
      (''macos.filevault.enabled'', Macos)]"

text \<open>\<open>None\<close>: allowed; otherwise the reason. \<open>here\<close> is \<open>localOs()\<close>.\<close>

definition is_check_remediable_here :: "platform option \<Rightarrow> string \<Rightarrow> string option" where
  "is_check_remediable_here here check =
     (case map_of ENTRIES check of
        None \<Rightarrow> Some ''unknown_check_id''
      | Some os \<Rightarrow> if here \<noteq> Some os then Some ''not_applicable_to_os'' else None)"

definition list_known_check_ids :: "string list" where
  "list_known_check_ids = map fst ENTRIES"

section \<open>Outcomes and acknowledgements\<close>

datatype rem_outcome = Applied | AlreadyCompliant | AppliedReboot | DryWouldApply | DryAlreadyCompliant | RemFailed | RemRejected | RemTimedOut

definition rem_outcome_text :: "rem_outcome \<Rightarrow> string" where
  "rem_outcome_text r = (case r of Applied \<Rightarrow> ''applied'' | AlreadyCompliant \<Rightarrow> ''already_compliant'' | AppliedReboot \<Rightarrow> ''applied_reboot_required''
     | DryWouldApply \<Rightarrow> ''dryrun_would_apply'' | DryAlreadyCompliant \<Rightarrow> ''dryrun_already_compliant'' | RemFailed \<Rightarrow> ''failed''
     | RemRejected \<Rightarrow> ''rejected'' | RemTimedOut \<Rightarrow> ''timed_out'')"

datatype rem_call = ReadState string jsval | Remediate string jsval | RevertTo string jsval

record rem_env =
  rem_priv :: "rem_call list \<Rightarrow> rem_call \<Rightarrow> string + jsval"
  rem_text :: "jsval \<Rightarrow> string"
  rem_platform :: "platform option"
  rem_enabled :: bool
  rem_elapsed :: "rem_call list \<Rightarrow> jsnum"

record rem_ack =
  ra_status :: nat
  ra_message :: string
  ra_outcome :: rem_outcome

text \<open>\<open>sanitize(v)\<close> with its default length.\<close>

definition sanitize :: "rem_env \<Rightarrow> jsval \<Rightarrow> string" where
  "sanitize e v = take 200 (map (\<lambda>c. if c = CHR '';'' \<or> char_code c = 10 \<or> c = CHR ''='' then CHR '' '' else c) (text_or_empty (rem_text e) v))"

definition MAX_BATCH_ITEMS :: nat where "MAX_BATCH_ITEMS = 25"

definition BATCH_ITEMS_B64_MAX :: nat where "BATCH_ITEMS_B64_MAX = 1400000"

definition FORENSICS_MAX :: nat where "FORENSICS_MAX = 20000"

definition json_of :: "rem_env \<Rightarrow> jsval \<Rightarrow> string" where
  "json_of e v = json_text (\<lambda>q. rem_text e (JNum (Fin q))) v"

definition b64_of :: "rem_env \<Rightarrow> jsval \<Rightarrow> string" where
  "b64_of e v = json_b64 (\<lambda>q. rem_text e (JNum (Fin q))) v"

definition encode_state_b64 :: "rem_env \<Rightarrow> jsval \<Rightarrow> string option" where
  "encode_state_b64 e v = (if nullish v \<or> length (b64_of e v) > FORENSICS_MAX then None else Some (b64_of e v))"

definition state_bag :: "rem_env \<Rightarrow> jsval \<Rightarrow> jsval \<Rightarrow> (string \<times> string) list" where
  "state_bag e before after =
     (case encode_state_b64 e before of None \<Rightarrow> [] | Some b \<Rightarrow> [(''stateBefore'', b)])
     @ (case encode_state_b64 e after of None \<Rightarrow> [] | Some a \<Rightarrow> [(''stateAfter'', a)])"

definition encode_remediation_ack ::
  "rem_env \<Rightarrow> rem_outcome \<Rightarrow> jsnum \<Rightarrow> (string \<times> jsval) list \<Rightarrow> (string \<times> string) list \<Rightarrow> string" where
  "encode_remediation_ack e r i extras bag = join_with '';''
     ([''patch_remediate:'' @ rem_outcome_text r, ''remediationId='' @ rem_text e (JNum i)]
      @ map (\<lambda>(k, v). k @ ''='' @ sanitize e v) (filter (\<lambda>(k, v). \<not> nullish v \<and> v \<noteq> JStr []) extras)
      @ map (\<lambda>(k, v). k @ ''='' @ v) bag)"

definition ack_for :: "rem_env \<Rightarrow> rem_outcome \<Rightarrow> jsnum \<Rightarrow> (string \<times> jsval) list \<Rightarrow> (string \<times> string) list \<Rightarrow> rem_ack" where
  "ack_for e r i extras bag =
     \<lparr>ra_status = (if r \<in> {Applied, AlreadyCompliant, AppliedReboot, DryWouldApply, DryAlreadyCompliant} then 0 else if r = RemTimedOut then 1 else 2),
      ra_message = encode_remediation_ack e r i extras bag, ra_outcome = r\<rparr>"

definition reject :: "rem_env \<Rightarrow> jsnum \<Rightarrow> string \<Rightarrow> (string \<times> jsval) list \<Rightarrow> rem_ack" where
  "reject e i reason extras =
     \<lparr>ra_status = 2, ra_message = encode_remediation_ack e RemRejected i (extras @ [(''reason'', JStr reason)]) [], ra_outcome = RemRejected\<rparr>"

text \<open>The \<open>catch\<close> of a fix.\<close>

definition exception_ack :: "rem_env \<Rightarrow> jsnum \<Rightarrow> string \<Rightarrow> string \<Rightarrow> rem_ack" where
  "exception_ack e i check m =
     \<lparr>ra_status = 1, ra_message = encode_remediation_ack e RemFailed i
        [(''checkId'', JStr check), (''reason'', JStr (''exception:'' @ take 120 (if m = [] then ''unknown'' else m)))] [], ra_outcome = RemFailed\<rparr>"

definition priv_failure_reason :: "jsval \<Rightarrow> string \<Rightarrow> string \<times> string" where
  "priv_failure_reason resp fallback =
     (let err = jprop resp ''error'';
          code = (case jprop err ''code'' of JStr s \<Rightarrow> if s = [] then fallback else s | _ \<Rightarrow> fallback);
          msg = (case jprop err ''message'' of JStr s \<Rightarrow> take 300 (trim s) | _ \<Rightarrow> [])
      in (code, if msg \<noteq> [] then code @ '': '' @ msg else code))"

section \<open>States\<close>

definition IGNORED_STATE_KEYS :: "string list" where
  "IGNORED_STATE_KEYS = [''queryError'', ''raw'']"

fun has_key :: "jsval \<Rightarrow> string \<Rightarrow> bool" where
  "has_key (JObj kvs) k \<longleftrightarrow> k \<in> fst ` set kvs"
| "has_key _ k \<longleftrightarrow> False"

definition or_null :: "jsval \<Rightarrow> jsval" where
  "or_null v = (if nullish v then JNull else v)"

definition state_of :: "jsval \<Rightarrow> jsval" where
  "state_of result =
     (if has_key result ''state'' then jprop result ''state''
      else if has_key (jprop result ''snapshot'') ''state'' then jprop (jprop result ''snapshot'') ''state''
      else or_null result)"

text \<open>\<open>norm\<close>: lists without their order.\<close>

definition norm_state :: "rem_env \<Rightarrow> jsval \<Rightarrow> string" where
  "norm_state e v = (case v of
     JArr xs \<Rightarrow> json_of e (JArr (map JStr (sort (map (\<lambda>x. json_of e (or_null x)) xs))))
   | _ \<Rightarrow> json_of e (or_null v))"

fun entries_of :: "jsval \<Rightarrow> (string \<times> jsval) list" where
  "entries_of (JObj kvs) = kvs"
| "entries_of _ = []"

definition state_matches_before :: "rem_env \<Rightarrow> jsval \<Rightarrow> jsval \<Rightarrow> bool" where
  "state_matches_before e current before \<longleftrightarrow> is_object before \<and> is_object current
     \<and> list_all (\<lambda>(k, v). k \<in> set IGNORED_STATE_KEYS \<or> norm_state e v = norm_state e (jprop current k)) (entries_of before)"

section \<open>One fix\<close>

text \<open>\<open>v ?? w\<close> and \<open>v || {}\<close>\<close>

definition otherwise :: "jsval \<Rightarrow> jsval \<Rightarrow> jsval" where
  "otherwise v w = (if nullish v then w else v)"

definition or_empty :: "jsval \<Rightarrow> jsval" where
  "or_empty v = (if truthy v then v else JObj [])"

definition params_of :: "jsval \<Rightarrow> jsval" where
  "params_of payload = otherwise (jprop payload ''params'') (JObj [])"

definition num_or :: "rem_env \<Rightarrow> jsval \<Rightarrow> jsnum \<Rightarrow> jsval" where
  "num_or e v d = JNum (if nullish v then d else number_of_value (rem_text e) v)"

definition with_excerpt :: "rem_env \<Rightarrow> jsval \<Rightarrow> jsval" where
  "with_excerpt e result =
     (let x = jprop result ''stderrExcerpt'' in JStr (if truthy x then ''post_state_mismatch: '' @ string_of (rem_text e) x else ''post_state_mismatch''))"

text \<open>The verification after a write, and the answer. \<open>w\<close> is what the write answered.\<close>

definition revert_branch ::
  "rem_env \<Rightarrow> jsnum \<Rightarrow> string \<Rightarrow> bool \<Rightarrow> jsval \<Rightarrow> jsval \<Rightarrow> rem_call list \<Rightarrow> rem_ack \<times> rem_call list" where
  "revert_branch e i check dry pre before es =
     (let pre_state = otherwise (jprop pre ''snapshot'') pre; already = state_matches_before e (state_of pre) before; dur = JNum (rem_elapsed e es) in
      if dry then (ack_for e (if already then DryAlreadyCompliant else DryWouldApply) i [(''checkId'', JStr check), (''duration'', dur)] (state_bag e pre_state JUndef), es)
      else if already
      then (ack_for e AlreadyCompliant i [(''checkId'', JStr check), (''duration'', dur), (''reason'', JStr ''already_at_previous_state'')] (state_bag e pre_state JUndef), es)
      else
        let c = RevertTo check before; es1 = es @ [c] in
        case rem_priv e es c of
          Inl m \<Rightarrow> (exception_ack e i check m, es1)
        | Inr w \<Rightarrow>
            if \<not> truthy (jprop w ''ok'')
            then (let (code, reason) = priv_failure_reason w ''revert_failed'';
                      r = (if code = ''revert_timeout'' then RemTimedOut else if code = ''unsupported_check'' then RemRejected else RemFailed)
                  in (ack_for e r i [(''checkId'', JStr check), (''duration'', JNum (rem_elapsed e es1)), (''reason'', JStr reason)] (state_bag e pre_state JUndef), es1))
            else
              let res = or_empty (jprop w ''result''); exit = JNum (number_of_value (rem_text e) (jprop res ''exitCode''));
                  took = num_or e (jprop res ''durationMs'') (rem_elapsed e es1);
                  c2 = ReadState check (JObj []); es2 = es1 @ [c2]
              in case rem_priv e es1 c2 of
                   Inl m \<Rightarrow> (exception_ack e i check m, es2)
                 | Inr post \<Rightarrow>
                     let ok = truthy (jprop post ''ok''); pr = jprop post ''result'';
                         post_state = (if ok then otherwise (jprop pr ''snapshot'') pr else JUndef)
                     in if \<not> (ok \<and> state_matches_before e (state_of pr) before)
                        then (ack_for e RemFailed i [(''checkId'', JStr check), (''exit'', exit), (''duration'', took), (''reason'', with_excerpt e res)]
                                (state_bag e pre_state post_state), es2)
                        else (ack_for e (if jprop res ''requiresReboot'' = JBool True then AppliedReboot else Applied) i
                                [(''checkId'', JStr check), (''exit'', exit), (''duration'', took)] (state_bag e pre_state post_state), es2))"

definition apply_branch ::
  "rem_env \<Rightarrow> jsnum \<Rightarrow> string \<Rightarrow> bool \<Rightarrow> jsval \<Rightarrow> jsval \<Rightarrow> rem_call list \<Rightarrow> rem_ack \<times> rem_call list" where
  "apply_branch e i check dry params pre es =
     (let pre_state = otherwise (jprop pre ''snapshot'') pre; compliant = (jprop pre ''isCompliant'' = JBool True); dur = JNum (rem_elapsed e es) in
      if dry then (ack_for e (if compliant then DryAlreadyCompliant else DryWouldApply) i [(''checkId'', JStr check), (''duration'', dur)] (state_bag e pre_state JUndef), es)
      else if compliant
      then (ack_for e AlreadyCompliant i [(''checkId'', JStr check), (''duration'', dur), (''reason'', JStr ''pre_state_compliant'')] (state_bag e pre_state JUndef), es)
      else
        let c = Remediate check params; es1 = es @ [c] in
        case rem_priv e es c of
          Inl m \<Rightarrow> (exception_ack e i check m, es1)
        | Inr w \<Rightarrow>
            if \<not> truthy (jprop w ''ok'')
            then (let (code, reason) = priv_failure_reason w ''remediate_failed''
                  in (ack_for e (if code = ''remediate_timeout'' then RemTimedOut else RemFailed) i
                        [(''checkId'', JStr check), (''duration'', JNum (rem_elapsed e es1)), (''reason'', JStr reason)] (state_bag e pre_state JUndef), es1))
            else
              let res = or_empty (jprop w ''result''); exit = JNum (number_of_value (rem_text e) (jprop res ''exitCode''));
                  took = num_or e (jprop res ''durationMs'') (rem_elapsed e es1); reboot = (jprop res ''requiresReboot'' = JBool True);
                  c2 = ReadState check params; es2 = es1 @ [c2]
              in case rem_priv e es1 c2 of
                   Inl m \<Rightarrow> (exception_ack e i check m, es2)
                 | Inr post \<Rightarrow>
                     let ok = truthy (jprop post ''ok''); pr = or_empty (jprop post ''result'');
                         post_state = (if ok then otherwise (jprop pr ''snapshot'') pr else JUndef)
                     in if \<not> (ok \<and> jprop pr ''isCompliant'' = JBool True) \<and> \<not> reboot
                        then (ack_for e RemFailed i [(''checkId'', JStr check), (''exit'', exit), (''duration'', took), (''reason'', with_excerpt e res)]
                                (state_bag e pre_state post_state), es2)
                        else (ack_for e (if reboot then AppliedReboot else Applied) i
                                [(''checkId'', JStr check), (''exit'', exit), (''duration'', took)] (state_bag e pre_state post_state), es2))"

text \<open>The body of the \<open>try\<close>: the state before, then the mode.\<close>

definition run_fix :: "rem_env \<Rightarrow> jsnum \<Rightarrow> string \<Rightarrow> string \<Rightarrow> jsval \<Rightarrow> rem_call list \<Rightarrow> rem_ack \<times> rem_call list" where
  "run_fix e i check md payload es =
     (let params = params_of payload; c = ReadState check params; es1 = es @ [c] in
      case rem_priv e es c of
        Inl m \<Rightarrow> (exception_ack e i check m, es1)
      | Inr resp \<Rightarrow>
          if \<not> truthy (jprop resp ''ok'')
          then (let v = jprop (jprop resp ''error'') ''code''; code = (if truthy v then v else JStr ''read_state_failed'')
                in (ack_for e (if code = JStr ''unsupported_check'' then RemRejected else RemFailed) i
                      [(''checkId'', JStr check), (''duration'', JNum (rem_elapsed e es1)), (''reason'', code)] [], es1))
          else
            let pre = or_empty (jprop resp ''result'') in
            if md = ''revert'' \<or> md = ''revert_dry_run''
            then revert_branch e i check (md = ''revert_dry_run'') pre (jprop (jprop payload ''params'') ''stateBefore'') es1
            else apply_branch e i check (md = ''dry_run'') params pre es1)"

definition snapshot_matches_local :: "platform option \<Rightarrow> jsval \<Rightarrow> bool" where
  "snapshot_matches_local here v \<longleftrightarrow> v = JStr ''cross'' \<or> (v = JStr ''windows'' \<and> here = Some Windows)
     \<or> (v = JStr ''macos'' \<and> here = Some Macos) \<or> (v = JStr ''linux'' \<and> here = Some Linux)"

definition MODES :: "string list" where
  "MODES = [''apply'', ''dry_run'', ''revert'', ''revert_dry_run'']"

definition text_of_field :: "rem_env \<Rightarrow> jsval \<Rightarrow> string \<Rightarrow> string" where
  "text_of_field e payload k = (let v = jprop payload k in if truthy v then string_of (rem_text e) v else [])"

text \<open>What is checked before the lock.\<close>

definition gate_fix :: "rem_env \<Rightarrow> jsval \<Rightarrow> rem_ack option" where
  "gate_fix e payload =
     (let i = number_of_value (rem_text e) (jprop payload ''remediationId''); check = trim (text_of_field e payload ''checkId'');
          md = text_of_field e payload ''mode''; plat = jprop (jprop payload ''checkSnapshot'') ''platform''
      in if \<not> is_integer i \<or> num_le i (Fin 0) \<or> check = [] then Some (reject e (Fin 0) ''invalid_payload'' [])
         else if md \<notin> set MODES then Some (reject e i ''invalid_mode'' [])
         else if (md = ''revert'' \<or> md = ''revert_dry_run'') \<and> \<not> is_object (jprop (jprop payload ''params'') ''stateBefore'')
         then Some (reject e i ''revert_without_state_before'' [])
         else case is_check_remediable_here (rem_platform e) check of
           Some why \<Rightarrow> Some (reject e i why [(''checkId'', JStr check)])
         | None \<Rightarrow>
             if \<not> rem_enabled e then Some (reject e i ''pmp_plugin_disabled_by_policy'' [(''checkId'', JStr check)])
             else if truthy plat \<and> \<not> snapshot_matches_local (rem_platform e) plat then Some (reject e i ''platform_mismatch'' [(''checkId'', JStr check)])
             else None)"

definition run_one :: "rem_env \<Rightarrow> bool \<Rightarrow> jsval \<Rightarrow> rem_call list \<Rightarrow> device \<Rightarrow> rem_ack \<times> rem_call list \<times> device" where
  "run_one e take_lock payload es d =
     (case gate_fix e payload of
        Some a \<Rightarrow> (a, es, d)
      | None \<Rightarrow>
          let i = number_of_value (rem_text e) (jprop payload ''remediationId''); check = trim (text_of_field e payload ''checkId'');
              (acquired, d1) = (if take_lock then try_start_remediate d else (True, d))
          in if \<not> acquired
             then (\<lparr>ra_status = 1, ra_message = encode_remediation_ack e RemFailed i
                      [(''checkId'', JStr check), (''reason'', JStr ''another_pmp_action_in_progress'')] [], ra_outcome = RemFailed\<rparr>, es, d1)
             else (let (a, es1) = run_fix e i check (text_of_field e payload ''mode'') payload es
                   in (a, es1, if take_lock then finish_remediate d1 else d1)))"

section \<open>Several fixes\<close>

definition without_field :: "string \<Rightarrow> string \<Rightarrow> string" where
  "without_field k m = join_with '';'' (filter (\<lambda>seg. \<not> prefix (k @ ''='') seg) (split_on (CHR '';'') m))"

definition encode_batch_ack :: "rem_env \<Rightarrow> string list \<Rightarrow> string" where
  "encode_batch_ack e messages =
     (let encode = (\<lambda>ms. b64_of e (JArr (map JStr ms)));
          b64 = (if length (encode messages) > BATCH_ITEMS_B64_MAX
                 then (let trimmed = map (without_field ''stateAfter'') messages in
                       if length (encode trimmed) > BATCH_ITEMS_B64_MAX then encode (map (without_field ''stateBefore'') trimmed) else encode trimmed)
                 else encode messages)
      in ''patch_remediate_batch:done;items='' @ b64)"

fun run_items :: "rem_env \<Rightarrow> jsval list \<Rightarrow> rem_call list \<Rightarrow> device \<Rightarrow> rem_ack list \<times> rem_call list \<times> device" where
  "run_items e [] es d = ([], es, d)"
| "run_items e (item # items) es d =
     (let (a, es1, d1) = run_one e False item es d; (acks, es2, d2) = run_items e items es1 d1 in (a # acks, es2, d2))"

definition run_remediation_batch :: "rem_env \<Rightarrow> jsval list \<Rightarrow> rem_call list \<Rightarrow> device \<Rightarrow> rem_ack \<times> rem_call list \<times> device" where
  "run_remediation_batch e items es d =
     (if length items = 0 \<or> length items > MAX_BATCH_ITEMS
      then (\<lparr>ra_status = 2, ra_message = ''patch_remediate_batch:rejected;reason=invalid_items'', ra_outcome = RemRejected\<rparr>, es, d)
      else
        let (acquired, d1) = try_start_remediate d in
        if \<not> acquired
        then (\<lparr>ra_status = 1, ra_message = ''patch_remediate_batch:busy;reason=another_pmp_action_in_progress'', ra_outcome = RemFailed\<rparr>, es, d1)
        else
          let (acks, es1, d2) = run_items e items es d1; ok = list_all (\<lambda>a. ra_status a = 0) acks
          in (\<lparr>ra_status = (if ok then 0 else 2), ra_message = encode_batch_ack e (map ra_message acks),
               ra_outcome = (if ok then (if acks = [] then Applied else ra_outcome (last acks)) else RemFailed)\<rparr>, es1, finish_remediate d2))"

definition run_remediation :: "rem_env \<Rightarrow> jsval \<Rightarrow> rem_call list \<Rightarrow> device \<Rightarrow> rem_ack \<times> rem_call list \<times> device" where
  "run_remediation e payload es d =
     (case jprop payload ''items'' of JArr items \<Rightarrow> run_remediation_batch e items es d | _ \<Rightarrow> run_one e True payload es d)"

section \<open>Which calls a fix makes\<close>

fun call_check :: "rem_call \<Rightarrow> string" where
  "call_check (ReadState c p) = c"
| "call_check (Remediate c p) = c"
| "call_check (RevertTo c p) = c"

fun call_mode :: "rem_call \<Rightarrow> string option" where
  "call_mode (ReadState c p) = None"
| "call_mode (Remediate c p) = Some ''apply''"
| "call_mode (RevertTo c p) = Some ''revert''"

lemma revert_calls:
  assumes "revert_branch e i check dry pre before es = (a, es')"
  shows "\<exists>new. es' = es @ new \<and> list_all (\<lambda>c. call_check c = check \<and> (call_mode c = None \<or> (\<not> dry \<and> call_mode c = Some ''revert''))) new"
  using assms by (auto simp: revert_branch_def Let_def split: sum.splits if_splits prod.splits)

lemma apply_calls:
  assumes "apply_branch e i check dry params pre es = (a, es')"
  shows "\<exists>new. es' = es @ new \<and> list_all (\<lambda>c. call_check c = check \<and> (call_mode c = None \<or> (\<not> dry \<and> call_mode c = Some ''apply''))) new"
  using assms by (auto simp: apply_branch_def Let_def split: sum.splits if_splits prod.splits)

lemma run_fix_calls:
  assumes "run_fix e i check md payload es = (a, es')" and "md \<in> set MODES"
  shows "\<exists>new. es' = es @ new \<and> list_all (\<lambda>c. call_check c = check \<and> (call_mode c = None \<or> call_mode c = Some md)) new"
proof -
  let ?c = "ReadState check (params_of payload)"
  show ?thesis
  proof (cases "rem_priv e es ?c")
    case (Inl m)
    then show ?thesis using assms(1) by (auto simp: run_fix_def Let_def)
  next
    case (Inr resp)
    let ?pre = "or_empty (jprop resp ''result'')"
    consider (bad) "\<not> truthy (jprop resp ''ok'')" | (undo) "truthy (jprop resp ''ok'')" "md = ''revert'' \<or> md = ''revert_dry_run''"
      | (forth) "truthy (jprop resp ''ok'')" "\<not> (md = ''revert'' \<or> md = ''revert_dry_run'')" by blast
    then show ?thesis
    proof cases
      case bad
      then show ?thesis using assms(1) Inr by (auto simp: run_fix_def Let_def)
    next
      case undo
      then have "revert_branch e i check (md = ''revert_dry_run'') ?pre (jprop (jprop payload ''params'') ''stateBefore'') (es @ [?c]) = (a, es')"
        using assms(1) Inr by (simp add: run_fix_def Let_def)
      from revert_calls [OF this] show ?thesis using undo(2) by (force simp: list_all_iff)
    next
      case forth
      then have "apply_branch e i check (md = ''dry_run'') (params_of payload) ?pre (es @ [?c]) = (a, es')"
        using assms(1) Inr by (simp add: run_fix_def Let_def)
      from apply_calls [OF this] obtain new where new: "es' = es @ ?c # new"
        "list_all (\<lambda>c. call_check c = check \<and> (call_mode c = None \<or> (md \<noteq> ''dry_run'' \<and> call_mode c = Some ''apply''))) new" by auto
      have "md = ''dry_run'' \<or> md = ''apply''" using forth(2) assms(2) unfolding MODES_def by simp blast
      then have "list_all (\<lambda>c. call_check c = check \<and> (call_mode c = None \<or> call_mode c = Some md)) (?c # new)"
        using new(2) by (elim disjE) (simp_all add: list_all_iff)
      with new(1) show ?thesis by blast
    qed
  qed
qed

text \<open>A check that this agent knows and that is for this system.\<close>

definition listed_here :: "rem_env \<Rightarrow> string \<Rightarrow> bool" where
  "listed_here e check \<longleftrightarrow> list_ex (\<lambda>(c, os). c = check \<and> rem_platform e = Some os) ENTRIES"

lemma remediable_listed: "is_check_remediable_here (rem_platform e) check = None \<Longrightarrow> listed_here e check"
  by (auto simp: is_check_remediable_here_def listed_here_def list_ex_iff dest: map_of_SomeD split: option.splits if_splits)

text \<open>The check and the mode a payload asks for.\<close>

definition asked_fix :: "rem_env \<Rightarrow> jsval \<Rightarrow> string \<times> string" where
  "asked_fix e payload = (trim (text_of_field e payload ''checkId''), text_of_field e payload ''mode'')"

definition asked_fixes :: "rem_env \<Rightarrow> jsval \<Rightarrow> (string \<times> string) list" where
  "asked_fixes e payload = (case jprop payload ''items'' of JArr items \<Rightarrow> map (asked_fix e) items | _ \<Rightarrow> [asked_fix e payload])"

definition permitted :: "rem_env \<Rightarrow> (string \<times> string) list \<Rightarrow> rem_call \<Rightarrow> bool" where
  "permitted e fixes c \<longleftrightarrow> listed_here e (call_check c)
     \<and> list_ex (\<lambda>(check, md). check = call_check c \<and> (call_mode c = None \<or> call_mode c = Some md)) fixes"

lemma gate_facts:
  assumes "gate_fix e payload = None"
  shows "listed_here e (fst (asked_fix e payload))"
    and "snd (asked_fix e payload) \<in> set MODES"
  using assms by (auto simp: gate_fix_def asked_fix_def Let_def intro: remediable_listed split: if_splits option.splits)

lemma run_one_calls:
  assumes "run_one e lock payload es d = (a, es', d')"
  shows "\<exists>new. es' = es @ new \<and> list_all (permitted e [asked_fix e payload]) new"
proof (cases "gate_fix e payload")
  case None
  let ?check = "fst (asked_fix e payload)" and ?md = "snd (asked_fix e payload)"
  let ?i = "number_of_value (rem_text e) (jprop payload ''remediationId'')"
  obtain b es1 where r: "run_fix e ?i ?check ?md payload es = (b, es1)" by fastforce
  have "es' = es \<or> es' = es1"
    using assms None r by (auto simp: run_one_def asked_fix_def Let_def split: prod.splits if_splits)
  moreover obtain new where "es1 = es @ new" "list_all (\<lambda>c. call_check c = ?check \<and> (call_mode c = None \<or> call_mode c = Some ?md)) new"
    using run_fix_calls [OF r gate_facts(2) [OF None]] by blast
  moreover from this gate_facts(1) [OF None] have "list_all (permitted e [asked_fix e payload]) new"
    by (auto simp: permitted_def list_all_iff split: prod.split)
  ultimately show ?thesis by auto
qed (use assms in \<open>simp add: run_one_def\<close>)

lemma permitted_more: "permitted e fs c \<Longrightarrow> set fs \<subseteq> set gs \<Longrightarrow> permitted e gs c"
  by (auto simp: permitted_def list_ex_iff)

lemma run_items_calls:
  "run_items e items es d = (acks, es', d') \<Longrightarrow> \<exists>new. es' = es @ new \<and> list_all (permitted e (map (asked_fix e) items)) new"
proof (induction items arbitrary: es d acks es' d')
  case (Cons item items)
  obtain a es1 d1 where o: "run_one e False item es d = (a, es1, d1)" by (metis prod_cases3)
  obtain bs es2 d2 where r: "run_items e items es1 d1 = (bs, es2, d2)" by (metis prod_cases3)
  from run_one_calls [OF o] obtain n1 where n1: "es1 = es @ n1" "list_all (permitted e [asked_fix e item]) n1" by blast
  from Cons.IH [OF r] obtain n2 where n2: "es2 = es1 @ n2" "list_all (permitted e (map (asked_fix e) items)) n2" by blast
  have "list_all (permitted e (map (asked_fix e) (item # items))) (n1 @ n2)"
    using n1(2) n2(2) by (auto simp: list_all_iff intro: permitted_more)
  then show ?case using Cons.prems o r n1(1) n2(1) by auto
qed simp

text \<open>C24. Only known fixes, and only where they were asked for. Whatever a job says and whatever the service answers, each call the job makes is about a check of
  the closed list that is for this system and was named by the job; a call that writes is of the mode the job names for that check,
  so a rehearsal writes nothing and a job to revert never applies a fix.\<close>

theorem only_known_fixes:
  "list_all (permitted e (asked_fixes e payload)) (fst (snd (run_remediation e payload [] d)))"
proof (cases "\<exists>items. jprop payload ''items'' = JArr items")
  case True
  then obtain items where i: "jprop payload ''items'' = JArr items" by blast
  obtain ok d1 where t: "try_start_remediate d = (ok, d1)" by fastforce
  obtain acks es d2 where r: "run_items e items [] d1 = (acks, es, d2)" by (metis prod_cases3)
  have "fst (snd (run_remediation e payload [] d)) = [] \<or> fst (snd (run_remediation e payload [] d)) = es"
    using i t r by (auto simp: run_remediation_def run_remediation_batch_def Let_def)
  then show ?thesis using run_items_calls [OF r] i by (auto simp: asked_fixes_def)
next
  case False
  obtain a es d1 where o: "run_one e True payload [] d = (a, es, d1)" by (metis prod_cases3)
  have "run_remediation e payload [] d = (a, es, d1)" "asked_fixes e payload = [asked_fix e payload]"
    using False o by (auto simp: run_remediation_def asked_fixes_def split: jsval.split)
  then show ?thesis using run_one_calls [OF o] by auto
qed

section \<open>When a fix is called applied\<close>

lemma or_empty_prop: "jprop (or_empty v) k = JBool True \<longleftrightarrow> jprop v k = JBool True"
  by (cases v) (simp_all add: or_empty_def)

text \<open>The last two calls of the history are a write that was accepted and, after it, a reading of the same check that found it done.\<close>

definition confirmed :: "rem_env \<Rightarrow> rem_call list \<Rightarrow> bool" where
  "confirmed e es \<longleftrightarrow> (\<exists>xs w q wr pr. es = xs @ [w, q] \<and> rem_priv e xs w = Inr wr \<and> truthy (jprop wr ''ok'')
     \<and> rem_priv e (xs @ [w]) q = Inr pr \<and> truthy (jprop pr ''ok'')
     \<and> ((\<exists>c p. w = Remediate c p \<and> q = ReadState c p \<and> jprop (jprop pr ''result'') ''isCompliant'' = JBool True)
        \<or> (\<exists>c b. w = RevertTo c b \<and> q = ReadState c (JObj []) \<and> state_matches_before e (state_of (jprop pr ''result'')) b)))"

lemma ack_for_outcome [simp]: "ra_outcome (ack_for e r i extras bag) = r" "ra_outcome (exception_ack e i check m) = RemFailed"
  "ra_outcome (reject e i reason extras) = RemRejected"
  by (simp_all add: ack_for_def exception_ack_def reject_def)

lemma revert_confirmed:
  assumes "revert_branch e i check dry pre before es = (a, es')" and "ra_outcome a = Applied \<or> ra_outcome a = AppliedReboot"
  shows "confirmed e es'"
proof -
  let ?w = "RevertTo check before" and ?q = "ReadState check (JObj [])"
  have n: "\<not> dry" "\<not> state_matches_before e (state_of pre) before"
    using assms by (cases dry; cases "state_matches_before e (state_of pre) before"; auto simp: revert_branch_def Let_def)+
  obtain wr where wr: "rem_priv e es ?w = Inr wr" using assms n by (cases "rem_priv e es ?w") (auto simp: revert_branch_def Let_def)
  have ok: "truthy (jprop wr ''ok'')"
    using assms n wr by (cases "truthy (jprop wr ''ok'')") (auto simp: revert_branch_def Let_def split: prod.splits if_splits)
  obtain pr where pr: "rem_priv e (es @ [?w]) ?q = Inr pr"
    using assms n wr ok by (cases "rem_priv e (es @ [?w]) ?q") (auto simp: revert_branch_def Let_def)
  have "truthy (jprop pr ''ok'') \<and> state_matches_before e (state_of (jprop pr ''result'')) before"
    using assms n wr ok pr
    by (cases "truthy (jprop pr ''ok'') \<and> state_matches_before e (state_of (jprop pr ''result'')) before") (auto simp: revert_branch_def Let_def)
  moreover have "es' = es @ [?w, ?q]" using assms(1) n wr ok pr by (auto simp: revert_branch_def Let_def split: if_splits)
  ultimately show ?thesis unfolding confirmed_def using wr ok pr by (intro exI [of _ es] exI [of _ ?w] exI [of _ ?q] exI [of _ wr] exI [of _ pr]) simp
qed

lemma apply_confirmed:
  assumes "apply_branch e i check dry params pre es = (a, es')" and "ra_outcome a = Applied"
  shows "confirmed e es'"
proof -
  let ?w = "Remediate check params" and ?q = "ReadState check params"
  have n: "\<not> dry" "jprop pre ''isCompliant'' \<noteq> JBool True"
    using assms by (cases dry; cases "jprop pre ''isCompliant'' = JBool True"; auto simp: apply_branch_def Let_def)+
  obtain wr where wr: "rem_priv e es ?w = Inr wr" using assms n by (cases "rem_priv e es ?w") (auto simp: apply_branch_def Let_def)
  have ok: "truthy (jprop wr ''ok'')"
    using assms n wr by (cases "truthy (jprop wr ''ok'')") (auto simp: apply_branch_def Let_def split: prod.splits if_splits)
  obtain pr where pr: "rem_priv e (es @ [?w]) ?q = Inr pr"
    using assms n wr ok by (cases "rem_priv e (es @ [?w]) ?q") (auto simp: apply_branch_def Let_def)
  have "truthy (jprop pr ''ok'') \<and> jprop (jprop pr ''result'') ''isCompliant'' = JBool True"
    using assms n wr ok pr
    by (cases "truthy (jprop pr ''ok'') \<and> jprop (jprop pr ''result'') ''isCompliant'' = JBool True")
      (auto simp: apply_branch_def Let_def or_empty_prop split: if_splits)
  moreover have "es' = es @ [?w, ?q]" using assms(1) n wr ok pr by (auto simp: apply_branch_def Let_def split: if_splits)
  ultimately show ?thesis unfolding confirmed_def using wr ok pr by (intro exI [of _ es] exI [of _ ?w] exI [of _ ?q] exI [of _ wr] exI [of _ pr]) simp
qed

lemma run_one_runs:
  assumes "run_one e lock payload es d = (a, es', d')" and "ra_outcome a \<noteq> RemFailed" and "ra_outcome a \<noteq> RemRejected"
  shows "gate_fix e payload = None
    \<and> run_fix e (number_of_value (rem_text e) (jprop payload ''remediationId'')) (fst (asked_fix e payload)) (snd (asked_fix e payload)) payload es = (a, es')"
proof (cases "gate_fix e payload")
  case None
  then show ?thesis using assms by (auto simp: run_one_def asked_fix_def Let_def split: prod.splits if_splits)
next
  case (Some b)
  then have "ra_outcome b = RemRejected" by (auto simp: gate_fix_def Let_def split: if_splits option.splits)
  then show ?thesis using assms Some by (simp add: run_one_def)
qed


section \<open>A sample\<close>

text \<open>A service that finds a check not compliant, accepts the write (with or without asking for a restart) and then reads it as \<open>post\<close>.\<close>

definition sample_service :: "bool \<Rightarrow> bool \<Rightarrow> rem_call list \<Rightarrow> rem_call \<Rightarrow> string + jsval" where
  "sample_service rb post es c = (case c of
     ReadState _ _ \<Rightarrow> Inr (JObj [(''ok'', JBool True), (''result'', JObj [(''isCompliant'', JBool (es \<noteq> [] \<and> post))])])
   | _ \<Rightarrow> Inr (JObj [(''ok'', JBool True), (''result'', JObj [(''exitCode'', JNum (Fin 0)), (''requiresReboot'', JBool rb)])]))"

definition sample_rem :: "bool \<Rightarrow> bool \<Rightarrow> rem_env" where
  "sample_rem rb post = \<lparr>rem_priv = sample_service rb post, rem_text = (\<lambda>_. ''7''), rem_platform = Some Linux, rem_enabled = True, rem_elapsed = (\<lambda>_. Fin 5)\<rparr>"

definition firewall_fix :: "string \<Rightarrow> jsval" where
  "firewall_fix md = JObj [(''remediationId'', JNum (Fin 7)), (''checkId'', JStr ''linux.firewall.enabled''), (''mode'', JStr md)]"

definition free_device :: device where
  "free_device = \<lparr>saved = empty_state, installing = False, remediating = False, updating = False\<rparr>"

lemma firewall_here: "is_check_remediable_here (Some Linux) ''linux.firewall.enabled'' = None" "trim ''linux.firewall.enabled'' = ''linux.firewall.enabled''"
  by code_simp+

lemma firewall_gate: "md \<in> {''apply'', ''dry_run''} \<Longrightarrow> gate_fix (sample_rem rb post) (firewall_fix md) = None"
  "md \<noteq> [] \<Longrightarrow> asked_fix (sample_rem rb post) (firewall_fix md) = (''linux.firewall.enabled'', md)"
  by (auto simp: gate_fix_def asked_fix_def firewall_fix_def text_of_field_def string_of_def firewall_here sample_rem_def number_of_value_def is_integer_def MODES_def Let_def)

lemma firewall_run:
  "\<exists>a. run_fix (sample_rem rb post) (Fin 7) ''linux.firewall.enabled'' ''apply'' (firewall_fix ''apply'') []
     = (a, [ReadState ''linux.firewall.enabled'' (JObj []), Remediate ''linux.firewall.enabled'' (JObj []), ReadState ''linux.firewall.enabled'' (JObj [])])
     \<and> ra_outcome a = (if rb then AppliedReboot else if post then Applied else RemFailed) \<and> ra_status a = (if rb \<or> post then 0 else 2)"
  by (simp add: run_fix_def apply_branch_def sample_rem_def sample_service_def firewall_fix_def params_of_def otherwise_def nullish_def or_empty_def Let_def
      ack_for_def)

lemma firewall_apply:
  assumes "\<not> remediating d" and "\<not> installing d"
  shows "\<exists>a. run_one (sample_rem rb post) True (firewall_fix ''apply'') [] d
     = (a, [ReadState ''linux.firewall.enabled'' (JObj []), Remediate ''linux.firewall.enabled'' (JObj []), ReadState ''linux.firewall.enabled'' (JObj [])], d)
     \<and> ra_outcome a = (if rb then AppliedReboot else if post then Applied else RemFailed) \<and> ra_status a = (if rb \<or> post then 0 else 2)"
proof -
  let ?e = "sample_rem rb post"
  have g: "gate_fix ?e (firewall_fix ''apply'') = None" by (rule firewall_gate) simp
  have "asked_fix ?e (firewall_fix ''apply'') = (''linux.firewall.enabled'', ''apply'')" by (rule firewall_gate) simp
  then have f: "trim (text_of_field ?e (firewall_fix ''apply'') ''checkId'') = ''linux.firewall.enabled''" "text_of_field ?e (firewall_fix ''apply'') ''mode'' = ''apply''"
    by (simp_all add: asked_fix_def)
  have n: "number_of_value (rem_text ?e) (jprop (firewall_fix ''apply'') ''remediationId'') = Fin 7" by (simp add: firewall_fix_def number_of_value_def)
  have "finish_remediate (d\<lparr>remediating := True\<rparr>) = d" using assms by (simp add: finish_remediate_def)
  then show ?thesis using firewall_run [of rb post] assms by (auto simp: run_one_def g f n try_start_remediate_def Let_def)
qed


text \<open>A request for a restart hides a fix that did not hold. If the service asks for a restart, the fix is acknowledged as applied (status 0) although the
  reading after the write still finds the check not compliant; without the request the same readings are a failure.\<close>

theorem reboot_flag_hides_failure:
  "let run = (\<lambda>rb. fst (run_remediation (sample_rem rb False) (firewall_fix ''apply'') [] free_device)) in
     ra_status (run True) = 0 \<and> ra_outcome (run True) = AppliedReboot \<and> ra_status (run False) = 2 \<and> ra_outcome (run False) = RemFailed"
proof -
  have "run_remediation e (firewall_fix ''apply'') [] free_device = run_one e True (firewall_fix ''apply'') [] free_device" for e
    by (simp add: run_remediation_def firewall_fix_def)
  then show ?thesis using firewall_apply [of free_device True False] firewall_apply [of free_device False False]
    by (auto simp: free_device_def)
qed

section \<open>The lock\<close>

lemma run_one_device: "snd (snd (run_one e lock payload es d)) = d"
  by (auto simp: run_one_def try_start_remediate_def finish_remediate_def Let_def split: option.split prod.split)

lemma run_items_device: "snd (snd (run_items e items es d)) = d"
proof (induction items arbitrary: es)
  case (Cons item items)
  then show ?case using run_one_device [of e False item es d] by (auto split: prod.split) (metis snd_conv)+
qed simp

text \<open>A remediation leaves the device as it found it, its lock free again on every path; while a patch is being installed or another remediation runs, it
  makes no call and is not answered as done.\<close>

theorem remediation_releases_its_lock:
  "case run_remediation e payload es d of
     (a, es', d') \<Rightarrow> d' = d \<and> (if installing d \<or> remediating d then es' = es \<and> ra_status a \<noteq> 0 else True)"
proof -
  have g: "ra_status b = 2" if "gate_fix e p = Some b" for b p
    using that by (auto simp: gate_fix_def reject_def Let_def split: if_splits option.splits)
  have one: "case run_one e True p es d of (a, es', d') \<Rightarrow> d' = d \<and> (if installing d \<or> remediating d then es' = es \<and> ra_status a \<noteq> 0 else True)" for p
    using run_one_device [of e True p es d]
    by (auto simp: run_one_def try_start_remediate_def finish_remediate_def Let_def g split: option.split prod.split)
  have batch: "case run_remediation_batch e items es d of
      (a, es', d') \<Rightarrow> d' = d \<and> (if installing d \<or> remediating d then es' = es \<and> ra_status a \<noteq> 0 else True)" for items
  proof (cases "length items = 0 \<or> length items > MAX_BATCH_ITEMS \<or> installing d \<or> remediating d")
    case True
    then show ?thesis by (auto simp: run_remediation_batch_def try_start_remediate_def)
  next
    case False
    then show ?thesis using run_items_device [of e items es "d\<lparr>remediating := True\<rparr>"]
      by (auto simp: run_remediation_batch_def try_start_remediate_def finish_remediate_def Let_def split: prod.split)
  qed
  show ?thesis unfolding run_remediation_def using one batch by (simp split: jsval.split)
qed

section \<open>Several fixes in one job\<close>

text \<open>The same fixes as jobs of their own, one after the other.\<close>

fun run_apart :: "rem_env \<Rightarrow> jsval list \<Rightarrow> rem_call list \<Rightarrow> device \<Rightarrow> rem_ack list \<times> rem_call list \<times> device" where
  "run_apart e [] es d = ([], es, d)"
| "run_apart e (item # items) es d =
     (let (a, es1, d1) = run_one e True item es d; (acks, es2, d2) = run_apart e items es1 d1 in (a # acks, es2, d2))"

lemma one_fix_lock:
  assumes "\<not> remediating d" and "\<not> installing d"
  shows "run_one e True item es d = (case run_one e False item es (d\<lparr>remediating := True\<rparr>) of (a, es', d') \<Rightarrow> (a, es', d))"
  using assms by (auto simp: run_one_def try_start_remediate_def finish_remediate_def Let_def split: option.split prod.split)

lemma items_apart:
  assumes "\<not> remediating d" and "\<not> installing d"
  shows "run_apart e items es d = (case run_items e items es (d\<lparr>remediating := True\<rparr>) of (acks, es', d') \<Rightarrow> (acks, es', d))"
proof (induction items arbitrary: es)
  case (Cons item items)
  obtain a es1 d1 where o: "run_one e False item es (d\<lparr>remediating := True\<rparr>) = (a, es1, d1)" by (metis prod_cases3)
  then have "d1 = d\<lparr>remediating := True\<rparr>" using run_one_device [of e False item es "d\<lparr>remediating := True\<rparr>"] by simp
  with o Cons.IH [of es1] show ?case by (simp add: one_fix_lock [OF assms] split: prod.split)
qed simp

text \<open>C26. A batch is its fixes. On a free device, a job with several fixes makes the same calls, in the same order, and gives each fix the same answer as
  the fixes would have as jobs of their own one after the other; it answers all of them in one message, and is a success exactly if all are.\<close>

theorem batch_is_its_fixes:
  assumes "\<not> remediating d" and "\<not> installing d" and "items \<noteq> []" and "length items \<le> MAX_BATCH_ITEMS"
    and "run_apart e items es d = (acks, es', d')"
  shows "\<exists>a. run_remediation_batch e items es d = (a, es', d') \<and> d' = d \<and> length acks = length items
     \<and> ra_message a = encode_batch_ack e (map ra_message acks) \<and> ra_status a = (if list_all (\<lambda>b. ra_status b = 0) acks then 0 else 2)"
proof -
  let ?d = "d\<lparr>remediating := True\<rparr>"
  have len: "length (fst (run_items e items es d1)) = length items" for d1
    by (induction items arbitrary: es d1) (auto split: prod.split, metis fst_conv)
  obtain bs es2 d2 where r: "run_items e items es ?d = (bs, es2, d2)" by (metis prod_cases3)
  then have eq: "bs = acks" "es2 = es'" "d' = d" using items_apart [OF assms(1,2), of e items es] assms(5) by simp_all
  have d2: "d2 = ?d" using run_items_device [of e items es ?d] r by simp
  have t: "try_start_remediate d = (True, ?d)" using assms(1,2) by (simp add: try_start_remediate_def)
  have f: "finish_remediate ?d = d" using assms(1) by (simp add: finish_remediate_def)
  have n: "length items \<noteq> 0" "\<not> MAX_BATCH_ITEMS < length items" using assms(3,4) by auto
  have "length acks = length items" using len [of ?d] r eq by simp
  then show ?thesis using n unfolding run_remediation_batch_def t Let_def prod.case r d2 f eq by simp
qed

lemma batch_is_its_fixes_witness:
  "\<exists>a (acks :: rem_ack list). run_remediation_batch (sample_rem False True) [firewall_fix ''apply''] [] free_device
     = (a, [ReadState ''linux.firewall.enabled'' (JObj []), Remediate ''linux.firewall.enabled'' (JObj []), ReadState ''linux.firewall.enabled'' (JObj [])], free_device)
     \<and> ra_status a = 0 \<and> ra_message a = encode_batch_ack (sample_rem False True) (map ra_message acks) \<and> length acks = 1"
proof -
  have f: "\<not> remediating free_device" "\<not> installing free_device" by (simp_all add: free_device_def)
  obtain b where b: "run_one (sample_rem False True) True (firewall_fix ''apply'') [] free_device
      = (b, [ReadState ''linux.firewall.enabled'' (JObj []), Remediate ''linux.firewall.enabled'' (JObj []), ReadState ''linux.firewall.enabled'' (JObj [])], free_device)"
    and s: "ra_status b = 0" using firewall_apply [OF f, of False True] by auto
  have "run_apart (sample_rem False True) [firewall_fix ''apply''] [] free_device
      = ([b], [ReadState ''linux.firewall.enabled'' (JObj []), Remediate ''linux.firewall.enabled'' (JObj []), ReadState ''linux.firewall.enabled'' (JObj [])], free_device)"
    using b by simp
  moreover have "[firewall_fix ''apply''] \<noteq> []" "length [firewall_fix ''apply''] \<le> MAX_BATCH_ITEMS" by (simp_all add: MAX_BATCH_ITEMS_def)
  ultimately obtain a where a: "run_remediation_batch (sample_rem False True) [firewall_fix ''apply''] [] free_device
      = (a, [ReadState ''linux.firewall.enabled'' (JObj []), Remediate ''linux.firewall.enabled'' (JObj []), ReadState ''linux.firewall.enabled'' (JObj [])], free_device)"
    "ra_message a = encode_batch_ack (sample_rem False True) (map ra_message [b])" "ra_status a = (if list_all (\<lambda>b. ra_status b = 0) [b] then 0 else 2)"
    using batch_is_its_fixes [OF f] by blast
  then have "run_remediation_batch (sample_rem False True) [firewall_fix ''apply''] [] free_device
      = (a, [ReadState ''linux.firewall.enabled'' (JObj []), Remediate ''linux.firewall.enabled'' (JObj []), ReadState ''linux.firewall.enabled'' (JObj [])], free_device)
     \<and> ra_status a = 0 \<and> ra_message a = encode_batch_ack (sample_rem False True) (map ra_message [b]) \<and> length [b] = 1" using s by simp
  then show ?thesis by blast
qed

section \<open>What the message keeps\<close>

text \<open>The answer of a batch can be read back. Behind its heading, the message of a batch is base64url of the UTF-8 of a JSON list of texts: of the answers
  of the fixes as they are, if they fit, else without their forensic fields; and two batches whose answers fit have the same message only
  if all their answers are the same.\<close>

theorem batch_ack_read_back:
  "let fits = (\<lambda>ms. length (b64_of e (JArr (map JStr ms))) \<le> BATCH_ITEMS_B64_MAX);
       strip = (\<lambda>ms. if fits ms then ms else if fits (map (without_field ''stateAfter'') ms) then map (without_field ''stateAfter'') ms
                     else map (without_field ''stateBefore'') (map (without_field ''stateAfter'') ms))
   in read_utf8 (read_base64url (drop (length ''patch_remediate_batch:done;items='') (encode_batch_ack e ms))) = json_of e (JArr (map JStr (strip ms)))
      \<and> (encode_batch_ack e ms = encode_batch_ack e ns) = (strip ms = strip ns)"
proof -
  let ?fits = "\<lambda>ms. length (b64_of e (JArr (map JStr ms))) \<le> BATCH_ITEMS_B64_MAX"
  let ?strip = "\<lambda>ms. if ?fits ms then ms else if ?fits (map (without_field ''stateAfter'') ms) then map (without_field ''stateAfter'') ms
                     else map (without_field ''stateBefore'') (map (without_field ''stateAfter'') ms)"
  have enc: "encode_batch_ack e ms = ''patch_remediate_batch:done;items='' @ b64_of e (JArr (map JStr (?strip ms)))" for ms
    by (simp add: encode_batch_ack_def Let_def not_le)
  have rd: "read_utf8 (read_base64url (b64_of e v)) = json_of e v" for v by (simp add: b64_of_def json_of_def read_json_b64)
  have dr: "drop (length p) (p @ x) = x" for p x :: string by simp
  have inj: "xs = ys" if "b64_of e (JArr (map JStr xs)) = b64_of e (JArr (map JStr ys))" for xs ys
  proof -
    from that have "json_of e (JArr (map JStr xs)) = json_of e (JArr (map JStr ys))" using rd by metis
    then show ?thesis unfolding json_of_def by (rule json_texts_readable)
  qed
  have iff: "(b64_of e (JArr (map JStr xs)) = b64_of e (JArr (map JStr ys))) = (xs = ys)" for xs ys using inj by auto
  have "(encode_batch_ack e ms = encode_batch_ack e ns) = (?strip ms = ?strip ns)"
    unfolding enc same_append_eq by (rule iff)
  moreover have "read_utf8 (read_base64url (drop (length ''patch_remediate_batch:done;items='') (encode_batch_ack e ms))) = json_of e (JArr (map JStr (?strip ms)))"
    unfolding enc by (simp only: dr rd)
  ultimately show ?thesis unfolding Let_def by blast
qed

text \<open>The frame of an answer: the outcome, the number of the fix, extras with names from a fixed set, and states.\<close>

definition framed_fix :: "rem_env \<Rightarrow> rem_ack \<Rightarrow> bool" where
  "framed_fix e a \<longleftrightarrow> (\<exists>i extras before after. ra_message a = encode_remediation_ack e (ra_outcome a) i extras (state_bag e before after)
     \<and> set (map fst extras) \<subseteq> {''checkId'', ''exit'', ''duration'', ''reason''} \<and> distinct (map fst extras))"

lemma state_bag_none [simp]: "state_bag e JUndef JUndef = []"
  by (simp add: state_bag_def encode_state_b64_def nullish_def)

lemma framed_fixI:
  assumes "ra_message a = encode_remediation_ack e (ra_outcome a) i extras (state_bag e before after)"
    and "set (map fst extras) \<subseteq> {''checkId'', ''exit'', ''duration'', ''reason''}" and "distinct (map fst extras)"
  shows "framed_fix e a"
  using assms unfolding framed_fix_def by blast

lemma framed_ack_for [simp]:
  "set (map fst extras) \<subseteq> {''checkId'', ''exit'', ''duration'', ''reason''} \<Longrightarrow> distinct (map fst extras) \<Longrightarrow> framed_fix e (ack_for e r i extras (state_bag e before after))"
  by (rule framed_fixI) (simp_all add: ack_for_def)

lemma framed_fix_plain [simp]:
  "set (map fst extras) \<subseteq> {''checkId'', ''exit'', ''duration'', ''reason''} \<Longrightarrow> distinct (map fst extras) \<Longrightarrow> framed_fix e (ack_for e r i extras [])"
  using framed_ack_for [of extras e r i JUndef JUndef] by simp

lemma framed_message [simp]:
  "set (map fst extras) \<subseteq> {''checkId'', ''exit'', ''duration'', ''reason''} \<Longrightarrow> distinct (map fst extras)
   \<Longrightarrow> framed_fix e \<lparr>ra_status = st, ra_message = encode_remediation_ack e r i extras [], ra_outcome = r\<rparr>"
  by (rule framed_fixI [where extras = extras and i = i and before = JUndef and after = JUndef]) simp_all

lemma framed_exception [simp]: "framed_fix e (exception_ack e i check m)"
  by (simp add: exception_ack_def)

lemma framed_reject [simp]:
  "framed_fix e (reject e i reason [])" "framed_fix e (reject e i reason [(''checkId'', v)])"
  by (simp_all add: reject_def)

lemma framed_branches:
  "framed_fix e (fst (revert_branch e i check dry pre before es))" "framed_fix e (fst (apply_branch e i check dry params pre es))"
  by (auto simp: revert_branch_def apply_branch_def Let_def split: sum.split prod.split)

lemma framed_fix_run: "run_one e lock payload es d = (a, es', d') \<Longrightarrow> framed_fix e a"
proof -
  assume r: "run_one e lock payload es d = (a, es', d')"
  have f: "framed_fix e (fst (run_fix e i check md payload es))" for i check md
    by (auto simp: run_fix_def Let_def framed_branches split: sum.split)
  have g: "framed_fix e b" if "gate_fix e payload = Some b" for b
    using that by (auto simp: gate_fix_def Let_def split: if_splits option.splits)
  let ?i = "number_of_value (rem_text e) (jprop payload ''remediationId'')" and ?c = "trim (text_of_field e payload ''checkId'')"
  show ?thesis using r g f [of ?i ?c "text_of_field e payload ''mode''"]
    by (auto simp: run_one_def Let_def split: option.splits prod.splits if_splits)
qed

lemma sanitize_no_sep: "CHR '';'' \<notin> set (sanitize e v)"
  by (auto simp: sanitize_def dest!: in_set_takeD split: if_splits)

lemma bag_facts:
  assumes "(k, v) \<in> set (state_bag e before after)"
  shows "k \<in> {''stateBefore'', ''stateAfter''}" and "CHR '';'' \<notin> set v"
  using assms json_b64_no_sep by (auto simp: state_bag_def encode_state_b64_def b64_of_def split: option.splits if_splits)

lemma bag_keys: "set (map fst (state_bag e before after)) \<subseteq> {''stateBefore'', ''stateAfter''}" "distinct (map fst (state_bag e before after))"
  by (auto simp: state_bag_def split: option.split)

lemma remediation_fields_clean:
  assumes "\<And>k v. (k, v) \<in> set kvs \<Longrightarrow> CHR '';'' \<notin> set k \<and> CHR '';'' \<notin> set v"
  shows "\<forall>w \<in> set (map (\<lambda>(k, v). k @ ''='' @ v) kvs). CHR '';'' \<notin> set w"
  using assms by auto

lemma outcome_clean: "CHR '';'' \<notin> set (rem_outcome_text r)"
  by (simp add: rem_outcome_text_def split: rem_outcome.split)

text \<open>No value forges a field of the answer to a fix. Split at its separators, the message is the outcome, the number of the fix and named fields, each name from a
  fixed set and at most once, whatever is in the check, the reason or the states. (Printed numbers have no semicolon.)\<close>

theorem no_remediation_field_is_forged:
  assumes "run_one e lock payload es d = (a, es', d')" and "\<And>n. CHR '';'' \<notin> set (rem_text e (JNum n))"
  shows "\<exists>n kvs. split_on (CHR '';'') (ra_message a)
      = (''patch_remediate:'' @ rem_outcome_text (ra_outcome a)) # (''remediationId='' @ rem_text e (JNum n)) # map (\<lambda>(k, v). k @ ''='' @ v) kvs
    \<and> set (map fst kvs) \<subseteq> {''checkId'', ''exit'', ''duration'', ''reason'', ''stateBefore'', ''stateAfter''} \<and> distinct (map fst kvs)"
proof -
  obtain i extras before after where m: "ra_message a = encode_remediation_ack e (ra_outcome a) i extras (state_bag e before after)"
    and k: "set (map fst extras) \<subseteq> {''checkId'', ''exit'', ''duration'', ''reason''}" "distinct (map fst extras)"
    using framed_fix_run [OF assms(1)] unfolding framed_fix_def by blast
  let ?sent = "filter (\<lambda>(k, v). \<not> nullish v \<and> v \<noteq> JStr []) extras"
  let ?kvs = "map (\<lambda>(k, v). (k, sanitize e v)) ?sent @ state_bag e before after"
  let ?parts = "(''patch_remediate:'' @ rem_outcome_text (ra_outcome a)) # (''remediationId='' @ rem_text e (JNum i)) # map (\<lambda>(k, v). k @ ''='' @ v) ?kvs"
  have keys1: "map fst (map (\<lambda>(k, v). (k, sanitize e v)) ?sent) = map fst ?sent" by auto
  have sub: "set (map fst ?sent) \<subseteq> set (map fst extras)" by auto
  have d1: "distinct (map fst ?sent)" using k(2) by (rule distinct_map_filter)
  have keys: "set (map fst ?kvs) \<subseteq> {''checkId'', ''exit'', ''duration'', ''reason'', ''stateBefore'', ''stateAfter''}"
    using Un_mono [OF order_trans [OF sub k(1)] bag_keys(1) [of e before after]]
    unfolding map_append keys1 set_append by (simp only: Un_insert_left Un_empty_left)
  have "set (map fst ?sent) \<inter> set (map fst (state_bag e before after)) = {}"
  proof -
    have "{''checkId'', ''exit'', ''duration'', ''reason''} \<inter> {''stateBefore'', ''stateAfter''} = ({} :: string set)" by simp
    then show ?thesis using Int_mono [OF order_trans [OF sub k(1)] bag_keys(1) [of e before after]] by (simp only: subset_empty)
  qed
  then have dis: "distinct (map fst ?kvs)" unfolding map_append keys1 using d1 bag_keys(2) [of e before after] by simp
  have clean: "CHR '';'' \<notin> set v" if "(k, v) \<in> set ?kvs" for k v
    using that sanitize_no_sep bag_facts(2) by auto
  have names: "CHR '';'' \<notin> set k" if "(k, v) \<in> set ?kvs" for k v
  proof -
    from imageI [OF that, of fst] have "k \<in> set (map fst ?kvs)" by (simp only: set_map fst_conv)
    from subsetD [OF keys this] show ?thesis by (elim insertE emptyE) simp_all
  qed
  have parts: "\<forall>w \<in> set ?parts. CHR '';'' \<notin> set w"
    using remediation_fields_clean [OF conjI [OF names clean], where kvs = ?kvs] outcome_clean [of "ra_outcome a"] assms(2) [of i]
    by (simp only: list.set ball_simps set_append Un_iff list.set simp_thms) simp
  have "ra_message a = join_with [CHR '';''] ?parts" unfolding m encode_remediation_ack_def by (simp add: comp_def case_prod_unfold)
  with split_join [OF _ parts] have "split_on (CHR '';'') (ra_message a) = ?parts" by simp
  with keys dis show ?thesis by blast
qed

lemma no_remediation_field_is_forged_witness:
  "\<exists>(a :: rem_ack) n kvs. split_on (CHR '';'') (ra_message a) = (''patch_remediate:'' @ rem_outcome_text Applied) # (''remediationId='' @ rem_text (sample_rem False True) (JNum n))
     # map (\<lambda>(k, v). k @ ''='' @ v) kvs \<and> ra_outcome a = Applied"
proof -
  obtain a es where a: "run_one (sample_rem False True) True (firewall_fix ''apply'') [] free_device = (a, es, free_device)"
    and r: "ra_outcome a = Applied" using firewall_apply [of free_device False True] by (auto simp: free_device_def)
  have "CHR '';'' \<notin> set (rem_text (sample_rem False True) (JNum n))" for n by (simp add: sample_rem_def)
  from no_remediation_field_is_forged [OF a this] r show ?thesis by metis
qed

section \<open>Comparing states\<close>

text \<open>Two lists count as the same state exactly if they hold the same values as often, in any order.\<close>

lemma lists_match_as_bags:
  "norm_state e (JArr xs) = norm_state e (JArr ys) \<longleftrightarrow> mset (map (\<lambda>x. json_of e (or_null x)) xs) = mset (map (\<lambda>x. json_of e (or_null x)) ys)"
proof -
  let ?s = "\<lambda>xs. sort (map (\<lambda>x. json_of e (or_null x)) xs)"
  have "norm_state e (JArr xs) = norm_state e (JArr ys) \<longleftrightarrow> ?s xs = ?s ys"
    using json_texts_readable [of "\<lambda>q. rem_text e (JNum (Fin q))" "?s xs" "?s ys"] by (auto simp: norm_state_def json_of_def)
  also have "?s xs = ?s ys \<longleftrightarrow> mset (?s xs) = mset (?s ys)"
  proof
    assume "?s xs = ?s ys"
    then show "mset (?s xs) = mset (?s ys)" by (rule arg_cong)
  next
    assume "mset (?s xs) = mset (?s ys)"
    then show "?s xs = ?s ys" using properties_for_sort [of "?s ys" "map (\<lambda>x. json_of e (or_null x)) xs"] by simp
  qed
  finally show ?thesis by simp
qed

definition shares_state :: "bool \<Rightarrow> jsval" where
  "shares_state failed = JObj ((''sharesWithEveryoneFullControl'', JArr []) # (if failed then [(''queryError'', JBool True)] else []))"

definition shares_revert :: jsval where
  "shares_revert = JObj [(''remediationId'', JNum (Fin 7)), (''checkId'', JStr ''windows.shares.no_everyone_full_control''), (''mode'', JStr ''revert''),
     (''params'', JObj [(''stateBefore'', shares_state True)])]"

definition shares_env :: "(rem_call list \<Rightarrow> rem_call \<Rightarrow> string + jsval) \<Rightarrow> rem_env" where
  "shares_env p = \<lparr>rem_priv = p, rem_text = (\<lambda>_. ''7''), rem_platform = Some Windows, rem_enabled = True, rem_elapsed = (\<lambda>_. Fin 5)\<rparr>"

lemma shares_here: "is_check_remediable_here (Some Windows) ''windows.shares.no_everyone_full_control'' = None"
  "trim ''windows.shares.no_everyone_full_control'' = ''windows.shares.no_everyone_full_control''"
  by code_simp+

lemma shares_gate:
  "gate_fix (shares_env p) shares_revert = None" "trim (text_of_field (shares_env p) shares_revert ''checkId'') = ''windows.shares.no_everyone_full_control''"
  "text_of_field (shares_env p) shares_revert ''mode'' = ''revert''"
  by (simp_all add: gate_fix_def shares_revert_def text_of_field_def string_of_def shares_here shares_env_def number_of_value_def is_integer_def MODES_def
      shares_state_def Let_def)

lemma shares_match: "state_matches_before e (shares_state False) (shares_state True)"
  by (simp add: state_matches_before_def shares_state_def IGNORED_STATE_KEYS_def)

text \<open>A state that was not read counts as restored. If the state before a fix was taken while the query failed (the list of shares is then empty and marked), a
  revert on a device whose list is empty now is acknowledged as already at the previous state (status 0) after a reading alone: the service, which
  refuses such a state, is never asked to revert.\<close>

theorem unread_state_counts_as_reverted:
  "case run_remediation (shares_env (\<lambda>_ _. Inr (JObj [(''ok'', JBool True), (''result'', JObj [(''state'', shares_state False)])]))) shares_revert [] free_device of
     (a, es, d) \<Rightarrow> ra_status a = 0 \<and> ra_outcome a = AlreadyCompliant
       \<and> es = [ReadState ''windows.shares.no_everyone_full_control'' (JObj [(''stateBefore'', shares_state True)])]"
proof -
  let ?p = "\<lambda>_ _. Inr (JObj [(''ok'', JBool True), (''result'', JObj [(''state'', shares_state False)])])"
  have priv: "rem_priv (shares_env ?p) es c = ?p es c" for es c by (simp add: shares_env_def)
  have par: "params_of shares_revert = JObj [(''stateBefore'', shares_state True)]" "jprop (jprop shares_revert ''params'') ''stateBefore'' = shares_state True"
    "jprop shares_revert ''items'' = JUndef" by (simp_all add: shares_revert_def params_of_def otherwise_def nullish_def)
  have st: "state_of (JObj [(''state'', v)]) = v" for v by (simp add: state_of_def)
  have lock: "try_start_remediate free_device = (True, free_device\<lparr>remediating := True\<rparr>)" by (simp add: try_start_remediate_def free_device_def)
  show ?thesis
    by (simp add: run_remediation_def par run_one_def shares_gate lock run_fix_def priv or_empty_def revert_branch_def st shares_match ack_for_def Let_def)
qed

end
