(* ===== verification/Pmp_Verify.thy ===== *)
theory Pmp_Verify
  imports Pmp_State Json_Wire
begin

text \<open>
  Verification of a change (\<open>plugins/pmp/verification.ts\<close>, \<open>verification-store.ts\<close>, \<open>verification-ack.ts\<close>, \<open>listeners.ts\<close> and the job
  \<open>patch_verify\<close> of \<open>transport/grpc-stream.ts\<close>): what the system tools print about services and listeners, read; the declared checks; the
  snapshot before a change and its store; the comparison afterwards and its answer. What a tool, a probe, a connection or a request gives is
  an argument; the waiting between the samples is left out.
\<close>

section \<open>Reading what the tools print\<close>

text \<open>\<open>s.split(/\r?\n/)\<close>\<close>

definition strip_cr :: "string \<Rightarrow> string" where
  "strip_cr s = (if s \<noteq> [] \<and> char_code (last s) = 13 then butlast s else s)"

definition js_lines :: "string \<Rightarrow> string list" where
  "js_lines s = (let ws = split_on (char_of (10 :: nat)) s in map strip_cr (butlast ws) @ [last ws])"

text \<open>What stands between quotes, \<open>matchAll(/"([^"]*)"/g)\<close>: every second piece that another piece follows.\<close>

fun between :: "string list \<Rightarrow> string list" where
  "between (a # b # c # r) = b # between (c # r)"
| "between _ = []"

definition quoted :: "string \<Rightarrow> string list" where
  "quoted s = between (split_on dquote s)"

definition add_new :: "'a list \<Rightarrow> 'a \<Rightarrow> 'a list" where
  "add_new xs x = (if x \<in> set xs then xs else xs @ [x])"

definition service_names :: "string \<Rightarrow> string list" where
  "service_names col = filter (\<lambda>n. n \<noteq> [] \<and> to_lower n \<noteq> ''n/a'' \<and> list_all (\<lambda>c. \<not> is_space c) n) (map trim (split_on (CHR '','') col))"

text \<open>A \<open>Set\<close> is the list of its elements in the order of insertion.\<close>

definition parse_tasklist_services :: "string \<Rightarrow> string list" where
  "parse_tasklist_services out = foldl add_new [] (concat (map (\<lambda>line. let cols = quoted line in
     if length cols < 3 then [] else map to_lower (service_names (cols ! 2))) (js_lines out)))"

definition SERVICES_KEY :: string where
  "SERVICES_KEY = ''hkey_local_machine'' @ [char_of (92 :: nat)] @ ''system'' @ [char_of (92 :: nat)] @ ''currentcontrolset'' @ [char_of (92 :: nat)]
     @ ''services'' @ [char_of (92 :: nat)]"

text \<open>What follows the key of the services, whatever the case of the letters.\<close>

definition under_services :: "string \<Rightarrow> string option" where
  "under_services t = (if to_lower (take (length SERVICES_KEY) t) = SERVICES_KEY then Some (drop (length SERVICES_KEY) t) else None)"

definition service_key :: "string \<Rightarrow> string option" where
  "service_key t = (case under_services t of
     Some k \<Rightarrow> if k \<noteq> [] \<and> char_of (92 :: nat) \<notin> set k then Some (to_lower k) else None
   | None \<Rightarrow> None)"

text \<open>The words of a line, split at white space.\<close>

function words :: "string \<Rightarrow> string list" where
  "words s = (case dropWhile is_space s of [] \<Rightarrow> [] | c # cs \<Rightarrow> takeWhile (\<lambda>c. \<not> is_space c) (c # cs) # words (dropWhile (\<lambda>c. \<not> is_space c) cs))"
  by pat_completeness auto
termination
proof (relation "measure length")
  fix s c and cs :: string
  assume "dropWhile is_space s = c # cs"
  then have "Suc (length cs) \<le> length s" by (metis length_Cons length_dropWhile_le)
  moreover have "length (dropWhile (\<lambda>c. \<not> is_space c) cs) \<le> length cs" by (rule length_dropWhile_le)
  ultimately show "(dropWhile (\<lambda>c. \<not> is_space c) cs, s) \<in> measure length" by simp
qed simp

declare words.simps [simp del]

text \<open>\<open>/^\s+Start\s+REG_DWORD\s+0x([0-9a-f]+)\s*$/i\<close>: the number, read in base 16.\<close>

definition start_value :: "string \<Rightarrow> nat option" where
  "start_value line = (case words line of
     [a, b, c] \<Rightarrow> if is_space (hd line) \<and> to_lower a = ''start'' \<and> to_lower b = ''reg_dword'' \<and> to_lower (take 2 c) = ''0x'' \<and> drop 2 c \<noteq> []
                  then radix_value 16 0 (drop 2 c) else None
   | _ \<Rightarrow> None)"

definition auto_line :: "string option \<times> string list \<Rightarrow> string \<Rightarrow> string option \<times> string list" where
  "auto_line st line = (case st of (current, auto) \<Rightarrow>
     (case service_key (trim line) of
        Some k \<Rightarrow> (Some k, auto)
      | None \<Rightarrow>
          if to_lower (take 5 (trim line)) = ''hkey_'' then (None, auto)
          else if start_value line = Some 2 then (case current of Some k \<Rightarrow> (current, add_new auto k) | None \<Rightarrow> (current, auto))
          else (current, auto)))"

definition parse_auto_start_services :: "string \<Rightarrow> string list" where
  "parse_auto_start_services out = snd (foldl auto_line (None, []) (js_lines out))"

definition trigger_key :: "string \<Rightarrow> string option" where
  "trigger_key t = (case under_services t of
     Some k \<Rightarrow> (case split_on (char_of (92 :: nat)) k of
         [n, w] \<Rightarrow> if n \<noteq> [] \<and> to_lower w = ''triggerinfo'' then Some (to_lower n) else None
       | _ \<Rightarrow> None)
   | None \<Rightarrow> None)"

definition parse_trigger_start_services :: "string \<Rightarrow> string list" where
  "parse_trigger_start_services out = foldl add_new [] (List.map_filter (\<lambda>line. trigger_key (trim line)) (js_lines out))"

definition parse_systemctl_names :: "string \<Rightarrow> string list" where
  "parse_systemctl_names out = foldl add_new []
     (List.map_filter (\<lambda>line. case words line of w # ws \<Rightarrow> if ends_with w ''.service'' then Some w else None | [] \<Rightarrow> None) (js_lines out))"

section \<open>The services that run\<close>

definition WINDOWS_SELF_STOPPING :: "string list" where
  "WINDOWS_SELF_STOPPING =
     [''trustedinstaller'', ''msiserver'', ''wuauserv'', ''usosvc'', ''waasmedicsvc'', ''dosvc'', ''bits'',
      ''sppsvc'', ''gupdate'', ''gupdatem'', ''edgeupdate'', ''edgeupdatem'', ''mapsbroker'', ''remoteregistry'',
      ''tabletinputservice'', ''wersvc'', ''diagtrack'', ''clipsvc'', ''appxsvc'', ''installservice'', ''tiledatamodelsvc'']"

definition LINUX_SELF_STOPPING :: "string list" where
  "LINUX_SELF_STOPPING =
     [''packagekit.service'', ''fwupd.service'', ''apt-daily.service'', ''apt-daily-upgrade.service'',
      ''systemd-timedated.service'', ''systemd-hostnamed.service'', ''systemd-localed.service'',
      ''unattended-upgrades.service'', ''man-db.service'', ''e2scrub_reap.service'']"

datatype service_snapshot = Services "string list" | Unreadable string

text \<open>What a tool gave: it could not be run (\<open>Inl\<close> the message), or its exit code (if any) and what it printed. Where two tools could not be run, the
  message is the one of the first.\<close>

type_synonym tool_output = "string + int option \<times> string"

definition code_text :: "int option \<Rightarrow> string" where
  "code_text c = (case c of None \<Rightarrow> ''null'' | Some n \<Rightarrow> if n < 0 then CHR ''-'' # show_nat (nat (- n)) else show_nat (nat n))"

definition windows_services :: "tool_output \<Rightarrow> tool_output \<Rightarrow> tool_output \<Rightarrow> service_snapshot" where
  "windows_services tasks reg trig =
     (case (tasks, reg, trig) of
        (Inr (tc, tout), Inr (rc, rout), Inr (gc, gout)) \<Rightarrow>
          if tc \<noteq> Some 0 then Unreadable (''tasklist exited '' @ code_text tc)
          else if rc \<noteq> Some 0 then Unreadable (''reg query exited '' @ code_text rc)
          else
            let auto = parse_auto_start_services rout; trigger = (if gc = Some 0 then parse_trigger_start_services gout else [])
            in Services (sort (filter (\<lambda>s. s \<in> set auto \<and> s \<notin> set trigger \<and> s \<notin> set WINDOWS_SELF_STOPPING) (parse_tasklist_services tout)))
      | (Inl m, _, _) \<Rightarrow> Unreadable m
      | (_, Inl m, _) \<Rightarrow> Unreadable m
      | (_, _, Inl m) \<Rightarrow> Unreadable m)"

definition linux_services :: "tool_output \<Rightarrow> tool_output \<Rightarrow> service_snapshot" where
  "linux_services run en =
     (case (run, en) of
        (Inr (rc, rout), Inr (ec, eout)) \<Rightarrow>
          if rc \<noteq> Some 0 then Unreadable (''systemctl list-units exited '' @ code_text rc)
          else if ec \<noteq> Some 0 then Unreadable (''systemctl list-unit-files exited '' @ code_text ec)
          else Services (sort (filter (\<lambda>s. s \<in> set (parse_systemctl_names eout) \<and> s \<notin> set LINUX_SELF_STOPPING) (parse_systemctl_names rout)))
      | (Inl m, _) \<Rightarrow> Unreadable m
      | (_, Inl m) \<Rightarrow> Unreadable m)"

text \<open>\<open>tool i\<close> is what the i-th tool of the platform gave.\<close>

definition snapshot_services :: "platform \<Rightarrow> (nat \<Rightarrow> tool_output) \<Rightarrow> service_snapshot" where
  "snapshot_services p tool = (case p of
     Windows \<Rightarrow> windows_services (tool 0) (tool 1) (tool 2)
   | Linux \<Rightarrow> linux_services (tool 0) (tool 1)
   | Macos \<Rightarrow> Unreadable ''service baseline not supported on darwin'')"

section \<open>Who listens\<close>

definition MAX_LISTENERS :: nat where "MAX_LISTENERS = 64"

record observed_listener =
  ol_port :: nat
  ol_process :: "string option"
  ol_services :: "string list"

text \<open>The owner of a port: its process id and its name, if known.\<close>

type_synonym process_owner = "nat \<times> string option"

definition parse_tasklist_pid_services :: "string \<Rightarrow> (nat \<times> string list) list" where
  "parse_tasklist_pid_services out = foldl (\<lambda>m line. let cols = quoted line in
     if length cols < 3 then m
     else (case js_number (cols ! 1) of
       Fin q \<Rightarrow> if is_integer (Fin q) \<and> 0 < q \<and> service_names (cols ! 2) \<noteq> [] then AList.update (nat \<lfloor>q\<rfloor>) (service_names (cols ! 2)) m else m
     | _ \<Rightarrow> m)) [] (js_lines out)"

text \<open>\<open>/\/([^/]+\.service)(?:\/|$)/\<close>: the first part behind a slash that ends that way.\<close>

definition unit_of_line :: "string \<Rightarrow> string option" where
  "unit_of_line line = find (\<lambda>w. ends_with w ''.service'' \<and> length w > 8) (tl (split_on (CHR ''/'') (trim line)))"

definition unit_from_cgroup :: "string \<Rightarrow> string option" where
  "unit_from_cgroup content = (case List.map_filter unit_of_line (js_lines content) of [] \<Rightarrow> None | u # us \<Rightarrow> Some u)"

text \<open>\<open>ports\<close> and \<open>owners\<close> are what the readers of CDP give (\<open>Inl\<close>: they throw), \<open>tasks\<close> the output of tasklist, \<open>cgroup pid\<close> the text of the
  file, empty when it cannot be read.\<close>

definition services_of :: "platform \<Rightarrow> tool_output \<Rightarrow> (nat \<Rightarrow> string) \<Rightarrow> nat \<Rightarrow> string list" where
  "services_of p tasks cgroup pid = (case p of
     Windows \<Rightarrow> (case tasks of Inr (c, out) \<Rightarrow> if c = Some 0 then (case map_of (parse_tasklist_pid_services out) pid of Some ns \<Rightarrow> ns | None \<Rightarrow> []) else []
                | Inl m \<Rightarrow> [])
   | Linux \<Rightarrow> (case unit_from_cgroup (cgroup pid) of Some u \<Rightarrow> [u] | None \<Rightarrow> [])
   | Macos \<Rightarrow> [])"

definition observe_listeners ::
  "platform \<Rightarrow> string + nat list \<Rightarrow> string + (nat \<times> process_owner) list \<Rightarrow> tool_output \<Rightarrow> (nat \<Rightarrow> string) \<Rightarrow> string + observed_listener list" where
  "observe_listeners p ports owners tasks cgroup = (case ports of
     Inl m \<Rightarrow> Inl m
   | Inr ps \<Rightarrow>
       let known = (case owners of Inl m \<Rightarrow> [] | Inr os \<Rightarrow> os) in
       Inr (map (\<lambda>port. case map_of known port of
           None \<Rightarrow> \<lparr>ol_port = port, ol_process = None, ol_services = []\<rparr>
         | Some (pid, name) \<Rightarrow> \<lparr>ol_port = port, ol_process = (if name = Some [] then None else name), ol_services = take 5 (services_of p tasks cgroup pid)\<rparr>)
         (take MAX_LISTENERS ps)))"

section \<open>Declared checks\<close>

datatype vcheck =
    ServiceCheck string string
  | ProcessCheck string string
  | PortCheck string nat
  | TcpCheck string string nat jsval
  | HttpCheck string string "jsval list option" "string option" bool jsval

fun check_id :: "vcheck \<Rightarrow> string" where
  "check_id (ServiceCheck i n) = i" | "check_id (ProcessCheck i n) = i" | "check_id (PortCheck i p) = i"
| "check_id (TcpCheck i h p t) = i" | "check_id (HttpCheck i u st b tls t) = i"

fun check_kind :: "vcheck \<Rightarrow> string" where
  "check_kind (ServiceCheck i n) = ''service''" | "check_kind (ProcessCheck i n) = ''process''" | "check_kind (PortCheck i p) = ''port''"
| "check_kind (TcpCheck i h p t) = ''tcp''" | "check_kind (HttpCheck i u st b tls t) = ''http''"

definition MAX_CHECKS :: nat where "MAX_CHECKS = 25"

definition check_name :: "jsval \<Rightarrow> string option" where
  "check_name v = (case v of
     JStr s \<Rightarrow> if 1 \<le> length s \<and> length s \<le> 128 \<and> list_all (\<lambda>c. is_alnum c \<or> c \<in> set ''._@:+-'') s then Some s else None | _ \<Rightarrow> None)"

definition check_port :: "jsval \<Rightarrow> nat option" where
  "check_port v = (case v of JNum (Fin q) \<Rightarrow> if is_integer (Fin q) \<and> 0 < q \<and> q < 65536 then Some (nat \<lfloor>q\<rfloor>) else None | _ \<Rightarrow> None)"

definition check_host :: "jsval \<Rightarrow> string option" where
  "check_host v = (case v of
     JStr s \<Rightarrow> if 1 \<le> length s \<and> length s \<le> 253 \<and> list_all (\<lambda>c. is_alnum c \<or> c \<in> set ''.:[]-'') s then Some s else None | _ \<Rightarrow> None)"

definition check_url :: "jsval \<Rightarrow> string option" where
  "check_url v = (case v of
     JStr s \<Rightarrow> (let r = (if starts_with s ''http://'' then drop 7 s else if starts_with s ''https://'' then drop 8 s else [])
                in if 1 \<le> length r \<and> length r \<le> 2000 \<and> list_all (\<lambda>c. \<not> is_space c) r then Some s else None)
   | _ \<Rightarrow> None)"

fun js_integer :: "jsval \<Rightarrow> bool" where
  "js_integer (JNum n) = is_integer n"
| "js_integer _ = False"

definition parse_check :: "nat \<Rightarrow> jsval \<Rightarrow> vcheck option" where
  "parse_check n c =
     (let i = (case jprop c ''id'' of JStr s \<Rightarrow> take 64 s | _ \<Rightarrow> show_nat n); k = jprop c ''kind'' in
      if k = JStr ''service'' then map_option (ServiceCheck i) (check_name (jprop c ''name''))
      else if k = JStr ''process'' then map_option (ProcessCheck i) (check_name (jprop c ''name''))
      else if k = JStr ''port'' then map_option (PortCheck i) (check_port (jprop c ''port''))
      else if k = JStr ''tcp''
      then (case (check_port (jprop c ''port''), check_host (jprop c ''host'')) of
              (Some p, Some h) \<Rightarrow> Some (TcpCheck i h p (jprop c ''timeoutMs'')) | _ \<Rightarrow> None)
      else if k = JStr ''http''
      then map_option (\<lambda>u. HttpCheck i u
             (case jprop c ''expectStatus'' of JArr xs \<Rightarrow> (let st = filter js_integer xs in if st \<noteq> [] then Some st else None) | _ \<Rightarrow> None)
             (case jprop c ''bodyContains'' of JStr b \<Rightarrow> Some (take 200 b) | _ \<Rightarrow> None)
             (jprop c ''tlsVerify'' \<noteq> JBool False) (jprop c ''timeoutMs'')) (check_url (jprop c ''url''))
      else None)"

definition parse_checks :: "jsval \<Rightarrow> vcheck list" where
  "parse_checks raw = (case raw of
     JArr xs \<Rightarrow> foldl (\<lambda>out c. case parse_check (length out) c of Some v \<Rightarrow> out @ [v] | None \<Rightarrow> out) [] (take MAX_CHECKS xs)
   | _ \<Rightarrow> [])"

definition clamp_timeout :: "(jsval \<Rightarrow> string) \<Rightarrow> jsval \<Rightarrow> rat" where
  "clamp_timeout t ms = (case number_of_value t ms of Fin n \<Rightarrow> min (max n 1000) 30000 | _ \<Rightarrow> 10000)"

record check_outcome =
  co_id :: string
  co_ok :: bool
  co_detail :: string

text \<open>What a request gave: a status and the text of the body, or a failure with its detail (the timeout included).\<close>

datatype http_result = HttpDone nat string | HttpFailed string

datatype probe_outcome = Answered jsval | Unsupported | ProbeError string

record check_env =
  ce_text :: "jsval \<Rightarrow> string"
  ce_tcp :: "string \<Rightarrow> nat \<Rightarrow> rat \<Rightarrow> string option"
  ce_http :: "string \<Rightarrow> bool \<Rightarrow> rat \<Rightarrow> http_result"
  ce_probe :: "string \<Rightarrow> jsval \<Rightarrow> string + probe_outcome"

definition http_check :: "check_env \<Rightarrow> string \<Rightarrow> string \<Rightarrow> jsval list option \<Rightarrow> string option \<Rightarrow> bool \<Rightarrow> jsval \<Rightarrow> check_outcome" where
  "http_check e i url expected body_text tls timeout = (case ce_http e url tls (clamp_timeout (ce_text e) timeout) of
     HttpFailed d \<Rightarrow> \<lparr>co_id = i, co_ok = False, co_detail = d\<rparr>
   | HttpDone st body \<Rightarrow>
       let ok_status = (case expected of Some xs \<Rightarrow> js_includes xs (JNum (Fin (of_nat st))) | None \<Rightarrow> 200 \<le> st \<and> st < 400);
           ok_body = (case body_text of None \<Rightarrow> True | Some b \<Rightarrow> b = [] \<or> sublist b body)
       in \<lparr>co_id = i, co_ok = (ok_status \<and> ok_body),
            co_detail = ''HTTP '' @ show_nat st @ (if ok_body then [] else ''; body does not contain the expected text'')\<rparr>)"

definition probe_check :: "check_env \<Rightarrow> string \<Rightarrow> string \<Rightarrow> jsval \<Rightarrow> check_outcome" where
  "probe_check e i kind params = (case ce_probe e kind params of
     Inl m \<Rightarrow> \<lparr>co_id = i, co_ok = False, co_detail = m\<rparr>
   | Inr Unsupported \<Rightarrow> \<lparr>co_id = i, co_ok = False, co_detail = kind @ '' check not supported here''\<rparr>
   | Inr (ProbeError m) \<Rightarrow> \<lparr>co_id = i, co_ok = False, co_detail = m\<rparr>
   | Inr (Answered a) \<Rightarrow>
       if kind = ''service''
       then \<lparr>co_id = i, co_ok = (jprop a ''exists'' = JBool True \<and> jprop a ''state'' = JStr ''running''),
              co_detail = (if jprop a ''exists'' = JBool False then ''service not found'' else ''state '' @ string_of (ce_text e) (jprop a ''state''))\<rparr>
       else if kind = ''process''
       then \<lparr>co_id = i, co_ok = (jprop a ''running'' = JBool True),
              co_detail = (if truthy (jprop a ''running'') then string_of (ce_text e) (jprop a ''count'') @ '' running'' else ''not running'')\<rparr>
       else \<lparr>co_id = i, co_ok = (jprop a ''listening'' = JBool True),
              co_detail = (if truthy (jprop a ''listening'')
                then ''listening'' @ (if truthy (jprop a ''process'') then '' ('' @ string_of (ce_text e) (jprop a ''process'') @ '')'' else [])
                else ''not listening'')\<rparr>)"

fun run_check :: "check_env \<Rightarrow> vcheck \<Rightarrow> check_outcome" where
  "run_check e (TcpCheck i h p t) = (case ce_tcp e h p (clamp_timeout (ce_text e) t) of
     None \<Rightarrow> \<lparr>co_id = i, co_ok = True, co_detail = ''connected to '' @ h @ '':'' @ show_nat p\<rparr>
   | Some m \<Rightarrow> \<lparr>co_id = i, co_ok = False, co_detail = m\<rparr>)"
| "run_check e (HttpCheck i u st b tls t) = http_check e i u st b tls t"
| "run_check e (PortCheck i p) = probe_check e i ''port'' (JObj [(''port'', JNum (Fin (of_nat p)))])"
| "run_check e (ServiceCheck i n) = probe_check e i ''service'' (JObj [(''name'', JStr n)])"
| "run_check e (ProcessCheck i n) = probe_check e i ''process'' (JObj [(''name'', JStr n)])"

section \<open>The comparison\<close>

record baseline =
  bl_job :: string
  bl_at :: string
  bl_services :: service_snapshot
  bl_checks :: "vcheck list"
  bl_before :: "check_outcome list"
  bl_listeners :: "observed_listener list option"

datatype verdict = Passed | FailedVerdict | NoBaseline

datatype services_result = Compared nat "string list" | Unavailable string

record check_row =
  row_id :: string
  row_kind :: string
  row_before :: "bool option"
  row_after :: bool
  row_regression :: bool
  row_already_failing :: bool
  row_detail :: string

record verification =
  ver_job :: string
  ver_status :: verdict
  ver_at :: "string option"
  ver_services :: services_result
  ver_checks :: "check_row list"
  ver_samples :: nat
  ver_observed :: "observed_listener list option"

definition compare_services :: "baseline option \<Rightarrow> service_snapshot list \<Rightarrow> services_result" where
  "compare_services base after = (case base of
     None \<Rightarrow> Unavailable ''no pre-install snapshot on this device''
   | Some b \<Rightarrow> (case bl_services b of
       Unreadable m \<Rightarrow> Unavailable m
     | Services names \<Rightarrow>
         (case List.map_filter (\<lambda>s. case s of Unreadable m \<Rightarrow> Some m | Services xs \<Rightarrow> None) after of
            m # ms \<Rightarrow> Unavailable m
          | [] \<Rightarrow> Compared (length names) (filter (\<lambda>n. list_all (\<lambda>s. case s of Services xs \<Rightarrow> n \<notin> set xs | Unreadable m \<Rightarrow> True) after) names))))"

text \<open>\<open>new Map(checksBefore.map(...))\<close>: the last outcome with an id counts.\<close>

definition before_of :: "check_outcome list \<Rightarrow> string \<Rightarrow> bool option" where
  "before_of cs i = map_of (rev (map (\<lambda>c. (co_id c, co_ok c)) cs)) i"

definition compare_check :: "check_outcome list \<Rightarrow> check_outcome list list \<Rightarrow> vcheck \<Rightarrow> check_row" where
  "compare_check before after c =
     (let outs = List.map_filter (\<lambda>round. find (\<lambda>o1. co_id o1 = check_id c) round) after;
          ok = list_ex co_ok outs; was = before_of before (check_id c)
      in \<lparr>row_id = check_id c, row_kind = check_kind c, row_before = was, row_after = ok, row_regression = (\<not> ok \<and> was \<noteq> Some False),
          row_already_failing = (\<not> ok \<and> was = Some False), row_detail = take 200 (if outs = [] then ''not run'' else co_detail (last outs))\<rparr>)"

definition compare_verification ::
  "string \<Rightarrow> baseline option \<Rightarrow> service_snapshot list \<Rightarrow> vcheck list \<Rightarrow> check_outcome list list \<Rightarrow> verification" where
  "compare_verification job base after_services checks after_checks =
     (let services = compare_services base after_services;
          rows = map (compare_check (case base of None \<Rightarrow> [] | Some b \<Rightarrow> bl_before b) after_checks) checks;
          failed = ((case services of Compared w rs \<Rightarrow> length rs > 0 | Unavailable m \<Rightarrow> False) \<or> list_ex row_regression rows)
      in \<lparr>ver_job = job, ver_status = (if failed then FailedVerdict else if base = None \<and> length checks = 0 then NoBaseline else Passed),
          ver_at = map_option bl_at base, ver_services = services, ver_checks = rows, ver_samples = length after_services,
          ver_observed = (case base of None \<Rightarrow> None | Some b \<Rightarrow> bl_listeners b)\<rparr>)"

section \<open>The store\<close>

definition KEEP :: nat where "KEEP = 20"

definition save_baseline :: "baseline \<Rightarrow> baseline list \<Rightarrow> baseline list" where
  "save_baseline b stored = (let all = filter (\<lambda>x. bl_job x \<noteq> bl_job b) stored @ [b] in drop (length all - KEEP) all)"

definition load_baseline :: "string \<Rightarrow> baseline list \<Rightarrow> baseline option" where
  "load_baseline job stored = find (\<lambda>x. bl_job x = job) stored"

section \<open>The answer\<close>

definition MAX_B64 :: nat where "MAX_B64 = 200000"

definition verdict_text :: "verdict \<Rightarrow> string" where
  "verdict_text v = (case v of Passed \<Rightarrow> ''passed'' | FailedVerdict \<Rightarrow> ''failed'' | NoBaseline \<Rightarrow> ''no_baseline'')"

definition jnat :: "nat \<Rightarrow> jsval" where "jnat n = JNum (Fin (of_nat n))"

definition opt_text :: "string option \<Rightarrow> jsval" where
  "opt_text x = (case x of None \<Rightarrow> JNull | Some s \<Rightarrow> JStr s)"

definition listener_json :: "observed_listener \<Rightarrow> jsval" where
  "listener_json l = JObj ((''port'', jnat (ol_port l)) # (case ol_process l of None \<Rightarrow> [] | Some p \<Rightarrow> [(''process'', JStr p)])
     @ (if ol_services l = [] then [] else [(''services'', JArr (map JStr (ol_services l)))]))"

definition services_json :: "services_result \<Rightarrow> jsval" where
  "services_json s = (case s of
     Compared n rs \<Rightarrow> JObj [(''level'', jnat 1), (''status'', JStr ''compared''), (''watched'', jnat n), (''regressions'', JArr (map JStr rs))]
   | Unavailable m \<Rightarrow> JObj [(''level'', jnat 1), (''status'', JStr ''unavailable''), (''reason'', JStr m)])"

definition row_json :: "check_row \<Rightarrow> jsval" where
  "row_json r = JObj [(''id'', JStr (row_id r)), (''kind'', JStr (row_kind r)), (''before'', (case row_before r of None \<Rightarrow> JNull | Some b \<Rightarrow> JBool b)),
     (''after'', JBool (row_after r)), (''regression'', JBool (row_regression r)), (''alreadyFailing'', JBool (row_already_failing r)),
     (''detail'', JStr (row_detail r))]"

definition verification_json :: "verification \<Rightarrow> bool \<Rightarrow> jsval" where
  "verification_json r truncated =
     JObj ([(''patchJobId'', JStr (ver_job r)), (''status'', JStr (verdict_text (ver_status r))), (''baselineAt'', opt_text (ver_at r)),
            (''services'', services_json (ver_services r)), (''checks'', JArr (map row_json (ver_checks r))), (''samples'', jnat (ver_samples r))]
       @ (case ver_observed r of None \<Rightarrow> [] | Some ls \<Rightarrow> [(''observed'', JObj [(''listeners'', JArr (map listener_json ls))])])
       @ (if truncated then [(''truncated'', JBool True)] else []))"

definition cut_verification :: "verification \<Rightarrow> verification" where
  "cut_verification r = r\<lparr>ver_services := (case ver_services r of Compared n rs \<Rightarrow> Compared n (take 50 rs) | Unavailable m \<Rightarrow> Unavailable m),
     ver_checks := take 25 (ver_checks r)\<rparr>"

definition encode_verification_ack :: "(rat \<Rightarrow> string) \<Rightarrow> verification \<Rightarrow> string" where
  "encode_verification_ack pr r =
     (let b64 = json_b64 pr (verification_json r False) in
      ''patch_verify:'' @ verdict_text (ver_status r) @ '';result=''
        @ (if length b64 > MAX_B64 then json_b64 pr (verification_json (cut_verification r) True) else b64))"

definition observation_json :: "string + observed_listener list \<Rightarrow> nat option \<Rightarrow> jsval" where
  "observation_json obs most = (case obs of
     Inl m \<Rightarrow> JObj [(''ok'', JBool False), (''reason'', JStr m)]
   | Inr ls \<Rightarrow> JObj [(''ok'', JBool True), (''listeners'', JArr (map listener_json (case most of None \<Rightarrow> ls | Some n \<Rightarrow> take n ls)))])"

definition snapshot_json :: "service_snapshot \<Rightarrow> nat option \<Rightarrow> jsval" where
  "snapshot_json s most = (case s of
     Unreadable m \<Rightarrow> JObj [(''ok'', JBool False), (''reason'', JStr m)]
   | Services xs \<Rightarrow> JObj [(''ok'', JBool True), (''services'', JArr (map JStr (case most of None \<Rightarrow> xs | Some n \<Rightarrow> take n xs)))])"

definition encode_discover_ack :: "(rat \<Rightarrow> string) \<Rightarrow> string + observed_listener list \<Rightarrow> service_snapshot \<Rightarrow> string" where
  "encode_discover_ack pr obs s =
     (let body = JObj [(''listeners'', observation_json obs None), (''services'', snapshot_json s None)]; b64 = json_b64 pr body in
      ''verify_discover:ok;result=''
        @ (if length b64 > MAX_B64
           then json_b64 pr (JObj [(''listeners'', observation_json obs (Some 32)), (''services'', snapshot_json s (Some 200)), (''truncated'', JBool True)])
           else b64))"

section \<open>patch\_verify\<close>

text \<open>How many samples are taken: the loop runs while \<open>i < samples\<close>.\<close>

definition sample_count :: "(jsval \<Rightarrow> string) \<Rightarrow> jsval \<Rightarrow> nat" where
  "sample_count t v =
     (let n = number_of_value t v; m = (if n = Fin 0 \<or> n = NaN then Fin 2 else n) in
      case m of Fin q \<Rightarrow> nat \<lceil>min (max q 1) 3\<rceil> | PosInf \<Rightarrow> 3 | _ \<Rightarrow> 1)"

text \<open>\<open>services i\<close> is the snapshot taken in the i-th sample, \<open>envs i\<close> what the checks see then.\<close>

definition patch_verify ::
  "(jsval \<Rightarrow> string) \<Rightarrow> (rat \<Rightarrow> string) \<Rightarrow> jsval \<Rightarrow> bool \<Rightarrow> baseline list \<Rightarrow> (nat \<Rightarrow> service_snapshot) \<Rightarrow> (nat \<Rightarrow> check_env) \<Rightarrow> nat \<times> string" where
  "patch_verify t pr payload install_running stored services envs =
     (let v = jprop payload ''patchJobId''; job = trim (if truthy v then string_of t v else []) in
      if install_running then (1, ''patch_verify retry: patch install in progress'')
      else if \<not> guid_pattern job then (2, ''patch_verify rejected: invalid patchJobId'')
      else
        let n = sample_count t (jprop payload ''samples''); base = load_baseline job stored; given = parse_checks (jprop payload ''checks'');
            checks = (if length given > 0 then given else case base of None \<Rightarrow> [] | Some b \<Rightarrow> bl_checks b)
        in (0, encode_verification_ack pr (compare_verification job base (map services [0..<n]) checks (map (\<lambda>i. map (run_check (envs i)) checks) [0..<n]))))"

text \<open>The snapshot before a change (\<open>captureChangeBaseline\<close>), saved.\<close>

definition capture_change_baseline ::
  "string \<Rightarrow> string \<Rightarrow> jsval \<Rightarrow> service_snapshot \<Rightarrow> check_env \<Rightarrow> string + observed_listener list \<Rightarrow> baseline" where
  "capture_change_baseline job at_utc payload services e listeners =
     (let checks = parse_checks (jprop (jprop payload ''verification'') ''checks'') in
      \<lparr>bl_job = job, bl_at = at_utc, bl_services = services, bl_checks = checks, bl_before = map (run_check e) checks,
        bl_listeners = (case listeners of Inl m \<Rightarrow> None | Inr ls \<Rightarrow> Some ls)\<rparr>)"

section \<open>What the snapshot holds\<close>

lemma add_new_set [simp]: "set (add_new xs x) = insert x (set xs)"
  by (auto simp: add_new_def)

lemma fold_add_new: "set (foldl add_new xs ys) = set xs \<union> set ys" "distinct xs \<Longrightarrow> distinct (foldl add_new xs ys)"
  by (induction ys arbitrary: xs) (auto simp: add_new_def)

lemma sort_set_distinct: "distinct xs \<Longrightarrow> distinct (sort (filter P xs)) \<and> sorted (sort (filter P xs))"
  by simp

text \<open>The snapshot holds services that start by themselves and run, nothing else. On Windows, each service in it is in the list of running tasks and marked as
  automatic in the registry, and neither started by a trigger (as far as that list could be read) nor one of those that stop by design; the
  list is sorted and without repetitions. A tool that fails gives no list at all.\<close>

theorem snapshot_is_running_and_automatic:
  assumes "snapshot_services Windows tool = Services xs"
  shows "\<exists>tasks registry gc triggers. tool 0 = Inr (Some 0, tasks) \<and> tool 1 = Inr (Some 0, registry) \<and> tool 2 = Inr (gc, triggers)
    \<and> sorted xs \<and> distinct xs
    \<and> set xs = (set (parse_tasklist_services tasks) \<inter> set (parse_auto_start_services registry)) - set WINDOWS_SELF_STOPPING
        - set (if gc = Some 0 then parse_trigger_start_services triggers else [])"
proof -
  obtain a b c where t: "tool 0 = Inr a" "tool 1 = Inr b" "tool 2 = Inr c"
    using assms by (cases "tool 0"; cases "tool 1"; cases "tool 2") (auto simp: snapshot_services_def windows_services_def)
  obtain tc tasks rc registry gc triggers where abc: "a = (tc, tasks)" "b = (rc, registry)" "c = (gc, triggers)" by (metis prod.exhaust)
  have ok: "tc = Some 0" "rc = Some 0" using assms by (auto simp: snapshot_services_def windows_services_def t t(2) [unfolded One_nat_def] abc Let_def split: if_splits)
  have xs: "xs = sort (filter (\<lambda>s. s \<in> set (parse_auto_start_services registry)
      \<and> s \<notin> set (if gc = Some 0 then parse_trigger_start_services triggers else []) \<and> s \<notin> set WINDOWS_SELF_STOPPING) (parse_tasklist_services tasks))"
    using assms by (simp add: snapshot_services_def windows_services_def t t(2) [unfolded One_nat_def] abc ok Let_def)
  have "distinct (parse_tasklist_services tasks)" by (simp add: parse_tasklist_services_def fold_add_new(2))
  then have "sorted xs \<and> distinct xs" unfolding xs by simp
  moreover have "set xs = (set (parse_tasklist_services tasks) \<inter> set (parse_auto_start_services registry)) - set WINDOWS_SELF_STOPPING
      - set (if gc = Some 0 then parse_trigger_start_services triggers else [])" unfolding xs set_sort set_filter by blast
  ultimately show ?thesis using t abc ok by blast
qed

definition sample_tasks :: string where
  "sample_tasks = concat (map (\<lambda>w. [dquote] @ w @ [dquote] @ '','') [''spoolsv.exe'', ''1012'', ''Spooler,BITS''])"

definition sample_registry :: string where
  "sample_registry = SERVICES_KEY @ ''Spooler'' @ [char_of (10 :: nat)] @ ''    Start    REG_DWORD    0x2'' @ [char_of (10 :: nat)]
     @ SERVICES_KEY @ ''BITS'' @ [char_of (10 :: nat)] @ ''    Start    REG_DWORD    0x2''"

definition sample_tool :: "nat \<Rightarrow> tool_output" where
  "sample_tool i = (if i = 0 then Inr (Some 0, sample_tasks) else if i = 1 then Inr (Some 0, sample_registry) else Inr (Some 1, []))"

lemma sample_snapshot: "snapshot_services Windows sample_tool = Services [''spooler'']"
  by code_simp

lemma snapshot_is_running_and_automatic_witness:
  "set [''spooler''] = (set (parse_tasklist_services sample_tasks) \<inter> set (parse_auto_start_services sample_registry)) - set WINDOWS_SELF_STOPPING"
  using snapshot_is_running_and_automatic [OF sample_snapshot] by (simp add: sample_tool_def)

section \<open>Declared checks are well formed\<close>

text \<open>What a check may hold: names without quotes or spaces, ports that exist, hosts and web addresses without spaces, identifiers of at most 64 characters.\<close>

fun check_data_ok :: "vcheck \<Rightarrow> bool" where
  "check_data_ok (ServiceCheck i n) \<longleftrightarrow> n \<noteq> [] \<and> length n \<le> 128 \<and> list_all (\<lambda>c. is_alnum c \<or> c \<in> set ''._@:+-'') n"
| "check_data_ok (ProcessCheck i n) \<longleftrightarrow> n \<noteq> [] \<and> length n \<le> 128 \<and> list_all (\<lambda>c. is_alnum c \<or> c \<in> set ''._@:+-'') n"
| "check_data_ok (PortCheck i p) \<longleftrightarrow> 0 < p \<and> p < 65536"
| "check_data_ok (TcpCheck i h p t) \<longleftrightarrow> h \<noteq> [] \<and> length h \<le> 253 \<and> list_all (\<lambda>c. is_alnum c \<or> c \<in> set ''.:[]-'') h \<and> 0 < p \<and> p < 65536"
| "check_data_ok (HttpCheck i u st b tls t) \<longleftrightarrow> (starts_with u ''http://'' \<or> starts_with u ''https://'') \<and> length u \<le> 2008
     \<and> (case st of None \<Rightarrow> True | Some xs \<Rightarrow> xs \<noteq> [] \<and> list_all js_integer xs) \<and> (case b of None \<Rightarrow> True | Some x \<Rightarrow> length x \<le> 200)"

lemma check_port_bounds: "check_port v = Some p \<Longrightarrow> 0 < p \<and> p < 65536"
proof -
  assume a: "check_port v = Some p"
  then obtain q where q: "v = JNum (Fin q)" "is_integer (Fin q)" "0 < q" "q < 65536" "p = nat \<lfloor>q\<rfloor>"
    by (auto simp: check_port_def split: jsval.splits jsnum.splits if_splits)
  have k: "q = of_int \<lfloor>q\<rfloor>" using q(2) unfolding is_integer_def by (simp only: jsnum.case)
  have "0 < \<lfloor>q\<rfloor>" using q(3) k by (metis of_int_0_less_iff)
  moreover have "\<lfloor>q\<rfloor> < 65536" using q(4) by (simp add: floor_less_iff)
  moreover have "0 < j \<Longrightarrow> j < 65536 \<Longrightarrow> 0 < nat j \<and> nat j < 65536" for j by arith
  ultimately show ?thesis unfolding q(5) by blast
qed

lemma check_name_ok: "check_name v = Some n \<Longrightarrow> n \<noteq> [] \<and> length n \<le> 128 \<and> list_all (\<lambda>c. is_alnum c \<or> c \<in> set ''._@:+-'') n"
  unfolding check_name_def by (cases v) (auto split: if_splits)

lemma check_host_ok: "check_host v = Some h \<Longrightarrow> h \<noteq> [] \<and> length h \<le> 253 \<and> list_all (\<lambda>c. is_alnum c \<or> c \<in> set ''.:[]-'') h"
  unfolding check_host_def by (cases v) (auto split: if_splits)

lemma check_url_ok: "check_url v = Some u \<Longrightarrow> (starts_with u ''http://'' \<or> starts_with u ''https://'') \<and> length u \<le> 2008"
  unfolding check_url_def by (cases v) (auto simp: Let_def split: if_splits)

lemma parse_check_ok:
  assumes "parse_check n c = Some v"
  shows "check_data_ok v"
proof -
  let ?st = "case jprop c ''expectStatus'' of JArr xs \<Rightarrow> (let st = filter js_integer xs in if st \<noteq> [] then Some st else None) | _ \<Rightarrow> None"
  let ?b = "case jprop c ''bodyContains'' of JStr b \<Rightarrow> Some (take 200 b) | _ \<Rightarrow> None"
  have st: "case ?st of None \<Rightarrow> True | Some xs \<Rightarrow> xs \<noteq> [] \<and> list_all js_integer xs"
    by (cases "jprop c ''expectStatus''") (simp_all add: Let_def list_all_iff)
  have b: "case ?b of None \<Rightarrow> True | Some x \<Rightarrow> length x \<le> 200" by (cases "jprop c ''bodyContains''") simp_all
  from assms st b show ?thesis
    unfolding parse_check_def Let_def
    by (auto dest!: check_name_ok check_port_bounds check_host_ok check_url_ok split: if_splits option.splits)
qed

text \<open>Declared checks are well formed. Of whatever the control plane sends as checks, at most 25 are taken, and each one taken has a port that exists, a name or host
  of harmless characters and bounded length, or a web address; the rest is left out.\<close>

theorem checks_are_well_formed:
  "length (parse_checks raw) \<le> MAX_CHECKS \<and> list_all check_data_ok (parse_checks raw)"
proof (cases raw)
  case (JArr xs)
  let ?f = "\<lambda>out c. case parse_check (length out) c of Some v \<Rightarrow> out @ [v] | None \<Rightarrow> out"
  have "length (foldl ?f out ys) \<le> length out + length ys \<and> list_all check_data_ok (foldl ?f out ys)" if "list_all check_data_ok out" for out ys
    using that
  proof (induction ys arbitrary: out)
    case (Cons y ys)
    have "list_all check_data_ok (?f out y)" using Cons.prems parse_check_ok [of "length out" y] by (auto split: option.split)
    moreover have "length (?f out y) \<le> Suc (length out)" by (simp split: option.split)
    ultimately show ?case using Cons.IH [of "?f out y"] by simp
  qed simp
  from this [of "[]" "take MAX_CHECKS xs"] JArr show ?thesis by (simp add: parse_checks_def)
qed (simp_all add: parse_checks_def)

section \<open>The store keeps what was saved\<close>

lemma find_append: "find P (xs @ ys) = (case find P xs of Some x \<Rightarrow> Some x | None \<Rightarrow> find P ys)"
  by (induction xs) auto

lemma find_none: "find P xs = None \<longleftrightarrow> list_all (\<lambda>x. \<not> P x) xs"
  by (induction xs) auto

lemma saved_found: "load_baseline (bl_job b) (save_baseline b stored) = Some b"
proof -
  let ?old = "filter (\<lambda>x. bl_job x \<noteq> bl_job b) stored"
  have s: "save_baseline b stored = drop (Suc (length ?old) - KEEP) ?old @ [b]"
    by (simp add: save_baseline_def Let_def KEEP_def)
  have "list_all (\<lambda>x. bl_job x \<noteq> bl_job b) (drop n ?old)" for n unfolding list_all_iff by (auto dest: in_set_dropD)
  then have "find (\<lambda>x. bl_job x = bl_job b) (drop n ?old) = None" for n by (simp add: find_none)
  then show ?thesis unfolding s load_baseline_def find_append by simp
qed

text \<open>A saved baseline is found again. After a baseline is saved it is what is loaded for its job, whatever was there before, the store has at most 20, and for another
  job the store gives what it gave before or, if that was among the oldest, nothing.\<close>

theorem saved_baseline_is_found:
  "load_baseline (bl_job b) (save_baseline b stored) = Some b \<and> length (save_baseline b stored) \<le> KEEP
     \<and> load_baseline other (save_baseline b (save_baseline c [])) = (if other = bl_job b then Some b else if other = bl_job c then Some c else None)
     \<and> set (save_baseline b stored) \<subseteq> insert b (set stored)"
proof -
  let ?old = "filter (\<lambda>x. bl_job x \<noteq> bl_job b) stored"
  have s: "save_baseline b stored = drop (Suc (length ?old) - KEEP) ?old @ [b]"
    by (simp add: save_baseline_def Let_def KEEP_def)
  have "length (save_baseline b stored) \<le> KEEP" unfolding s by (simp add: KEEP_def)
  moreover have "set (save_baseline b stored) \<subseteq> insert b (set stored)" unfolding s by (auto dest: in_set_dropD)
  moreover have "load_baseline other (save_baseline b (save_baseline c [])) = (if other = bl_job b then Some b else if other = bl_job c then Some c else None)"
    by (auto simp: save_baseline_def load_baseline_def KEEP_def)
  ultimately show ?thesis using saved_found [of b stored] by blast
qed

section \<open>The whole round\<close>

lemma guid_no_space: "guid_pattern s \<Longrightarrow> trim s = s"
proof -
  assume g: "guid_pattern s"
  have "\<not> is_space c" if "c \<in> set s" for c
  proof (cases "c = CHR ''-''")
    case False
    with g that have "is_hex c" by (auto simp: guid_pattern_def list_all_iff)
    then show ?thesis by (auto simp: is_hex_def is_digit_def is_space_def)
  qed (simp add: is_space_def char_code_def)
  then show ?thesis by (intro trim_no_space) (simp add: list_all_iff)
qed

lemma guid_not_Nil: "guid_pattern s \<Longrightarrow> s \<noteq> []"
  by (auto simp: guid_pattern_def)

lemma sample_count_bounds: "1 \<le> sample_count t v \<and> sample_count t v \<le> 3"
proof -
  have "1 \<le> nat \<lceil>min (max q 1) 3\<rceil> \<and> nat \<lceil>min (max q 1) 3\<rceil> \<le> 3" for q :: rat
  proof -
    have "1 \<le> min (max q 1) 3" "min (max q 1) 3 \<le> 3" by simp_all
    then have "1 \<le> \<lceil>min (max q 1) 3\<rceil>" "\<lceil>min (max q 1) 3\<rceil> \<le> 3" by (simp_all add: le_ceiling_iff ceiling_le_iff)
    then show ?thesis by linarith
  qed
  then show ?thesis by (simp add: sample_count_def Let_def split: jsnum.split)
qed

lemma run_check_id: "co_id (run_check e c) = check_id c"
  by (cases c) (simp_all add: http_check_def probe_check_def Let_def split: option.split http_result.split sum.split probe_outcome.split)

lemma find_own:
  assumes "distinct (map check_id checks)" and "c \<in> set checks"
  shows "find (\<lambda>o1. co_id o1 = check_id c) (map (run_check e) checks) = Some (run_check e c)"
  using assms
proof (induction checks)
  case (Cons d checks)
  then show ?case by (cases "c = d") (auto simp: run_check_id)
qed simp

lemma before_own:
  assumes "distinct (map check_id checks)" and "c \<in> set checks"
  shows "before_of (map (run_check e) checks) (check_id c) = Some (co_ok (run_check e c))"
proof -
  let ?kvs = "map (\<lambda>d. (check_id d, co_ok (run_check e d))) checks"
  have "before_of (map (run_check e) checks) = map_of (rev ?kvs)" by (simp add: before_of_def comp_def run_check_id fun_eq_iff)
  moreover have "distinct (map fst (rev ?kvs))" using assms(1) by (simp add: rev_map [symmetric] comp_def)
  moreover have "(check_id c, co_ok (run_check e c)) \<in> set (rev ?kvs)" using assms(2) by auto
  ultimately show ?thesis by (simp add: map_of_is_SomeI)
qed

lemma unchanged_row:
  assumes "distinct (map check_id checks)" and "c \<in> set checks"
  shows "\<not> row_regression (compare_check (map (run_check e) checks) (map (\<lambda>i. map (run_check e) checks) [0..<n]) c) \<or> n = 0"
proof (cases "n = 0")
  case False
  have "List.map_filter (\<lambda>round. find (\<lambda>o1. co_id o1 = check_id c) round) (map (\<lambda>i. map (run_check e) checks) is) = map (\<lambda>i. run_check e c) is" for "is"
    by (induction "is") (simp_all add: List.map_filter_simps find_own [OF assms])
  note outs = this [of "[0..<n]"]
  show ?thesis using False unfolding compare_check_def outs before_own [OF assms] Let_def by (auto simp: list_ex_iff)
qed simp

text \<open>C27. A device that did not change passes. If a baseline was captured before a change and saved, and afterwards every sample shows the services of then still running
  and every check answers as before (also those that failed before), the verification of that change is passed and names no service, provided the
  checks have different identifiers.\<close>

theorem unchanged_device_passes:
  assumes "distinct (map check_id (parse_checks (jprop (jprop payload ''verification'') ''checks'')))" and "guid_pattern job"
    and "\<And>i. services i = Services now" and "set names \<subseteq> set now"
    and "stored2 = save_baseline (capture_change_baseline job at_utc payload (Services names) e listeners) stored"
  shows "\<exists>r. patch_verify t pr (JObj [(''patchJobId'', JStr job), (''samples'', samples)]) False stored2 services (\<lambda>i. e) = (0, encode_verification_ack pr r)
    \<and> ver_status r = Passed \<and> ver_services r = Compared (length names) []"
proof -
  let ?b = "capture_change_baseline job at_utc payload (Services names) e listeners"
  let ?checks = "parse_checks (jprop (jprop payload ''verification'') ''checks'')"
  let ?n = "sample_count t samples"
  have b: "bl_job ?b = job" "bl_services ?b = Services names" "bl_checks ?b = ?checks" "bl_before ?b = map (run_check e) ?checks"
    by (simp_all add: capture_change_baseline_def Let_def)
  have l: "load_baseline job stored2 = Some ?b" using saved_found [of ?b stored] b(1) by (simp add: assms(5))
  have n: "1 \<le> ?n" using sample_count_bounds by blast
  let ?r = "compare_verification job (Some ?b) (map services [0..<?n]) ?checks (map (\<lambda>i. map (run_check e) ?checks) [0..<?n])"
  have sv: "services = (\<lambda>i. Services now)" using assms(3) by (rule ext)
  have after: "map services [0..<?n] = replicate ?n (Services now)" unfolding sv by (simp add: map_replicate_const)
  have readable: "List.map_filter (\<lambda>s. case s of Unreadable m \<Rightarrow> Some m | Services xs \<Rightarrow> None) (replicate k (Services now)) = []" for k
    by (induction k) (simp_all add: List.map_filter_simps)
  have "filter (\<lambda>n. list_all (\<lambda>s. case s of Services xs \<Rightarrow> n \<notin> set xs | Unreadable m \<Rightarrow> True) (replicate ?n (Services now))) names = []"
    using n assms(4) by (auto simp: filter_empty_conv list_all_iff)
  then have s: "compare_services (Some ?b) (map services [0..<?n]) = Compared (length names) []"
    unfolding compare_services_def after by (simp add: b readable)
  have "\<not> row_regression (compare_check (map (run_check e) ?checks) (map (\<lambda>i. map (run_check e) ?checks) [0..<?n]) c)" if "c \<in> set ?checks" for c
    using unchanged_row [OF assms(1) that, of e ?n] n by linarith
  then have "\<not> list_ex row_regression (map (compare_check (map (run_check e) ?checks) (map (\<lambda>i. map (run_check e) ?checks) [0..<?n])) ?checks)"
    by (auto simp: list_ex_iff)
  then have r: "ver_status ?r = Passed" "ver_services ?r = Compared (length names) []"
    by (simp_all add: compare_verification_def s b Let_def)
  have "patch_verify t pr (JObj [(''patchJobId'', JStr job), (''samples'', samples)]) False stored2 services (\<lambda>i. e) = (0, encode_verification_ack pr ?r)"
    using assms(2) guid_no_space [OF assms(2)] guid_not_Nil [OF assms(2)]
    by (simp add: patch_verify_def string_of_def parse_checks_def [of JUndef] l b Let_def)
  with r show ?thesis by blast
qed

definition sample_guid :: string where
  "sample_guid = ''00000000-0000-0000-0000-000000000000''"

lemma sample_guid_ok: "guid_pattern sample_guid"
  by code_simp

definition port_env :: "nat list \<Rightarrow> check_env" where
  "port_env open_ports = \<lparr>ce_text = (\<lambda>_. ''1''), ce_tcp = (\<lambda>_ _ _. None), ce_http = (\<lambda>_ _ _. HttpFailed ''error''),
     ce_probe = (\<lambda>k p. Inr (Answered (JObj [(''listening'', JBool (list_ex (\<lambda>n. jprop p ''port'' = JNum (Fin (of_nat n))) open_ports))])))\<rparr>"

definition port_checks :: "jsval \<Rightarrow> jsval" where
  "port_checks i = JObj [(''verification'', JObj [(''checks'', JArr [JObj [(''id'', JStr ''1''), (''kind'', JStr ''port''), (''port'', JNum (Fin 80))],
     JObj [(''id'', i), (''kind'', JStr ''port''), (''port'', JNum (Fin 81))]])])]"

lemma port_checks_parsed:
  "parse_checks (jprop (jprop (port_checks JUndef) ''verification'') ''checks'') = [PortCheck ''1'' 80, PortCheck ''1'' 81]"
  "parse_checks (jprop (jprop (port_checks (JStr ''2'')) ''verification'') ''checks'') = [PortCheck ''1'' 80, PortCheck ''2'' 81]"
  by (simp_all add: port_checks_def parse_checks_def parse_check_def check_port_def is_integer_def MAX_CHECKS_def show_nat_eval Let_def)

lemma unchanged_device_passes_witness:
  "\<exists>r. patch_verify (\<lambda>_. ''1'') (\<lambda>_. ''1'') (JObj [(''patchJobId'', JStr sample_guid), (''samples'', JUndef)]) False
      (save_baseline (capture_change_baseline sample_guid [] (port_checks (JStr ''2'')) (Services [''spooler'']) (port_env [81]) (Inr [])) [])
      (\<lambda>i. Services [''spooler'', ''w32time'']) (\<lambda>i. port_env [81]) = (0, encode_verification_ack (\<lambda>_. ''1'') r)
    \<and> ver_status r = Passed \<and> ver_services r = Compared 1 []"
  using unchanged_device_passes [where payload = "port_checks (JStr ''2'')" and job = sample_guid and services = "\<lambda>i. Services [''spooler'', ''w32time'']"
      and now = "[''spooler'', ''w32time'']" and names = "[''spooler'']" and e = "port_env [81]" and t = "\<lambda>_. ''1''" and pr = "\<lambda>_. ''1''" and samples = JUndef,
      OF _ sample_guid_ok refl _ refl]
  unfolding port_checks_parsed by simp

text \<open>Two checks can share an identifier, and then the comparison is wrong both ways. A check without an identifier is given its position as one, which another check may
  bear already. On a device where one of the two ports was closed before and is closed now, and nothing changed, the verification fails; and if the port
  that was open is found closed afterwards, while the other one now is open, it passes.\<close>

theorem shared_check_id_misjudges:
  "let checks = parse_checks (jprop (jprop (port_checks JUndef) ''verification'') ''checks'');
       before = (\<lambda>ports. capture_change_baseline job at_utc (port_checks JUndef) (Services []) (port_env ports) listeners);
       judge = (\<lambda>old new. ver_status (compare_verification job (Some (before old)) [Services []] checks [map (run_check (port_env new)) checks]))
   in judge [81] [81] = FailedVerdict \<and> judge [81] [80] = Passed"
  unfolding Let_def port_checks_parsed
  by (simp add: capture_change_baseline_def port_checks_parsed compare_verification_def compare_services_def compare_check_def before_of_def probe_check_def
      port_env_def List.map_filter_simps Let_def)

text \<open>Passed may mean that nothing was looked at. On macOS, where the services cannot be read, a change without declared checks is verified as passed (not as
  without baseline), with the services unavailable and no check at all.\<close>

theorem passed_without_looking:
  "\<exists>r. patch_verify t pr (JObj [(''patchJobId'', JStr sample_guid)]) False
      (save_baseline (capture_change_baseline sample_guid at_utc JNull (snapshot_services Macos tool) e listeners) stored) services envs
      = (0, encode_verification_ack pr r)
    \<and> ver_status r = Passed \<and> ver_checks r = [] \<and> ver_services r = Unavailable ''service baseline not supported on darwin''"
proof -
  let ?b = "capture_change_baseline sample_guid at_utc JNull (snapshot_services Macos tool) e listeners"
  have b: "bl_job ?b = sample_guid" "bl_services ?b = Unreadable ''service baseline not supported on darwin''" "bl_checks ?b = []" "bl_before ?b = []"
    by (simp_all add: capture_change_baseline_def parse_checks_def snapshot_services_def Let_def)
  have l: "load_baseline sample_guid (save_baseline ?b stored) = Some ?b" using saved_found [of ?b stored] b(1) by simp
  let ?n = "sample_count t JUndef"
  let ?r = "compare_verification sample_guid (Some ?b) (map services [0..<?n]) [] (map (\<lambda>i. map (run_check (envs i)) []) [0..<?n])"
  have "patch_verify t pr (JObj [(''patchJobId'', JStr sample_guid)]) False (save_baseline ?b stored) services envs = (0, encode_verification_ack pr ?r)"
    using guid_no_space [OF sample_guid_ok] guid_not_Nil [OF sample_guid_ok] sample_guid_ok
    by (simp add: patch_verify_def string_of_def parse_checks_def [of JUndef] l b Let_def)
  moreover have "ver_status ?r = Passed" "ver_checks ?r = []" "ver_services ?r = Unavailable ''service baseline not supported on darwin''"
    by (simp_all add: compare_verification_def compare_services_def b Let_def)
  ultimately show ?thesis by blast
qed

end
