(* ===== verification/Update_State.thy ===== *)
theory Update_State
  imports Gates
begin

text \<open>
  What surrounds an update of the agent (\<open>src/update/\<close>): the text of a thrown value (\<open>describe-error.ts\<close>), the saved state with its merge
  rules (\<open>update-state.ts\<close>), the battery gate (\<open>battery-gate.ts\<close>, \<open>domain/battery.ts\<close>), the installers of earlier attempts on macOS
  (\<open>macos-installer-guard.ts\<close>) and who served the running version (\<open>update-source-report.ts\<close>). A stamp is a number of milliseconds, what
  \<open>Date.parse\<close> reads; \<open>None\<close> is a stamp that is missing or not a date.
\<close>

lemma trim_empty [simp]: "trim [] = []"
  by (simp add: trim_def)

section \<open>The text of a thrown value\<close>

text \<open>
  A thrown value: null, undefined, a string, another primitive with its \<open>String(v)\<close>, or an object with its \<open>name\<close>, the name of its
  constructor, its \<open>message\<close>, \<open>errors\<close>, \<open>cause\<close> and \<open>String(v)\<close> (empty texts where there are none).
\<close>

datatype thrown =
    TNull
  | TUndef
  | TText string
  | TOther string
  | TErr string string string "thrown list" thrown string

text \<open>\<open>new Error(m)\<close>\<close>

definition plain_error :: "string \<Rightarrow> thrown" where
  "plain_error m = TErr ''Error'' ''Error'' m [] TUndef (''Error'' @ (if m = [] then [] else '': '' @ m))"

fun falsy_thrown :: "thrown \<Rightarrow> bool" where
  "falsy_thrown TNull = True"
| "falsy_thrown TUndef = True"
| "falsy_thrown (TText s) = (s = [])"
| "falsy_thrown (TOther s) = (s = ''0'' \<or> s = ''false'' \<or> s = ''NaN'')"
| "falsy_thrown _ = False"

definition MAX_LENGTH :: nat where
  "MAX_LENGTH = 300"

text \<open>The one code unit of the ellipsis, U+2026, written here with the code it has in windows-1252.\<close>

definition ELLIPSIS :: char where
  "ELLIPSIS = CHR 0x85"

definition truncate_text :: "string \<Rightarrow> nat \<Rightarrow> string" where
  "truncate_text s m = (if length s \<le> m then s else take (m - 1) s @ [ELLIPSIS])"

definition name_of :: "string \<Rightarrow> string \<Rightarrow> string" where
  "name_of name ctor = (if trim name \<noteq> [] then trim name else if trim ctor \<noteq> [] then trim ctor else ''Error'')"

text \<open>The distinct texts that are not empty, in the order they come.\<close>

definition distinct_texts :: "string list \<Rightarrow> string list" where
  "distinct_texts ts = foldl (\<lambda>parts t. if t = [] \<or> t \<in> set parts then parts else parts @ [t]) [] ts"

definition dropped_suffix :: "nat \<Rightarrow> string" where
  "dropped_suffix n = (if n > 0 then '' (+'' @ show_nat n @ '' more)'' else [])"

definition text_width :: "nat \<Rightarrow> string list \<Rightarrow> nat" where
  "text_width n kept = sum_list (map length kept) + 2 * (length kept - 1) + length (dropped_suffix (n - length kept))"

fun grow :: "nat \<Rightarrow> nat \<Rightarrow> string list \<Rightarrow> string list \<Rightarrow> string list" where
  "grow n budget kept [] = kept"
| "grow n budget kept (p # ps) = (if text_width n (kept @ [p]) > budget then kept else grow n budget (kept @ [p]) ps)"

function shrink :: "nat \<Rightarrow> nat \<Rightarrow> string list \<Rightarrow> string list" where
  "shrink n budget kept = (if kept \<noteq> [] \<and> text_width n kept > budget then shrink n budget (butlast kept) else kept)"
  by pat_completeness auto
termination
  by (relation "measure (\<lambda>(n, b, kept). length kept)") auto

declare shrink.simps [simp del]

definition join_bounded :: "string list \<Rightarrow> int \<Rightarrow> string" where
  "join_bounded parts budget =
     (let n = length parts in
      if budget \<le> 0 then show_nat n @ '' causes''
      else (let kept = shrink n (nat budget) (grow n (nat budget) [] parts) in
            if kept = [] then show_nat n @ '' causes''
            else join_with ''; '' kept @ dropped_suffix (n - length kept)))"

text \<open>\<open>own.includes(t)\<close>\<close>

definition has_substring :: "string \<Rightarrow> string \<Rightarrow> bool" where
  "has_substring s t \<longleftrightarrow> list_ex (\<lambda>i. starts_with (drop i s) t) [0..<Suc (length s)]"

text \<open>The depth is counted down from \<open>MAX_DEPTH\<close>.\<close>

definition MAX_DEPTH :: nat where
  "MAX_DEPTH = 2"

fun describe_at :: "nat \<Rightarrow> thrown \<Rightarrow> string" where
  "describe_at r TNull = ''null''"
| "describe_at r TUndef = ''undefined''"
| "describe_at r (TText s) = (if trim s = [] then ''(empty string)'' else trim s)"
| "describe_at r (TOther s) = s"
| "describe_at r (TErr name ctor message errors cause text) =
     (let own = trim message in
      if errors \<noteq> [] \<and> 0 < r then
        (let parts = distinct_texts (map (describe_at (r - 1)) errors);
             head = name_of name ctor @ ''('' @ show_nat (length errors) @ '')'';
             pre = (if own \<noteq> [] then head @ '': '' @ own else head)
         in if parts = [] then truncate_text pre MAX_LENGTH
            else truncate_text (pre @ '': '' @ join_bounded parts (int MAX_LENGTH - int (length pre) - 2)) MAX_LENGTH)
      else if own \<noteq> [] then
        (let by = (if \<not> falsy_thrown cause \<and> 0 < r then describe_at (r - 1) cause else []) in
         if by \<noteq> [] \<and> \<not> has_substring own by then truncate_text (own @ '' (cause: '' @ by @ '')'') MAX_LENGTH
         else truncate_text own MAX_LENGTH)
      else truncate_text (if text \<noteq> [] \<and> text \<noteq> ''[object Object]'' then text else name_of name ctor) MAX_LENGTH)"

definition describe_error :: "thrown \<Rightarrow> string" where
  "describe_error t = describe_at MAX_DEPTH t"

lemma length_truncate: "0 < m \<Longrightarrow> length (truncate_text s m) \<le> m"
  by (simp add: truncate_text_def)

lemma truncate_not_Nil: "s \<noteq> [] \<Longrightarrow> truncate_text s m \<noteq> []"
  by (simp add: truncate_text_def)

lemma describe_plain: "trim m = m \<Longrightarrow> m \<noteq> [] \<Longrightarrow> describe_error (plain_error m) = truncate_text m 300"
  by (simp add: describe_error_def plain_error_def MAX_DEPTH_def MAX_LENGTH_def)

lemma length_join: "length (join_with d ws) = sum_list (map length ws) + length d * (length ws - 1)"
  by (induction d ws rule: join_with.induct) auto

lemma shrink_fits: "shrink n b kept \<noteq> [] \<Longrightarrow> text_width n (shrink n b kept) \<le> b"
proof (induction n b kept rule: shrink.induct)
  case (1 n b kept)
  show ?case
  proof (cases "kept \<noteq> [] \<and> text_width n kept > b")
    case True
    with 1 show ?thesis by (subst shrink.simps) (simp add: shrink.simps [of n b kept])
  next
    case False
    with 1(2) show ?thesis by (simp add: shrink.simps [of n b kept] split: if_splits)
  qed
qed

lemma join_bounded_fits:
  assumes "int (length (show_nat (length parts))) + 7 \<le> budget"
  shows "int (length (join_bounded parts budget)) \<le> budget"
proof -
  obtain b where b: "budget = int b" using assms by (cases budget) auto
  let ?kept = "shrink (length parts) b (grow (length parts) b [] parts)"
  show ?thesis
  proof (cases "?kept = []")
    case True
    then show ?thesis using assms by (simp add: join_bounded_def b)
  next
    case False
    then have "length (join_with ''; '' ?kept @ dropped_suffix (length parts - length ?kept)) \<le> b"
      using shrink_fits [OF False] by (simp add: length_join text_width_def)
    then show ?thesis using assms False by (simp add: join_bounded_def b Let_def)
  qed
qed

lemma distinct_texts_props: "distinct (distinct_texts ts) \<and> set (distinct_texts ts) = set ts - {[]}"
proof -
  have "distinct ps \<longrightarrow> [] \<notin> set ps \<longrightarrow>
      distinct (foldl (\<lambda>parts t. if t = [] \<or> t \<in> set parts then parts else parts @ [t]) ps ts)
      \<and> set (foldl (\<lambda>parts t. if t = [] \<or> t \<in> set parts then parts else parts @ [t]) ps ts) = set ps \<union> (set ts - {[]})" for ps
    by (induction ts arbitrary: ps) auto
  from this [of "[]"] show ?thesis by (simp add: distinct_texts_def)
qed

lemma truncate_short: "length s \<le> m \<Longrightarrow> truncate_text s m = s"
  by (simp add: truncate_text_def)

lemma describe_aggregate:
  assumes "trim message = []" and "distinct_texts (map (describe_at 1) errors) = parts" and "parts \<noteq> []" and "errors \<noteq> []"
  shows "describe_error (TErr name ctor message errors cause text)
    = truncate_text ((name_of name ctor @ ''('' @ show_nat (length errors) @ '')'') @ '': ''
        @ join_bounded parts (int MAX_LENGTH - int (length (name_of name ctor @ ''('' @ show_nat (length errors) @ '')'')) - 2)) MAX_LENGTH"
  using assms by (simp add: describe_error_def MAX_DEPTH_def Let_def)

section \<open>The saved state\<close>

datatype upd_status = IdleS | InProgressS | InstallStartedS | SuccessS | FailedS

text \<open>An absent \<open>updateInProgress\<close> reads as false.\<close>

record upd_state =
  last_checked :: "int option"
  attempted_version :: "string option"
  attempted_at :: "int option"
  install_started :: "int option"
  completed_at :: "int option"
  success_version :: "string option"
  downloaded_path :: "string option"
  downloaded_sha256 :: "string option"
  served_by :: "string option"
  in_progress :: bool
  upd_status :: "upd_status option"
  last_error :: "string option"
  state_arch :: "string option"

definition no_upd_state :: upd_state where
  "no_upd_state = \<lparr>last_checked = None, attempted_version = None, attempted_at = None, install_started = None, completed_at = None,
     success_version = None, downloaded_path = None, downloaded_sha256 = None, served_by = None, in_progress = False,
     upd_status = None, last_error = None, state_arch = None\<rparr>"

text \<open>The file: \<open>None\<close> if it is missing or holds no JSON.\<close>

definition load_update_state :: "upd_state option \<Rightarrow> upd_state" where
  "load_update_state file = (case file of None \<Rightarrow> no_upd_state | Some s \<Rightarrow> s)"

text \<open>A patch is the list of the keys it has; \<open>None\<close> is undefined or null.\<close>

datatype upd_change =
    AttemptedVersion string
  | AttemptedAt int
  | InstallStarted "int option"
  | CompletedAt int
  | SuccessVersion string
  | DownloadedPath string
  | DownloadedSha256 string
  | ServedBy "string option"
  | UpdInProgress bool
  | UpdStatus upd_status
  | UpdError "string option"
  | StateArch string

fun apply_upd_change :: "upd_state \<Rightarrow> upd_change \<Rightarrow> upd_state" where
  "apply_upd_change s (AttemptedVersion v) = s\<lparr>attempted_version := Some v\<rparr>"
| "apply_upd_change s (AttemptedAt t) = s\<lparr>attempted_at := Some t\<rparr>"
| "apply_upd_change s (InstallStarted t) = s\<lparr>install_started := t\<rparr>"
| "apply_upd_change s (CompletedAt t) = s\<lparr>completed_at := Some t\<rparr>"
| "apply_upd_change s (SuccessVersion v) = s\<lparr>success_version := Some v\<rparr>"
| "apply_upd_change s (DownloadedPath p) = s\<lparr>downloaded_path := Some p\<rparr>"
| "apply_upd_change s (DownloadedSha256 h) = s\<lparr>downloaded_sha256 := Some h\<rparr>"
| "apply_upd_change s (ServedBy t) = s\<lparr>served_by := t\<rparr>"
| "apply_upd_change s (UpdInProgress b) = s\<lparr>in_progress := b\<rparr>"
| "apply_upd_change s (UpdStatus x) = s\<lparr>upd_status := Some x\<rparr>"
| "apply_upd_change s (UpdError m) = s\<lparr>last_error := m\<rparr>"
| "apply_upd_change s (StateArch a) = s\<lparr>state_arch := Some a\<rparr>"

definition gives_status :: "upd_change \<Rightarrow> bool" where
  "gives_status c \<longleftrightarrow> (case c of UpdStatus _ \<Rightarrow> True | _ \<Rightarrow> False)"

definition gives_start :: "upd_change \<Rightarrow> bool" where
  "gives_start c \<longleftrightarrow> (case c of InstallStarted (Some _) \<Rightarrow> True | _ \<Rightarrow> False)"

definition gives_error :: "upd_change \<Rightarrow> bool" where
  "gives_error c \<longleftrightarrow> (case c of UpdError (Some m) \<Rightarrow> m \<noteq> [] | _ \<Rightarrow> False)"

text \<open>The state that is saved.\<close>

definition update_update_state :: "int \<Rightarrow> upd_change list \<Rightarrow> upd_state \<Rightarrow> upd_state" where
  "update_update_state now patch current =
     (let merged = foldl apply_upd_change current patch;
          derived = (if list_ex gives_status patch then merged
                     else if list_ex gives_start patch then merged\<lparr>upd_status := Some InstallStartedS\<rparr>
                     else if UpdInProgress True \<in> set patch then merged\<lparr>upd_status := Some InProgressS\<rparr>
                     else merged)
      in if list_ex gives_error patch
         then derived\<lparr>upd_status := Some FailedS, completed_at := Some now, in_progress := False, install_started := None\<rparr>
         else derived)"

definition succeeded_patch :: "int \<Rightarrow> string \<Rightarrow> upd_change list" where
  "succeeded_patch now v =
     [UpdInProgress False, UpdStatus SuccessS, CompletedAt now, SuccessVersion v, UpdError None, InstallStarted None]"

definition failed_patch :: "string \<Rightarrow> upd_change list" where
  "failed_patch m = [UpdInProgress False, UpdStatus FailedS, UpdError (Some m), InstallStarted None]"

definition clear_patch :: "int \<Rightarrow> upd_change list" where
  "clear_patch now = [UpdInProgress False, InstallStarted None, CompletedAt now]"

lemmas upd_state_defs = update_update_state_def gives_status_def gives_start_def gives_error_def succeeded_patch_def failed_patch_def

lemma last_checked_kept: "last_checked (update_update_state now patch s) = last_checked s"
proof -
  have "last_checked (foldl apply_upd_change s patch) = last_checked s"
  proof (induction patch arbitrary: s)
    case (Cons c cs)
    then show ?case by (cases c) simp_all
  qed simp
  then show ?thesis by (simp add: update_update_state_def Let_def)
qed

lemma failed_frees: "\<not> in_progress (update_update_state now (failed_patch m) s)"
  and failed_status: "upd_status (update_update_state now (failed_patch m) s) = Some FailedS"
  by (simp_all add: upd_state_defs Let_def)

section \<open>The battery\<close>

record battery =
  present :: bool
  percent :: "int option"
  is_charging :: "bool option"
  ac_connected :: "bool option"

definition bool_or_null :: "jsval \<Rightarrow> bool option" where
  "bool_or_null v = (case v of JBool b \<Rightarrow> Some b | _ \<Rightarrow> None)"

definition js_round :: "rat \<Rightarrow> int" where
  "js_round q = \<lfloor>q + 1 / 2\<rfloor>"

definition normalize_battery :: "(jsval \<Rightarrow> string) \<Rightarrow> jsval \<Rightarrow> battery option" where
  "normalize_battery text_of raw =
     (if \<not> is_object raw then None
      else if jprop raw ''hasBattery'' \<noteq> JBool True then
        (if jprop raw ''hasBattery'' = JBool False
         then Some \<lparr>present = False, percent = None, is_charging = None, ac_connected = bool_or_null (jprop raw ''acConnected'')\<rparr>
         else None)
      else
        (let p = jprop raw ''percent'' in
         Some \<lparr>present = True,
               percent = (if p = JNull \<or> p = JStr [] then None
                          else case number_of_value text_of p of Fin q \<Rightarrow> if 0 \<le> q \<and> q \<le> 100 then Some (js_round q) else None | _ \<Rightarrow> None),
               is_charging = bool_or_null (jprop raw ''isCharging''), ac_connected = bool_or_null (jprop raw ''acConnected'')\<rparr>))"

definition UPDATE_MIN_BATTERY_PERCENT :: int where
  "UPDATE_MIN_BATTERY_PERCENT = 10"

definition battery_blocks_update :: "battery option \<Rightarrow> int option" where
  "battery_blocks_update b = (case b of None \<Rightarrow> None
     | Some b \<Rightarrow> (case percent b of None \<Rightarrow> None
        | Some p \<Rightarrow> if \<not> present b \<or> ac_connected b = Some True \<or> is_charging b = Some True then None
                    else if p < UPDATE_MIN_BATTERY_PERCENT then Some p else None))"

lemma normalize_battery_percent: "normalize_battery f raw = Some b \<Longrightarrow> percent b = Some p \<Longrightarrow> 0 \<le> p \<and> p \<le> 100"
  by (auto simp: normalize_battery_def Let_def js_round_def le_floor_iff split: if_splits jsnum.splits)

section \<open>Installers of earlier attempts\<close>

definition INSTALLER_STALL_SEC :: nat where
  "INSTALLER_STALL_SEC = 30 * 60"

text \<open>A process id and the seconds it has run.\<close>

type_synonym running_installer = "nat \<times> nat"

datatype installer_guard = NoGuard | WaitFor nat nat | Stalled "nat list" nat

text \<open>\<open>/^(?:(\d+)-)?(?:(\d+):)?(\d+):(\d+)$/\<close>\<close>

definition clock_seconds :: "string list \<Rightarrow> nat option" where
  "clock_seconds parts =
     (if \<not> list_all all_digits parts then None
      else (case map (digits_value 10) parts of
              [m, sec] \<Rightarrow> Some (m * 60 + sec)
            | [h, m, sec] \<Rightarrow> Some (h * 3600 + m * 60 + sec)
            | _ \<Rightarrow> None))"

definition parse_etime :: "string \<Rightarrow> nat option" where
  "parse_etime s =
     (case split_on CHR ''-'' (trim s) of
        [t] \<Rightarrow> clock_seconds (split_on CHR '':'' t)
      | [d, t] \<Rightarrow> if all_digits d then map_option (\<lambda>n. digits_value 10 d * 86400 + n) (clock_seconds (split_on CHR '':'' t)) else None
      | _ \<Rightarrow> None)"

definition suffixes_of :: "string \<Rightarrow> string list" where
  "suffixes_of s = map (\<lambda>i. drop i s) [0..<Suc (length s)]"

definition begins_with_space :: "string \<Rightarrow> bool" where
  "begins_with_space s \<longleftrightarrow> s \<noteq> [] \<and> is_space (hd s)"

text \<open>\<open>\/Tracenium-Agent-[^/]*\.pkg(\s|$)\<close> at the start of a text.\<close>

definition our_pkg_at :: "string \<Rightarrow> bool" where
  "our_pkg_at s \<longleftrightarrow> starts_with s ''/Tracenium-Agent-''
     \<and> (let t = drop 17 s in list_ex (\<lambda>i. CHR ''/'' \<notin> set (take i t) \<and> starts_with (drop i t) ''.pkg''
           \<and> (drop (i + 4) t = [] \<or> begins_with_space (drop (i + 4) t))) [0..<Suc (length t)])"

text \<open>\<open>\s-pkg\s.*\/Tracenium-Agent-[^/]*\.pkg(\s|$)\<close> anywhere in a line.\<close>

definition names_our_pkg :: "string \<Rightarrow> bool" where
  "names_our_pkg cmd \<longleftrightarrow> list_ex (\<lambda>s. begins_with_space s \<and> starts_with (tl s) ''-pkg'' \<and> begins_with_space (drop 5 s)
      \<and> list_ex our_pkg_at (suffixes_of (drop 6 s))) (suffixes_of cmd)"

definition our_installer_line :: "string \<Rightarrow> running_installer option" where
  "our_installer_line line =
     (let l = dropWhile is_space line; pid = takeWhile is_digit l; l1 = dropWhile is_digit l;
          etime = takeWhile (\<lambda>c. \<not> is_space c) (dropWhile is_space l1);
          l2 = dropWhile (\<lambda>c. \<not> is_space c) (dropWhile is_space l1); cmd = dropWhile is_space l2
      in if pid = [] \<or> \<not> begins_with_space l1 \<or> etime = [] \<or> \<not> begins_with_space l2 \<or> CHR 0x0D \<in> set cmd then None
         else if \<not> starts_with cmd ''/usr/sbin/installer'' \<or> \<not> begins_with_space (drop 19 cmd) then None
         else if \<not> names_our_pkg cmd then None
         else map_option (\<lambda>sec. (digits_value 10 pid, sec)) (parse_etime etime))"

definition our_installers_in :: "string \<Rightarrow> running_installer list" where
  "our_installers_in out = List.map_filter our_installer_line (split_on CHR 0x0A out)"

definition decide_installer_guard :: "running_installer list \<Rightarrow> nat \<Rightarrow> installer_guard" where
  "decide_installer_guard running stall =
     (case running of
        [] \<Rightarrow> NoGuard
      | r # rs \<Rightarrow>
          (let oldest = foldl (\<lambda>a b. if snd b > snd a then b else a) r rs in
           if snd oldest \<ge> stall then Stalled (map fst running) (snd oldest)
           else (let newest = foldl (\<lambda>a b. if snd b < snd a then b else a) r rs in WaitFor (fst newest) (snd newest))))"

definition format_elapsed :: "nat \<Rightarrow> string" where
  "format_elapsed sec =
     (let m = sec div 60; h = m div 60 in
      if m < 60 then show_nat m @ '' min''
      else if m mod 60 \<noteq> 0 then show_nat h @ '' h '' @ show_nat (m mod 60) @ '' min'' else show_nat h @ '' h'')"

lemma fold_oldest:
  "(foldl (\<lambda>a b. if snd b > snd a then b else a) r rs) \<in> set (r # rs)
   \<and> (\<forall>x \<in> set (r # rs). snd x \<le> snd (foldl (\<lambda>a b. if snd b > snd a then b else a) r (rs :: running_installer list)))"
proof (induction rs arbitrary: r)
  case (Cons a rs)
  show ?case using Cons.IH [of "if snd a > snd r then a else r"] by (auto split: if_splits)
qed simp

lemma fold_newest:
  "(foldl (\<lambda>a b. if snd b < snd a then b else a) r rs) \<in> set (r # rs)
   \<and> (\<forall>x \<in> set (r # rs). snd (foldl (\<lambda>a b. if snd b < snd a then b else a) r (rs :: running_installer list)) \<le> snd x)"
proof (induction rs arbitrary: r)
  case (Cons a rs)
  show ?case using Cons.IH [of "if snd a < snd r then a else r"] by (auto split: if_splits)
qed simp

lemma guard_wait:
  assumes "decide_installer_guard running stall = WaitFor pid sec"
  shows "(pid, sec) \<in> set running" and "\<forall>r \<in> set running. sec \<le> snd r \<and> snd r < stall"
  using assms fold_oldest [of "hd running" "tl running"] fold_newest [of "hd running" "tl running"]
  by (fastforce simp: decide_installer_guard_def Let_def split: list.splits if_splits)+

lemma guard_stalled:
  assumes "decide_installer_guard running stall = Stalled pids sec"
  shows "pids = map fst running" and "\<exists>r \<in> set running. snd r \<ge> stall"
  using assms fold_oldest [of "hd running" "tl running"]
  by (fastforce simp: decide_installer_guard_def Let_def split: list.splits if_splits)+

lemma guard_none: "decide_installer_guard running stall = NoGuard \<longleftrightarrow> running = []"
  by (auto simp: decide_installer_guard_def Let_def split: list.splits)

section \<open>Who served the running version\<close>

text \<open>The report: version and tier.\<close>

definition decide_source_report :: "upd_state option \<Rightarrow> string option \<Rightarrow> (string \<times> string) option" where
  "decide_source_report st running_version =
     (let attempted = trim (case st of None \<Rightarrow> [] | Some s \<Rightarrow> (case attempted_version s of None \<Rightarrow> [] | Some v \<Rightarrow> v));
          running = trim (case running_version of None \<Rightarrow> [] | Some v \<Rightarrow> v);
          tier = trim (case st of None \<Rightarrow> [] | Some s \<Rightarrow> (case served_by s of None \<Rightarrow> [] | Some t \<Rightarrow> t))
      in if attempted = [] \<or> running = [] then None
         else if attempted \<noteq> running then None
         else Some (running, if tier = [] then ''origin'' else tier))"

definition source_report_payload :: "string \<times> string \<Rightarrow> jsval" where
  "source_report_payload r =
     JObj [(''schemaVersion'', JStr ''1.0''),
           (''namespaces'', JObj [(''agent_update'', JObj [(''version'', JStr (fst r)), (''servedBy'', JStr (snd r))])])]"

section \<open>Properties\<close>

text \<open>
  C0. The text of a thrown object never exceeds 300 code units, whatever its message, its nested errors and its causes: it travels in an
  acknowledgement.
\<close>

theorem described_error_is_bounded: "length (describe_error (TErr name ctor message errors cause text)) \<le> 300"
  by (simp add: describe_error_def Let_def length_truncate MAX_LENGTH_def)

text \<open>
  C0. The text of an aggregate whose name leaves room for the counts is not cut: the reasons follow the head, the ones that did not fit
  are counted at the end, and that notice is whole.
\<close>

theorem notice_of_dropped_causes_is_whole:
  fixes errors :: "thrown list"
  assumes "trim message = []" and "distinct_texts (map (describe_at 1) errors) = parts" and "parts \<noteq> []"
    and "length (name_of name ctor) + length (show_nat (length errors)) + length (show_nat (length parts)) \<le> 289"
  shows "describe_error (TErr name ctor message errors cause text)
    = name_of name ctor @ ''('' @ show_nat (length errors) @ ''): ''
      @ join_bounded parts (296 - int (length (name_of name ctor)) - int (length (show_nat (length errors))))"
proof -
  let ?b = "296 - int (length (name_of name ctor)) - int (length (show_nat (length errors)))"
  have b: "int MAX_LENGTH - int (length (name_of name ctor @ ''('' @ show_nat (length errors) @ '')'')) - 2 = ?b"
    by (simp add: MAX_LENGTH_def)
  have ne: "errors \<noteq> []" using assms(2,3) by (auto simp: distinct_texts_def)
  have "int (length (join_bounded parts ?b)) \<le> ?b" using assms(4) by (intro join_bounded_fits) simp
  then have "length (name_of name ctor @ ''('' @ show_nat (length errors) @ ''): '' @ join_bounded parts ?b) \<le> MAX_LENGTH"
    by (simp add: MAX_LENGTH_def)
  then show ?thesis
    by (simp only: describe_aggregate [OF assms(1-3) ne] b) (simp only: truncate_short append_assoc append.simps)
qed

lemma notice_of_dropped_causes_is_whole_witness:
  "describe_error (TErr ''AggregateError'' ''AggregateError'' [] [plain_error ''down'', plain_error ''down''] TUndef ''AggregateError'')
     = ''AggregateError(2): down''"
proof -
  let ?errors = "[plain_error ''down'', plain_error ''down'']" and ?name = "''AggregateError''"
  have p: "trim [] = []" "distinct_texts (map (describe_at 1) ?errors) = [''down'']" "[''down''] \<noteq> []"
    "length (name_of ?name ?name) + length (show_nat (length ?errors)) + length (show_nat (length [''down''])) \<le> 289"
    by code_simp+
  have "name_of ?name ?name @ ''('' @ show_nat (length ?errors) @ ''): ''
      @ join_bounded [''down''] (296 - int (length (name_of ?name ?name)) - int (length (show_nat (length ?errors)))) = ''AggregateError(2): down''"
    by code_simp
  with notice_of_dropped_causes_is_whole [OF p, of TUndef ?name] show ?thesis by (rule trans)
qed

text \<open>
  C0. No source is reported for a version that is not running: a report names the running version, and that version is the one last attempted.
\<close>

theorem source_report_is_of_what_runs:
  assumes "decide_source_report st v = Some (version, tier)"
  shows "\<exists>s attempted w. st = Some s \<and> attempted_version s = Some attempted \<and> v = Some w \<and> trim attempted = version \<and> trim w = version
    \<and> version \<noteq> [] \<and> tier \<noteq> []"
  using assms by (cases st; cases v) (auto simp: decide_source_report_def Let_def split: if_splits option.splits)

lemma source_report_is_of_what_runs_witness:
  "decide_source_report (Some (no_upd_state\<lparr>attempted_version := Some ''1.2.0''\<rparr>)) (Some ''1.2.0'') = Some (''1.2.0'', ''origin'') \<and> ''1.2.0'' \<noteq> []"
proof -
  have "decide_source_report (Some (no_upd_state\<lparr>attempted_version := Some ''1.2.0''\<rparr>)) (Some ''1.2.0'') = Some (''1.2.0'', ''origin'')"
    by code_simp
  with source_report_is_of_what_runs [OF this] show ?thesis by simp
qed

text \<open>
  C0. A failed attempt never holds the next one back: whatever state it is merged into, the patch of a failure leaves no update in progress.
\<close>

theorem failure_frees_the_state:
  "list_ex gives_error patch \<or> patch = failed_patch m
   \<Longrightarrow> \<not> in_progress (update_update_state now patch s) \<and> upd_status (update_update_state now patch s) = Some FailedS"
  by (auto simp: failed_frees failed_status) (simp_all add: update_update_state_def Let_def)

lemma failure_frees_the_state_witness: "\<not> in_progress (update_update_state 5 [UpdInProgress True, UpdError (Some ''x'')] no_upd_state)"
proof -
  have "list_ex gives_error [UpdInProgress True, UpdError (Some ''x'')]" by code_simp
  then show ?thesis using failure_frees_the_state [of "[UpdInProgress True, UpdError (Some ''x'')]"] by blast
qed

end
