(* ===== verification/Update_Service.thy ===== *)
theory Update_Service
  imports Update_State Sdp_Decisions Json_Wire
begin

text \<open>
  Fetching and launching an update of the agent (\<open>update/update-service.ts\<close>, and the launches of \<open>update/updater-runner.ts\<close>): the download of a
  file as a machine over what the network and the disk report, the reading of the metadata, the three platforms' update up to the moment the
  installer is launched. What the network, the privileged service, the clock and the task scheduler answer is the environment. A text that is absent
  is the empty one where the code only asks whether it is there.
\<close>

section \<open>The download of a file\<close>

text \<open>The response with its status and \<open>Number(content-length)\<close>, its chunks, the end of the file written, and the errors of the three streams.\<close>

datatype dl_event =
    Response nat jsnum
  | Chunk string
  | ResponseAborted
  | FileFinish bool
  | FileError thrown
  | ReqError thrown

text \<open>The target is the content of the file path, the temporary file that of \<open>filePath.tmp\<close>.\<close>

record download =
  settled :: "(thrown + nat) option"
  piping :: bool
  expected_bytes :: "rat option"
  received :: nat
  temporary :: "string option"
  target :: "string option"

definition start_download :: "string option \<Rightarrow> download" where
  "start_download old = \<lparr>settled = None, piping = False, expected_bytes = None, received = 0, temporary = Some [], target = old\<rparr>"

definition settle_error :: "thrown \<Rightarrow> download \<Rightarrow> download" where
  "settle_error t s = (if settled s \<noteq> None then s else s\<lparr>settled := Some (Inl t), temporary := None\<rparr>)"

definition show_bytes :: "rat \<Rightarrow> string" where
  "show_bytes q = show_nat (nat \<lfloor>q\<rfloor>)"

fun download_event :: "download \<Rightarrow> dl_event \<Rightarrow> download" where
  "download_event s (Response status cl) =
     (let st = (if status = 0 then 500 else status) in
      if piping s \<or> settled s \<noteq> None then s
      else if st \<ge> 400 then settle_error (plain_error (''download_http_'' @ show_nat st)) s
      else s\<lparr>piping := True, expected_bytes := (case cl of Fin q \<Rightarrow> if q > 0 then Some q else None | _ \<Rightarrow> None)\<rparr>)"
| "download_event s (Chunk c) =
     (if piping s then s\<lparr>received := received s + length c, temporary := map_option (\<lambda>t. t @ c) (temporary s)\<rparr> else s)"
| "download_event s ResponseAborted = (if piping s then settle_error (plain_error ''download_aborted'') s else s)"
| "download_event s (FileFinish renamed) =
     (if \<not> piping s then s
      else if (case expected_bytes s of None \<Rightarrow> False | Some q \<Rightarrow> of_nat (received s) \<noteq> q)
      then settle_error (plain_error (''download_truncated:'' @ show_nat (received s) @ ''/'' @ show_bytes (the (expected_bytes s)))) s
      else (case temporary s of
              None \<Rightarrow> settle_error (plain_error ''ENOENT'') s
            | Some t \<Rightarrow>
                if \<not> renamed then settle_error (plain_error ''rename'') s
                else (let s' = s\<lparr>target := Some t, temporary := None\<rparr> in
                      if settled s \<noteq> None then s' else s'\<lparr>settled := Some (Inr (received s))\<rparr>)))"
| "download_event s (FileError t) = (if piping s then settle_error t s else s)"
| "download_event s (ReqError t) = settle_error t s"

text \<open>The timeouts destroy a request that reports nothing more, so a download always ends.\<close>

definition download_outcome :: "download \<Rightarrow> thrown + nat" where
  "download_outcome s = (case settled s of Some r \<Rightarrow> r | None \<Rightarrow> Inl (plain_error ''download_timeout''))"

definition download_to_file :: "dl_event list \<Rightarrow> string option \<Rightarrow> (thrown + nat) \<times> string option" where
  "download_to_file events old = (let s = foldl download_event (start_download old) events in (download_outcome s, target s))"

text \<open>A file is replaced only by a download that succeeded, and then by as many bytes as were received and announced.\<close>

definition download_inv :: "string option \<Rightarrow> download \<Rightarrow> bool" where
  "download_inv old s \<longleftrightarrow>
     (case settled s of
        None \<Rightarrow> target s = old \<and> (\<exists>t. temporary s = Some t \<and> length t = received s)
      | Some (Inl _) \<Rightarrow> target s = old \<and> temporary s = None
      | Some (Inr n) \<Rightarrow> temporary s = None \<and> piping s \<and> (\<exists>b. target s = Some b \<and> length b = n)
          \<and> (\<forall>q. expected_bytes s = Some q \<longrightarrow> of_nat n = q))"

lemma start_download_inv: "download_inv old (start_download old)"
  by (simp add: download_inv_def start_download_def)

lemma download_event_inv [inv_intros]: "download_inv old s \<Longrightarrow> download_inv old (download_event s ev)"
  by (cases ev) (auto simp: download_inv_def settle_error_def Let_def split: option.splits sum.splits jsnum.splits)

interpretation download: inv_machine download_event "\<lambda>s. download_inv old s" for old
  by unfold_locales (rule download_event_inv)

lemma announced_kept: "piping s \<Longrightarrow> piping (foldl download_event s evs) \<and> expected_bytes (foldl download_event s evs) = expected_bytes s"
proof (induction evs arbitrary: s)
  case (Cons ev evs)
  have "piping (download_event s ev) \<and> expected_bytes (download_event s ev) = expected_bytes s"
    using Cons.prems by (cases ev) (auto simp: settle_error_def Let_def split: option.splits)
  with Cons.IH [of "download_event s ev"] show ?case by simp
qed simp

text \<open>C32. 
  C0. A downloaded file is the whole file or the old one: if the download fails the file at the path is what it was, and if it succeeds
  the file holds as many bytes as were counted, which are as many as the server announced.
\<close>

theorem download_is_whole_or_nothing:
  assumes "download_to_file (Response st cl # events) old = (r, f)"
  shows "(\<exists>t. r = Inl t) \<and> f = old
    \<or> (\<exists>n b. r = Inr n \<and> f = Some b \<and> length b = n \<and> (\<forall>q. cl = Fin q \<longrightarrow> q > 0 \<longrightarrow> of_nat n = q))"
proof -
  let ?s = "foldl download_event (start_download old) (Response st cl # events)"
  have inv: "download_inv old ?s" by (rule download.run_inv) (rule start_download_inv)
  have r: "r = download_outcome ?s" "f = target ?s" using assms by (simp_all add: download_to_file_def Let_def)
  have announced: "expected_bytes ?s = Some q" if "piping ?s" "cl = Fin q" "q > 0" for q
  proof (cases "(if st = 0 then 500 else st) \<ge> 400")
    case True
    then have "settled (download_event (start_download old) (Response st cl)) \<noteq> None \<and> \<not> piping (download_event (start_download old) (Response st cl))"
      by (auto simp: start_download_def settle_error_def Let_def)
    moreover have "settled s \<noteq> None \<and> \<not> piping s \<Longrightarrow> \<not> piping (foldl download_event s evs)" for s evs
    proof (induction evs arbitrary: s)
      case (Cons ev evs)
      then show ?case by (cases ev) (auto simp: settle_error_def Let_def)
    qed simp
    ultimately show ?thesis using that(1) by simp
  next
    case False
    then have "piping (download_event (start_download old) (Response st cl))
      \<and> expected_bytes (download_event (start_download old) (Response st cl)) = Some q"
      using that by (simp add: start_download_def Let_def)
    with announced_kept show ?thesis by simp
  qed
  show ?thesis
  proof (cases "settled ?s")
    case None
    then show ?thesis using inv by (simp add: r download_outcome_def download_inv_def)
  next
    case (Some v)
    then show ?thesis using inv announced by (cases v) (auto simp: r download_outcome_def download_inv_def simp del: foldl_Cons)
  qed
qed

lemma download_is_whole_or_nothing_witness:
  "download_to_file [Response 200 (Fin 3), Chunk ''ab'', ResponseAborted] (Some ''old'') = (Inl (plain_error ''download_aborted''), Some ''old'')
   \<and> Some ''old'' = Some ''old''"
proof -
  have "download_to_file [Response 200 (Fin 3), Chunk ''ab'', ResponseAborted] (Some ''old'') = (Inl (plain_error ''download_aborted''), Some ''old'')"
    by code_simp
  from this download_is_whole_or_nothing [OF this] show ?thesis by simp
qed

section \<open>The environment\<close>

text \<open>\<open>DownloadCall\<close>: the sources, the hash in lower case and the format of \<open>sdp.download\<close>.\<close>

datatype upd_call =
    DownloadCall "(string \<times> string) list" string string
  | VerifyCall string
  | AgentInstall string string string

text \<open>What an attempt does to the world: requests, calls, the launch of an installer, a process killed.\<close>

datatype upd_effect =
    HttpJson string
  | HttpFile string string
  | UpdCall upd_call
  | RunMsi string
  | RunPkg string
  | KillPid nat

text \<open>
  \<open>schtasks\<close> gives the exit code (\<open>None\<close>: it could not be run), \<open>shim_fault\<close> the message of a failed write of its two files;
  \<open>io_fault\<close> is what a failed write of the state throws, \<open>None\<close> if writes succeed.
\<close>

record upd_env =
  upd_os :: "platform option"
  debian :: bool
  arch :: string
  agent_version :: string
  base_url :: "string option"
  base_dir :: string
  clock :: "upd_effect list \<Rightarrow> int"
  upd_text_of :: "jsval \<Rightarrow> string"
  sha256_of :: "string \<Rightarrow> string"
  io_fault :: "thrown option"
  locked :: "string \<Rightarrow> bool"
  http_answer :: "upd_effect list \<Rightarrow> string \<Rightarrow> thrown + jsval"
  http_events :: "upd_effect list \<Rightarrow> string \<Rightarrow> dl_event list"
  upd_priv :: "upd_effect list \<Rightarrow> upd_call \<Rightarrow> thrown + jsval"
  priv_writes :: "upd_effect list \<Rightarrow> upd_call \<Rightarrow> (string \<times> string) list"
  battery_raw :: "upd_effect list \<Rightarrow> jsval"
  ps_output :: "upd_effect list \<Rightarrow> string option"
  shim_fault :: "string option"
  schtasks :: "int option"
  patch_busy :: bool
  remediate_busy :: bool
  software_busy :: bool
  asp_busy :: bool

record upd_world =
  state_file :: "upd_state option"
  files :: "string \<Rightarrow> string option"
  trace :: "upd_effect list"

text \<open>Steps that may throw.\<close>

type_synonym 'a upd = "upd_world \<Rightarrow> (thrown + 'a) \<times> upd_world"

definition pure :: "'a \<Rightarrow> 'a upd" where
  "pure x w = (Inr x, w)"

definition throw :: "thrown \<Rightarrow> 'a upd" where
  "throw t w = (Inl t, w)"

definition and_then :: "'a upd \<Rightarrow> ('a \<Rightarrow> 'b upd) \<Rightarrow> 'b upd" where
  "and_then m f w = (case m w of (Inl t, w') \<Rightarrow> (Inl t, w') | (Inr x, w') \<Rightarrow> f x w')"

definition catching :: "'a upd \<Rightarrow> (thrown \<Rightarrow> 'a upd) \<Rightarrow> 'a upd" where
  "catching m h w = (case m w of (Inl t, w') \<Rightarrow> h t w' | (Inr x, w') \<Rightarrow> (Inr x, w'))"

definition look :: "(upd_world \<Rightarrow> 'a) \<Rightarrow> 'a upd" where
  "look f w = (Inr (f w), w)"

definition emit :: "upd_effect \<Rightarrow> unit upd" where
  "emit ef w = (Inr (), w\<lparr>trace := trace w @ [ef]\<rparr>)"

definition load_upd :: "upd_state upd" where
  "load_upd = look (\<lambda>w. load_update_state (state_file w))"

text \<open>\<open>updateUpdateState\<close>; the patch is built from the time it is.\<close>

definition save_upd :: "upd_env \<Rightarrow> (int \<Rightarrow> upd_change list) \<Rightarrow> unit upd" where
  "save_upd e patch w =
     (case io_fault e of
        Some t \<Rightarrow> (Inl t, w)
      | None \<Rightarrow> (let now = clock e (trace w) in
           (Inr (), w\<lparr>state_file := Some (update_update_state now (patch now) (load_update_state (state_file w)))\<rparr>)))"

definition mark_update_succeeded :: "upd_env \<Rightarrow> string \<Rightarrow> unit upd" where
  "mark_update_succeeded e v = save_upd e (\<lambda>now. succeeded_patch now v)"

definition mark_update_failed :: "upd_env \<Rightarrow> string \<Rightarrow> unit upd" where
  "mark_update_failed e m = save_upd e (\<lambda>now. failed_patch m)"

definition clear_update_in_progress :: "upd_env \<Rightarrow> unit upd" where
  "clear_update_in_progress e = save_upd e clear_patch"

text \<open>A call of the privileged service; a download leaves its files.\<close>

definition call_priv :: "upd_env \<Rightarrow> upd_call \<Rightarrow> jsval upd" where
  "call_priv e c w =
     (upd_priv e (trace w) c,
      w\<lparr>trace := trace w @ [UpdCall c],
        files := (case c of DownloadCall _ _ _ \<Rightarrow> (\<lambda>p. case map_of (priv_writes e (trace w) c) p of Some b \<Rightarrow> Some b | None \<Rightarrow> files w p) | _ \<Rightarrow> files w)\<rparr>)"

definition get_json :: "upd_env \<Rightarrow> string \<Rightarrow> jsval upd" where
  "get_json e url w = (http_answer e (trace w) url, w\<lparr>trace := trace w @ [HttpJson url]\<rparr>)"

definition get_file :: "upd_env \<Rightarrow> string \<Rightarrow> string \<Rightarrow> nat upd" where
  "get_file e url path w =
     (case download_to_file (http_events e (trace w) url) (files w path) of
        (r, f) \<Rightarrow> (r, w\<lparr>trace := trace w @ [HttpFile url path], files := (files w)(path := f)\<rparr>))"

definition remove_file :: "string \<Rightarrow> unit upd" where
  "remove_file p w = (Inr (), w\<lparr>files := (files w)(p := None)\<rparr>)"

section \<open>Paths and addresses\<close>

definition separator :: "upd_env \<Rightarrow> char" where
  "separator e = (if upd_os e = Some Windows then CHR 0x5C else CHR ''/'')"

definition path_join :: "upd_env \<Rightarrow> string \<Rightarrow> string \<Rightarrow> string" where
  "path_join e dir name = dir @ [separator e] @ name"

definition drop_slashes :: "string \<Rightarrow> string" where
  "drop_slashes s = rev (dropWhile (\<lambda>c. c = CHR ''/'') (rev s))"

definition get_api_base_url :: "upd_env \<Rightarrow> string upd" where
  "get_api_base_url e = (case base_url e of
     None \<Rightarrow> throw (plain_error ''update_api_base_url_missing'')
   | Some u \<Rightarrow> if u = [] then throw (plain_error ''update_api_base_url_missing'') else pure (drop_slashes u))"

definition get_platform :: "upd_env \<Rightarrow> string" where
  "get_platform e = (case upd_os e of Some Windows \<Rightarrow> ''windows'' | Some Macos \<Rightarrow> ''macos'' | _ \<Rightarrow> ''linux'')"

definition get_binary_format :: "upd_env \<Rightarrow> string" where
  "get_binary_format e = (case upd_os e of Some Macos \<Rightarrow> ''pkg'' | Some Windows \<Rightarrow> ''msi'' | _ \<Rightarrow> if debian e then ''deb'' else ''rpm'')"

definition hex_upper :: "nat \<Rightarrow> char" where
  "hex_upper n = char_of (if n < 10 then 48 + n else 55 + n)"

definition uri_unreserved :: "char \<Rightarrow> bool" where
  "uri_unreserved c \<longleftrightarrow> is_alnum c \<or> c \<in> set ''-_.!~*()'' \<or> char_code c = 39"

definition encode_uri_component :: "string \<Rightarrow> string" where
  "encode_uri_component s =
     concat (map (\<lambda>c. if uri_unreserved c then [c]
                      else concat (map (\<lambda>b. [CHR ''%'', hex_upper (b div 16), hex_upper (b mod 16)]) (utf8_char c))) s)"

definition installer_file :: "string \<Rightarrow> bool" where
  "installer_file name \<longleftrightarrow> list_ex (ends_with (to_lower name)) [''.deb'', ''.rpm'', ''.msi'', ''.pkg'', ''.tmp'']"

text \<open>The name of a file that stands in the directory itself.\<close>

definition name_in :: "upd_env \<Rightarrow> string \<Rightarrow> string \<Rightarrow> string option" where
  "name_in e dir p = (let d = dir @ [separator e]; name = drop (length d) p in
     if starts_with p d \<and> separator e \<notin> set name then Some name else None)"

definition pruned :: "upd_env \<Rightarrow> string \<Rightarrow> string \<Rightarrow> (string \<Rightarrow> string option) \<Rightarrow> string \<Rightarrow> string option" where
  "pruned e dir keep fs p = (case name_in e dir p of
     None \<Rightarrow> fs p
   | Some name \<Rightarrow> if p \<noteq> keep \<and> installer_file name \<and> \<not> locked e p then None else fs p)"

definition prune_old_downloads :: "upd_env \<Rightarrow> string \<Rightarrow> string \<Rightarrow> unit upd" where
  "prune_old_downloads e dir keep w = (Inr (), w\<lparr>files := pruned e dir keep (files w)\<rparr>)"

section \<open>The metadata\<close>

text \<open>Three attempts; \<open>n\<close> of them are left.\<close>

fun metadata_attempts :: "upd_env \<Rightarrow> string \<Rightarrow> nat \<Rightarrow> thrown \<Rightarrow> jsval upd" where
  "metadata_attempts e url 0 last_thrown = throw (if falsy_thrown last_thrown then plain_error ''metadata_fetch_failed'' else last_thrown)"
| "metadata_attempts e url (Suc n) last_thrown = (\<lambda>w.
     case get_json e url w of
       (Inl t, w') \<Rightarrow> metadata_attempts e url n t w'
     | (Inr m, w') \<Rightarrow> if truthy m then (Inr m, w')
                      else throw (if falsy_thrown last_thrown then plain_error ''metadata_fetch_failed'' else last_thrown) w')"

definition fetch_agent_metadata :: "upd_env \<Rightarrow> jsval upd" where
  "fetch_agent_metadata e = and_then (get_api_base_url e) (\<lambda>base.
     metadata_attempts e (base @ ''/api/v1/binaries/agent/metadata?platform='' @ encode_uri_component (get_platform e)
       @ ''&arch='' @ encode_uri_component (arch e)) 3 TUndef)"

definition binary_group :: "upd_env \<Rightarrow> jsval \<Rightarrow> jsval" where
  "binary_group e metadata = jprop (jprop metadata ''files'') (get_binary_format e)"

definition binary_metadata :: "upd_env \<Rightarrow> jsval \<Rightarrow> jsval" where
  "binary_metadata e metadata = jprop (binary_group e metadata) (arch e)"

datatype check_reason =
    InvalidLatestVersion | MissingBinaryMetadata | DowngradeBlocked | ForcedUpdate | MinSupportedBreach | SameVersion | NewVersionAvailable

record update_check =
  available :: bool
  latest_version :: string
  check_reason :: check_reason

definition type_error :: "string \<Rightarrow> thrown" where
  "type_error m = TErr ''TypeError'' ''TypeError'' m [] TUndef (''TypeError: '' @ m)"

text \<open>The minimum is compared only if it is a text; another value that prints as a version makes \<open>split\<close> throw.\<close>

definition below_minimum :: "upd_env \<Rightarrow> string \<Rightarrow> jsval \<Rightarrow> thrown + bool" where
  "below_minimum e current m =
     (if \<not> truthy m then Inr False
      else (case m of
              JStr s \<Rightarrow> Inr (looks_like_semver s \<and> compare_semver current s < 0)
            | _ \<Rightarrow> if looks_like_semver (upd_text_of e m) then Inl (type_error ''v.split is not a function'') else Inr False))"

definition check_for_available_update :: "upd_env \<Rightarrow> string \<Rightarrow> jsval \<Rightarrow> thrown + update_check" where
  "check_for_available_update e current metadata =
     (let lv = jprop metadata ''latestVersion''; latest = trim (if truthy lv then string_of (upd_text_of e) lv else []);
          answer = (\<lambda>a r. Inr \<lparr>available = a, latest_version = latest, check_reason = r\<rparr>)
      in if latest = [] \<or> \<not> looks_like_semver latest then answer False InvalidLatestVersion
         else if \<not> truthy (binary_metadata e metadata) then answer False MissingBinaryMetadata
         else (let cmp = compare_semver current latest in
           if cmp > 0 \<and> \<not> truthy (jprop metadata ''allowDowngrade'') then answer False DowngradeBlocked
           else if jprop metadata ''forceUpdate'' = JBool True then answer True ForcedUpdate
           else (case below_minimum e current (jprop metadata ''minSupportedVersion'') of
                   Inl t \<Rightarrow> Inl t
                 | Inr True \<Rightarrow> answer True MinSupportedBreach
                 | Inr False \<Rightarrow> if cmp \<ge> 0 then answer False SameVersion else answer True NewVersionAvailable)))"

definition reason_text :: "check_reason \<Rightarrow> string" where
  "reason_text r = (case r of InvalidLatestVersion \<Rightarrow> ''invalid_latest_version'' | MissingBinaryMetadata \<Rightarrow> ''missing_binary_metadata''
     | DowngradeBlocked \<Rightarrow> ''downgrade_blocked'' | ForcedUpdate \<Rightarrow> ''forced_update'' | MinSupportedBreach \<Rightarrow> ''min_supported_breach''
     | SameVersion \<Rightarrow> ''same_version'' | NewVersionAvailable \<Rightarrow> ''new_version_available'')"

definition get_expected_hash_for_arch :: "upd_env \<Rightarrow> jsval \<Rightarrow> jsval" where
  "get_expected_hash_for_arch e metadata = jprop (binary_metadata e metadata) ''hash''"

section \<open>Downloads and their check\<close>

text \<open>An expected hash is the value it came as; absent is undefined.\<close>

definition lower_hash :: "jsval \<Rightarrow> string upd" where
  "lower_hash h = (case h of JStr s \<Rightarrow> pure (to_lower s) | _ \<Rightarrow> throw (type_error ''expectedHash.toLowerCase is not a function''))"

definition sha256_file :: "upd_env \<Rightarrow> string \<Rightarrow> string upd" where
  "sha256_file e p = look (\<lambda>w. sha256_of e (case files w p of Some b \<Rightarrow> b | None \<Rightarrow> []))"

definition check_hash :: "jsval \<Rightarrow> string \<Rightarrow> string \<Rightarrow> unit upd" where
  "check_hash h sha p =
     (if \<not> truthy h then pure ()
      else and_then (lower_hash h) (\<lambda>x.
        if x \<noteq> to_lower sha then and_then (remove_file p) (\<lambda>_. throw (plain_error ''update_hash_mismatch'')) else pure ()))"

definition updates_dir :: "upd_env \<Rightarrow> string" where
  "updates_dir e = path_join e (base_dir e) ''updates''"

text \<open>The steps every direct download shares, from an address it has to a file that is recorded in the state.\<close>

definition download_checked :: "upd_env \<Rightarrow> string \<Rightarrow> string \<Rightarrow> jsval \<Rightarrow> string upd" where
  "download_checked e url name h =
     (let p = path_join e (updates_dir e) name in
      and_then (get_file e url p) (\<lambda>_.
      and_then (sha256_file e p) (\<lambda>sha.
      and_then (check_hash h sha p) (\<lambda>_.
      and_then (prune_old_downloads e (updates_dir e) p) (\<lambda>_.
      and_then (save_upd e (\<lambda>_. [DownloadedPath p, DownloadedSha256 sha, StateArch (arch e)])) (\<lambda>_. pure p))))))"

definition fetch_download_url :: "upd_env \<Rightarrow> string \<Rightarrow> string \<Rightarrow> string \<Rightarrow> jsval upd" where
  "fetch_download_url e platform format version = and_then (get_api_base_url e) (\<lambda>base.
     get_json e (base @ ''/api/v1/binaries/agent?platform='' @ platform @ ''&arch='' @ encode_uri_component (arch e)
       @ ''&format='' @ format @ ''&version='' @ encode_uri_component version))"

text \<open>\<open>dl?.downloadUrl\<close>\<close>

definition answered_url :: "upd_env \<Rightarrow> jsval \<Rightarrow> string upd" where
  "answered_url e dl = (let u = jprop dl ''downloadUrl'' in
     if \<not> truthy u then throw (plain_error ''update_download_url_missing'') else pure (string_of (upd_text_of e) u))"

definition download_windows_msi :: "upd_env \<Rightarrow> string \<Rightarrow> jsval \<Rightarrow> string upd" where
  "download_windows_msi e version h =
     and_then (fetch_download_url e ''windows'' ''msi'' version) (\<lambda>dl.
     and_then (answered_url e dl) (\<lambda>url.
       download_checked e url (''Tracenium-Agent-'' @ version @ ''-'' @ arch e @ ''.msi'') h))"

definition download_macos_pkg :: "upd_env \<Rightarrow> string \<Rightarrow> jsval \<Rightarrow> string upd" where
  "download_macos_pkg e version h =
     and_then (fetch_download_url e ''macos'' ''pkg'' version) (\<lambda>dl.
     and_then (answered_url e dl) (\<lambda>url.
       download_checked e url (''Tracenium-Agent-'' @ version @ ''-'' @ arch e @ ''.pkg'') h))"

definition linux_ext :: "upd_env \<Rightarrow> string" where
  "linux_ext e = (if debian e then ''deb'' else ''rpm'')"

definition download_linux_pkg :: "upd_env \<Rightarrow> string \<Rightarrow> jsval \<Rightarrow> string upd" where
  "download_linux_pkg e version h =
     and_then (fetch_download_url e ''linux'' (linux_ext e) version) (\<lambda>dl.
     and_then (answered_url e dl) (\<lambda>url.
       download_checked e url (''tracenium-agent-'' @ version @ ''-'' @ arch e @ ''.'' @ linux_ext e) h))"

section \<open>The distribution point\<close>

text \<open>\<open>None\<close>: this way is not open. Path, hash and the source that served.\<close>

definition download_update_via_sources :: "upd_env \<Rightarrow> string \<Rightarrow> string \<Rightarrow> (string \<times> string) list \<Rightarrow> (string \<times> string \<times> string) option upd" where
  "download_update_via_sources e format h sources =
     (if sources = [] \<or> h = [] then pure None
      else and_then (call_priv e (DownloadCall sources (to_lower h) format)) (\<lambda>resp.
        if \<not> truthy (jprop resp ''ok'') then
          (let c = jprop (jprop resp ''error'') ''code''; code = (if truthy c then string_of (upd_text_of e) c else []);
               m = jprop (jprop resp ''error'') ''message'' in
           if code = ''not_supported'' \<or> code = ''bad_version'' then pure None
           else throw (plain_error (''update_download_failed:''
                  @ (if truthy m then string_of (upd_text_of e) m else if code \<noteq> [] then code else ''download_failed''))))
        else
          (let result = jprop resp ''result''; sp = jprop result ''stagingPath''; p = (if truthy sp then string_of (upd_text_of e) sp else []);
               sh = jprop result ''sha256''; sb = jprop result ''servedBy'' in
           if p = [] then pure None
           else pure (Some (p, to_lower (if truthy sh then string_of (upd_text_of e) sh else h),
                            if truthy sb then string_of (upd_text_of e) sb else [])))))"

text \<open>The first leg of every platform: the path, if the file came over the local network. What it throws is only logged.\<close>

definition dp_leg :: "upd_env \<Rightarrow> string \<Rightarrow> jsval \<Rightarrow> string list \<Rightarrow> string option upd" where
  "dp_leg e format h dps =
     (if dps = [] \<or> \<not> truthy h then pure None
      else and_then (lower_hash h) (\<lambda>lh.
        and_then (catching (download_update_via_sources e format (case h of JStr s \<Rightarrow> s | _ \<Rightarrow> [])
                              (map (\<lambda>b. (''dp'', b @ ''/sdp/blob/'' @ lh)) dps)) (\<lambda>_. pure None)) (\<lambda>via.
          (case via of
             None \<Rightarrow> pure None
           | Some (p, sha, served) \<Rightarrow>
               and_then (save_upd e (\<lambda>_. [DownloadedPath p, DownloadedSha256 sha, ServedBy (Some (if served = [] then ''dp'' else served)), StateArch (arch e)]))
                 (\<lambda>_. pure (Some p))))))"

section \<open>The three platforms\<close>

definition verify_windows_update_signature :: "upd_env \<Rightarrow> string \<Rightarrow> string \<Rightarrow> unit upd" where
  "verify_windows_update_signature e p version =
     and_then (call_priv e (VerifyCall p)) (\<lambda>resp.
       (case evaluate_signature_gate True (normalize_verify_response resp) of
          None \<Rightarrow> pure ()
        | Some reason \<Rightarrow>
            (let m = ''update_signature_invalid:'' @ string_of (upd_text_of e) reason in
             and_then (remove_file p) (\<lambda>_.
             and_then (save_upd e (\<lambda>now. [UpdInProgress False, UpdStatus FailedS, UpdError (Some m), AttemptedAt now, AttemptedVersion version, StateArch (arch e)]))
               (\<lambda>_. throw (plain_error m))))))"

text \<open>\<open>None\<close>: launched. \<open>Some m\<close>: not launched, and why.\<close>

definition show_code :: "int \<Rightarrow> string" where
  "show_code n = (if n < 0 then ''-'' @ show_nat (nat (- n)) else show_nat (nat n))"

definition run_windows_msi_update :: "upd_env \<Rightarrow> string \<Rightarrow> string option upd" where
  "run_windows_msi_update e p =
     and_then (look (\<lambda>w. files w p)) (\<lambda>f.
       if f = None then throw (plain_error (''msi_not_found: '' @ p))
       else (case shim_fault e of
               Some m \<Rightarrow> throw (plain_error m)
             | None \<Rightarrow>
                 (let code = (case schtasks e of None \<Rightarrow> -1 | Some c \<Rightarrow> c) in
                  if code \<noteq> 0 then pure (Some (''schtasks_failed_rc_'' @ show_code code))
                  else and_then (emit (RunMsi p)) (\<lambda>_. pure None))))"

definition run_macos_pkg_update :: "string \<Rightarrow> string option upd" where
  "run_macos_pkg_update p =
     and_then (look (\<lambda>w. files w p)) (\<lambda>f.
       if f = None then throw (plain_error (''pkg_not_found: '' @ p)) else and_then (emit (RunPkg p)) (\<lambda>_. pure None))"

text \<open>The state once the file is there and, on Windows, trusted.\<close>

definition install_started_patch :: "upd_env \<Rightarrow> string \<Rightarrow> int \<Rightarrow> upd_change list" where
  "install_started_patch e version now =
     [UpdInProgress True, UpdStatus InstallStartedS, InstallStarted (Some now), AttemptedAt now, AttemptedVersion version, UpdError None, StateArch (arch e)]"

definition obtain_file :: "upd_env \<Rightarrow> string \<Rightarrow> jsval \<Rightarrow> string list \<Rightarrow> string \<Rightarrow> string \<Rightarrow> string upd \<Rightarrow> string upd" where
  "obtain_file e format h dps override_url name direct =
     and_then (dp_leg e format h dps) (\<lambda>via.
       (case via of
          Some p \<Rightarrow> pure p
        | None \<Rightarrow> if override_url \<noteq> [] then download_checked e override_url name h else direct))"

definition perform_windows_msi_update :: "upd_env \<Rightarrow> string \<Rightarrow> jsval \<Rightarrow> string \<Rightarrow> string list \<Rightarrow> string option upd" where
  "perform_windows_msi_update e version h override_url dps =
     and_then (obtain_file e ''msi'' h dps override_url (''Tracenium-Agent-'' @ version @ ''-'' @ arch e @ ''.msi'') (download_windows_msi e version h)) (\<lambda>p.
     and_then (verify_windows_update_signature e p version) (\<lambda>_.
     and_then (save_upd e (install_started_patch e version)) (\<lambda>_. run_windows_msi_update e p)))"

definition perform_macos_pkg_update :: "upd_env \<Rightarrow> string \<Rightarrow> jsval \<Rightarrow> string \<Rightarrow> string list \<Rightarrow> string option upd" where
  "perform_macos_pkg_update e version h override_url dps =
     and_then (obtain_file e ''pkg'' h dps override_url (''Tracenium-Agent-'' @ version @ ''-'' @ arch e @ ''.pkg'') (download_macos_pkg e version h)) (\<lambda>p.
     and_then (save_upd e (install_started_patch e version)) (\<lambda>_. run_macos_pkg_update p))"

definition perform_linux_update :: "upd_env \<Rightarrow> string \<Rightarrow> jsval \<Rightarrow> string \<Rightarrow> string list \<Rightarrow> string option upd" where
  "perform_linux_update e version h override_url dps =
     and_then (obtain_file e (get_binary_format e) h dps override_url (''tracenium-agent-'' @ version @ ''-'' @ arch e @ ''.'' @ linux_ext e)
       (download_linux_pkg e version h)) (\<lambda>p.
     and_then (save_upd e (install_started_patch e version)) (\<lambda>_.
     and_then (call_priv e (AgentInstall p (linux_ext e) version)) (\<lambda>resp.
       (let er = jprop resp ''error'' in
        if truthy er then throw (plain_error (''agent.install failed: '' @ string_of (upd_text_of e) (jprop er ''code'') @ '': ''
                            @ string_of (upd_text_of e) (jprop er ''message'')))
        else pure None))))"

definition perform_update :: "upd_env \<Rightarrow> string \<Rightarrow> jsval \<Rightarrow> string \<Rightarrow> string list \<Rightarrow> string option upd" where
  "perform_update e version h override_url dps =
     (case upd_os e of
        Some Macos \<Rightarrow> perform_macos_pkg_update e version h override_url dps
      | Some Windows \<Rightarrow> perform_windows_msi_update e version h override_url dps
      | _ \<Rightarrow> perform_linux_update e version h override_url dps)"

section \<open>What a step leaves\<close>

definition triple :: "(upd_world \<Rightarrow> bool) \<Rightarrow> 'a upd \<Rightarrow> ('a \<Rightarrow> upd_world \<Rightarrow> bool) \<Rightarrow> (upd_world \<Rightarrow> bool) \<Rightarrow> bool" where
  "triple P m Q R \<longleftrightarrow> (\<forall>w. P w \<longrightarrow> (case m w of (Inl _, w') \<Rightarrow> R w' | (Inr x, w') \<Rightarrow> Q x w'))"

named_theorems triples \<open>rules for the steps\<close>

lemma triple_and_then [triples]: "triple P m Q' R \<Longrightarrow> (\<And>x. triple (Q' x) (f x) Q R) \<Longrightarrow> triple P (and_then m f) Q R"
  unfolding triple_def and_then_def by (fastforce split: prod.splits sum.splits)

lemma triple_catching: "triple P m Q R' \<Longrightarrow> (\<And>t. triple R' (h t) Q R) \<Longrightarrow> triple P (catching m h) Q R"
  unfolding triple_def catching_def by (fastforce split: prod.splits sum.splits)

lemma triple_pure: "(\<And>w. P w \<Longrightarrow> Q x w) \<Longrightarrow> triple P (pure x) Q R"
  by (simp add: triple_def pure_def)

lemma triple_throw: "(\<And>w. P w \<Longrightarrow> R w) \<Longrightarrow> triple P (throw t) Q R"
  by (simp add: triple_def throw_def)

lemma triple_look: "(\<And>w. P w \<Longrightarrow> Q (f w) w) \<Longrightarrow> triple P (look f) Q R"
  by (simp add: triple_def look_def)

lemma triple_emit: "(\<And>w. P w \<Longrightarrow> Q () (w\<lparr>trace := trace w @ [ef]\<rparr>)) \<Longrightarrow> triple P (emit ef) Q R"
  by (simp add: triple_def emit_def)

lemma triple_weaken: "triple P m Q R \<Longrightarrow> (\<And>x w. Q x w \<Longrightarrow> Q' x w) \<Longrightarrow> (\<And>w. R w \<Longrightarrow> R' w) \<Longrightarrow> triple P m Q' R'"
  unfolding triple_def by (fastforce split: prod.splits sum.splits)

lemma triple_pre: "triple P m Q R \<Longrightarrow> (\<And>w. P' w \<Longrightarrow> P w) \<Longrightarrow> triple P' m Q R"
  by (simp add: triple_def)

lemma triple_imp: "(\<And>w. P w \<Longrightarrow> triple (\<lambda>w'. w' = w) m Q R) \<Longrightarrow> triple P m Q R"
  by (simp add: triple_def)

lemma tripleD: "triple P m Q R \<Longrightarrow> P w \<Longrightarrow> m w = (r, w') \<Longrightarrow> (case r of Inl _ \<Rightarrow> R w' | Inr x \<Rightarrow> Q x w')"
  unfolding triple_def by (fastforce split: sum.splits)

text \<open>The state file is no part of what was done to the world.\<close>

lemma triple_save:
  "(\<And>w s. P w \<Longrightarrow> Q () (w\<lparr>state_file := s\<rparr>)) \<Longrightarrow> (\<And>w. P w \<Longrightarrow> R w) \<Longrightarrow> triple P (save_upd e patch) Q R"
  by (auto simp: triple_def save_upd_def Let_def split: option.splits)

section \<open>Launches\<close>

definition launch_path :: "upd_effect \<Rightarrow> string option" where
  "launch_path ef = (case ef of RunMsi p \<Rightarrow> Some p | RunPkg p \<Rightarrow> Some p | UpdCall (AgentInstall p _ _) \<Rightarrow> Some p | _ \<Rightarrow> None)"

definition launches :: "upd_world \<Rightarrow> string list" where
  "launches w = List.map_filter launch_path (trace w)"

definition has_hash :: "upd_env \<Rightarrow> string \<Rightarrow> string \<Rightarrow> upd_world \<Rightarrow> bool" where
  "has_hash e h p w \<longleftrightarrow> (\<exists>b. files w p = Some b \<and> to_lower (sha256_of e b) = to_lower h)"

text \<open>The privileged service was asked about the signature of the file, and said it is trusted.\<close>

definition was_trusted :: "upd_env \<Rightarrow> string \<Rightarrow> upd_world \<Rightarrow> bool" where
  "was_trusted e p w \<longleftrightarrow> (\<exists>before after resp. trace w = before @ UpdCall (VerifyCall p) # after \<and> upd_priv e before (VerifyCall p) = Inr resp
     \<and> truthy (jprop resp ''ok'') \<and> jprop (jprop resp ''result'') ''trusted'' = JBool True)"

text \<open>
  What \<open>sdp.download\<close> of the privileged service promises: when it answers well with a staging path, the file is there and has the hash
  that was asked for.
\<close>

definition download_promise :: "upd_env \<Rightarrow> bool" where
  "download_promise e \<longleftrightarrow> (\<forall>tr sources h format resp. upd_priv e tr (DownloadCall sources h format) = Inr resp \<longrightarrow> truthy (jprop resp ''ok'') \<longrightarrow>
     truthy (jprop (jprop resp ''result'') ''stagingPath'') \<longrightarrow>
     (\<exists>b. map_of (priv_writes e tr (DownloadCall sources h format)) (string_of (upd_text_of e) (jprop (jprop resp ''result'') ''stagingPath'')) = Some b
        \<and> to_lower (sha256_of e b) = h))"

lemma launches_simps [simp]:
  "launches (w\<lparr>state_file := s\<rparr>) = launches w" "launches (w\<lparr>files := f\<rparr>) = launches w"
  "launches (w\<lparr>trace := trace w @ [ef], files := f\<rparr>) = launches w @ (case launch_path ef of None \<Rightarrow> [] | Some p \<Rightarrow> [p])"
  "launches (w\<lparr>trace := trace w @ [ef]\<rparr>) = launches w @ (case launch_path ef of None \<Rightarrow> [] | Some p \<Rightarrow> [p])"
  by (simp_all add: launches_def map_filter_def split: option.splits)

lemma launch_path_simps [simp]:
  "launch_path (HttpJson u) = None" "launch_path (HttpFile u p) = None" "launch_path (KillPid n) = None" "launch_path (RunMsi p) = Some p"
  "launch_path (RunPkg p) = Some p" "launch_path (UpdCall (DownloadCall s h f)) = None" "launch_path (UpdCall (VerifyCall p)) = None"
  "launch_path (UpdCall (AgentInstall p f v)) = Some p"
  by (simp_all add: launch_path_def)

lemma was_trusted_simps [simp]:
  "was_trusted e p (w\<lparr>state_file := s\<rparr>) = was_trusted e p w" "was_trusted e p (w\<lparr>files := f\<rparr>) = was_trusted e p w"
  by (simp_all add: was_trusted_def)

lemma was_trusted_append: "was_trusted e p w \<Longrightarrow> was_trusted e p (w\<lparr>trace := trace w @ [ef]\<rparr>)"
  unfolding was_trusted_def by fastforce

lemma has_hash_simps [simp]:
  "has_hash e h p (w\<lparr>state_file := s\<rparr>) = has_hash e h p w" "has_hash e h p (w\<lparr>trace := t\<rparr>) = has_hash e h p w"
  by (simp_all add: has_hash_def)

text \<open>Until it launches, a step adds no launch.\<close>

abbreviation quiet :: "string list \<Rightarrow> 'a upd \<Rightarrow> bool" where
  "quiet L m \<equiv> triple (\<lambda>w. launches w = L) m (\<lambda>_ w. launches w = L) (\<lambda>w. launches w = L)"

lemma quiet_pure [triples]: "quiet L (pure x)"
  by (simp add: triple_pure)

lemma quiet_throw [triples]: "quiet L (throw t)"
  by (simp add: triple_throw)

lemma quiet_look [triples]: "quiet L (look f)"
  by (simp add: triple_look)

lemma quiet_save [triples]: "quiet L (save_upd e patch)"
  by (rule triple_save) simp_all

lemma quiet_get_json [triples]: "quiet L (get_json e url)"
  by (auto simp: triple_def get_json_def split: sum.split)

lemma quiet_remove [triples]: "quiet L (remove_file p)"
  by (simp add: triple_def remove_file_def)

lemma quiet_get_file [triples]: "quiet L (get_file e url p)"
  by (auto simp: triple_def get_file_def split: prod.split sum.split)

lemma quiet_prune [triples]: "quiet L (prune_old_downloads e d k)"
  by (simp add: triple_def prune_old_downloads_def)

lemma quiet_lower [triples]: "quiet L (lower_hash h)"
  by (cases h) (simp_all add: lower_hash_def quiet_pure quiet_throw)

lemma quiet_sha [triples]: "quiet L (sha256_file e p)"
  by (simp add: sha256_file_def quiet_look)

lemma quiet_call: "\<forall>p f v. c \<noteq> AgentInstall p f v \<Longrightarrow> quiet L (call_priv e c)"
  by (cases c) (auto simp: triple_def call_priv_def split: sum.split)

text \<open>A step that is quiet and leaves what \<open>Q\<close> says.\<close>

definition checked :: "upd_env \<Rightarrow> string list \<Rightarrow> jsval \<Rightarrow> string \<Rightarrow> upd_world \<Rightarrow> bool" where
  "checked e L h p w \<longleftrightarrow> launches w = L \<and> (truthy h \<longrightarrow> (\<exists>s. h = JStr s \<and> has_hash e s p w))"

lemma checked_simps [simp]:
  "checked e L h p (w\<lparr>state_file := s\<rparr>) = checked e L h p w"
  by (simp add: checked_def)

lemma get_file_there:
  "triple (\<lambda>w. launches w = L) (get_file e url p) (\<lambda>_ w. launches w = L \<and> (\<exists>b. files w p = Some b)) (\<lambda>w. launches w = L)"
proof -
  have "\<exists>b. f = Some b" if "download_to_file evs old = (Inr n, f)" for evs old n f
    using that download.run_inv [OF start_download_inv, of old evs]
    by (auto simp: download_to_file_def download_outcome_def download_inv_def Let_def split: option.splits)
  then show ?thesis by (auto simp: triple_def get_file_def split: prod.split sum.split)
qed

lemma check_hash_there:
  "triple (\<lambda>w. launches w = L \<and> (\<exists>b. files w p = Some b \<and> sha = sha256_of e b)) (check_hash h sha p)
     (\<lambda>_ w. checked e L h p w) (\<lambda>w. launches w = L)"
proof (cases "truthy h")
  case False
  then show ?thesis by (auto simp: check_hash_def checked_def intro: triple_pure)
next
  case True
  show ?thesis
  proof (cases "\<exists>s. h = JStr s")
    case True
    then obtain s where h: "h = JStr s" by blast
    have "launches w = L \<and> (\<exists>b. files w p = Some b \<and> sha = sha256_of e b) \<Longrightarrow>
        (case check_hash h sha p w of (Inl _, w') \<Rightarrow> launches w' = L | (Inr _, w') \<Rightarrow> checked e L h p w')" for w
      using \<open>truthy h\<close> by (auto simp: h check_hash_def lower_hash_def and_then_def pure_def throw_def remove_file_def checked_def has_hash_def)
    then show ?thesis by (simp add: triple_def)
  next
    case no: False
    have "lower_hash h = throw (type_error ''expectedHash.toLowerCase is not a function'')"
      using no by (cases h) (simp_all add: lower_hash_def)
    then show ?thesis using True by (simp add: triple_def check_hash_def and_then_def throw_def)
  qed
qed

lemma prune_keeps: "triple (checked e L h p) (prune_old_downloads e d p) (\<lambda>_. checked e L h p) R"
proof -
  have "pruned e d p fs p = fs p" for fs
    by (simp add: pruned_def split: option.split)
  then show ?thesis by (simp add: triple_def prune_old_downloads_def checked_def has_hash_def)
qed

lemma download_checked_ok:
  "triple (\<lambda>w. launches w = L) (download_checked e url name h) (checked e L h) (\<lambda>w. launches w = L)"
  unfolding download_checked_def Let_def
  apply (rule triple_and_then [OF get_file_there])
  apply (rule triple_and_then [where Q' = "\<lambda>sha w. launches w = L \<and> (\<exists>b. files w (path_join e (updates_dir e) name) = Some b \<and> sha = sha256_of e b)"])
   apply (force simp: sha256_file_def intro: triple_look)
  apply (rule triple_and_then [OF check_hash_there])
  apply (rule triple_and_then [OF prune_keeps])
  apply (rule triple_and_then [where Q' = "\<lambda>_. checked e L h (path_join e (updates_dir e) name)"])
   apply (rule triple_save)
    apply simp
   apply (simp add: checked_def)
  apply (simp add: triple_pure)
  done

lemma quiet_then:
  "quiet L m \<Longrightarrow> (\<And>x. triple (\<lambda>w. launches w = L) (f x) Q (\<lambda>w. launches w = L)) \<Longrightarrow> triple (\<lambda>w. launches w = L) (and_then m f) Q (\<lambda>w. launches w = L)"
  by (rule triple_and_then)

lemma quiet_answered_url: "quiet L (answered_url e dl)"
  by (simp add: answered_url_def Let_def quiet_pure quiet_throw)

lemma quiet_base_url: "quiet L (get_api_base_url e)"
  by (simp add: get_api_base_url_def quiet_pure quiet_throw split: option.split)

lemma quiet_fetch_url: "quiet L (fetch_download_url e pl f v)"
  unfolding fetch_download_url_def by (intro quiet_then quiet_base_url quiet_get_json)

lemma direct_ok:
  "triple (\<lambda>w. launches w = L) (download_windows_msi e v h) (checked e L h) (\<lambda>w. launches w = L)"
  "triple (\<lambda>w. launches w = L) (download_macos_pkg e v h) (checked e L h) (\<lambda>w. launches w = L)"
  "triple (\<lambda>w. launches w = L) (download_linux_pkg e v h) (checked e L h) (\<lambda>w. launches w = L)"
  unfolding download_windows_msi_def download_macos_pkg_def download_linux_pkg_def
  by (rule quiet_then [OF quiet_fetch_url quiet_then [OF quiet_answered_url download_checked_ok]])+

lemma via_sources_ok:
  assumes "download_promise e"
  shows "triple (\<lambda>w. launches w = L) (download_update_via_sources e format s sources)
     (\<lambda>r w. launches w = L \<and> (\<forall>p sh sb. r = Some (p, sh, sb) \<longrightarrow> has_hash e s p w)) (\<lambda>w. launches w = L)"
proof (cases "sources = [] \<or> s = []")
  case True
  then show ?thesis by (simp add: download_update_via_sources_def triple_pure)
next
  case False
  let ?c = "DownloadCall sources (to_lower s) format"
  let ?Q = "\<lambda>resp w. launches w = L \<and> (truthy (jprop resp ''ok'') \<longrightarrow> truthy (jprop (jprop resp ''result'') ''stagingPath'') \<longrightarrow>
      has_hash e s (string_of (upd_text_of e) (jprop (jprop resp ''result'') ''stagingPath'')) w)"
  have "triple (\<lambda>w. launches w = L) (call_priv e ?c) ?Q (\<lambda>w. launches w = L)"
    using assms by (fastforce simp: triple_def call_priv_def has_hash_def download_promise_def split: sum.split)
  then show ?thesis
    using False unfolding download_update_via_sources_def
    by (auto simp: Let_def intro!: triple_and_then [where Q' = ?Q] triple_pure triple_throw)
qed

lemma record_then_path:
  "triple (\<lambda>w. launches w = L \<and> has_hash e s p w) (and_then (save_upd e f) (\<lambda>_. pure (Some p)))
     (\<lambda>r w. launches w = L \<and> (\<forall>q. r = Some q \<longrightarrow> checked e L (JStr s) q w)) (\<lambda>w. launches w = L)"
proof (rule triple_and_then [where Q' = "\<lambda>_ w. launches w = L \<and> has_hash e s p w"])
  show "triple (\<lambda>w. launches w = L \<and> has_hash e s p w) (save_upd e f) (\<lambda>_ w. launches w = L \<and> has_hash e s p w) (\<lambda>w. launches w = L)"
    by (rule triple_save) simp_all
qed (auto simp: checked_def intro: triple_pure)

lemma dp_leg_ok:
  assumes "download_promise e"
  shows "triple (\<lambda>w. launches w = L) (dp_leg e format h dps) (\<lambda>r w. launches w = L \<and> (\<forall>p. r = Some p \<longrightarrow> checked e L h p w)) (\<lambda>w. launches w = L)"
proof (cases "dps = [] \<or> \<not> truthy h")
  case True
  then show ?thesis by (simp add: dp_leg_def triple_pure)
next
  case False
  note via = via_sources_ok [OF assms]
  show ?thesis
  proof (cases "\<exists>s. h = JStr s")
    case True
    then obtain s where h: "h = JStr s" by blast
    show ?thesis
      using False unfolding dp_leg_def h
      apply (simp add: lower_hash_def)
      apply (rule triple_and_then [where Q' = "\<lambda>lh w. launches w = L"])
       apply (simp add: triple_pure)
      apply (rule triple_and_then [OF triple_catching [OF via]])
       apply (simp add: triple_pure)
      subgoal for _ via
        by (cases via) (auto intro: triple_pure triple_pre [OF record_then_path])
      done
  next
    case no: False
    have "lower_hash h = throw (type_error ''expectedHash.toLowerCase is not a function'')"
      using no by (cases h) (simp_all add: lower_hash_def)
    then show ?thesis using False by (simp add: triple_def dp_leg_def and_then_def throw_def)
  qed
qed

lemma obtain_ok:
  assumes "download_promise e" and "triple (\<lambda>w. launches w = L) direct (checked e L h) (\<lambda>w. launches w = L)"
  shows "triple (\<lambda>w. launches w = L) (obtain_file e format h dps url name direct) (checked e L h) (\<lambda>w. launches w = L)"
  unfolding obtain_file_def
proof (rule triple_and_then [OF dp_leg_ok [OF assms(1)]])
  fix via
  show "triple (\<lambda>w. launches w = L \<and> (\<forall>p. via = Some p \<longrightarrow> checked e L h p w))
          (case via of None \<Rightarrow> if url \<noteq> [] then download_checked e url name h else direct | Some p \<Rightarrow> pure p) (checked e L h) (\<lambda>w. launches w = L)"
    by (cases via) (auto intro: triple_pure triple_pre [OF download_checked_ok] triple_pre [OF assms(2)])
qed

text \<open>What a world is like after an attempt: nothing was launched, or one file that was checked.\<close>

definition launched :: "upd_env \<Rightarrow> string list \<Rightarrow> jsval \<Rightarrow> upd_world \<Rightarrow> bool" where
  "launched e L h w \<longleftrightarrow> launches w = L
     \<or> (\<exists>p. launches w = L @ [p] \<and> (truthy h \<longrightarrow> (\<exists>s. h = JStr s \<and> has_hash e s p w)) \<and> (upd_os e = Some Windows \<longrightarrow> was_trusted e p w))"

lemma launched_quiet: "launches w = L \<Longrightarrow> launched e L h w"
  by (simp add: launched_def)

lemma verify_trusts:
  "triple (checked e L h p) (verify_windows_update_signature e p v) (\<lambda>_ w. checked e L h p w \<and> was_trusted e p w) (\<lambda>w. launches w = L)"
proof -
  let ?Q = "\<lambda>resp w. checked e L h p w \<and> (truthy (jprop resp ''ok'') \<and> jprop (jprop resp ''result'') ''trusted'' = JBool True \<longrightarrow> was_trusted e p w)"
  have "triple (checked e L h p) (call_priv e (VerifyCall p)) ?Q (\<lambda>w. launches w = L)"
    by (fastforce simp: triple_def call_priv_def checked_def has_hash_def was_trusted_def split: sum.split)
  then show ?thesis
    unfolding verify_windows_update_signature_def
  proof (rule triple_and_then)
    fix resp
    show "triple (?Q resp)
       (case evaluate_signature_gate True (normalize_verify_response resp) of None \<Rightarrow> pure ()
        | Some reason \<Rightarrow>
            (let m = ''update_signature_invalid:'' @ string_of (upd_text_of e) reason in
             and_then (remove_file p) (\<lambda>_.
             and_then (save_upd e (\<lambda>now. [UpdInProgress False, UpdStatus FailedS, UpdError (Some m), AttemptedAt now, AttemptedVersion v, StateArch (arch e)]))
               (\<lambda>_. throw (plain_error m)))))
       (\<lambda>_ w. checked e L h p w \<and> was_trusted e p w) (\<lambda>w. launches w = L)"
    proof (cases "evaluate_signature_gate True (normalize_verify_response resp)")
      case None
      then show ?thesis
        by (auto simp: evaluate_signature_gate_def normalize_verify_response_def split: if_splits intro: triple_pure)
    next
      case (Some reason)
      have "quiet L (and_then (remove_file p) (\<lambda>_. and_then (save_upd e f) (\<lambda>_. throw t)))" for f t
        by (rule quiet_then [OF quiet_remove quiet_then [OF quiet_save quiet_throw]])
      then show ?thesis
        unfolding Some by (auto simp: Let_def checked_def triple_def and_then_def throw_def remove_file_def save_upd_def split: option.split)
    qed
  qed
qed

lemma save_keeps_checked:
  "triple (checked e L h p) (save_upd e f) (\<lambda>_. checked e L h p) (launched e L h)"
  by (rule triple_save) (simp_all add: checked_def launched_quiet)

lemma weaken_quiet: "triple P m Q (\<lambda>w. launches w = L) \<Longrightarrow> triple P m Q (launched e L h)"
  by (erule triple_weaken) (auto simp: launched_quiet)

lemma windows_launched:
  assumes "download_promise e"
  shows "triple (\<lambda>w. launches w = L) (perform_windows_msi_update e v h url dps) (\<lambda>_. launched e L h) (launched e L h)"
  unfolding perform_windows_msi_update_def
proof (rule triple_and_then [OF weaken_quiet [OF obtain_ok [OF assms direct_ok(1)]]], rule triple_and_then [OF weaken_quiet [OF verify_trusts]],
    rule triple_and_then)
  fix p
  let ?I = "\<lambda>w. checked e L h p w \<and> was_trusted e p w"
  show "triple ?I (save_upd e (install_started_patch e v)) (\<lambda>_. ?I) (launched e L h)"
    by (rule triple_save) (simp_all add: checked_def launched_quiet)
  have "launched e L h (w\<lparr>trace := trace w @ [RunMsi p]\<rparr>)" if "?I w" for w
    using that was_trusted_append by (auto simp: launched_def checked_def)
  then show "triple ?I (run_windows_msi_update e p) (\<lambda>_. launched e L h) (launched e L h)"
    by (auto simp: triple_def run_windows_msi_update_def and_then_def look_def throw_def pure_def emit_def Let_def checked_def launched_quiet
        split: option.split)
qed

lemma macos_launched:
  assumes "download_promise e" and "upd_os e = Some Macos"
  shows "triple (\<lambda>w. launches w = L) (perform_macos_pkg_update e v h url dps) (\<lambda>_. launched e L h) (launched e L h)"
  unfolding perform_macos_pkg_update_def
proof (rule triple_and_then [OF weaken_quiet [OF obtain_ok [OF assms(1) direct_ok(2)]]], rule triple_and_then [OF save_keeps_checked])
  fix p
  have "launched e L h (w\<lparr>trace := trace w @ [RunPkg p]\<rparr>)" if "checked e L h p w" for w
    using that assms(2) by (auto simp: launched_def checked_def)
  then show "triple (checked e L h p) (run_macos_pkg_update p) (\<lambda>_. launched e L h) (launched e L h)"
    by (auto simp: triple_def run_macos_pkg_update_def and_then_def look_def throw_def pure_def emit_def checked_def launched_quiet split: option.split)
qed

lemma linux_launched:
  assumes "download_promise e" and "upd_os e \<noteq> Some Windows"
  shows "triple (\<lambda>w. launches w = L) (perform_linux_update e v h url dps) (\<lambda>_. launched e L h) (launched e L h)"
  unfolding perform_linux_update_def
proof (rule triple_and_then [OF weaken_quiet [OF obtain_ok [OF assms(1) direct_ok(3)]]], rule triple_and_then [OF save_keeps_checked], rule triple_and_then)
  fix p
  show "triple (checked e L h p) (call_priv e (AgentInstall p (linux_ext e) v)) (\<lambda>_. launched e L h) (launched e L h)"
    using assms(2) by (auto simp: triple_def call_priv_def launched_def checked_def has_hash_def split: sum.split)
  show "triple (launched e L h)
      (let er = jprop resp ''error'' in
        if truthy er then throw (plain_error (''agent.install failed: '' @ string_of (upd_text_of e) (jprop er ''code'') @ '': ''
                            @ string_of (upd_text_of e) (jprop er ''message''))) else pure None) (\<lambda>_. launched e L h) (launched e L h)" for resp
    by (simp add: Let_def triple_pure triple_throw)
qed

lemma perform_launched:
  assumes "download_promise e"
  shows "triple (\<lambda>w. launches w = L) (perform_update e v h url dps) (\<lambda>_. launched e L h) (launched e L h)"
  using windows_launched [OF assms] macos_launched [OF assms] linux_launched [OF assms]
  by (simp add: perform_update_def split: option.split platform.split)

end
