(* ===== verification/Update_Task.thy ===== *)
theory Update_Task
  imports Update_Service
begin

text \<open>
  An attempt to update the agent from its guards to its outcome (\<open>update/update-task.ts\<close>), the acknowledgement of an outcome, the job
  \<open>agent_update\<close> and the control message that start one (\<open>transport/grpc-stream.ts\<close>), and what becomes of an installer on macOS
  (\<open>updater-runner.ts\<close>). Logging is left out.
\<close>

section \<open>Outcomes\<close>

datatype update_outcome = Started string string | Skipped string | UpdFailed string

definition UPDATE_DEFERRED_PREFIX :: string where "UPDATE_DEFERRED_PREFIX = ''privileged_operation_in_progress:''"
definition UPDATE_BATTERY_DEFERRED_PREFIX :: string where "UPDATE_BATTERY_DEFERRED_PREFIX = ''battery_low:''"
definition UPDATE_INSTALLER_RUNNING_PREFIX :: string where "UPDATE_INSTALLER_RUNNING_PREFIX = ''installer_running:''"

definition retry_later :: "string \<Rightarrow> bool" where
  "retry_later reason \<longleftrightarrow>
     list_ex (starts_with reason) [UPDATE_DEFERRED_PREFIX, UPDATE_BATTERY_DEFERRED_PREFIX, UPDATE_INSTALLER_RUNNING_PREFIX]"

definition ack_for_update_outcome :: "update_outcome \<Rightarrow> nat \<times> string" where
  "ack_for_update_outcome r = (case r of
     UpdFailed m \<Rightarrow> (2, ''update_failed: '' @ m)
   | Skipped reason \<Rightarrow> if retry_later reason then (1, ''agent_update retry: '' @ reason) else (0, ''update_skipped: '' @ reason)
   | Started v served \<Rightarrow> (0, ''update_started;src='' @ (if served = [] then ''origin'' else served)))"

section \<open>The guards\<close>

definition privileged_operation_in_flight :: "upd_env \<Rightarrow> string option" where
  "privileged_operation_in_flight e =
     (if patch_busy e then Some ''patch_install'' else if remediate_busy e then Some ''patch_remediate''
      else if software_busy e then Some ''software_install'' else if asp_busy e then Some ''asp_assess'' else None)"

definition served_tier :: "string upd" where
  "served_tier = and_then load_upd (\<lambda>s. pure (case served_by s of None \<Rightarrow> ''origin'' | Some t \<Rightarrow> if t = [] then ''origin'' else t))"

text \<open>The result of an installer that was not launched; \<open>None\<close> goes on.\<close>

definition installer_not_launched :: "upd_env \<Rightarrow> string option \<Rightarrow> update_outcome option upd" where
  "installer_not_launched e run = (case run of
     None \<Rightarrow> pure None
   | Some m \<Rightarrow> (let er = (if m = [] then ''installer_not_launched'' else m) in
       and_then (mark_update_failed e er) (\<lambda>_. pure (Some (UpdFailed er)))))"

definition parse_utc_ms :: "int option \<Rightarrow> int" where
  "parse_utc_ms t = (case t of None \<Rightarrow> 0 | Some n \<Rightarrow> n)"

definition time_now :: "upd_env \<Rightarrow> int upd" where
  "time_now e = look (\<lambda>w. clock e (trace w))"

definition should_check_now :: "upd_env \<Rightarrow> int \<Rightarrow> bool upd" where
  "should_check_now e interval =
     and_then load_upd (\<lambda>s. and_then (time_now e) (\<lambda>now.
       pure (parse_utc_ms (last_checked s) = 0 \<or> now - parse_utc_ms (last_checked s) \<ge> interval)))"

definition attempted_of :: "upd_state \<Rightarrow> string" where
  "attempted_of s = trim (case attempted_version s of None \<Rightarrow> [] | Some v \<Rightarrow> v)"

definition reconcile_pending_update :: "upd_env \<Rightarrow> string \<Rightarrow> upd_state upd" where
  "reconcile_pending_update e current =
     and_then load_upd (\<lambda>s.
       if \<not> in_progress s \<or> attempted_of s = [] \<or> \<not> looks_like_semver (attempted_of s) then pure s
       else if compare_semver current (attempted_of s) \<ge> 0 then and_then (mark_update_succeeded e (attempted_of s)) (\<lambda>_. load_upd)
       else pure s)"

definition STALE_MS :: int where
  "STALE_MS = 10 * 60 * 1000"

text \<open>\<open>None\<close>: go on. An update in progress holds the next one for ten minutes.\<close>

definition last_attempt :: "upd_state \<Rightarrow> int" where
  "last_attempt s = parse_utc_ms (case install_started s of Some t \<Rightarrow> Some t | None \<Rightarrow> attempted_at s)"

definition pending_guard :: "upd_env \<Rightarrow> string \<Rightarrow> update_outcome option upd" where
  "pending_guard e current =
     and_then (reconcile_pending_update e current) (\<lambda>s.
       if \<not> in_progress s then pure None
       else and_then (time_now e) (\<lambda>now.
         if now - last_attempt s < STALE_MS then pure (Some (Skipped ''update_already_in_progress''))
         else and_then (mark_update_failed e ''stale_update_in_progress'') (\<lambda>_. pure None)))"

definition battery_guard :: "upd_env \<Rightarrow> update_outcome option upd" where
  "battery_guard e = look (\<lambda>w. case battery_blocks_update (normalize_battery (upd_text_of e) (battery_raw e (trace w))) of
     None \<Rightarrow> None | Some p \<Rightarrow> Some (Skipped (UPDATE_BATTERY_DEFERRED_PREFIX @ show_code p @ ''%'')))"

fun kill_all :: "nat list \<Rightarrow> unit upd" where
  "kill_all [] = pure ()"
| "kill_all (p # ps) = and_then (emit (KillPid p)) (\<lambda>_. kill_all ps)"

definition find_running_installers :: "upd_env \<Rightarrow> running_installer list upd" where
  "find_running_installers e = look (\<lambda>w. case ps_output e (trace w) of None \<Rightarrow> [] | Some out \<Rightarrow> our_installers_in out)"

definition stalled_error :: "nat \<Rightarrow> nat \<Rightarrow> string" where
  "stalled_error n sec = ''installer_stalled: '' @ show_nat n @ '' installer(s) waiting on the macOS package queue (PackageKit) for up to ''
     @ format_elapsed sec @ ''; killed. Restart the Mac to clear the queue''"

definition installer_guard_step :: "upd_env \<Rightarrow> update_outcome option upd" where
  "installer_guard_step e =
     (if upd_os e \<noteq> Some Macos then pure None
      else and_then (find_running_installers e) (\<lambda>running.
        (case decide_installer_guard running INSTALLER_STALL_SEC of
           NoGuard \<Rightarrow> pure None
         | WaitFor pid sec \<Rightarrow> pure (Some (Skipped (UPDATE_INSTALLER_RUNNING_PREFIX @ ''pid='' @ show_nat pid @ '','' @ format_elapsed sec)))
         | Stalled pids sec \<Rightarrow>
             (let m = stalled_error (length pids) sec in
              and_then (kill_all pids) (\<lambda>_. and_then (mark_update_failed e m) (\<lambda>_. pure (Some (UpdFailed m))))))))"

text \<open>The guards in their order; the first that speaks ends the attempt.\<close>

definition or_go_on :: "update_outcome option upd \<Rightarrow> update_outcome option upd \<Rightarrow> update_outcome option upd" where
  "or_go_on a b = and_then a (\<lambda>r. case r of Some x \<Rightarrow> pure (Some x) | None \<Rightarrow> b)"

record upd_opts =
  force :: bool
  interval :: int
  target_version :: string
  override_url :: string
  override_hash :: string
  dp_bases :: "string list"

definition known_version :: "string \<Rightarrow> bool" where
  "known_version v \<longleftrightarrow> v \<noteq> [] \<and> v \<noteq> ''undefined'' \<and> v \<noteq> ''null'' \<and> looks_like_semver v"

definition current_version :: "upd_env \<Rightarrow> string" where
  "current_version e = trim (agent_version e)"

definition guards :: "upd_env \<Rightarrow> upd_opts \<Rightarrow> update_outcome option upd" where
  "guards e opts =
     (if upd_os e = None then pure (Some (Skipped ''platform_not_supported''))
      else if \<not> known_version (current_version e) then pure (Some (Skipped ''missing_current_version''))
      else or_go_on (pending_guard e (current_version e)) (
        (case privileged_operation_in_flight e of
           Some op \<Rightarrow> pure (Some (Skipped (UPDATE_DEFERRED_PREFIX @ op)))
         | None \<Rightarrow>
             or_go_on (if force opts then pure None
                       else and_then (should_check_now e (interval opts)) (\<lambda>b. pure (if b then None else Some (Skipped ''check_interval_not_elapsed''))))
               (or_go_on (battery_guard e) (installer_guard_step e)))))"

section \<open>The attempt\<close>

definition starting_patch :: "string \<Rightarrow> int \<Rightarrow> upd_change list" where
  "starting_patch v now = [UpdInProgress True, ServedBy None, AttemptedVersion v, AttemptedAt now]"

text \<open>From the mark in the state to the outcome.\<close>

definition launch :: "upd_env \<Rightarrow> string \<Rightarrow> jsval \<Rightarrow> string \<Rightarrow> string list \<Rightarrow> update_outcome upd" where
  "launch e v h url dps =
     and_then (save_upd e (starting_patch v)) (\<lambda>_.
     and_then (perform_update e v h url dps) (\<lambda>run.
     and_then (installer_not_launched e run) (\<lambda>r.
       (case r of Some x \<Rightarrow> pure x | None \<Rightarrow> and_then served_tier (\<lambda>t. pure (Started v t))))))"

definition check_result :: "upd_env \<Rightarrow> jsval \<Rightarrow> update_check upd" where
  "check_result e metadata = (case check_for_available_update e (current_version e) metadata of Inl t \<Rightarrow> throw t | Inr r \<Rightarrow> pure r)"

definition latest_done :: "upd_state \<Rightarrow> string \<Rightarrow> bool" where
  "latest_done s latest \<longleftrightarrow> latest \<noteq> [] \<and> attempted_version s = Some latest \<and> success_version s = Some latest"

definition metadata_path :: "upd_env \<Rightarrow> upd_opts \<Rightarrow> update_outcome upd" where
  "metadata_path e opts =
     and_then (fetch_agent_metadata e) (\<lambda>metadata.
     and_then (check_result e metadata) (\<lambda>r.
     and_then load_upd (\<lambda>s.
       if latest_done s (latest_version r) then pure (Skipped ''latest_already_installed'')
       else if \<not> available r then pure (Skipped (reason_text (check_reason r)))
       else if \<not> truthy (binary_metadata e metadata) then pure (UpdFailed (''no_compatible_binary_for_'' @ arch e))
       else (let h = jprop (binary_metadata e metadata) ''hash'' in
         if \<not> truthy h then pure (UpdFailed ''missing_expected_hash'')
         else launch e (if target_version opts \<noteq> [] then target_version opts else latest_version r) h [] (dp_bases opts)))))"

text \<open>What follows the guards: the address and hash of the payload, or the metadata. Only the second catches what is thrown.\<close>

definition attempt :: "upd_env \<Rightarrow> upd_opts \<Rightarrow> update_outcome upd" where
  "attempt e opts =
     (if override_url opts \<noteq> [] \<and> override_hash opts \<noteq> [] \<and> target_version opts \<noteq> []
      then launch e (target_version opts) (JStr (override_hash opts)) (override_url opts) (dp_bases opts)
      else if (override_url opts \<noteq> []) \<noteq> (override_hash opts \<noteq> []) then pure (UpdFailed ''job_payload_override_incomplete'')
      else catching (metadata_path e opts) (\<lambda>t. and_then (mark_update_failed e (describe_error t)) (\<lambda>_. pure (UpdFailed (describe_error t)))))"

definition run_update_task :: "upd_env \<Rightarrow> upd_opts \<Rightarrow> update_outcome upd" where
  "run_update_task e opts = and_then (guards e opts) (\<lambda>g. case g of Some r \<Rightarrow> pure r | None \<Rightarrow> attempt e opts)"

section \<open>The job and the control message\<close>

text \<open>\<open>/^https:\/\//i\<close> on each, without the slashes at the end; \<open>parsed\<close> is the JSON, \<open>None\<close> if it is none. No base: the empty list.\<close>

definition parse_dp_base_urls :: "jsval option \<Rightarrow> string list" where
  "parse_dp_base_urls parsed = (case parsed of
     Some (JArr xs) \<Rightarrow>
       List.map_filter (\<lambda>x. case x of JStr u \<Rightarrow> if to_lower (take 8 u) = ''https://'' then Some (drop_slashes u) else None | _ \<Rightarrow> None) xs
   | _ \<Rightarrow> [])"

definition six_hours :: int where
  "six_hours = 6 * 60 * 60 * 1000"

text \<open>The texts of an \<open>agent_update\<close> job, absent ones empty; \<open>bool\<close> is \<open>_agentUpdateInProgress\<close>. What it throws, the stream acknowledges.\<close>

definition job_ack :: "upd_env \<Rightarrow> string \<Rightarrow> string \<Rightarrow> string \<Rightarrow> string list \<Rightarrow> bool \<Rightarrow> upd_world \<Rightarrow> (nat \<times> string) \<times> upd_world" where
  "job_ack e version url h dps running w =
     (if trim version = [] then ((2, ''agent_update rejected: missing version''), w)
      else if running then ((1, ''agent_update retry: update already in progress''), w)
      else (case run_update_task e \<lparr>force = False, interval = six_hours, target_version = trim version, override_url = trim url,
                    override_hash = to_lower (trim h), dp_bases = dps\<rparr> w of
              (Inr r, w') \<Rightarrow> (ack_for_update_outcome r, w')
            | (Inl t, w') \<Rightarrow> ((2, case t of TErr _ _ m _ _ _ \<Rightarrow> if m = [] then ''job_failed'' else m | _ \<Rightarrow> ''job_failed''), w')))"

text \<open>The control message; \<open>None\<close>: ignored without an answer.\<close>

definition control_ack :: "upd_env \<Rightarrow> string \<Rightarrow> string list \<Rightarrow> bool \<Rightarrow> upd_world \<Rightarrow> (nat \<times> string) option \<times> upd_world" where
  "control_ack e version dps running w =
     (if running \<or> trim version = [] then (None, w)
      else (case run_update_task e \<lparr>force = False, interval = six_hours, target_version = trim version, override_url = [],
                    override_hash = [], dp_bases = dps\<rparr> w of
              (Inr r, w') \<Rightarrow> (Some (ack_for_update_outcome r), w')
            | (Inl t, w') \<Rightarrow> (Some (2, ''update_failed: '' @ describe_error t), w')))"

section \<open>What is launched was checked\<close>

text \<open>The hash that was asked for: the payload's, or one that an answer of the control plane gives for this machine.\<close>

definition asked_hash :: "upd_env \<Rightarrow> upd_opts \<Rightarrow> string \<Rightarrow> bool" where
  "asked_hash e opts s \<longleftrightarrow> s \<noteq> [] \<and> (s = override_hash opts
     \<or> (\<exists>tr url m. http_answer e tr url = Inr m \<and> jprop (binary_metadata e m) ''hash'' = JStr s))"

definition checked_launch :: "upd_env \<Rightarrow> upd_opts \<Rightarrow> string list \<Rightarrow> upd_world \<Rightarrow> bool" where
  "checked_launch e opts L w \<longleftrightarrow> launches w = L
     \<or> (\<exists>p s. launches w = L @ [p] \<and> asked_hash e opts s \<and> has_hash e s p w \<and> (upd_os e = Some Windows \<longrightarrow> was_trusted e p w))"

lemma checked_launch_quiet: "launches w = L \<Longrightarrow> checked_launch e opts L w"
  by (simp add: checked_launch_def)

lemma save_keeps_launch: "triple (checked_launch e opts L) (save_upd e f) (\<lambda>_. checked_launch e opts L) (checked_launch e opts L)"
  by (rule triple_save) (simp_all add: checked_launch_def)

lemma launch_checked:
  assumes "download_promise e" and "truthy h" and "\<And>s. h = JStr s \<Longrightarrow> asked_hash e opts s"
  shows "triple (\<lambda>w. launches w = L) (launch e v h url dps) (\<lambda>_. checked_launch e opts L) (checked_launch e opts L)"
proof -
  let ?C = "checked_launch e opts L"
  have c: "launched e L h w \<Longrightarrow> ?C w" for w
    using assms(2,3) by (fastforce simp: launched_def checked_launch_def)
  have run: "triple (\<lambda>w. launches w = L) (perform_update e v h url dps) (\<lambda>_. ?C) ?C"
    by (rule triple_weaken [OF perform_launched [OF assms(1)]]) (auto intro: c)
  have notl: "triple ?C (installer_not_launched e r) (\<lambda>_. ?C) ?C" for r
    by (auto simp: installer_not_launched_def Let_def mark_update_failed_def triple_pure split: option.split
        intro: triple_and_then [OF save_keeps_launch])
  have fin: "triple ?C (case r of Some x \<Rightarrow> pure x | None \<Rightarrow> and_then served_tier (\<lambda>t. pure (Started v t))) (\<lambda>_. ?C) ?C" for r
    by (auto simp: served_tier_def load_upd_def triple_pure split: option.split intro!: triple_and_then [where Q' = "\<lambda>_. ?C"] triple_look)
  have start: "triple (\<lambda>w. launches w = L) (save_upd e (starting_patch v)) (\<lambda>_ w. launches w = L) ?C"
    by (rule triple_save) (simp_all add: checked_launch_quiet)
  show ?thesis
    unfolding launch_def by (rule triple_and_then [OF start triple_and_then [OF run triple_and_then [OF notl fin]]])
qed

lemma metadata_from_answer:
  "triple (\<lambda>w. launches w = L) (metadata_attempts e url n t) (\<lambda>m w. launches w = L \<and> (\<exists>tr. http_answer e tr url = Inr m)) (\<lambda>w. launches w = L)"
  by (induction n arbitrary: t) (auto simp: triple_def throw_def get_json_def split: sum.splits prod.splits)

lemma fetched_metadata:
  "triple (\<lambda>w. launches w = L) (fetch_agent_metadata e) (\<lambda>m w. launches w = L \<and> (\<exists>tr url. http_answer e tr url = Inr m)) (\<lambda>w. launches w = L)"
  unfolding fetch_agent_metadata_def
  by (rule quiet_then [OF quiet_base_url triple_weaken [OF metadata_from_answer]]) auto

lemma metadata_checked:
  assumes "download_promise e"
  shows "triple (\<lambda>w. launches w = L) (metadata_path e opts) (\<lambda>_. checked_launch e opts L) (checked_launch e opts L)"
  unfolding metadata_path_def
proof (rule triple_and_then)
  let ?C = "checked_launch e opts L"
  show "triple (\<lambda>w. launches w = L) (fetch_agent_metadata e) (\<lambda>m w. launches w = L \<and> (\<exists>tr url. http_answer e tr url = Inr m)) ?C"
    by (rule triple_weaken [OF fetched_metadata]) (auto simp: checked_launch_quiet)
  fix m
  let ?P = "\<lambda>w. launches w = L \<and> (\<exists>tr url. http_answer e tr url = Inr m)"
  have r: "triple ?P (check_result e m) (\<lambda>_. ?P) ?C"
    by (auto simp: check_result_def checked_launch_quiet split: sum.split intro: triple_pure triple_throw)
  have l: "triple ?P load_upd (\<lambda>_. ?P) ?C"
    by (auto simp: load_upd_def intro: triple_look)
  have go: "triple ?P (launch e v (jprop (binary_metadata e m) ''hash'') [] dps) (\<lambda>_. ?C) ?C"
    if "truthy (jprop (binary_metadata e m) ''hash'')" for v dps
  proof (rule triple_imp)
    fix w assume w: "?P w"
    show "triple (\<lambda>w'. w' = w) (launch e v (jprop (binary_metadata e m) ''hash'') [] dps) (\<lambda>_. ?C) ?C"
      by (rule triple_pre [OF launch_checked [OF assms that]]) (use w that in \<open>auto simp: asked_hash_def\<close>)
  qed
  show "triple ?P (and_then (check_result e m) (\<lambda>r. and_then load_upd (\<lambda>s.
       if latest_done s (latest_version r) then pure (Skipped ''latest_already_installed'')
       else if \<not> available r then pure (Skipped (reason_text (check_reason r)))
       else if \<not> truthy (binary_metadata e m) then pure (UpdFailed (''no_compatible_binary_for_'' @ arch e))
       else (let h = jprop (binary_metadata e m) ''hash'' in
         if \<not> truthy h then pure (UpdFailed ''missing_expected_hash'')
         else launch e (if target_version opts \<noteq> [] then target_version opts else latest_version r) h [] (dp_bases opts))))) (\<lambda>_. ?C) ?C"
    by (rule triple_and_then [OF r triple_and_then [OF l]]) (auto simp: Let_def checked_launch_quiet go intro: triple_pure)
qed

lemma quiet_kill_all: "quiet L (kill_all ps)"
proof (induction ps)
  case (Cons p ps)
  have "quiet L (emit (KillPid p))" by (rule triple_emit) simp
  from quiet_then [OF this Cons] show ?case by simp
qed (simp add: quiet_pure)

lemma quiet_or_go_on: "quiet L a \<Longrightarrow> quiet L b \<Longrightarrow> quiet L (or_go_on a b)"
  unfolding or_go_on_def by (rule quiet_then) (simp_all add: quiet_pure split: option.split)

lemma quiet_pending: "quiet L (pending_guard e v)"
proof -
  have "quiet L (reconcile_pending_update e v)"
    by (auto simp: reconcile_pending_update_def load_upd_def mark_update_succeeded_def quiet_pure quiet_look quiet_save intro!: quiet_then)
  then show ?thesis
    by (auto simp: pending_guard_def time_now_def mark_update_failed_def quiet_pure quiet_look quiet_save intro!: quiet_then)
qed

lemma quiet_installer_guard: "quiet L (installer_guard_step e)"
  by (auto simp: installer_guard_step_def find_running_installers_def mark_update_failed_def Let_def quiet_pure quiet_look quiet_save quiet_kill_all
      split: installer_guard.split intro!: quiet_then)

lemma quiet_guards: "quiet L (guards e opts)"
  by (auto simp: guards_def should_check_now_def load_upd_def time_now_def battery_guard_def quiet_pure quiet_look quiet_pending quiet_installer_guard
      split: option.split intro!: quiet_or_go_on quiet_then)

text \<open>C28. 
  C0. No update is launched whose bytes were not checked: an attempt launches one installer at most, and the file it launches has, at that
  moment and byte by byte, a SHA-256 that was asked for, by the payload of the job or by the metadata the control plane gave for this machine;
  on Windows the system was asked for its signature and trusts it. This rests on the promise of the privileged service for the files it
  downloads itself.
\<close>

theorem no_unchecked_update:
  assumes "download_promise e" and "run_update_task e opts w = (r, w')"
  shows "launches w' = launches w
    \<or> (\<exists>p s. launches w' = launches w @ [p] \<and> asked_hash e opts s \<and> has_hash e s p w' \<and> (upd_os e = Some Windows \<longrightarrow> was_trusted e p w'))"
proof -
  let ?L = "launches w"
  let ?C = "checked_launch e opts ?L"
  have g: "triple (\<lambda>w. launches w = ?L) (guards e opts) (\<lambda>_ w. launches w = ?L) ?C"
    by (rule triple_weaken [OF quiet_guards]) (simp_all add: checked_launch_quiet)
  have o: "triple (\<lambda>w. launches w = ?L) (launch e v (JStr (override_hash opts)) u d) (\<lambda>_. ?C) ?C" if "override_hash opts \<noteq> []" for v u d
    by (rule launch_checked [OF assms(1)]) (use that in \<open>simp_all add: asked_hash_def\<close>)
  have f: "triple ?C (and_then (mark_update_failed e m) (\<lambda>_. pure x)) (\<lambda>_. ?C) ?C" for m and x :: update_outcome
    unfolding mark_update_failed_def by (rule triple_and_then [OF save_keeps_launch]) (simp add: triple_pure)
  have "triple (\<lambda>w. launches w = ?L) (run_update_task e opts) (\<lambda>_. ?C) ?C"
    unfolding run_update_task_def attempt_def
    by (rule triple_and_then [OF g])
      (auto simp: checked_launch_quiet o split: option.split intro: triple_pure triple_catching [OF metadata_checked [OF assms(1)] f])
  from tripleD [OF this refl assms(2)] show ?thesis
    by (simp add: checked_launch_def split: sum.splits)
qed

section \<open>When an attempt holds back\<close>

text \<open>The state before: nothing is pending, or what is pending was reached or is stale.\<close>

definition nothing_pending :: "upd_env \<Rightarrow> upd_world \<Rightarrow> bool" where
  "nothing_pending e w \<longleftrightarrow> (let s = load_update_state (state_file w) in
     in_progress s \<longrightarrow> (looks_like_semver (attempted_of s) \<and> compare_semver (current_version e) (attempted_of s) \<ge> 0)
       \<or> clock e (trace w) - last_attempt s \<ge> STALE_MS)"

lemma or_go_on_None:
  "or_go_on a b w = (Inr None, w') \<longleftrightarrow> (\<exists>v. a w = (Inr None, v) \<and> b v = (Inr None, w'))"
  by (auto simp: or_go_on_def and_then_def pure_def split: prod.splits sum.splits option.splits)

lemma save_trace: "save_upd e f w = (r, w') \<Longrightarrow> trace w' = trace w"
  by (auto simp: save_upd_def Let_def split: option.splits)

lemma pending_guard_clear:
  assumes "pending_guard e (current_version e) w = (Inr None, w')"
  shows "trace w' = trace w \<and> nothing_pending e w"
  using assms
  by (auto simp: pending_guard_def reconcile_pending_update_def and_then_def load_upd_def look_def pure_def time_now_def mark_update_succeeded_def
      mark_update_failed_def save_upd_def nothing_pending_def Let_def split: if_splits option.splits)

lemma interval_clear:
  "(if force opts then pure None else and_then (should_check_now e (interval opts)) (\<lambda>b. pure (if b then None else Some x))) w = (Inr None, w') \<Longrightarrow> w' = w"
  by (auto simp: pure_def and_then_def should_check_now_def load_upd_def look_def time_now_def split: if_splits)

lemma guards_clear:
  assumes "guards e opts w = (Inr None, w')"
  shows "upd_os e \<noteq> None" and "known_version (current_version e)" and "nothing_pending e w" and "privileged_operation_in_flight e = None"
    and "battery_blocks_update (normalize_battery (upd_text_of e) (battery_raw e (trace w))) = None"
    and "upd_os e = Some Macos \<Longrightarrow> (case ps_output e (trace w) of None \<Rightarrow> True | Some out \<Rightarrow> our_installers_in out = [])"
    and "trace w' = trace w"
proof -
  show os: "upd_os e \<noteq> None" and v: "known_version (current_version e)"
    using assms by (auto simp: guards_def pure_def split: if_splits)
  have "or_go_on (pending_guard e (current_version e)) (
        (case privileged_operation_in_flight e of
           Some op \<Rightarrow> pure (Some (Skipped (UPDATE_DEFERRED_PREFIX @ op)))
         | None \<Rightarrow>
             or_go_on (if force opts then pure None
                       else and_then (should_check_now e (interval opts)) (\<lambda>b. pure (if b then None else Some (Skipped ''check_interval_not_elapsed''))))
               (or_go_on (battery_guard e) (installer_guard_step e)))) w = (Inr None, w')"
    using assms os v by (simp add: guards_def)
  then obtain w1 where p: "pending_guard e (current_version e) w = (Inr None, w1)"
    and q: "(case privileged_operation_in_flight e of
           Some op \<Rightarrow> pure (Some (Skipped (UPDATE_DEFERRED_PREFIX @ op)))
         | None \<Rightarrow>
             or_go_on (if force opts then pure None
                       else and_then (should_check_now e (interval opts)) (\<lambda>b. pure (if b then None else Some (Skipped ''check_interval_not_elapsed''))))
               (or_go_on (battery_guard e) (installer_guard_step e))) w1 = (Inr None, w')"
    unfolding or_go_on_None by blast
  note clear = pending_guard_clear [OF p]
  show "nothing_pending e w" using clear by simp
  show busy: "privileged_operation_in_flight e = None" using q by (auto simp: pure_def split: option.splits)
  obtain w2 where b: "battery_guard e w1 = (Inr None, w2)" and i: "installer_guard_step e w2 = (Inr None, w')"
    using q unfolding busy by (auto simp: or_go_on_None dest: interval_clear)
  show "battery_blocks_update (normalize_battery (upd_text_of e) (battery_raw e (trace w))) = None"
    using b clear by (auto simp: battery_guard_def look_def split: option.splits)
  have w2: "trace w2 = trace w" using b clear by (simp add: battery_guard_def look_def)
  show "case ps_output e (trace w) of None \<Rightarrow> True | Some out \<Rightarrow> our_installers_in out = []" if "upd_os e = Some Macos"
    using i that w2
    by (auto simp: installer_guard_step_def find_running_installers_def and_then_def look_def pure_def Let_def guard_none
        split: installer_guard.splits option.splits prod.splits sum.splits)
  show "trace w' = trace w"
    using i w2
    by (auto simp: installer_guard_step_def find_running_installers_def and_then_def look_def pure_def Let_def
        split: if_splits installer_guard.splits option.splits prod.splits sum.splits)
qed

text \<open>C29. 
  C0. No installer is launched at a bad moment: an attempt that launches one found no update pending (or a stale one, or one that was
  reached), no privileged operation of another component running, no battery about to run out, and on macOS no installer of its own
  alive.
\<close>

theorem update_yields:
  assumes "run_update_task e opts w = (r, w')" and "launches w' \<noteq> launches w"
  shows "nothing_pending e w \<and> privileged_operation_in_flight e = None
    \<and> battery_blocks_update (normalize_battery (upd_text_of e) (battery_raw e (trace w))) = None
    \<and> (upd_os e = Some Macos \<longrightarrow> (\<forall>out. ps_output e (trace w) = Some out \<longrightarrow> our_installers_in out = []))"
proof -
  obtain g w1 where g: "guards e opts w = (g, w1)" by (cases "guards e opts w")
  have q: "launches w1 = launches w"
    using tripleD [OF quiet_guards refl g] by (simp split: sum.splits)
  have none: "g = Inr None"
  proof (cases g)
    case (Inl t)
    then show ?thesis using assms g q by (auto simp: run_update_task_def and_then_def)
  next
    case (Inr x)
    then show ?thesis using assms g q by (cases x) (auto simp: run_update_task_def and_then_def pure_def)
  qed
  note c = guards_clear [OF g [unfolded none]]
  show ?thesis using c(3-6) by auto
qed

text \<open>
  C0. An update that finds a privileged operation running touches nothing and is told to come again, so that its job is not closed.
\<close>

theorem update_waits_for_privileged_work:
  assumes "upd_os e \<noteq> None" and "known_version (current_version e)" and "\<not> in_progress (load_update_state (state_file w))"
    and "privileged_operation_in_flight e = Some op" and "trim version \<noteq> []"
  shows "job_ack e version url h dps False w = ((1, ''agent_update retry: privileged_operation_in_progress:'' @ op), w)"
proof -
  obtain os where "upd_os e = Some os" using assms(1) by blast
  then have "guards e opts w = (Inr (Some (Skipped (UPDATE_DEFERRED_PREFIX @ op))), w)" for opts
    using assms by (simp add: guards_def or_go_on_def pending_guard_def reconcile_pending_update_def and_then_def load_upd_def look_def pure_def)
  then have "run_update_task e opts w = (Inr (Skipped (UPDATE_DEFERRED_PREFIX @ op)), w)" for opts
    by (simp add: run_update_task_def and_then_def pure_def)
  then show ?thesis
    using assms(5) by (simp add: job_ack_def ack_for_update_outcome_def retry_later_def UPDATE_DEFERRED_PREFIX_def starts_with_def)
qed

section \<open>The interval\<close>

text \<open>An invariant the steps keep: it does not see the trace, nor the files, and no patch of the state breaks it.\<close>

locale upd_invariant =
  fixes minv :: "upd_world \<Rightarrow> bool"
  assumes minv_save: "minv w \<Longrightarrow> minv (w\<lparr>state_file := Some (update_update_state now patch (load_update_state (state_file w)))\<rparr>)"
    and minv_trace: "minv w \<Longrightarrow> minv (w\<lparr>trace := t\<rparr>)"
    and minv_files: "minv w \<Longrightarrow> minv (w\<lparr>files := f\<rparr>)"
begin

abbreviation keeps :: "'a upd \<Rightarrow> bool" where
  "keeps m \<equiv> triple minv m (\<lambda>_. minv) minv"

lemma keeps_then: "keeps m \<Longrightarrow> (\<And>x. keeps (f x)) \<Longrightarrow> keeps (and_then m f)"
  by (rule triple_and_then)

lemma minv_call: "minv w \<Longrightarrow> minv (w\<lparr>trace := t, files := f\<rparr>)"
  using minv_files [OF minv_trace] .

lemma keeps_steps:
  "keeps (pure x)" "keeps (throw t)" "keeps (look g)" "keeps (save_upd e patch)" "keeps (get_json e url)" "keeps (remove_file p)"
  "keeps (get_file e url p)" "keeps (prune_old_downloads e d k)" "keeps (call_priv e c)" "keeps (emit ef)"
  by (auto simp: triple_def pure_def throw_def look_def save_upd_def get_json_def remove_file_def get_file_def prune_old_downloads_def
      call_priv_def emit_def Let_def minv_save minv_trace minv_files minv_call split: option.split sum.split prod.split)

lemma keeps_lower: "keeps (lower_hash h)"
  by (cases h) (simp_all add: lower_hash_def keeps_steps)

lemma keeps_download: "keeps (download_checked e url name h)"
  by (auto simp: download_checked_def sha256_file_def check_hash_def Let_def keeps_steps keeps_lower intro!: keeps_then)

lemma keeps_direct:
  "keeps (download_windows_msi e v h)" "keeps (download_macos_pkg e v h)" "keeps (download_linux_pkg e v h)"
  by (auto simp: download_windows_msi_def download_macos_pkg_def download_linux_pkg_def fetch_download_url_def get_api_base_url_def
      answered_url_def Let_def keeps_steps keeps_download split: option.split intro!: keeps_then)

lemma keeps_dp: "keeps (dp_leg e format h dps)"
proof -
  have "keeps (download_update_via_sources e format s sources)" for s sources
    by (auto simp: download_update_via_sources_def Let_def keeps_steps intro!: keeps_then)
  then have "keeps (catching (download_update_via_sources e format s sources) (\<lambda>_. pure None))" for s sources
    by (rule triple_catching) (rule keeps_steps)
  then show ?thesis
    by (auto simp: dp_leg_def keeps_steps keeps_lower split: option.split prod.split intro!: keeps_then)
qed

lemma keeps_perform: "keeps (perform_update e v h url dps)"
proof -
  have o: "keeps (obtain_file e format h dps url name direct)" if "keeps direct" for format name direct
    using that by (auto simp: obtain_file_def keeps_steps keeps_dp keeps_download split: option.split intro!: keeps_then)
  show ?thesis
    by (auto simp: perform_update_def perform_windows_msi_update_def perform_macos_pkg_update_def perform_linux_update_def Let_def
        verify_windows_update_signature_def run_windows_msi_update_def run_macos_pkg_update_def keeps_steps keeps_direct
        split: option.split platform.split intro!: keeps_then o)
qed

lemma keeps_launch: "keeps (launch e v h url dps)"
  by (auto simp: launch_def installer_not_launched_def served_tier_def load_upd_def mark_update_failed_def Let_def keeps_steps keeps_perform
      split: option.split intro!: keeps_then)

lemma keeps_metadata: "keeps (metadata_path e opts)"
proof -
  have "keeps (metadata_attempts e url n t)" for url n t
    by (induction n arbitrary: t) (auto simp: triple_def throw_def get_json_def minv_trace split: sum.splits prod.splits)
  then show ?thesis
    by (auto simp: metadata_path_def fetch_agent_metadata_def get_api_base_url_def check_result_def load_upd_def Let_def keeps_steps keeps_launch
        split: option.split sum.split intro!: keeps_then)
qed

lemma keeps_guards: "keeps (guards e opts)"
proof -
  have "keeps (kill_all ps)" for ps
    by (induction ps) (auto simp: keeps_steps intro!: keeps_then)
  then show ?thesis
    by (auto simp: guards_def or_go_on_def pending_guard_def reconcile_pending_update_def should_check_now_def load_upd_def time_now_def
        battery_guard_def installer_guard_step_def find_running_installers_def mark_update_succeeded_def mark_update_failed_def Let_def keeps_steps
        split: option.split installer_guard.split intro!: keeps_then)
qed

lemma keeps_run: "keeps (run_update_task e opts)"
proof -
  have "keeps (catching (metadata_path e opts) (\<lambda>t. and_then (mark_update_failed e (describe_error t)) (\<lambda>_. pure (UpdFailed (describe_error t)))))"
    by (rule triple_catching [OF keeps_metadata]) (auto simp: mark_update_failed_def keeps_steps intro!: keeps_then)
  then show ?thesis
    by (auto simp: run_update_task_def attempt_def keeps_steps keeps_guards keeps_launch split: option.split intro!: keeps_then)
qed

end

text \<open>No check was ever recorded.\<close>

definition never_checked :: "upd_world \<Rightarrow> bool" where
  "never_checked w \<longleftrightarrow> last_checked (load_update_state (state_file w)) = None"

interpretation no_check: upd_invariant never_checked
  by unfold_locales (simp_all add: never_checked_def load_update_state_def last_checked_kept)

lemma or_go_on_cong:
  "(\<And>x v. a w = (Inr None, v) \<Longrightarrow> b v = c v) \<Longrightarrow> or_go_on a b w = or_go_on a c w"
  by (auto simp: or_go_on_def and_then_def split: prod.split sum.split option.split)

lemma guards_ignore_interval:
  assumes "never_checked w"
  shows "guards e (opts\<lparr>force := False\<rparr>) w = guards e (opts\<lparr>force := True\<rparr>) w"
proof -
  have p: "never_checked v" if "pending_guard e c w = (Inr None, v)" for c v
    using that assms
    by (auto simp: pending_guard_def reconcile_pending_update_def and_then_def load_upd_def look_def pure_def time_now_def mark_update_succeeded_def
        mark_update_failed_def save_upd_def Let_def never_checked_def last_checked_kept load_update_state_def [of "Some _"]
        split: if_splits option.splits)
  have s: "and_then (should_check_now e i) (\<lambda>b. pure (if b then None else Some x)) v = pure None v" if "never_checked v" for i x v
    using that by (simp add: should_check_now_def and_then_def load_upd_def look_def time_now_def pure_def never_checked_def parse_utc_ms_def)
  have l: "or_go_on a b v = or_go_on c b v" if "a v = c v" for a b c v
    using that by (simp add: or_go_on_def and_then_def)
  have q: "or_go_on (and_then (should_check_now e i) (\<lambda>b. pure (if b then None else Some x))) b v = or_go_on (pure None) b v"
    if "never_checked v" for i x b v
    by (rule l) (rule s [OF that])
  have "(case op of Some y \<Rightarrow> pure (Some (f y))
         | None \<Rightarrow> or_go_on (and_then (should_check_now e i) (\<lambda>b. pure (if b then None else Some x))) b) v
      = (case op of Some y \<Rightarrow> pure (Some (f y)) | None \<Rightarrow> or_go_on (pure None) b) v" if "never_checked v" for op :: "string option" and f i x b v
    using q [OF that] by (cases op) simp_all
  then show ?thesis
    using p by (auto simp: guards_def intro!: or_go_on_cong)
qed


section \<open>A machine\<close>

text \<open>A Debian machine with an hour and a half on its clock; the hash of a text is the text. It asks for metadata and gets the entry given.\<close>

definition sample_update_env :: "jsval \<Rightarrow> dl_event list \<Rightarrow> upd_env" where
  "sample_update_env metadata events =
     \<lparr>upd_os = Some Linux, debian = True, arch = ''x64'', agent_version = ''1.0.0'', base_url = Some ''https://api'', base_dir = ''/var'',
      clock = (\<lambda>_. 5400000), upd_text_of = (\<lambda>_. ''undefined''), sha256_of = (\<lambda>b. b), io_fault = None, locked = (\<lambda>_. False),
      http_answer = (\<lambda>_ url. if starts_with url ''https://api/api/v1/binaries/agent/metadata'' then Inr metadata
                            else Inr (JObj [(''downloadUrl'', JStr ''https://cdn/a'')])),
      http_events = (\<lambda>_ _. events),
      upd_priv = (\<lambda>_ _. Inr (JObj [(''ok'', JObj [(''command'', JStr ''dpkg'')])])), priv_writes = (\<lambda>_ _. []), battery_raw = (\<lambda>_. JUndef),
      ps_output = (\<lambda>_. None), shim_fault = None, schtasks = Some 0, patch_busy = False, remediate_busy = False, software_busy = False, asp_busy = False\<rparr>"

definition sample_metadata :: jsval where
  "sample_metadata = JObj [(''latestVersion'', JStr ''1.2.0''),
     (''files'', JObj [(''deb'', JObj [(''x64'', JObj [(''hash'', JStr ''aa'')])])])]"

definition new_world :: upd_world where
  "new_world = \<lparr>state_file = None, files = (\<lambda>_. None), trace = []\<rparr>"

definition sample_opts :: upd_opts where
  "sample_opts = \<lparr>force = False, interval = six_hours, target_version = [], override_url = [], override_hash = [], dp_bases = []\<rparr>"

definition good_bytes :: "dl_event list" where
  "good_bytes = [Response 200 (Fin 2), Chunk ''aa'', FileFinish True]"


lemma sample_promise: "download_promise (sample_update_env m evs)"
  by (simp add: download_promise_def sample_update_env_def)

lemma sample_launch:
  "launches (snd (run_update_task (sample_update_env sample_metadata good_bytes) sample_opts new_world))
     = [''/var/updates/tracenium-agent-1.2.0-x64.deb'']"
  by code_simp

lemma no_unchecked_update_witness:
  "\<exists>p s. launches (snd (run_update_task (sample_update_env sample_metadata good_bytes) sample_opts new_world)) = [p]
     \<and> has_hash (sample_update_env sample_metadata good_bytes) s p
         (snd (run_update_task (sample_update_env sample_metadata good_bytes) sample_opts new_world))"
proof -
  let ?e = "sample_update_env sample_metadata good_bytes"
  have "launches new_world = []" by (simp add: launches_def new_world_def map_filter_def)
  with no_unchecked_update [OF sample_promise surjective_pairing, of sample_metadata good_bytes sample_opts new_world] sample_launch
  show ?thesis by (auto simp del: launches_simps)
qed

lemma update_yields_witness:
  "nothing_pending (sample_update_env sample_metadata good_bytes) new_world
   \<and> privileged_operation_in_flight (sample_update_env sample_metadata good_bytes) = None"
proof -
  have "launches (snd (run_update_task (sample_update_env sample_metadata good_bytes) sample_opts new_world)) \<noteq> launches new_world"
    unfolding sample_launch by (simp add: launches_def new_world_def map_filter_def)
  from update_yields [OF surjective_pairing this] show ?thesis by blast
qed

lemma update_waits_for_privileged_work_witness:
  "job_ack ((sample_update_env sample_metadata good_bytes)\<lparr>patch_busy := True\<rparr>) ''1.2.0'' [] [] [] False new_world
     = ((1, ''agent_update retry: privileged_operation_in_progress:patch_install''), new_world)"
proof -
  let ?e = "(sample_update_env sample_metadata good_bytes)\<lparr>patch_busy := True\<rparr>"
  have "known_version (current_version ?e)" "trim ''1.2.0'' \<noteq> []" by code_simp+
  moreover have "upd_os ?e \<noteq> None" "\<not> in_progress (load_update_state (state_file new_world))"
    "privileged_operation_in_flight ?e = Some ''patch_install''"
    by (simp_all add: sample_update_env_def new_world_def load_update_state_def no_upd_state_def privileged_operation_in_flight_def)
  ultimately show ?thesis using update_waits_for_privileged_work [of ?e new_world "''patch_install''" "''1.2.0''"] by simp
qed

section \<open>What goes wrong\<close>


text \<open>
  C0. A version that is not the latest cannot be asked for by its number alone: the file of that version is fetched and compared with the
  hash of the latest one, so the update is refused though the bytes are right.
\<close>

theorem pinned_version_is_refused:
  "fst (control_ack (sample_update_env sample_metadata [Response 200 (Fin 2), Chunk ''bb'', FileFinish True]) ''1.1.0'' [] False new_world)
     = Some (2, ''update_failed: update_hash_mismatch'')"
  by code_simp

text \<open>
  C0. A downgrade that did not happen is recorded as a success: when the attempt is looked at again, a running version above the one that was
  attempted counts as having reached it.
\<close>

theorem unfinished_downgrade_is_success:
  assumes "io_fault e = None" and "in_progress (load_update_state (state_file w))" and "attempted_of (load_update_state (state_file w)) = v"
    and "looks_like_semver v" and "compare_semver current v = 1"
  shows "\<exists>s w'. reconcile_pending_update e current w = (Inr s, w') \<and> state_file w' = Some s \<and> success_version s = Some v \<and> upd_status s = Some SuccessS"
proof -
  have "v \<noteq> []" using assms(4) by (auto simp: looks_like_semver_def after_number_def)
  then show ?thesis
    using assms
    by (simp add: reconcile_pending_update_def and_then_def load_upd_def look_def mark_update_succeeded_def save_upd_def Let_def upd_state_defs
        load_update_state_def [of "Some _"])
qed

lemma unfinished_downgrade_is_success_witness:
  "\<exists>s w'. reconcile_pending_update (sample_update_env sample_metadata good_bytes) ''1.2.0''
      (new_world\<lparr>state_file := Some (no_upd_state\<lparr>in_progress := True, attempted_version := Some ''1.1.0''\<rparr>)\<rparr>) = (Inr s, w')
    \<and> success_version s = Some ''1.1.0''"
proof -
  let ?w = "new_world\<lparr>state_file := Some (no_upd_state\<lparr>in_progress := True, attempted_version := Some ''1.1.0''\<rparr>)\<rparr>"
  have "attempted_of (load_update_state (state_file ?w)) = ''1.1.0''" "looks_like_semver ''1.1.0''" "compare_semver ''1.2.0'' ''1.1.0'' = 1"
    by code_simp+
  moreover have "io_fault (sample_update_env sample_metadata good_bytes) = None" "in_progress (load_update_state (state_file ?w))"
    by (simp_all add: sample_update_env_def load_update_state_def)
  ultimately show ?thesis using unfinished_downgrade_is_success [of "sample_update_env sample_metadata good_bytes" ?w "''1.1.0''" "''1.2.0''"] by blast
qed

section \<open>The installer on macOS\<close>

text \<open>What the launched process reports: that it could not be started, its end (code, signal, output), or that its time is up.\<close>

datatype installer_event = SpawnError string | Exited "int option" string string string | StallTimer

definition exit_text :: "int option \<Rightarrow> string \<Rightarrow> string" where
  "exit_text code sig = (case code of Some c \<Rightarrow> show_code c | None \<Rightarrow> if sig = [] then ''unknown'' else sig)"

text \<open>The failure it leaves in the state, if any; \<open>gone\<close>: the process has ended.\<close>

definition installer_failure :: "bool \<Rightarrow> installer_event \<Rightarrow> string option" where
  "installer_failure gone ev = (case ev of
     SpawnError m \<Rightarrow> Some (''installer_spawn_error: '' @ m)
   | Exited code sig out err \<Rightarrow>
       if code = Some 0 then None
       else Some (''installer_exit_'' @ exit_text code sig @ '': '' @ take 300 (if trim err \<noteq> [] then trim err else trim out))
   | StallTimer \<Rightarrow>
       if gone then None
       else Some (''installer_stalled: no progress in '' @ format_elapsed INSTALLER_STALL_SEC @ '' waiting on the macOS package queue (PackageKit); killed''))"

definition installer_event_step :: "upd_env \<Rightarrow> bool \<Rightarrow> installer_event \<Rightarrow> upd_world \<Rightarrow> upd_world" where
  "installer_event_step e gone ev w = (case installer_failure gone ev of
     None \<Rightarrow> w
   | Some m \<Rightarrow> snd (save_upd e (\<lambda>_. [UpdInProgress False, UpdStatus FailedS, UpdError (Some m)]) w))"

text \<open>
  C0. An installer that fails on macOS does not hold the next attempt back: whatever it reports and whatever the state was, once its failure is
  recorded no update is in progress.
\<close>

theorem failed_installer_frees_the_next:
  assumes "io_fault e = None" and "installer_failure gone ev = Some m" and "w' = installer_event_step e gone ev w"
  shows "pending_guard e v w' = (Inr None, w')"
proof -
  have "m \<noteq> []" using assms(2) by (auto simp: installer_failure_def split: installer_event.splits if_splits)
  then have "\<not> in_progress (load_update_state (state_file w'))"
    using assms by (simp add: installer_event_step_def save_upd_def Let_def load_update_state_def [of "Some _"] upd_state_defs)
  then show ?thesis by (simp add: pending_guard_def reconcile_pending_update_def and_then_def load_upd_def look_def pure_def)
qed

lemma failed_installer_frees_the_next_witness:
  "fst (pending_guard (sample_update_env sample_metadata good_bytes) ''1.0.0''
     (installer_event_step (sample_update_env sample_metadata good_bytes) True (Exited (Some 1) [] [] ''disk full'')
       (new_world\<lparr>state_file := Some (no_upd_state\<lparr>in_progress := True\<rparr>)\<rparr>))) = Inr None"
proof -
  have "io_fault (sample_update_env sample_metadata good_bytes) = None"
    "installer_failure True (Exited (Some 1) [] [] ''disk full'') = Some ''installer_exit_1: disk full''"
    by code_simp+
  from failed_installer_frees_the_next [OF this refl] show ?thesis by simp
qed

end
