(* ===== verification/Spec2Isabelle.thy ===== *)
theory Spec2Isabelle
  imports Prelude Jsval Outbox Canonical Policy_Store Gates Pipeline_Plan Scheduler Snapshot_Runs Asp_Predicate Asp_Run Posix_Path Path_Jail File_Session Inventory_Delta Der Transcript Sdp_Decisions Sdp_Install Sdp_Jobs Pmp_State Pmp_Install Pmp_Jobs Json_Wire Pmp_Remediation Pmp_Verify Update_State Update_Service Update_Task
begin

text \<open>
  A verification development for the Tracenium endpoint agent (TypeScript, \<open>src/src/\<close>).

  \<^bold>\<open>The program.\<close> The agent collects what a device is and has, in pipelines that a policy of the control plane arms, and sends what changed
  through a durable queue. The scheduler (\<open>core/scheduler.ts\<close>) runs the pipelines; each run reads the device, asks a gate whether there is
  something to send, and enqueues a snapshot in the outbox (\<open>queue/sqlite-outbox.ts\<close>), from which the transport leases events. Plugins
  answer jobs of the control plane: assessments (ASP), remote access (RCP) and the rest.

  \<^bold>\<open>Theories and code.\<close>
  \<^item> \<open>Prelude\<close>, \<open>Jsval\<close>: strings, ordered maps, sorting, numbers and values of JavaScript; the locales \<open>inv_machine\<close> (a step function with an
    invariant) and the key-value store that the components interpret.
  \<^item> \<open>Outbox\<close>: the queue, one definition per method of \<open>SqliteOutbox\<close>; the table is a list of rows, the clock, the random source, the time
    zone and the compressor are arguments.
  \<^item> \<open>Canonical\<close>: the two canonical texts and hashes (\<open>core/namespace-hash.ts\<close>, \<open>core/policy-store.ts\<close>). \<open>Policy_Store\<close>: loading and saving
    the policy, with every state the file system can be in if the process dies during a save.
  \<^item> \<open>Gates\<close>: \<open>inventory-send-gate.ts\<close>, \<open>compliance-send-gate.ts\<close>, \<open>resume-detector.ts\<close>, \<open>reset-baseline.ts\<close>, \<open>host-match.ts\<close>,
    \<open>startup-sequence.ts\<close> and \<open>update/semver.ts\<close>.
  \<^item> \<open>Pipeline_Plan\<close>, \<open>Scheduler\<close>, \<open>Snapshot_Runs\<close>: \<open>core/pipeline-plan.ts\<close> and \<open>core/scheduler.ts\<close>. The scheduler is a state and one step per
    thing that can happen (a timer fires, a run ends, a policy event, start, stop, the steps of the startup sequence); the bodies of the
    runs are functions of the outbox they write to.
  \<^item> \<open>Asp_Predicate\<close>, \<open>Asp_Run\<close>: the predicate language of assessments and their runs (\<open>plugins/asp/\<close>).
  \<^item> \<open>Posix_Path\<close>, \<open>Path_Jail\<close>, \<open>File_Session\<close>: remote file transfer (\<open>plugins/rcp/path-jail.ts\<close>, \<open>file-session.ts\<close>) over a file system with
    links and a table of descriptors that reuses numbers.
  \<^item> \<open>Inventory_Delta\<close>: the inventories that travel as deltas (\<open>domain/*-inventory-delta.ts\<close>, \<open>domain/*-baseline-repo.ts\<close>, the printer and
    extension pipelines and the software cycle of \<open>plugins/amp/providers/windows.ts\<close>).
  \<^item> \<open>Der\<close>: the DER reader of certificate discovery (\<open>plugins/cdp/der.ts\<close>), with what a DER encoding is and that the reader reads it back.
  \<^item> \<open>Transcript\<close>: the buffer of a recorded terminal session (\<open>plugins/rcp/transcript-buffer.ts\<close>), which refines a log.
  \<^item> \<open>Sdp_Decisions\<close>, \<open>Sdp_Install\<close>, \<open>Sdp_Jobs\<close>: software delivery (\<open>plugins/sdp/\<close>): the decisions, a job from its payload to its
    acknowledgement phase by phase (the privileged service answers as a function of what was done before), and jobs side by side.
  \<^item> \<open>Pmp_State\<close>, \<open>Pmp_Install\<close>, \<open>Pmp_Jobs\<close>: patching (\<open>plugins/pmp/\<close> and the jobs \<open>patch_install\<close> and \<open>device_reboot\<close> of
    \<open>transport/grpc-stream.ts\<close>): the saved state, the choice of patches, the plans of restarts; a job cut where it waits; and jobs, remediations,
    restarts of the agent and of the machine side by side.
  \<^item> \<open>Json_Wire\<close>, \<open>Pmp_Remediation\<close>, \<open>Pmp_Verify\<close>: fixes of security settings (\<open>plugins/pmp/remediation.ts\<close>) one by one and in batches, over a
    privileged service that answers as a function of the calls before; and the verification of a change (\<open>plugins/pmp/verification*.ts\<close>,
    \<open>listeners.ts\<close>), from what the system tools print to the verdict and its text on the wire.
  \<^item> \<open>Update_State\<close>, \<open>Update_Service\<close>, \<open>Update_Task\<close>: the update of the agent itself (\<open>update/\<close> and its two entries in
    \<open>transport/grpc-stream.ts\<close>): the text of what was thrown, the saved state and the gates; steps over a world that may throw, with triples
    for what they leave; and an attempt from its guards to its acknowledgement. A download is a machine over what the streams report. What
    is launched was checked, rests on what the privileged service promises for its own downloads (\<open>download_promise\<close>).

  \<^bold>\<open>What the lemmas show.\<close> Each theory has the invariant of its state with one preservation lemma per operation, the behaviour of every
  operation on every branch, and the properties numbered C1, C2, ... Some properties state what goes wrong (the text before them says
  so): they are proved of the code as it is.

  \<^bold>\<open>Bounds.\<close> The climb of the path jail has as fuel the number of components of the path plus one, each step dropping one component;
  symbolic links are followed at most as often as the argument \<open>hops\<close> says (40 on Linux), as the kernel does. All other recursions are on
  the data.

  \<^bold>\<open>Not modelled.\<close> The services of the operating systems and of third parties (SQLite's failures other than corruption at open, gRPC, WebRTC,
  node-pty, the package managers), the privileged services in C\# and Swift, the generated bundles under \<open>src/build/\<close>, and \<open>path.win32\<close>.
  Characters above U+00FF do not occur in strings. Downloads of the file session run to their end in one step.
\<close>

end
